(* ===== verification/Prelude.thy ===== *)
theory Prelude
  imports Main "HOL-Library.AList" "HOL-Library.Word" "HOL-Library.Multiset"
begin

text \<open>
  Shared notions of the development: the machine types of the C++ code, the
  ordered containers of its standard library (\<open>std::multimap\<close> kept as a list
  sorted by key, \<open>std::set\<close> kept as a strictly sorted list) and the hash maps
  (\<open>std::unordered_map\<close> kept as association lists with distinct keys, in their
  iteration order), together with the lemma collections the component theories use.
\<close>

unbundle bit_operations_syntax

named_theorems container_simps
  \<open>what a container operation of the standard library does to keys, elements and order\<close>

type_synonym u8 = "8 word"
type_synonym u16 = "16 word"
type_synonym u32 = "32 word"
type_synonym u64 = "64 word"

section \<open>\<open>std::multimap\<close>: a list sorted by key\<close>

text \<open>
  \<open>mm_insert k v m\<close> is \<open>std::multimap::insert\<close>: the new entry goes to the upper
  bound of its key, behind every entry with an equal key.
\<close>

fun mm_insert :: "'k::linorder \<Rightarrow> 'v \<Rightarrow> ('k \<times> 'v) list \<Rightarrow> ('k \<times> 'v) list" where
  "mm_insert k v [] = [(k, v)]"
| "mm_insert k v ((k', v') # m) =
     (if k < k' then (k, v) # (k', v') # m else (k', v') # mm_insert k v m)"

definition mm_sorted :: "('k::linorder \<times> 'v) list \<Rightarrow> bool" where
  "mm_sorted m \<longleftrightarrow> sorted (map fst m)"

lemma mset_mm_insert [simp, container_simps]:
  "mset (mm_insert k v m) = add_mset (k, v) (mset m)"
  by (induction k v m rule: mm_insert.induct) auto

lemma set_mm_insert [simp, container_simps]:
  "set (mm_insert k v m) = insert (k, v) (set m)"
  by (induction k v m rule: mm_insert.induct) auto

lemma length_mm_insert [simp, container_simps]:
  "length (mm_insert k v m) = Suc (length m)"
  by (induction k v m rule: mm_insert.induct) auto

lemma mm_sorted_simps [simp, container_simps]:
  "mm_sorted []"
  "mm_sorted (p # m) \<longleftrightarrow> (\<forall>q \<in> set m. fst p \<le> fst q) \<and> mm_sorted m"
  by (auto simp: mm_sorted_def)

lemma mm_sorted_insert [simp, intro]: "mm_sorted m \<Longrightarrow> mm_sorted (mm_insert k v m)"
  by (induction k v m rule: mm_insert.induct) auto

lemma mm_sorted_filter [simp, intro]: "mm_sorted m \<Longrightarrow> mm_sorted (filter P m)"
  by (induction m) auto

lemma mm_sorted_append [container_simps]:
  "mm_sorted (m @ m') \<longleftrightarrow>
     mm_sorted m \<and> mm_sorted m' \<and> (\<forall>p \<in> set m. \<forall>q \<in> set m'. fst p \<le> fst q)"
  by (induction m) auto

text \<open>Inserting a whole range, one entry after the other.\<close>

fun mm_insert_all :: "('k::linorder \<times> 'v) list \<Rightarrow> ('k \<times> 'v) list \<Rightarrow> ('k \<times> 'v) list" where
  "mm_insert_all [] m = m"
| "mm_insert_all ((k, v) # ps) m = mm_insert_all ps (mm_insert k v m)"

lemma mset_mm_insert_all [simp, container_simps]:
  "mset (mm_insert_all ps m) = mset ps + mset m"
  by (induction ps m rule: mm_insert_all.induct) auto

lemma set_mm_insert_all [simp, container_simps]:
  "set (mm_insert_all ps m) = set ps \<union> set m"
  by (induction ps m rule: mm_insert_all.induct) auto

lemma mm_insert_last: "\<forall>p \<in> set m. fst p \<le> k \<Longrightarrow> mm_insert k v m = m @ [(k, v)]"
  by (induction k v m rule: mm_insert.induct) auto

text \<open>A sorted range whose keys are not smaller than those already there is appended.\<close>

lemma mm_insert_all_append:
  "mm_sorted (m @ ps) \<Longrightarrow> mm_insert_all ps m = m @ ps"
  by (induction ps m rule: mm_insert_all.induct)
    (auto simp: mm_sorted_append mm_insert_last)

lemma mm_sorted_insert_all [simp, intro]: "mm_sorted m \<Longrightarrow> mm_sorted (mm_insert_all ps m)"
  by (induction ps m rule: mm_insert_all.induct) auto

section \<open>\<open>std::set\<close>: a strictly sorted list\<close>

text \<open>
  \<open>insert\<close> of a set is \<open>insort_insert\<close> (no effect on an element already there),
  \<open>erase\<close> is \<open>removeAll\<close>, \<open>*begin()\<close> is the head.
\<close>

definition set_ok :: "'a::linorder list \<Rightarrow> bool" where
  "set_ok xs \<longleftrightarrow> sorted xs \<and> distinct xs"

lemma set_ok_Nil [simp, intro]: "set_ok []"
  by (simp add: set_ok_def)

lemma set_ok_insert [simp, intro]: "set_ok xs \<Longrightarrow> set_ok (insort_insert x xs)"
  by (simp add: set_ok_def sorted_insort_insert distinct_insort_insert)

lemma set_ok_remove [simp, intro]: "set_ok xs \<Longrightarrow> set_ok (removeAll x xs)"
  by (auto simp: set_ok_def removeAll_filter_not_eq intro: sorted_filter [where f = id, simplified])

lemma removeAll_insort_insert: "x \<notin> set xs \<Longrightarrow> removeAll x (insort_insert x xs) = xs"
proof -
  assume x: "x \<notin> set xs"
  have "removeAll x (insort x ys) = removeAll x ys" for ys :: "'a list"
    by (induction ys) auto
  with x show ?thesis by (simp add: insort_insert_insort)
qed

lemma hd_set_ok [simp]: "set_ok (x # xs) \<Longrightarrow> set_ok xs"
  by (simp add: set_ok_def)

section \<open>\<open>std::map\<close>: an association list strictly sorted by key\<close>

text \<open>\<open>m[k] = v\<close>; \<open>find\<close> is \<open>map_of\<close> and \<open>erase\<close> a filter.\<close>

fun sm_put :: "'k::linorder \<Rightarrow> 'v \<Rightarrow> ('k \<times> 'v) list \<Rightarrow> ('k \<times> 'v) list" where
  "sm_put k v [] = [(k, v)]"
| "sm_put k v ((k', v') # m) =
     (if k < k' then (k, v) # (k', v') # m
      else if k = k' then (k, v) # m
      else (k', v') # sm_put k v m)"

definition sm_erase :: "'k \<Rightarrow> ('k \<times> 'v) list \<Rightarrow> ('k \<times> 'v) list" where
  "sm_erase k m = filter (\<lambda>p. fst p \<noteq> k) m"

definition sm_ok :: "('k::linorder \<times> 'v) list \<Rightarrow> bool" where
  "sm_ok m \<longleftrightarrow> sorted (map fst m) \<and> distinct (map fst m)"

lemma sm_ok_simps [simp, container_simps]:
  "sm_ok []" "sm_ok ((k, v) # m) \<longleftrightarrow> (\<forall>k' \<in> fst ` set m. k < k') \<and> sm_ok m"
  by (auto simp: sm_ok_def less_le)

lemma keys_sm_put [simp, container_simps]: "fst ` set (sm_put k v m) = insert k (fst ` set m)"
  by (induction k v m rule: sm_put.induct) auto

lemma sm_ok_put [simp, intro]: "sm_ok m \<Longrightarrow> sm_ok (sm_put k v m)"
proof (induction k v m rule: sm_put.induct)
  case (2 k v k' v' m)
  then have "k' \<noteq> k \<Longrightarrow> \<not> k < k' \<Longrightarrow> \<forall>q \<in> fst ` set (sm_put k v m). k' < q" by (auto simp: image_iff)
  with 2 show ?case by (auto simp del: keys_sm_put)
qed simp

lemma map_of_sm_put [simp, container_simps]: "sm_ok m \<Longrightarrow> map_of (sm_put k v m) = (map_of m)(k \<mapsto> v)"
  by (induction k v m rule: sm_put.induct) (auto simp: fun_eq_iff)

lemma sm_put_not_empty [simp]: "sm_put k v m \<noteq> []"
  by (cases "(k, v, m)" rule: sm_put.cases) auto

lemma map_of_sm_erase [simp, container_simps]: "map_of (sm_erase k m) = (map_of m)(k := None)"
  by (induction m) (auto simp: sm_erase_def fun_eq_iff)

lemma keys_sm_erase [simp, container_simps]: "fst ` set (sm_erase k m) = fst ` set m - {k}"
  by (auto simp: sm_erase_def)

lemma sm_ok_erase [simp, intro]: "sm_ok m \<Longrightarrow> sm_ok (sm_erase k m)"
  by (induction m) (auto simp: sm_erase_def)

lemma sm_erase_absent: "map_of m k = None \<Longrightarrow> sm_erase k m = m"
  by (auto simp: sm_erase_def filter_id_conv map_of_eq_None_iff)

section \<open>State machines: reachable states and invariants\<close>

text \<open>
  The states a machine with start states \<open>I\<close> and steps \<open>S\<close> can reach. Every
  component with a state has its operations as such steps; an invariant is proved once
  in the locale \<open>invariant_system\<close> and interpreted on the component's own steps.
\<close>

inductive reach :: "('s \<Rightarrow> bool) \<Rightarrow> ('s \<Rightarrow> 's \<Rightarrow> bool) \<Rightarrow> 's \<Rightarrow> bool" for I S where
  reach_start: "I s \<Longrightarrow> reach I S s"
| reach_step: "reach I S s \<Longrightarrow> S s t \<Longrightarrow> reach I S t"

locale invariant_system =
  fixes I :: "'s \<Rightarrow> bool" and S :: "'s \<Rightarrow> 's \<Rightarrow> bool" and inv :: "'s \<Rightarrow> bool"
  assumes start_inv: "I s \<Longrightarrow> inv s"
    and step_inv: "inv s \<Longrightarrow> S s t \<Longrightarrow> inv t"
begin

lemma reach_inv: "reach I S s \<Longrightarrow> inv s"
  by (induction rule: reach.induct) (auto intro: start_inv step_inv)

lemma run_inv:
  assumes "inv s" and "rtranclp S s t"
  shows "inv t"
  using assms(2,1) by (induction rule: rtranclp_induct) (auto intro: step_inv)

end

end
