(* ===== verification/Base_Encoding.thy ===== *)
theory Base_Encoding
  imports Prelude
begin

text \<open>
  The base-2^n text encodings of \<open>src/common/Encoding\<close>: the generic coder
  \<open>GenericBaseEncoding\<close> of \<open>BaseEncoding.h\<close>, a template over an alphabet, and its
  two instances \<open>Base32.cpp\<close> and \<open>Base64.cpp\<close>. Characters and bytes are both
  \<open>u8\<close>; the counter \<open>bitsLeft\<close> is a natural number, which
  lemma \<open>enc_step_bits\<close> keeps between 1 and 8.
\<close>

section \<open>The template parameter and the generic coder\<close>

text \<open>
  The members of the class \<open>Encoding\<close> that the template uses. \<open>enc_char\<close> is
  \<open>None\<close> where the code's \<open>ASSERT\<close> on the character value fails.
\<close>

record alphabet =
  BITS_PER_CHAR :: nat
  PADDING :: u8
  DECODE_ERROR :: u8
  enc_char :: "u8 \<Rightarrow> u8 option"
  dec_char :: "u8 \<Rightarrow> u8"

definition PAD_TO :: "alphabet \<Rightarrow> nat" where
  "PAD_TO E = lcm 8 (BITS_PER_CHAR E)"

definition EncodedSize :: "alphabet \<Rightarrow> nat \<Rightarrow> nat" where
  "EncodedSize E size0 =
     (let size1 = size0 * 8;
          size2 = (if size1 mod PAD_TO E \<noteq> 0
                   then size1 + (PAD_TO E - size1 mod PAD_TO E) else size1)
      in size2 div BITS_PER_CHAR E)"

definition DecodedSize :: "alphabet \<Rightarrow> nat \<Rightarrow> nat" where
  "DecodedSize E size0 =
     (let size1 = size0 * BITS_PER_CHAR E;
          size2 = (if size1 mod PAD_TO E \<noteq> 0
                   then size1 + (PAD_TO E - size1 mod PAD_TO E) else size1)
      in size2 div 8)"

text \<open>The code's mask \<open>(1 << n) - 1\<close> on a byte.\<close>

definition low_mask :: "nat \<Rightarrow> u8" where
  "low_mask n = push_bit n 1 - 1"

text \<open>
  One round of the first loop of \<open>Encode\<close>: from the current byte \<open>b\<close>, the bytes
  behind it and \<open>bitsLeft\<close>, the character value \<open>thisC\<close>, the input from the
  iterator on and the new \<open>bitsLeft\<close>.
\<close>

definition enc_step :: "nat \<Rightarrow> u8 \<Rightarrow> u8 list \<Rightarrow> nat \<Rightarrow> u8 \<times> u8 list \<times> nat" where
  "enc_step n b rest bitsLeft =
     (if n \<le> bitsLeft then
        let bl = bitsLeft - n;
            thisC = drop_bit bl b AND low_mask n
        in if bl = 0 then (thisC, rest, 8) else (thisC, b # rest, bl)
      else
        let thisC = push_bit (n - bitsLeft) (b AND low_mask bitsLeft);
            bl = bitsLeft + (8 - n)
        in case rest of
             [] \<Rightarrow> (thisC, [], bl)
           | b' # _ \<Rightarrow> (thisC OR drop_bit bl b', rest, bl))"

text \<open>
  The loop itself, which need not end for a \<open>BITS_PER_CHAR\<close> of 0, hence its
  \<open>option\<close>: the characters produced and the final \<open>bitsLeft\<close>.
\<close>

partial_function (option) enc_loop ::
    "alphabet \<Rightarrow> u8 \<Rightarrow> u8 list \<Rightarrow> nat \<Rightarrow> (u8 list \<times> nat) option" where
  "enc_loop E b rest bitsLeft =
     (case enc_step (BITS_PER_CHAR E) b rest bitsLeft of (thisC, rest', bl) \<Rightarrow>
        Option.bind (enc_char E thisC) (\<lambda>ch.
          case rest' of
            [] \<Rightarrow> Some ([ch], bl)
          | b' # rest'' \<Rightarrow>
              Option.bind (enc_loop E b' rest'' bl) (\<lambda>(s, e). Some (ch # s, e))))"

text \<open>How both padding loops move \<open>bitsLeft\<close>.\<close>

definition pad_step :: "nat \<Rightarrow> nat \<Rightarrow> nat" where
  "pad_step n bitsLeft = (if n < bitsLeft then bitsLeft - n else bitsLeft + (8 - n))"

partial_function (option) pad_loop :: "alphabet \<Rightarrow> nat \<Rightarrow> u8 list option" where
  "pad_loop E bitsLeft =
     (if bitsLeft = 8 then Some []
      else Option.bind (pad_loop E (pad_step (BITS_PER_CHAR E) bitsLeft))
             (\<lambda>s. Some (PADDING E # s)))"

definition Encode :: "alphabet \<Rightarrow> u8 list \<Rightarrow> u8 list option" where
  "Encode E data =
     (case data of
        [] \<Rightarrow> Some []
      | b # rest \<Rightarrow>
          Option.bind (enc_loop E b rest 8) (\<lambda>(s, bl).
            Option.bind (pad_loop E bl) (\<lambda>p. Some (s @ p))))"

text \<open>
  One round of the first loop of \<open>Decode\<close> on the decoded character \<open>cur\<close>: the
  bytes it pushes and the new \<open>currentByte\<close> and \<open>bitsLeft\<close>.
\<close>

definition dec_step :: "nat \<Rightarrow> u8 \<Rightarrow> u8 \<Rightarrow> nat \<Rightarrow> u8 list \<times> u8 \<times> nat" where
  "dec_step n cur currentByte bitsLeft =
     (if n < bitsLeft then
        ([], currentByte OR push_bit (bitsLeft - n) cur, bitsLeft - n)
      else
        let k = n - bitsLeft;
            bl = 8 - k
        in ([currentByte OR drop_bit k cur], push_bit bl (cur AND low_mask k), bl))"

text \<open>The loop: \<open>None\<close> is the early error return.\<close>

fun dec_loop ::
    "alphabet \<Rightarrow> u8 list \<Rightarrow> u8 \<Rightarrow> nat \<Rightarrow> (u8 list \<times> u8 list \<times> u8 \<times> nat) option" where
  "dec_loop E [] currentByte bitsLeft = Some ([], [], currentByte, bitsLeft)"
| "dec_loop E (ch # s) currentByte bitsLeft =
     (if ch = PADDING E then Some ([], ch # s, currentByte, bitsLeft)
      else
        let cur = dec_char E ch in
        if cur = DECODE_ERROR E then None
        else case dec_step (BITS_PER_CHAR E) cur currentByte bitsLeft of (out, cb, bl) \<Rightarrow>
          map_option (\<lambda>(v, rest). (out @ v, rest)) (dec_loop E s cb bl))"

fun dec_pad :: "alphabet \<Rightarrow> u8 list \<Rightarrow> nat \<Rightarrow> u8 list" where
  "dec_pad E [] bitsLeft = []"
| "dec_pad E (ch # s) bitsLeft =
     (if ch = PADDING E \<and> bitsLeft \<noteq> 8
      then dec_pad E s (pad_step (BITS_PER_CHAR E) bitsLeft) else ch # s)"

definition Decode :: "alphabet \<Rightarrow> u8 list \<Rightarrow> u8 list option" where
  "Decode E data =
     (if data = [] then Some []
      else case dec_loop E data 0 8 of
        None \<Rightarrow> None
      | Some (v, rest, currentByte, bitsLeft) \<Rightarrow>
          if currentByte \<noteq> 0 then None
          else if dec_pad E rest bitsLeft = [] then Some v else None)"

section \<open>The two alphabets\<close>

definition B32_Encode :: "u8 \<Rightarrow> u8 option" where
  "B32_Encode v =
     (if \<not> v < 0x20 then None
      else if v < 26 then Some (65 + v) else Some (50 + (v - 26)))"

text \<open>The first three tests of the code call \<open>Decode\<close> again on the letter that is meant.\<close>

definition B32_Decode :: "u8 \<Rightarrow> u8" where
  "B32_Decode v0 =
     (let v = (if v0 = 48 then 79 else if v0 = 49 then 108 else if v0 = 56 then 66 else v0)
      in if 65 \<le> v \<and> v \<le> 90 then v - 65
         else if 97 \<le> v \<and> v \<le> 122 then v - 97
         else if 50 \<le> v \<and> v \<le> 55 then (v - 50) + 26
         else 0xff)"

definition B32Impl :: alphabet where
  "B32Impl = \<lparr>BITS_PER_CHAR = 5, PADDING = 61, DECODE_ERROR = 0xff,
     enc_char = B32_Encode, dec_char = B32_Decode\<rparr>"

definition B64_Encode :: "u8 \<Rightarrow> u8 option" where
  "B64_Encode v =
     (if \<not> v < 0x40 then None
      else if v < 26 then Some (65 + v)
      else if v < 52 then Some (97 + (v - 26))
      else if v < 62 then Some (48 + (v - 52))
      else if v = 62 then Some 43
      else Some 47)"

definition B64_Decode :: "u8 \<Rightarrow> u8" where
  "B64_Decode v =
     (if 65 \<le> v \<and> v \<le> 90 then v - 65
      else if 97 \<le> v \<and> v \<le> 122 then (v - 97) + 26
      else if 48 \<le> v \<and> v \<le> 57 then (v - 48) + 52
      else if v = 43 then 62
      else if v = 47 then 63
      else 0xff)"

definition B64Impl :: alphabet where
  "B64Impl = \<lparr>BITS_PER_CHAR = 6, PADDING = 61, DECODE_ERROR = 0xff,
     enc_char = B64_Encode, dec_char = B64_Decode\<rparr>"

definition Base32_Encode :: "u8 list \<Rightarrow> u8 list option" where
  "Base32_Encode data = Encode B32Impl data"

definition Base32_Decode :: "u8 list \<Rightarrow> u8 list option" where
  "Base32_Decode data = Decode B32Impl data"

definition Base64_Encode :: "u8 list \<Rightarrow> u8 list option" where
  "Base64_Encode data = Encode B64Impl data"

definition Base64_Decode :: "u8 list \<Rightarrow> u8 list option" where
  "Base64_Decode data = Decode B64Impl data"

section \<open>One round of the encoder against one round of the decoder\<close>

lemma low_mask_eq_mask: "low_mask n = mask n"
  by (simp add: low_mask_def mask_eq_exp_minus_1 push_bit_of_1)

lemma bit_low_mask: "bit (low_mask n) i \<longleftrightarrow> i < n \<and> i < 8"
  by (auto simp: low_mask_eq_mask bit_simps)

text \<open>\<open>bitsLeft\<close> stays between 1 and 8 (bytes are never shifted out of range).\<close>

lemma enc_step_bits:
  assumes "enc_step n b rest e = (c, rest', e')" "1 \<le> n" "n < 8" "1 \<le> e" "e \<le> 8"
  shows "1 \<le> e' \<and> e' \<le> 8"
  using assms by (auto simp: enc_step_def Let_def split: if_splits list.splits)

text \<open>The assertion of the alphabet's encoder: a character value has \<open>n\<close> bits.\<close>

lemma enc_step_char:
  assumes "enc_step n b rest e = (c, rest', e')" "1 \<le> n" "n < 8" "1 \<le> e" "e \<le> 8"
  shows "c AND low_mask n = c"
proof (rule bit_word_eqI)
  fix i assume "i < LENGTH(8)"
  have len: "j < 8" if "bit x j" for x :: u8 and j
    using bit_imp_le_length [OF that] by simp
  have "i < n" if "bit c i"
    using assms that len [of b "i + e - n"] len [of _ "e + 8 + i - n"] len [of _ "e + 8 - n + i"]
    by (auto simp: enc_step_def Let_def bit_low_mask bit_simps
          split: if_splits list.splits) (arith | fastforce)+
  then show "bit (c AND low_mask n) i = bit c i"
    using \<open>i < LENGTH(8)\<close> by (auto simp: bit_and_iff bit_low_mask)
qed

text \<open>
  The decoder's \<open>currentByte\<close> holds the bits of the encoder's byte \<open>b\<close> above the
  \<open>e\<close> that are still to come.
\<close>

definition sent_bits :: "u8 \<Rightarrow> nat \<Rightarrow> u8" where
  "sent_bits b e = b AND NOT (low_mask e)"

lemma bit_sent_bits: "bit (sent_bits b e) i \<longleftrightarrow> bit b i \<and> e \<le> i"
  by (auto simp: sent_bits_def bit_low_mask bit_simps dest: bit_imp_le_length)

lemma sent_bits_8 [simp]: "sent_bits b 8 = 0"
  by (rule bit_word_eqI) (auto simp: bit_sent_bits)

text \<open>The three ways a round of the encoder ends, and the decoder's answer to each.\<close>

lemma dec_enc_same_byte:
  assumes "n < e" "e \<le> 8"
  shows "enc_step n b rest e = (drop_bit (e - n) b AND low_mask n, b # rest, e - n)"
    and "dec_step n (drop_bit (e - n) b AND low_mask n) (sent_bits b e) e =
           ([], sent_bits b (e - n), e - n)"
proof -
  show "enc_step n b rest e = (drop_bit (e - n) b AND low_mask n, b # rest, e - n)"
    using assms by (simp add: enc_step_def Let_def)
  have "sent_bits b e OR push_bit (e - n) (drop_bit (e - n) b AND low_mask n) = sent_bits b (e - n)"
    using assms
    by (intro bit_word_eqI) (auto simp: bit_sent_bits bit_low_mask bit_simps)
  then show "dec_step n (drop_bit (e - n) b AND low_mask n) (sent_bits b e) e =
           ([], sent_bits b (e - n), e - n)"
    using assms by (simp add: dec_step_def)
qed

lemma dec_enc_last_bits:
  assumes "1 \<le> n" "n \<le> 8"
  shows "enc_step n b rest n = (b AND low_mask n, rest, 8)"
    and "dec_step n (b AND low_mask n) (sent_bits b n) n = ([b], 0, 8)"
proof -
  show "enc_step n b rest n = (b AND low_mask n, rest, 8)"
    using assms by (simp add: enc_step_def Let_def)
  have "sent_bits b n OR (b AND low_mask n) = b"
    by (rule bit_word_eqI) (auto simp: bit_sent_bits bit_low_mask bit_simps)
  moreover have "(b AND low_mask n) AND low_mask 0 = 0"
    by (simp add: low_mask_eq_mask)
  ultimately show "dec_step n (b AND low_mask n) (sent_bits b n) n = ([b], 0, 8)"
    by (simp add: dec_step_def Let_def)
qed

lemma dec_enc_next_byte:
  fixes c :: u8
  assumes "e < n" "n < 8" "1 \<le> e"
    and c: "c = push_bit (n - e) (b AND low_mask e) OR drop_bit (e + (8 - n)) b'"
  shows "dec_step n c (sent_bits b e) e = ([b], sent_bits b' (e + (8 - n)), e + (8 - n))"
proof -
  have "sent_bits b e OR drop_bit (n - e) c = b"
    using assms
    by (intro bit_word_eqI)
      (auto simp: c bit_sent_bits bit_low_mask bit_simps dest: bit_imp_le_length)
  moreover have "push_bit (e + (8 - n)) (c AND low_mask (n - e)) = sent_bits b' (e + (8 - n))"
  proof (rule bit_word_eqI)
    fix i assume i: "i < LENGTH(8)"
    show "bit (push_bit (e + (8 - n)) (c AND low_mask (n - e))) i = bit (sent_bits b' (e + (8 - n))) i"
    proof (cases "e + (8 - n) \<le> i")
      case True
      then obtain j where "i = e + (8 - n) + j" using le_Suc_ex by blast
      with assms i show ?thesis
        by (auto simp: c bit_sent_bits bit_low_mask bit_simps)
    qed (auto simp: bit_sent_bits bit_simps simp del: push_bit_and)
  qed
  moreover have "8 - (n - e) = e + (8 - n)"
    using assms by simp
  ultimately show ?thesis
    using assms by (simp add: dec_step_def Let_def)
qed

lemma enc_step_next_byte:
  assumes "e < n"
  shows "enc_step n b [] e = (push_bit (n - e) (b AND low_mask e), [], e + (8 - n))"
    and "enc_step n b (b' # rest) e =
      (push_bit (n - e) (b AND low_mask e) OR drop_bit (e + (8 - n)) b', b' # rest, e + (8 - n))"
  using assms by (simp_all add: enc_step_def Let_def)

section \<open>Unfolding the two loops\<close>

lemma enc_loop_end:
  assumes "enc_step (BITS_PER_CHAR E) b rest e = (c, [], e')" "enc_char E c = Some ch"
  shows "enc_loop E b rest e = Some ([ch], e')"
  using assms by (simp add: enc_loop.simps)

lemma enc_loop_more:
  assumes "enc_step (BITS_PER_CHAR E) b rest e = (c, b' # r, e')" "enc_char E c = Some ch"
    and "enc_loop E b' r e' = Some (s, e'')"
  shows "enc_loop E b rest e = Some (ch # s, e'')"
  using assms by (simp add: enc_loop.simps [of E b])

lemma dec_loop_more:
  assumes "ch \<noteq> PADDING E" "dec_char E ch = c" "c \<noteq> DECODE_ERROR E"
    and "dec_step (BITS_PER_CHAR E) c cb bl = (out, cb', bl')"
    and "dec_loop E s cb' bl' = Some (v, t, z)"
  shows "dec_loop E (ch # s) cb bl = Some (out @ v, t, z)"
  using assms by simp

lemma dec_loop_stop: "t = [] \<or> hd t = PADDING E \<Longrightarrow> dec_loop E t cb bl = Some ([], t, cb, bl)"
  by (cases t) auto

section \<open>The alphabet's contract and the round trip\<close>

text \<open>
  The encoder's loop returns from byte \<open>b\<close>, input \<open>rest\<close> and count \<open>e\<close>, with a
  count the padding loop can bring back to 8 and as many characters as the bits need;
  the decoder's loop, started where the encoder is, reads the bytes back and stops at
  the end or at the first padding character.
\<close>

definition loops_agree :: "alphabet \<Rightarrow> u8 \<Rightarrow> u8 list \<Rightarrow> nat \<Rightarrow> bool" where
  "loops_agree E b rest e \<longleftrightarrow>
     (\<exists>s e'. enc_loop E b rest e = Some (s, e') \<and>
        e' \<le> 8 \<and> 8 < e' + BITS_PER_CHAR E \<and> gcd (BITS_PER_CHAR E) 8 dvd e' \<and>
        BITS_PER_CHAR E * length s + e' = 8 * length rest + e + 8 \<and>
        (\<forall>t. t = [] \<or> hd t = PADDING E \<longrightarrow>
           dec_loop E (s @ t) (sent_bits b e) e = Some (b # rest, t, 0, e')))"

lemma loops_agreeI:
  assumes "enc_loop E b rest e = Some (s, e')"
    and "e' \<le> 8" "8 < e' + BITS_PER_CHAR E" "gcd (BITS_PER_CHAR E) 8 dvd e'"
    and "BITS_PER_CHAR E * length s + e' = 8 * length rest + e + 8"
    and "\<And>t. t = [] \<or> hd t = PADDING E \<Longrightarrow>
      dec_loop E (s @ t) (sent_bits b e) e = Some (b # rest, t, 0, e')"
  shows "loops_agree E b rest e"
  using assms unfolding loops_agree_def by blast

text \<open>
  The padding loop with a fuel of 8 rounds, which is enough for every count the
  encoder ends with: it is a permutation of the counts that come after 8.
\<close>

fun pad_count :: "nat \<Rightarrow> nat \<Rightarrow> nat \<Rightarrow> nat option" where
  "pad_count n 0 e = None"
| "pad_count n (Suc k) e = (if e = 8 then Some 0 else map_option Suc (pad_count n k (pad_step n e)))"

lemma pad_count_pads:
  assumes "pad_count (BITS_PER_CHAR E) k e = Some m"
  shows "pad_loop E e = Some (replicate m (PADDING E)) \<and>
    dec_pad E (replicate m (PADDING E)) e = []"
  using assms
proof (induction k arbitrary: e m)
  case (Suc k)
  then show ?case by (cases "e = 8") (auto simp: pad_loop.simps [of E e] pad_loop.simps [of E 8])
qed simp

lemma pad_count_table:
  "\<forall>n \<in> set [1..<8]. \<forall>e \<in> set [1..<9]. 8 < e + n \<and> gcd n 8 dvd e \<longrightarrow>
     (case pad_count n 8 e of None \<Rightarrow> False
      | Some m \<Rightarrow> 8 dvd 8 - e + n * m \<and> 8 - e + n * m < lcm 8 n)"
  by code_simp

lemma round_up_unique:
  assumes "0 < (P::nat)" "P dvd q + d" "q < P" "d < P"
  shows "d = (if q = 0 then 0 else P - q)"
proof -
  obtain j where "q + d = P * j" using assms(2) by (auto elim: dvdE)
  moreover from this have "P * j < P * 2" using assms by linarith
  then have "j < 2" by simp
  ultimately show ?thesis using assms by (cases j) auto
qed

text \<open>\<open>EncodedSize\<close> rounds the bit count up to the next multiple of \<open>PAD_TO\<close>.\<close>

lemma encoded_size_unique:
  assumes n: "1 \<le> BITS_PER_CHAR E" and L: "BITS_PER_CHAR E * L = 8 * k + d"
    and d: "8 dvd d" "d < lcm 8 (BITS_PER_CHAR E)"
  shows "L = EncodedSize E k"
proof -
  let ?P = "PAD_TO E"
  have P: "0 < ?P" using n by (simp add: PAD_TO_def lcm_pos_nat)
  have "8 dvd 8 * k + d" using d(1) by (intro dvd_add) auto
  moreover have "BITS_PER_CHAR E dvd 8 * k + d" unfolding L [symmetric] by simp
  ultimately have "?P dvd 8 * k + d"
    unfolding PAD_TO_def by (rule lcm_least)
  then have "?P dvd 8 * k mod ?P + d"
    by (metis dvd_eq_mod_eq_0 mod_add_left_eq)
  moreover have "8 * k mod ?P < ?P" "d < ?P"
    using P d(2) by (simp_all add: PAD_TO_def)
  ultimately have "d = (if 8 * k mod ?P = 0 then 0 else ?P - 8 * k mod ?P)"
    by (rule round_up_unique [OF P])
  then have "(if 8 * k mod ?P \<noteq> 0 then 8 * k + (?P - 8 * k mod ?P) else 8 * k) = BITS_PER_CHAR E * L"
    using L by (auto split: if_splits)
  then have "EncodedSize E k = BITS_PER_CHAR E * L div BITS_PER_CHAR E"
    by (simp add: EncodedSize_def Let_def mult.commute [of k 8])
  then show ?thesis using n by simp
qed

text \<open>
  What \<open>Encode\<close> and \<open>Decode\<close> need of an alphabet: its characters carry between 1
  and 7 bits, the assertion holds for every value of that many bits, the decoder
  inverts the encoder there, and neither the padding character nor the error value
  is ambiguous. Both padding loops return to 8 from every reachable count.
\<close>

locale base_alphabet =
  fixes E :: alphabet
  assumes bits_pos: "1 \<le> BITS_PER_CHAR E"
    and bits_less: "BITS_PER_CHAR E < 8"
    and char_ok: "v AND low_mask (BITS_PER_CHAR E) = v \<Longrightarrow>
      \<exists>ch. enc_char E v = Some ch \<and> ch \<noteq> PADDING E \<and> dec_char E ch = v \<and> v \<noteq> DECODE_ERROR E"
begin

text \<open>One more character: the encoder's round, then the rest of both loops.\<close>

lemma round_more:
  assumes step: "enc_step (BITS_PER_CHAR E) b rest e = (c, b' # r, e')"
    and e: "1 \<le> e" "e \<le> 8"
    and dec: "dec_step (BITS_PER_CHAR E) c (sent_bits b e) e = (out, sent_bits b' e', e')"
    and IH: "loops_agree E b' r e'"
    and out: "out @ b' # r = b # rest"
    and len: "8 * length rest + e = BITS_PER_CHAR E + 8 * length r + e'"
  shows "loops_agree E b rest e"
proof -
  obtain ch where ch: "enc_char E c = Some ch" "ch \<noteq> PADDING E" "dec_char E ch = c"
      "c \<noteq> DECODE_ERROR E"
    using char_ok [OF enc_step_char [OF step bits_pos bits_less e]] by blast
  from IH obtain s e'' where s: "enc_loop E b' r e' = Some (s, e'')"
      "e'' \<le> 8" "8 < e'' + BITS_PER_CHAR E" "gcd (BITS_PER_CHAR E) 8 dvd e''"
      "BITS_PER_CHAR E * length s + e'' = 8 * length r + e' + 8"
    and rd: "\<And>t. t = [] \<or> hd t = PADDING E \<Longrightarrow>
        dec_loop E (s @ t) (sent_bits b' e') e' = Some (b' # r, t, 0, e'')"
    unfolding loops_agree_def by blast
  have "dec_loop E ((ch # s) @ t) (sent_bits b e) e = Some (b # rest, t, 0, e'')"
    if "t = [] \<or> hd t = PADDING E" for t
    using dec_loop_more [OF ch(2,3,4) dec rd [OF that]] out by simp
  note dec = this
  show ?thesis
    by (rule loops_agreeI [OF enc_loop_more [OF step ch(1) s(1)] s(2-4) _ dec]) (use s(5) len in auto)
qed

lemma round_end:
  assumes step: "enc_step (BITS_PER_CHAR E) b [] e = (c, [], e')"
    and e: "1 \<le> e" "e \<le> 8"
    and dec: "dec_step (BITS_PER_CHAR E) c (sent_bits b e) e = ([b], 0, e')"
    and e': "e' \<le> 8" "8 < e' + BITS_PER_CHAR E" "gcd (BITS_PER_CHAR E) 8 dvd e'"
      "BITS_PER_CHAR E + e' = e + 8"
  shows "loops_agree E b [] e"
proof -
  obtain ch where ch: "enc_char E c = Some ch" "ch \<noteq> PADDING E" "dec_char E ch = c"
      "c \<noteq> DECODE_ERROR E"
    using char_ok [OF enc_step_char [OF step bits_pos bits_less e]] by blast
  have "dec_loop E ([ch] @ t) (sent_bits b e) e = Some ([b], t, 0, e')"
    if "t = [] \<or> hd t = PADDING E" for t
    using dec_loop_more [OF ch(2,3,4) dec dec_loop_stop [OF that]] by simp
  note dec = this
  show ?thesis
    by (rule loops_agreeI [OF enc_loop_end [OF step ch(1)] e'(1-3) _ dec]) (use e'(4) in auto)
qed

lemma gcd_step:
  assumes "gcd (BITS_PER_CHAR E) 8 dvd e"
  shows "BITS_PER_CHAR E \<le> e \<Longrightarrow> gcd (BITS_PER_CHAR E) 8 dvd e - BITS_PER_CHAR E"
    and "gcd (BITS_PER_CHAR E) 8 dvd e + (8 - BITS_PER_CHAR E)"
  using assms bits_less by (auto intro!: dvd_add dvd_diff_nat)

lemma enc_dec_loop:
  assumes "1 \<le> e" "e \<le> 8" "gcd (BITS_PER_CHAR E) 8 dvd e"
  shows "loops_agree E b rest e"
  using assms
proof (induction "8 * length rest + e" arbitrary: b rest e rule: less_induct)
  case less
  let ?n = "BITS_PER_CHAR E"
  note n = bits_pos bits_less
  have n8: "?n \<le> 8" using n by simp
  consider "?n < e" | "?n = e" | "e < ?n"
    by (metis linorder_less_linear)
  then show ?case
  proof cases
    case 1
    note same = dec_enc_same_byte [OF 1 less.prems(2)]
    show ?thesis
      by (rule round_more [OF same(1) less.prems(1,2) same(2) less.hyps])
        (use 1 n less.prems in \<open>auto intro: gcd_step\<close>)
  next
    case 2
    note last = dec_enc_last_bits [OF bits_pos n8]
    have e: "e = ?n" using 2 by simp
    show ?thesis
    proof (cases rest)
      case Nil
      show ?thesis unfolding Nil e
        by (rule round_end [OF last(1) bits_pos n8 last(2)]) (use n in auto)
    next
      case (Cons b' r)
      have dec: "dec_step ?n (b AND low_mask ?n) (sent_bits b ?n) ?n = ([b], sent_bits b' 8, 8)"
        using last(2) by simp
      show ?thesis unfolding Cons e
        by (rule round_more [OF last(1) bits_pos n8 dec less.hyps])
          (use Cons e n in auto)
    qed
  next
    case 3
    note next_byte = enc_step_next_byte [OF 3]
    note dec = dec_enc_next_byte [OF 3 bits_less less.prems(1)]
    show ?thesis
    proof (cases rest)
      case Nil
      have "dec_step ?n (push_bit (?n - e) (b AND low_mask e)) (sent_bits b e) e = ([b], 0, e + (8 - ?n))"
        using dec [of _ b 0] by (simp add: sent_bits_def)
      then show ?thesis unfolding Nil
        by (rule round_end [OF next_byte(1) less.prems(1,2)])
          (use 3 n less.prems in \<open>auto intro: gcd_step\<close>)
    next
      case (Cons b' r)
      show ?thesis unfolding Cons
        by (rule round_more [OF next_byte(2) less.prems(1,2) dec [OF refl] less.hyps])
          (use Cons 3 n less.prems in \<open>auto intro: gcd_step\<close>)
    qed
  qed
qed

text \<open>The padding loop of the encoder ends, and the decoder's undoes it.\<close>

lemma pad_loops:
  assumes "8 < e + BITS_PER_CHAR E" "e \<le> 8" "gcd (BITS_PER_CHAR E) 8 dvd e"
  shows "\<exists>p. pad_loop E e = Some p \<and> dec_pad E p e = [] \<and> (p = [] \<or> hd p = PADDING E) \<and>
    8 dvd 8 - e + BITS_PER_CHAR E * length p \<and>
    8 - e + BITS_PER_CHAR E * length p < lcm 8 (BITS_PER_CHAR E)"
proof -
  have "BITS_PER_CHAR E \<in> set [1..<8]" "e \<in> set [1..<9]"
    using assms bits_pos bits_less by auto
  then obtain m where m: "pad_count (BITS_PER_CHAR E) 8 e = Some m"
      "8 dvd 8 - e + BITS_PER_CHAR E * m" "8 - e + BITS_PER_CHAR E * m < lcm 8 (BITS_PER_CHAR E)"
    using pad_count_table assms by (fastforce split: option.splits)
  show ?thesis
    using pad_count_pads [OF m(1)] m(2,3)
    by (intro exI [of _ "replicate m (PADDING E)"]) (cases m; simp)
qed

theorem decode_encode:
  "\<exists>s. Encode E data = Some s \<and> Decode E s = Some data \<and> length s = EncodedSize E (length data)"
proof (cases data)
  case Nil
  then show ?thesis by (simp add: Encode_def Decode_def EncodedSize_def)
next
  case (Cons b rest)
  obtain s e where s: "enc_loop E b rest 8 = Some (s, e)" "e \<le> 8" "8 < e + BITS_PER_CHAR E"
      "gcd (BITS_PER_CHAR E) 8 dvd e" "BITS_PER_CHAR E * length s + e = 8 * length rest + 8 + 8"
    and rd: "\<And>t. t = [] \<or> hd t = PADDING E \<Longrightarrow> dec_loop E (s @ t) 0 8 = Some (b # rest, t, 0, e)"
    using enc_dec_loop [of 8 b rest, unfolded loops_agree_def] by (metis dvd_refl gcd_dvd2 le_refl
        one_le_numeral sent_bits_8)
  obtain p where p: "pad_loop E e = Some p" "dec_pad E p e = []" "p = [] \<or> hd p = PADDING E"
      "8 dvd 8 - e + BITS_PER_CHAR E * length p"
      "8 - e + BITS_PER_CHAR E * length p < lcm 8 (BITS_PER_CHAR E)"
    using pad_loops s by blast
  have "Decode E (s @ p) = Some data"
    using rd [OF p(3)] p(2) Cons by (cases s) (auto simp: Decode_def)
  moreover have "length (s @ p) = EncodedSize E (length data)"
    using s(2,5) p(4,5) Cons bits_pos by (intro encoded_size_unique) (auto simp: algebra_simps)
  moreover have "Encode E data = Some (s @ p)"
    using Cons s(1) p(1) by (simp add: Encode_def)
  ultimately show ?thesis by blast
qed

end

section \<open>The two instances\<close>

lemma low_mask_table:
  assumes "v AND low_mask n = v" "n < 8"
    and "\<forall>k \<in> set [0..<2 ^ n]. P (word_of_nat k)"
  shows "P (v :: u8)"
proof -
  have "take_bit n v = v" using assms(1) by (simp add: low_mask_eq_mask take_bit_eq_mask)
  then have "unat v < 2 ^ n"
    by (metis take_bit_nat_less_exp unsigned_take_bit_eq)
  then have "P (word_of_nat (unat v))" by (intro bspec [OF assms(3)]) simp
  then show ?thesis by simp
qed

interpretation b32: base_alphabet B32Impl
proof unfold_locales
  fix v :: u8
  assume "v AND low_mask (BITS_PER_CHAR B32Impl) = v"
  then have v: "v AND low_mask 5 = v" by (simp add: B32Impl_def)
  have "case B32_Encode v of None \<Rightarrow> False
    | Some ch \<Rightarrow> ch \<noteq> 61 \<and> B32_Decode ch = v \<and> v \<noteq> 0xff"
    by (rule low_mask_table [OF v]) (simp, code_simp)
  then show "\<exists>ch. enc_char B32Impl v = Some ch \<and> ch \<noteq> PADDING B32Impl \<and>
      dec_char B32Impl ch = v \<and> v \<noteq> DECODE_ERROR B32Impl"
    by (auto simp: B32Impl_def split: option.splits)
qed (simp_all add: B32Impl_def)

interpretation b64: base_alphabet B64Impl
proof unfold_locales
  fix v :: u8
  assume "v AND low_mask (BITS_PER_CHAR B64Impl) = v"
  then have v: "v AND low_mask 6 = v" by (simp add: B64Impl_def)
  have "case B64_Encode v of None \<Rightarrow> False
    | Some ch \<Rightarrow> ch \<noteq> 61 \<and> B64_Decode ch = v \<and> v \<noteq> 0xff"
    by (rule low_mask_table [OF v]) (simp, code_simp)
  then show "\<exists>ch. enc_char B64Impl v = Some ch \<and> ch \<noteq> PADDING B64Impl \<and>
      dec_char B64Impl ch = v \<and> v \<noteq> DECODE_ERROR B64Impl"
    by (auto simp: B64Impl_def split: option.splits)
qed (simp_all add: B64Impl_def)

text \<open>
  \<open>Base32::Encode\<close> always returns -- its assertion on the character value never fails and
  both of its loops end -- with a text of the length \<open>EncodedSize\<close> computes, and
  \<open>Base32::Decode\<close> gives the bytes back.
\<close>

theorem base32_roundtrip:
  "\<exists>s. Base32_Encode data = Some s \<and> Base32_Decode s = Some data \<and>
     length s = EncodedSize B32Impl (length data)"
  unfolding Base32_Encode_def Base32_Decode_def by (rule b32.decode_encode)

text \<open>
  C31: \<open>Base64::Encode\<close> always returns -- its assertion on the character value never fails and
  both of its loops end -- with a text of the length \<open>EncodedSize\<close> computes, and
  \<open>Base64::Decode\<close> gives the bytes back.
\<close>

theorem base64_roundtrip:
  "\<exists>s. Base64_Encode data = Some s \<and> Base64_Decode s = Some data \<and>
     length s = EncodedSize B64Impl (length data)"
  unfolding Base64_Encode_def Base64_Decode_def by (rule b64.decode_encode)

end
