(* ===== verification/Event_Map.thy ===== *)
theory Event_Map
  imports Prelude
begin

text \<open>
  The scripted-event timer \<open>EventMap\<close> of \<open>src/common/Utilities/EventMap.h\<close> and
  \<open>EventMap.cpp\<close>. A time point is its nanosecond count and a duration its
  millisecond count, both \<open>int\<close>: the code adds 64-bit counts, and a signed
  overflow there is outside the model. The store \<open>std::multimap<TimePoint, Event>\<close>
  is a list sorted by time (theory \<open>Prelude\<close>).
\<close>

section \<open>State\<close>

record event =
  ev_id :: u16
  ev_groupMask :: u8
  ev_phaseMask :: u8

text \<open>\<open>GroupMask(1u << (index - 1u))\<close> for an index from 1 to 8.\<close>

definition index_bit :: "u8 \<Rightarrow> u8" where
  "index_bit i = push_bit (unat (i - 1)) 1"

definition Event :: "u16 \<Rightarrow> u8 \<Rightarrow> u8 \<Rightarrow> event" where
  "Event eid groupIndex phaseIndex =
     \<lparr>ev_id = eid,
      ev_groupMask = (if groupIndex \<noteq> 0 then index_bit groupIndex else 0),
      ev_phaseMask = (if phaseIndex \<noteq> 0 then index_bit phaseIndex else 0)\<rparr>"

record event_map =
  em_time :: int
  em_phaseMask :: u8
  em_events :: "(int \<times> event) list"
  em_lastEvent :: event

definition TimePoint_min :: int where
  "TimePoint_min = - (2 ^ 63)"

definition Milliseconds_max :: int where
  "Milliseconds_max = 2 ^ 63 - 1"

text \<open>A \<open>TimePoint\<close> plus \<open>Milliseconds\<close>.\<close>

definition plus_ms :: "int \<Rightarrow> int \<Rightarrow> int" where
  "plus_ms t ms = t + 1000000 * ms"

text \<open>\<open>duration_cast\<close> of a nanosecond count to milliseconds truncates towards 0.\<close>

definition cast_ms :: "int \<Rightarrow> int" where
  "cast_ms ns = sgn ns * (\<bar>ns\<bar> div 1000000)"

definition EventMap :: event_map where
  "EventMap = \<lparr>em_time = TimePoint_min, em_phaseMask = 0, em_events = [],
     em_lastEvent = \<lparr>ev_id = 0, ev_groupMask = 0, ev_phaseMask = 0\<rparr>\<rparr>"

section \<open>Operations\<close>

definition Reset :: "event_map \<Rightarrow> event_map" where
  "Reset m = m\<lparr>em_events := [], em_time := TimePoint_min, em_phaseMask := 0\<rparr>"

definition Update :: "int \<Rightarrow> event_map \<Rightarrow> event_map" where
  "Update ms m = m\<lparr>em_time := plus_ms (em_time m) ms\<rparr>"

definition Empty :: "event_map \<Rightarrow> bool" where
  "Empty m \<longleftrightarrow> em_events m = []"

definition SetPhase :: "u8 \<Rightarrow> event_map \<Rightarrow> event_map" where
  "SetPhase phase m =
     (if phase = 0 then m\<lparr>em_phaseMask := 0\<rparr>
      else if phase \<le> 8 then m\<lparr>em_phaseMask := index_bit phase\<rparr>
      else m)"

definition AddPhase :: "u8 \<Rightarrow> event_map \<Rightarrow> event_map" where
  "AddPhase phase m =
     (if phase \<noteq> 0 \<and> phase \<le> 8
      then m\<lparr>em_phaseMask := em_phaseMask m OR index_bit phase\<rparr> else m)"

definition RemovePhase :: "u8 \<Rightarrow> event_map \<Rightarrow> event_map" where
  "RemovePhase phase m =
     (if phase \<noteq> 0 \<and> phase \<le> 8
      then m\<lparr>em_phaseMask := em_phaseMask m AND NOT (index_bit phase)\<rparr> else m)"

definition IsInPhase :: "u8 \<Rightarrow> event_map \<Rightarrow> bool" where
  "IsInPhase phase m \<longleftrightarrow>
     phase \<le> 8 \<and> (phase = 0 \<or> em_phaseMask m AND index_bit phase \<noteq> 0)"

definition ScheduleEvent :: "u16 \<Rightarrow> int \<Rightarrow> u8 \<Rightarrow> u8 \<Rightarrow> event_map \<Rightarrow> event_map" where
  "ScheduleEvent eid time grp phase m =
     (if grp > 8 then m
      else if phase > 8 then m
      else m\<lparr>em_events :=
             mm_insert (plus_ms (em_time m) time) (Event eid grp phase) (em_events m)\<rparr>)"

text \<open>
  \<open>randtime\<close> (\<open>Random.cpp\<close>): \<open>urand d\<close> stands for the generator's answer to
  \<open>urand(0, d)\<close>; a failing \<open>ASSERT\<close> is \<open>None\<close>.
\<close>

definition randtime :: "(int \<Rightarrow> int) \<Rightarrow> int \<Rightarrow> int \<Rightarrow> int option" where
  "randtime urand minTime maxTime =
     (let diff = maxTime - minTime in
      if \<not> 0 \<le> diff then None
      else if \<not> diff \<le> 2 ^ 32 - 1 then None
      else Some (minTime + urand diff))"

definition ScheduleEvent_range ::
    "(int \<Rightarrow> int) \<Rightarrow> u16 \<Rightarrow> int \<Rightarrow> int \<Rightarrow> u8 \<Rightarrow> u8 \<Rightarrow> event_map \<Rightarrow> event_map option" where
  "ScheduleEvent_range urand eid minTime maxTime grp phase m =
     map_option (\<lambda>t. ScheduleEvent eid t grp phase m) (randtime urand minTime maxTime)"

definition CancelEvent :: "u16 \<Rightarrow> event_map \<Rightarrow> event_map" where
  "CancelEvent eid m =
     (if Empty m then m
      else m\<lparr>em_events := filter (\<lambda>(t, e). eid \<noteq> ev_id e) (em_events m)\<rparr>)"

definition CancelEventGroup :: "u8 \<Rightarrow> event_map \<Rightarrow> event_map" where
  "CancelEventGroup grp m =
     (if grp = 0 \<or> grp > 8 \<or> Empty m then m
      else m\<lparr>em_events :=
             filter (\<lambda>(t, e). \<not> ev_groupMask e AND index_bit grp \<noteq> 0) (em_events m)\<rparr>)"

definition RescheduleEvent :: "u16 \<Rightarrow> int \<Rightarrow> u8 \<Rightarrow> u8 \<Rightarrow> event_map \<Rightarrow> event_map" where
  "RescheduleEvent eid time grp phase m = ScheduleEvent eid time grp phase (CancelEvent eid m)"

definition RescheduleEvent_range ::
    "(int \<Rightarrow> int) \<Rightarrow> u16 \<Rightarrow> int \<Rightarrow> int \<Rightarrow> u8 \<Rightarrow> u8 \<Rightarrow> event_map \<Rightarrow> event_map option" where
  "RescheduleEvent_range urand eid minTime maxTime grp phase m =
     map_option (\<lambda>t. RescheduleEvent eid t grp phase m) (randtime urand minTime maxTime)"

definition Repeat :: "int \<Rightarrow> event_map \<Rightarrow> event_map" where
  "Repeat time m =
     m\<lparr>em_events := mm_insert (plus_ms (em_time m) time) (em_lastEvent m) (em_events m)\<rparr>"

definition Repeat_range :: "(int \<Rightarrow> int) \<Rightarrow> int \<Rightarrow> int \<Rightarrow> event_map \<Rightarrow> event_map option" where
  "Repeat_range urand minTime maxTime m =
     map_option (\<lambda>t. Repeat t m) (randtime urand minTime maxTime)"

text \<open>The condition under which \<open>ExecuteEvent\<close> drops an event without executing it.\<close>

definition out_of_phase :: "u8 \<Rightarrow> event \<Rightarrow> bool" where
  "out_of_phase phaseMask e \<longleftrightarrow>
     phaseMask \<noteq> 0 \<and> ev_phaseMask e \<noteq> 0 \<and> \<not> (ev_phaseMask e AND phaseMask \<noteq> 0)"

text \<open>
  The loop of \<open>ExecuteEvent\<close> on the store: the id returned, the event executed (if
  any) and the store left behind.
\<close>

fun execute_loop ::
    "int \<Rightarrow> u8 \<Rightarrow> (int \<times> event) list \<Rightarrow> u16 \<times> event option \<times> (int \<times> event) list" where
  "execute_loop now phaseMask [] = (0, None, [])"
| "execute_loop now phaseMask ((t, e) # evs) =
     (if t > now then (0, None, (t, e) # evs)
      else if out_of_phase phaseMask e then execute_loop now phaseMask evs
      else (ev_id e, Some e, evs))"

definition ExecuteEvent :: "event_map \<Rightarrow> u16 \<times> event_map" where
  "ExecuteEvent m =
     (case execute_loop (em_time m) (em_phaseMask m) (em_events m) of
        (eid, executed, evs) \<Rightarrow>
          (eid, m\<lparr>em_events := evs,
                 em_lastEvent := (case executed of None \<Rightarrow> em_lastEvent m | Some e \<Rightarrow> e)\<rparr>))"

text \<open>
  \<open>DelayEvents\<close> re-inserts every node with the end of the new store as its hint:
  at the end when its key is not smaller than the last one, else at the upper bound.
\<close>

definition DelayEvents :: "int \<Rightarrow> event_map \<Rightarrow> event_map" where
  "DelayEvents delay m =
     (if Empty m then m
      else m\<lparr>em_events :=
             mm_insert_all (map (\<lambda>(t, e). (plus_ms t delay, e)) (em_events m)) []\<rparr>)"

definition DelayEvents_group :: "int \<Rightarrow> u8 \<Rightarrow> event_map \<Rightarrow> event_map" where
  "DelayEvents_group delay grp m =
     (if grp = 0 \<or> grp > 8 \<or> Empty m then m
      else
        let in_group = (\<lambda>(t, e). ev_groupMask e AND index_bit grp \<noteq> 0);
            delayed = mm_insert_all
              (map (\<lambda>(t, e). (plus_ms t delay, e)) (filter in_group (em_events m))) []
        in m\<lparr>em_events :=
             mm_insert_all delayed (filter (\<lambda>p. \<not> in_group p) (em_events m))\<rparr>)"

text \<open>
  The loop of \<open>SetMinimalDelay\<close> over what lies behind the iterator. An event moved to
  \<open>limit\<close> goes behind the iterator, so the loop meets it again and leaves it there.
\<close>

function minimal_delay_loop ::
    "u16 \<Rightarrow> int \<Rightarrow> (int \<times> event) list \<Rightarrow> (int \<times> event) list" where
  "minimal_delay_loop eid limit [] = []"
| "minimal_delay_loop eid limit ((t, e) # evs) =
     (if eid = ev_id e \<and> t < limit
      then minimal_delay_loop eid limit (mm_insert limit e evs)
      else (t, e) # minimal_delay_loop eid limit evs)"
  by pat_completeness auto

definition too_early :: "u16 \<Rightarrow> int \<Rightarrow> (int \<times> event) list \<Rightarrow> nat" where
  "too_early eid limit evs = length (filter (\<lambda>(t, e). eid = ev_id e \<and> t < limit) evs)"

lemma too_early_insert: "too_early eid limit (mm_insert limit e evs) = too_early eid limit evs"
  by (induction limit e evs rule: mm_insert.induct) (auto simp: too_early_def)

termination minimal_delay_loop
  by (relation "measures [\<lambda>(eid, limit, evs). too_early eid limit evs, \<lambda>(eid, limit, evs). length evs]")
    (auto simp: too_early_insert, auto simp: too_early_def)

definition SetMinimalDelay :: "u16 \<Rightarrow> int \<Rightarrow> event_map \<Rightarrow> event_map" where
  "SetMinimalDelay eid delay m =
     (if Empty m then m
      else m\<lparr>em_events :=
             minimal_delay_loop eid (plus_ms (em_time m) delay) (em_events m)\<rparr>)"

fun time_until :: "u16 \<Rightarrow> int \<Rightarrow> (int \<times> event) list \<Rightarrow> int" where
  "time_until eid now [] = Milliseconds_max"
| "time_until eid now ((t, e) # evs) =
     (if eid = ev_id e then cast_ms (t - now) else time_until eid now evs)"

definition GetTimeUntilEvent :: "u16 \<Rightarrow> event_map \<Rightarrow> int" where
  "GetTimeUntilEvent eid m = time_until eid (em_time m) (em_events m)"

definition HasEventScheduled :: "u16 \<Rightarrow> event_map \<Rightarrow> bool" where
  "HasEventScheduled eid m \<longleftrightarrow> GetTimeUntilEvent eid m \<noteq> Milliseconds_max"

text \<open>A call of one of the operations that change the state (a random delay already drawn).\<close>

datatype em_op =
    OpReset
  | OpUpdate int
  | OpSetPhase u8
  | OpAddPhase u8
  | OpRemovePhase u8
  | OpSchedule u16 int u8 u8
  | OpReschedule u16 int u8 u8
  | OpRepeat int
  | OpExecute
  | OpDelay int
  | OpDelayGroup int u8
  | OpMinimalDelay u16 int
  | OpCancel u16
  | OpCancelGroup u8

fun em_step :: "em_op \<Rightarrow> event_map \<Rightarrow> event_map" where
  "em_step OpReset m = Reset m"
| "em_step (OpUpdate t) m = Update t m"
| "em_step (OpSetPhase p) m = SetPhase p m"
| "em_step (OpAddPhase p) m = AddPhase p m"
| "em_step (OpRemovePhase p) m = RemovePhase p m"
| "em_step (OpSchedule i t g p) m = ScheduleEvent i t g p m"
| "em_step (OpReschedule i t g p) m = RescheduleEvent i t g p m"
| "em_step (OpRepeat t) m = Repeat t m"
| "em_step OpExecute m = snd (ExecuteEvent m)"
| "em_step (OpDelay d) m = DelayEvents d m"
| "em_step (OpDelayGroup d g) m = DelayEvents_group d g m"
| "em_step (OpMinimalDelay i d) m = SetMinimalDelay i d m"
| "em_step (OpCancel i) m = CancelEvent i m"
| "em_step (OpCancelGroup g) m = CancelEventGroup g m"

definition em_next :: "event_map \<Rightarrow> event_map \<Rightarrow> bool" where
  "em_next m m' \<longleftrightarrow> (\<exists>oper. m' = em_step oper m)"

abbreviation em_reachable :: "event_map \<Rightarrow> bool" where
  "em_reachable \<equiv> reach ((=) EventMap) em_next"

lemma em_init: "em_reachable EventMap"
  by (rule reach_start) simp

lemma em_more: "em_reachable m \<Longrightarrow> em_reachable (em_step oper m)"
  by (erule reach_step) (auto simp: em_next_def)

section \<open>The invariant of the store\<close>

text \<open>A mask built from one index: no bit, or exactly one.\<close>

definition index_mask :: "u8 \<Rightarrow> bool" where
  "index_mask x \<longleftrightarrow> x = 0 \<or> (\<exists>i. 0 < i \<and> i \<le> 8 \<and> x = index_bit i)"

definition event_ok :: "event \<Rightarrow> bool" where
  "event_ok e \<longleftrightarrow> index_mask (ev_groupMask e) \<and> index_mask (ev_phaseMask e)"

definition em_ok :: "event_map \<Rightarrow> bool" where
  "em_ok m \<longleftrightarrow> mm_sorted (em_events m) \<and> (\<forall>p \<in> set (em_events m). event_ok (snd p)) \<and>
     event_ok (em_lastEvent m)"

lemma em_okI [intro?]:
  assumes "mm_sorted (em_events m)" "\<And>t e. (t, e) \<in> set (em_events m) \<Longrightarrow> event_ok e"
    and "event_ok (em_lastEvent m)"
  shows "em_ok m"
  using assms by (auto simp: em_ok_def)

lemma em_okD:
  assumes "em_ok m"
  shows "mm_sorted (em_events m)" "(t, e) \<in> set (em_events m) \<Longrightarrow> event_ok e"
    and "event_ok (em_lastEvent m)"
  using assms by (auto simp: em_ok_def)

lemma event_ok_Event:
  assumes "g \<le> 8" "p \<le> 8"
  shows "event_ok (Event i g p)"
  using assms by (auto simp: event_ok_def Event_def index_mask_def word_neq_0_conv)

lemma execute_loop_sub:
  assumes "execute_loop now ph evs = (i, x, evs')"
  shows "(\<exists>pre. evs = pre @ evs')" and "x = Some e \<Longrightarrow> (\<exists>t. (t, e) \<in> set evs \<and> t \<le> now)"
  using assms
  by (induction now ph evs rule: execute_loop.induct) (auto split: if_splits; metis append_Cons)+

lemma minimal_delay_sorted:
  "mm_sorted evs \<Longrightarrow> mm_sorted (minimal_delay_loop i limit evs) \<and>
     (\<forall>p \<in> set (minimal_delay_loop i limit evs). \<forall>b. (\<forall>q \<in> set evs. b \<le> fst q) \<longrightarrow> b \<le> fst p)"
proof (induction i limit evs rule: minimal_delay_loop.induct)
  case (2 eid limit t e evs)
  then show ?case by (auto; fastforce)
qed simp

text \<open>The events of \<open>SetMinimalDelay\<close>, as a multiset: each is pushed up to the limit.\<close>

lemma mset_minimal_delay:
  "mset (minimal_delay_loop i limit evs) =
     image_mset (\<lambda>(t, e). (if i = ev_id e \<and> t < limit then limit else t, e)) (mset evs)"
  by (induction i limit evs rule: minimal_delay_loop.induct) auto

lemma set_minimal_delay:
  "set (minimal_delay_loop i limit evs) =
     (\<lambda>(t, e). (if i = ev_id e \<and> t < limit then limit else t, e)) ` set evs"
  using arg_cong [OF mset_minimal_delay, of set_mset] by simp

lemma ExecuteEvent_sub:
  obtains pre where "em_events m = pre @ em_events (snd (ExecuteEvent m))"
    "em_lastEvent (snd (ExecuteEvent m)) \<in> insert (em_lastEvent m) (snd ` set (em_events m))"
proof -
  obtain i x evs where ex: "execute_loop (em_time m) (em_phaseMask m) (em_events m) = (i, x, evs)"
    using prod_cases3 by blast
  from execute_loop_sub(1) [OF ex] obtain pre where "em_events m = pre @ evs" by blast
  with ex execute_loop_sub(2) [OF ex] that show thesis
    by (cases x) (force simp: ExecuteEvent_def)+
qed

lemma ExecuteEvent_ok:
  assumes "em_ok m"
  shows "em_ok (snd (ExecuteEvent m))"
proof -
  obtain pre where pre: "em_events m = pre @ em_events (snd (ExecuteEvent m))"
    "em_lastEvent (snd (ExecuteEvent m)) \<in> insert (em_lastEvent m) (snd ` set (em_events m))"
    by (rule ExecuteEvent_sub)
  have "\<forall>e \<in> insert (em_lastEvent m) (snd ` set (em_events m)). event_ok e"
    using assms by (auto simp: em_ok_def)
  then have "event_ok (em_lastEvent (snd (ExecuteEvent m)))" using pre(2) by (rule bspec)
  with assms pre(1) show ?thesis by (simp add: em_ok_def mm_sorted_append)
qed

lemma em_step_ok:
  assumes "em_ok m"
  shows "em_ok (em_step oper m)"
  using assms
  by (cases oper)
    (auto simp: Reset_def Update_def SetPhase_def AddPhase_def RemovePhase_def ScheduleEvent_def
      RescheduleEvent_def Repeat_def DelayEvents_def DelayEvents_group_def Let_def
      SetMinimalDelay_def CancelEvent_def CancelEventGroup_def
      event_ok_Event set_minimal_delay minimal_delay_sorted ExecuteEvent_ok
      intro!: em_okI dest: em_okD split: if_splits)

interpretation em: invariant_system "(=) EventMap" em_next em_ok
proof unfold_locales
  fix m m' :: event_map
  show "(=) EventMap m \<Longrightarrow> em_ok m"
    by (auto simp: EventMap_def em_ok_def event_ok_def index_mask_def)
  show "em_ok m \<Longrightarrow> em_next m m' \<Longrightarrow> em_ok m'"
    using em_step_ok by (auto simp: em_next_def)
qed

text \<open>
  Every time in the store lies a whole number of milliseconds from the timer, so the
  truncation of \<open>duration_cast\<close> never loses anything.
\<close>

definition em_grain :: "event_map \<Rightarrow> bool" where
  "em_grain m \<longleftrightarrow> (\<forall>p \<in> set (em_events m). 1000000 dvd fst p - em_time m)"

lemma plus_ms_dvd [simp]:
  "1000000 dvd plus_ms t d - u \<longleftrightarrow> 1000000 dvd t - u"
  "1000000 dvd t - plus_ms u d \<longleftrightarrow> 1000000 dvd t - u"
proof -
  have "plus_ms t d - u = (t - u) + 1000000 * d" "t - plus_ms u d = (t - u) - 1000000 * d"
    by (simp_all add: plus_ms_def)
  then show "1000000 dvd plus_ms t d - u \<longleftrightarrow> 1000000 dvd t - u"
    "1000000 dvd t - plus_ms u d \<longleftrightarrow> 1000000 dvd t - u"
    by (simp_all only: dvd_add_left_iff dvd_triv_left dvd_diff_left_iff)
qed

lemma em_step_grain:
  assumes "em_grain m"
  shows "em_grain (em_step oper m)"
proof (cases "oper = OpExecute")
  case True
  obtain pre where "em_events m = pre @ em_events (snd (ExecuteEvent m))"
    by (rule ExecuteEvent_sub)
  moreover have "em_time (snd (ExecuteEvent m)) = em_time m"
    by (simp add: ExecuteEvent_def split: prod.splits)
  ultimately show ?thesis using assms True by (auto simp: em_grain_def)
next
  case False
  with assms show ?thesis
    by (cases oper)
      (auto simp: em_grain_def Reset_def Update_def SetPhase_def AddPhase_def RemovePhase_def
        ScheduleEvent_def RescheduleEvent_def Repeat_def DelayEvents_def DelayEvents_group_def
        Let_def SetMinimalDelay_def CancelEvent_def CancelEventGroup_def set_minimal_delay)
qed

interpretation em_grain: invariant_system "(=) EventMap" em_next em_grain
proof unfold_locales
  fix m m' :: event_map
  show "(=) EventMap m \<Longrightarrow> em_grain m" by (auto simp: EventMap_def em_grain_def)
  show "em_grain m \<Longrightarrow> em_next m m' \<Longrightarrow> em_grain m'"
    using em_step_grain by (auto simp: em_next_def)
qed

section \<open>Phases as a set\<close>

lemma bit_index_bit:
  assumes "0 < i" "i \<le> 8"
  shows "bit (index_bit i) j \<longleftrightarrow> j = unat (i - 1)"
proof -
  have "unat (i - 1) < 8" using assms by unat_arith
  then show ?thesis by (auto simp: index_bit_def bit_simps)
qed

lemma index_bit_neq_0: "0 < i \<Longrightarrow> i \<le> 8 \<Longrightarrow> index_bit i \<noteq> 0"
  using bit_index_bit [of i "unat (i - 1)"] by auto

lemma and_index_bit:
  assumes "0 < i" "i \<le> 8"
  shows "x AND index_bit i \<noteq> 0 \<longleftrightarrow> bit x (unat (i - 1))"
proof -
  have "x AND index_bit i = (if bit x (unat (i - 1)) then index_bit i else 0)"
    by (rule bit_word_eqI) (auto simp: bit_and_iff bit_index_bit assms)
  then show ?thesis using index_bit_neq_0 [OF assms] by auto
qed

lemma index_inj: "unat (i - 1) = unat (j - 1) \<longleftrightarrow> i = (j :: u8)"
  by (metis diff_add_cancel word_eq_iff_unsigned)

definition phases :: "event_map \<Rightarrow> u8 set" where
  "phases m = {p. p \<noteq> 0 \<and> IsInPhase p m}"

lemma mem_phases: "p \<in> phases m \<longleftrightarrow> 0 < p \<and> p \<le> 8 \<and> bit (em_phaseMask m) (unat (p - 1))"
  by (cases "0 < p \<and> p \<le> 8")
    (auto simp: phases_def IsInPhase_def and_index_bit word_neq_0_conv [symmetric])

lemma phases_SetPhase:
  "phases (SetPhase q m) = (if q = 0 then {} else if q \<le> 8 then {q} else phases m)"
  by (auto simp: set_eq_iff mem_phases SetPhase_def bit_index_bit index_inj word_neq_0_conv)

lemma phases_AddPhase:
  "phases (AddPhase q m) = (if q \<noteq> 0 \<and> q \<le> 8 then insert q (phases m) else phases m)"
  by (auto simp: set_eq_iff mem_phases AddPhase_def bit_index_bit index_inj word_neq_0_conv bit_or_iff)

lemma phases_RemovePhase: "phases (RemovePhase q m) = phases m - {q}"
proof (cases "q \<noteq> 0 \<and> q \<le> 8")
  case True
  have "bit (em_phaseMask m AND NOT (index_bit q)) (unat (p - 1)) \<longleftrightarrow>
      bit (em_phaseMask m) (unat (p - 1)) \<and> p \<noteq> q" if "0 < p" "p \<le> 8" for p
    using True that
    by (auto simp: index_inj bit_and_iff bit_not_iff bit_index_bit word_neq_0_conv dest: bit_imp_le_length)
  with True show ?thesis
    by (auto simp: set_eq_iff mem_phases RemovePhase_def)
qed (auto simp: set_eq_iff mem_phases RemovePhase_def word_neq_0_conv)

text \<open>An event without a phase is never dropped; one with a phase only outside that phase.\<close>

lemma out_of_phase_iff:
  assumes "p \<le> 8"
  shows "out_of_phase (em_phaseMask m) (Event i g p) \<longleftrightarrow> p \<noteq> 0 \<and> phases m \<noteq> {} \<and> p \<notin> phases m"
proof (cases "p = 0")
  case False
  have "phases m = {} \<longleftrightarrow> em_phaseMask m = 0"
  proof
    assume none: "phases m = {}"
    have "\<not> bit (em_phaseMask m) j" if "j < 8" for j
    proof -
      have "unat ((word_of_nat j + 1 :: u8) - 1) = j" "0 < (word_of_nat j + 1 :: u8)"
        "(word_of_nat j + 1 :: u8) \<le> 8"
        using that by (simp_all add: unat_of_nat word_less_nat_alt word_le_nat_alt unat_word_ariths)
      with none show ?thesis using mem_phases [of "word_of_nat j + 1" m] by auto
    qed
    then show "em_phaseMask m = 0" by (intro bit_word_eqI) auto
  qed (auto simp: set_eq_iff mem_phases)
  moreover have "index_bit p \<noteq> 0"
    using False assms index_bit_neq_0 [of p] by (simp add: word_neq_0_conv)
  ultimately show ?thesis
    using False assms and_index_bit [of p "em_phaseMask m"]
    by (auto simp: out_of_phase_def Event_def mem_phases word_neq_0_conv and.commute)
qed (simp add: out_of_phase_def Event_def)

section \<open>Executing events\<close>

lemma execute_loop_cases:
  assumes "execute_loop now ph evs = (i, x, evs')"
  obtains (ran) pre t e where "evs = pre @ (t, e) # evs'" "t \<le> now" "\<not> out_of_phase ph e"
      "i = ev_id e" "x = Some e" "\<forall>(t', e') \<in> set pre. t' \<le> now \<and> out_of_phase ph e'"
  | (idle) pre where "evs = pre @ evs'" "i = 0" "x = None"
      "\<forall>(t', e') \<in> set pre. t' \<le> now \<and> out_of_phase ph e'" "evs' = [] \<or> now < fst (hd evs')"
  using assms
proof (induction now ph evs arbitrary: thesis rule: execute_loop.induct)
  case (1 now ph)
  then show ?case by auto
next
  case (2 now ph t e evs)
  show ?case
  proof (cases "t \<le> now \<and> out_of_phase ph e")
    case True
    show ?thesis
    proof (rule "2.IH")
      show "\<not> now < t" "out_of_phase ph e" using True by auto
      show "execute_loop now ph evs = (i, x, evs')" using "2.prems"(3) True by auto
    next
      fix pre u f
      assume "evs = pre @ (u, f) # evs'" "u \<le> now" "\<not> out_of_phase ph f" "i = ev_id f" "x = Some f"
        "\<forall>(t', e') \<in> set pre. t' \<le> now \<and> out_of_phase ph e'"
      with True show thesis by (intro "2.prems"(1) [of "(t, e) # pre" u f]) auto
    next
      fix pre
      assume "evs = pre @ evs'" "i = 0" "x = None"
        "\<forall>(t', e') \<in> set pre. t' \<le> now \<and> out_of_phase ph e'" "evs' = [] \<or> now < fst (hd evs')"
      with True show thesis by (intro "2.prems"(2) [of "(t, e) # pre"]) auto
    qed
  next
    case False
    show ?thesis
    proof (cases "t \<le> now")
      case True
      with False "2.prems"(3) show ?thesis by (intro "2.prems"(1) [of "[]" t e]) auto
    next
      case late: False
      with "2.prems"(3) show ?thesis by (intro "2.prems"(2) [of "[]"]) auto
    qed
  qed
qed

text \<open>Can the event be executed now?\<close>

definition runnable :: "event_map \<Rightarrow> int \<times> event \<Rightarrow> bool" where
  "runnable m p \<longleftrightarrow> fst p \<le> em_time m \<and> \<not> out_of_phase (em_phaseMask m) (snd p)"

lemma ExecuteEvent_spec:
  assumes "em_ok m" "ExecuteEvent m = (i, m')"
  shows "(\<exists>t e. (t, e) \<in> set (em_events m) \<and> runnable m (t, e) \<and> i = ev_id e \<and>
            em_lastEvent m' = e \<and> (\<forall>p \<in> set (em_events m). runnable m p \<longrightarrow> t \<le> fst p) \<and>
            filter (runnable m) (em_events m) = (t, e) # filter (runnable m) (em_events m'))
       \<or> (i = 0 \<and> em_lastEvent m' = em_lastEvent m \<and> filter (runnable m) (em_events m) = [] \<and>
            em_events m' = filter (\<lambda>p. em_time m < fst p) (em_events m))"
proof -
  obtain x evs where ex: "execute_loop (em_time m) (em_phaseMask m) (em_events m) = (i, x, evs)"
    and m': "em_events m' = evs"
      "em_lastEvent m' = (case x of None \<Rightarrow> em_lastEvent m | Some e \<Rightarrow> e)"
    using assms(2) by (auto simp: ExecuteEvent_def split: prod.splits)
  note sorted = em_okD(1) [OF assms(1)]
  from ex show ?thesis
  proof (cases rule: execute_loop_cases)
    case (ran pre t e)
    have pre: "filter (runnable m) pre = []"
      using ran(6) by (auto simp: runnable_def filter_empty_conv)
    have "\<forall>p \<in> set (em_events m). runnable m p \<longrightarrow> t \<le> fst p"
      using ran sorted pre by (auto simp: mm_sorted_append filter_empty_conv)
    with ran m' pre show ?thesis by (intro disjI1 exI [of _ t] exI [of _ e]) (auto simp: runnable_def)
  next
    case (idle pre)
    have pre: "filter (runnable m) pre = []" "filter (\<lambda>p. em_time m < fst p) pre = []"
      using idle(4) by (auto simp: runnable_def filter_empty_conv)
    have "\<forall>p \<in> set evs. em_time m < fst p"
      using idle sorted by (cases evs) (auto simp: mm_sorted_append)
    then have "filter (runnable m) evs = []" "filter (\<lambda>p. em_time m < fst p) evs = evs"
      by (auto simp: runnable_def filter_empty_conv filter_id_conv)
    with idle m' pre show ?thesis by simp
  qed
qed

section \<open>The time until an event\<close>

lemma cast_ms_mult [simp]: "cast_ms (1000000 * d) = d"
  by (simp add: cast_ms_def sgn_mult abs_mult sgn_mult_abs)

lemma cast_ms_mono: "x \<le> y \<Longrightarrow> 1000000 dvd x \<Longrightarrow> 1000000 dvd y \<Longrightarrow> cast_ms x \<le> cast_ms y"
  by (auto elim!: dvdE)

lemma plus_ms_diff [simp]: "plus_ms t d - t = 1000000 * d"
  by (simp add: plus_ms_def)

text \<open>The times at which an event id stands in the store.\<close>

definition event_times :: "u16 \<Rightarrow> event_map \<Rightarrow> int set" where
  "event_times i m = {t. \<exists>e. (t, e) \<in> set (em_events m) \<and> ev_id e = i}"

lemma finite_event_times [simp]: "finite (event_times i m)"
  by (rule finite_subset [of _ "fst ` set (em_events m)"]) (force simp: event_times_def)+

lemma time_until_sorted:
  assumes "mm_sorted evs"
  shows "(\<forall>p \<in> set evs. ev_id (snd p) \<noteq> i) \<and> time_until i now evs = Milliseconds_max \<or>
    (\<exists>t e. (t, e) \<in> set evs \<and> ev_id e = i \<and> time_until i now evs = cast_ms (t - now) \<and>
       (\<forall>p \<in> set evs. ev_id (snd p) = i \<longrightarrow> t \<le> fst p))"
  using assms
proof (induction i now evs rule: time_until.induct)
  case (2 i now t e evs)
  show ?case
  proof (cases "i = ev_id e")
    case True
    with "2.prems" show ?thesis by (intro disjI2 exI [of _ t] exI [of _ e]) auto
  next
    case False
    with "2.prems" "2.IH" show ?thesis by auto
  qed
qed simp

lemma GetTimeUntilEvent_Min:
  assumes "em_ok m"
  shows "GetTimeUntilEvent i m =
    (if event_times i m = {} then Milliseconds_max else cast_ms (Min (event_times i m) - em_time m))"
proof (cases "\<forall>p \<in> set (em_events m). ev_id (snd p) \<noteq> i")
  case True
  then have "event_times i m = {}" by (force simp: event_times_def)
  with True time_until_sorted [OF em_okD(1) [OF assms], of i "em_time m"] show ?thesis
    by (fastforce simp: GetTimeUntilEvent_def)
next
  case False
  then obtain t e where t: "(t, e) \<in> set (em_events m)" "ev_id e = i"
      "GetTimeUntilEvent i m = cast_ms (t - em_time m)"
      "\<forall>p \<in> set (em_events m). ev_id (snd p) = i \<longrightarrow> t \<le> fst p"
    using time_until_sorted [OF em_okD(1) [OF assms], of i "em_time m"]
    by (auto simp: GetTimeUntilEvent_def)
  then have mem: "t \<in> event_times i m" by (auto simp: event_times_def)
  moreover from t(4) have "\<forall>u \<in> event_times i m. t \<le> u" by (auto simp: event_times_def)
  ultimately have "Min (event_times i m) = t" by (intro Min_eqI) auto
  with mem t(3) show ?thesis by auto
qed

lemma event_times_Schedule:
  assumes "g \<le> 8" "p \<le> 8"
  shows "event_times i (ScheduleEvent j d g p m) =
    (if i = j then insert (plus_ms (em_time m) d) (event_times i m) else event_times i m)"
  using assms by (auto simp: event_times_def ScheduleEvent_def Event_def)

lemma event_times_Cancel: "event_times i (CancelEvent j m) = (if i = j then {} else event_times i m)"
  by (auto simp: event_times_def CancelEvent_def Empty_def)

lemma em_time_frame [simp]:
  "em_time (CancelEvent j m) = em_time m"
  "em_time (ScheduleEvent j d g p m) = em_time m"
  "em_time (RescheduleEvent j d g p m) = em_time m"
  "em_time (SetMinimalDelay j d m) = em_time m"
  "em_time (DelayEvents d m) = em_time m"
  by (simp_all add: CancelEvent_def ScheduleEvent_def RescheduleEvent_def SetMinimalDelay_def
      DelayEvents_def)

lemma mm_sorted_delay: "mm_sorted evs \<Longrightarrow> mm_sorted (map (\<lambda>(t, e). (plus_ms t d, e)) evs)"
  by (induction evs) (auto simp: plus_ms_def)

lemma DelayEvents_map:
  assumes "em_ok m"
  shows "em_events (DelayEvents d m) = map (\<lambda>(t, e). (plus_ms t d, e)) (em_events m)"
  using mm_insert_all_append [of "[]", OF _, simplified, OF mm_sorted_delay [OF em_okD(1) [OF assms]]]
  by (simp add: DelayEvents_def Empty_def)

lemma event_times_Delay:
  "em_ok m \<Longrightarrow> event_times i (DelayEvents d m) = (\<lambda>t. plus_ms t d) ` event_times i m"
  by (force simp: event_times_def DelayEvents_map)

lemma event_times_Minimal:
  "event_times i (SetMinimalDelay i d m) =
     (\<lambda>t. max t (plus_ms (em_time m) d)) ` event_times i m"
  by (force simp: event_times_def SetMinimalDelay_def Empty_def set_minimal_delay max_def
      split: if_splits)

section \<open>Draining the timer\<close>

text \<open>The exact store \<open>ExecuteEvent\<close> leaves.\<close>

lemma ExecuteEvent_exact:
  assumes "em_ok m" "ExecuteEvent m = (i, m')"
  shows "(\<exists>dropped t e.
            em_events m = dropped @ (t, e) # em_events m' \<and>
            (\<forall>p \<in> set dropped. fst p \<le> em_time m \<and> out_of_phase (em_phaseMask m) (snd p)) \<and>
            runnable m (t, e) \<and> (\<forall>p \<in> set (em_events m). runnable m p \<longrightarrow> t \<le> fst p) \<and>
            i = ev_id e \<and> em_lastEvent m' = e)
       \<or> (i = 0 \<and> em_lastEvent m' = em_lastEvent m \<and> filter (runnable m) (em_events m) = [] \<and>
            em_events m' = filter (\<lambda>p. em_time m < fst p) (em_events m))"
proof -
  obtain x evs where ex: "execute_loop (em_time m) (em_phaseMask m) (em_events m) = (i, x, evs)"
    and m': "em_events m' = evs" "em_lastEvent m' = (case x of None \<Rightarrow> em_lastEvent m | Some e \<Rightarrow> e)"
    using assms(2) by (auto simp: ExecuteEvent_def split: prod.splits)
  from ex show ?thesis
  proof (cases rule: execute_loop_cases)
    case (ran pre t e)
    have pre: "\<not> runnable m p" if "p \<in> set pre" for p
      using that ran(6) by (auto simp: runnable_def)
    have "\<forall>p \<in> set (em_events m). runnable m p \<longrightarrow> t \<le> fst p"
      using ran(1) em_okD(1) [OF assms(1)] pre by (auto simp: mm_sorted_append)
    with ran m' show ?thesis
      by (intro disjI1 exI [of _ pre] exI [of _ t] exI [of _ e]) (auto simp: runnable_def)
  next
    case (idle pre)
    have "filter (runnable m) evs = []" "filter (\<lambda>p. em_time m < fst p) evs = evs"
    proof -
      have "\<forall>p \<in> set evs. em_time m < fst p"
        using idle em_okD(1) [OF assms(1)] by (cases evs) (auto simp: mm_sorted_append)
      then show "filter (runnable m) evs = []" "filter (\<lambda>p. em_time m < fst p) evs = evs"
        by (auto simp: runnable_def filter_empty_conv filter_id_conv)
    qed
    moreover have "filter (runnable m) pre = []" "filter (\<lambda>p. em_time m < fst p) pre = []"
      using idle(4) by (auto simp: runnable_def filter_empty_conv)
    ultimately show ?thesis using idle m' by simp
  qed
qed

text \<open>
  The loop of every script, \<open>while (uint32 eventId = events.ExecuteEvent())\<close>, with an
  empty body, its length bounded by the fuel: the ids it hands out.
\<close>

fun drain :: "nat \<Rightarrow> event_map \<Rightarrow> u16 list" where
  "drain 0 m = []"
| "drain (Suc n) m = (case ExecuteEvent m of (i, m') \<Rightarrow> if i = 0 then [] else i # drain n m')"

lemma ExecuteEvent_frame:
  assumes "ExecuteEvent m = (i, m')"
  shows "em_time m' = em_time m" "em_phaseMask m' = em_phaseMask m"
  using assms by (auto simp: ExecuteEvent_def split: prod.splits)

lemma drain_filter:
  assumes "em_ok m" "\<forall>p \<in> set (em_events m). ev_id (snd p) \<noteq> 0"
    and "length (em_events m) < n"
  shows "drain n m = map (ev_id \<circ> snd) (filter (runnable m) (em_events m))"
  using assms
proof (induction n arbitrary: m)
  case (Suc n)
  obtain i m' where ex: "ExecuteEvent m = (i, m')" by fastforce
  have ok: "em_ok m'" using ExecuteEvent_ok [OF Suc.prems(1)] ex by simp
  have run: "runnable m' = runnable m"
    using ExecuteEvent_frame [OF ex] by (simp add: runnable_def fun_eq_iff)
  obtain pre where pre: "em_events m = pre @ em_events m'"
    using ExecuteEvent_sub [of m] ex by auto
  from ExecuteEvent_spec [OF Suc.prems(1) ex] show ?case
  proof (elim disjE exE conjE)
    fix t e
    assume te: "(t, e) \<in> set (em_events m)" "i = ev_id e"
      "filter (runnable m) (em_events m) = (t, e) # filter (runnable m) (em_events m')"
    then have "length (em_events m') < length (em_events m)"
      using pre by (metis length_append length_greater_0_conv less_add_same_cancel2 append_Nil
          not_Cons_self2)
    then have "drain n m' = map (ev_id \<circ> snd) (filter (runnable m') (em_events m'))"
      using Suc.prems pre ok by (intro Suc.IH) (auto simp: neq_Nil_conv)
    with te Suc.prems(2) ex run show ?case by auto
  qed (simp add: ex)
qed simp

section \<open>Properties\<close>

definition em_example :: event_map where
  "em_example = foldr em_step
     [OpUpdate 10, OpSetPhase 2, OpSchedule 9 20 0 0, OpSchedule 7 5 1 2, OpSchedule 8 3 0 1] EventMap"

lemma em_reachable_example: "em_reachable em_example"
  by (simp add: em_example_def em_init em_more del: em_step.simps)

text \<open>
  C16: in every state the operations can reach, \<open>ExecuteEvent\<close> returns the earliest event
  that is due and not out of phase and remembers it for \<open>Repeat\<close>. The new store is exactly
  what lay behind that event: gone are it and the events before it, which were due and out
  of phase, and nothing else. When there is no such event it returns 0 and leaves exactly
  the events that are not due yet. The clock and the phases stay.
\<close>

theorem execute_event_correct:
  assumes "em_reachable m" and "ExecuteEvent m = (i, m')"
  shows "((\<exists>dropped t e.
            em_events m = dropped @ (t, e) # em_events m' \<and>
            (\<forall>p \<in> set dropped. fst p \<le> em_time m \<and> out_of_phase (em_phaseMask m) (snd p)) \<and>
            runnable m (t, e) \<and> (\<forall>p \<in> set (em_events m). runnable m p \<longrightarrow> t \<le> fst p) \<and>
            i = ev_id e \<and> em_lastEvent m' = e)
       \<or> (i = 0 \<and> em_lastEvent m' = em_lastEvent m \<and> filter (runnable m) (em_events m) = [] \<and>
            em_events m' = filter (\<lambda>p. em_time m < fst p) (em_events m)))
     \<and> em_time m' = em_time m \<and> em_phaseMask m' = em_phaseMask m"
  using ExecuteEvent_exact [OF em.reach_inv [OF assms(1)] assms(2)] ExecuteEvent_frame [OF assms(2)] by blast

theorem execute_event_correct_witness:
  "\<exists>t e. (t, e) \<in> set (em_events em_example) \<and> runnable em_example (t, e) \<and> ev_id e = 7"
proof -
  have "ExecuteEvent em_example = (7, snd (ExecuteEvent em_example))"
    by code_simp
  from execute_event_correct [OF em_reachable_example this]
  have "\<exists>dropped t e. em_events em_example = dropped @ (t, e) # em_events (snd (ExecuteEvent em_example))
      \<and> runnable em_example (t, e) \<and> ev_id e = 7" by auto
  then show ?thesis by (metis in_set_conv_decomp)
qed

text \<open>
  C40: a script's loop over \<open>ExecuteEvent\<close> hands out every event that is due and in
  phase, once each and in the order of their times, within one call more than there are
  events, provided no event has the id 0 (which the loop takes for ``none'').
\<close>

theorem drain_executes_all:
  assumes "em_reachable m" and "\<forall>p \<in> set (em_events m). ev_id (snd p) \<noteq> 0"
    and "length (em_events m) < n"
  shows "drain n m = map (ev_id \<circ> snd) (filter (runnable m) (em_events m)) \<and>
    sorted (map fst (filter (runnable m) (em_events m)))"
  using drain_filter [OF em.reach_inv [OF assms(1)] assms(2,3)]
    mm_sorted_filter [OF em_okD(1) [OF em.reach_inv [OF assms(1)]]]
  by (simp add: mm_sorted_def)

theorem drain_executes_all_witness: "drain 4 em_example = [7]"
proof -
  have "\<forall>p \<in> set (em_events em_example). ev_id (snd p) \<noteq> 0" "length (em_events em_example) < 4"
    by code_simp+
  from drain_executes_all [OF em_reachable_example this]
  have "drain 4 em_example = map (ev_id \<circ> snd) (filter (runnable em_example) (em_events em_example))"
    by simp
  also have "\<dots> = [7]" by code_simp
  finally show ?thesis .
qed

text \<open>
  \<open>GetTimeUntilEvent\<close> and the operations that set times fit together: after
  \<open>RescheduleEvent\<close> an event is exactly the given delay away, \<open>DelayEvents\<close> moves a
  scheduled event by the delay, and \<open>SetMinimalDelay\<close> pushes it up to the minimum and
  no further.
\<close>

theorem time_until_event_correct:
  assumes "em_reachable m" and "event_times i m \<noteq> {}" and "g \<le> 8" and "p \<le> 8"
  shows "GetTimeUntilEvent i (RescheduleEvent i d g p m) = d \<and>
    GetTimeUntilEvent i (DelayEvents d m) = GetTimeUntilEvent i m + d \<and>
    GetTimeUntilEvent i (SetMinimalDelay i d m) = max (GetTimeUntilEvent i m) d"
proof (intro conjI)
  note ok = em.reach_inv [OF assms(1)] and grain = em_grain.reach_inv [OF assms(1)]
  have steps: "em_ok (RescheduleEvent i d g p m)" "em_ok (DelayEvents d m)" "em_ok (SetMinimalDelay i d m)"
    using em_step_ok [OF ok, of "OpReschedule i d g p"] em_step_ok [OF ok, of "OpDelay d"]
      em_step_ok [OF ok, of "OpMinimalDelay i d"] by simp_all
  let ?T = "event_times i m"
  have "Min ?T \<in> ?T" using assms(2) by simp
  then have "1000000 dvd Min ?T - em_time m"
    using grain by (force simp: event_times_def em_grain_def)
  then obtain k where k: "Min ?T = plus_ms (em_time m) k"
    by (auto simp: plus_ms_def algebra_simps elim!: dvdE)
  show "GetTimeUntilEvent i (RescheduleEvent i d g p m) = d"
    using assms(3,4) by (simp add: GetTimeUntilEvent_Min [OF steps(1)])
      (simp add: RescheduleEvent_def event_times_Schedule event_times_Cancel)
  have "Min ((\<lambda>t. plus_ms t d) ` ?T) = plus_ms (Min ?T) d"
    using assms(2) by (intro mono_Min_commute [symmetric]) (auto simp: plus_ms_def mono_def)
  moreover have "plus_ms (plus_ms (em_time m) k) d - em_time m = 1000000 * (k + d)"
    by (simp add: plus_ms_def algebra_simps)
  moreover have "cast_ms (1000000 * k + 1000000 * d) = k + d"
    using cast_ms_mult [of "k + d"] by (simp add: distrib_left)
  ultimately show "GetTimeUntilEvent i (DelayEvents d m) = GetTimeUntilEvent i m + d"
    using assms(2) k by (simp add: GetTimeUntilEvent_Min [OF steps(2)] GetTimeUntilEvent_Min [OF ok]
        event_times_Delay [OF ok])
  have "Min ((\<lambda>t. max t (plus_ms (em_time m) d)) ` ?T) = max (Min ?T) (plus_ms (em_time m) d)"
    using assms(2) by (intro mono_Min_commute [symmetric]) (auto simp: mono_def)
  moreover have "max (plus_ms (em_time m) k) (plus_ms (em_time m) d) = plus_ms (em_time m) (max k d)"
    by (simp add: plus_ms_def max_def)
  ultimately show "GetTimeUntilEvent i (SetMinimalDelay i d m) = max (GetTimeUntilEvent i m) d"
    using assms(2) k by (simp add: GetTimeUntilEvent_Min [OF steps(3)] GetTimeUntilEvent_Min [OF ok]
        event_times_Minimal)
qed

theorem time_until_event_correct_witness:
  "GetTimeUntilEvent 9 em_example = 20 - 10 \<and>
   GetTimeUntilEvent 9 (SetMinimalDelay 9 15 em_example) = 15"
proof -
  have "event_times 9 em_example \<noteq> {}"
    by (simp add: event_times_def) (rule exI [of _ "plus_ms TimePoint_min 20"], rule exI [of _ "Event 9 0 0"], code_simp)
  from time_until_event_correct [OF em_reachable_example this, of 0 0 15]
  have "GetTimeUntilEvent 9 (SetMinimalDelay 9 15 em_example) = max (GetTimeUntilEvent 9 em_example) 15"
    by simp
  moreover have "GetTimeUntilEvent 9 em_example = 10" by code_simp
  ultimately show ?thesis by simp
qed

text \<open>
  The phase mask is a set of phases from 1 to 8: \<open>SetPhase\<close>, \<open>AddPhase\<close> and
  \<open>RemovePhase\<close> are assignment, insertion and removal (phases beyond 8 change nothing),
  and an event scheduled for a phase is dropped exactly when some phase is active and its
  own is not.
\<close>

theorem phases_refine_set:
  "phases (SetPhase q m) = (if q = 0 then {} else if q \<le> 8 then {q} else phases m) \<and>
   phases (AddPhase q m) = (if q \<noteq> 0 \<and> q \<le> 8 then insert q (phases m) else phases m) \<and>
   phases (RemovePhase q m) = phases m - {q} \<and>
   (if p \<le> 8 then out_of_phase (em_phaseMask m) (Event i g p) =
     (p \<noteq> 0 \<and> phases m \<noteq> {} \<and> p \<notin> phases m) else True)"
  by (simp add: phases_SetPhase phases_AddPhase phases_RemovePhase out_of_phase_iff)

end
