(* ===== verification/RBAC.thy ===== *)
theory RBAC
  imports Prelude
begin

text \<open>
  Role based access control of accounts: the permission table of
  \<open>AccountMgr::LoadRBAC\<close> (\<open>src/server/game/Accounts/AccountMgr.cpp\<close>) and the
  permission sets of one account, \<open>RBACData\<close> (\<open>RBAC.h\<close>, \<open>RBAC.cpp\<close>). A
  \<open>std::set<uint32>\<close> is a strictly sorted list of numbers; rows the code reads from the
  database are arguments, and statements it executes on it are part of the result.
\<close>

section \<open>The permission table\<close>

type_synonym perm_set = "nat list"

text \<open>
  \<open>AccountMgr::_permissions\<close> (a permission's linked permissions under its id; ids and
  names that only appear in messages are left out) and \<open>_defaultPermissions\<close>.
\<close>

record rbac_table =
  permissions :: "(nat \<times> perm_set) list"
  defaultPermissions :: "(nat \<times> perm_set) list"

definition ClearRBAC :: rbac_table where
  "ClearRBAC = \<lparr>permissions = [], defaultPermissions = []\<rparr>"

definition GetRBACPermission :: "rbac_table \<Rightarrow> nat \<Rightarrow> perm_set option" where
  "GetRBACPermission T permissionId = map_of (permissions T) permissionId"

definition GetRBACDefaultPermissions :: "rbac_table \<Rightarrow> nat \<Rightarrow> perm_set" where
  "GetRBACDefaultPermissions T secLevel =
     (case map_of (defaultPermissions T) secLevel of None \<Rightarrow> [] | Some ps \<Rightarrow> ps)"

text \<open>
  The three loops of \<open>LoadRBAC\<close> over the rows of its queries. \<open>None\<close> is the call on
  the null pointer that \<open>_permissions[newId]\<close> creates for an id without a definition
  (or on the initial null pointer, for a first row with id 0).
\<close>

fun load_permissions :: "nat list \<Rightarrow> (nat \<times> perm_set) list \<Rightarrow> (nat \<times> perm_set) list" where
  "load_permissions [] ps = ps"
| "load_permissions (i # rows) ps = load_permissions rows (AList.update i [] ps)"

fun load_links ::
    "(nat \<times> nat) list \<Rightarrow> nat \<Rightarrow> nat option \<Rightarrow> (nat \<times> perm_set) list \<Rightarrow>
     (nat \<times> perm_set) list option" where
  "load_links [] permissionId perm ps = Some ps"
| "load_links ((newId, linkedId) # rows) permissionId perm ps =
     (let perm' = (if permissionId \<noteq> newId
                   then (if map_of ps newId = None then None else Some newId) else perm)
      in if linkedId = newId then load_links rows newId perm' ps
         else case perm' of
           None \<Rightarrow> None
         | Some i \<Rightarrow> load_links rows newId perm'
             (AList.map_entry i (insort_insert linkedId) ps))"

fun load_defaults ::
    "(nat \<times> nat) list \<Rightarrow> (nat \<times> perm_set) list \<Rightarrow> (nat \<times> perm_set) list" where
  "load_defaults [] ds = ds"
| "load_defaults ((newId, p) # rows) ds =
     (let sec = newId mod 256;
          old = (case map_of ds sec of None \<Rightarrow> [] | Some ps \<Rightarrow> ps)
      in load_defaults rows (AList.update sec (insort_insert p old) ds))"

definition LoadRBAC ::
    "nat list \<Rightarrow> (nat \<times> nat) list \<Rightarrow> (nat \<times> nat) list \<Rightarrow> rbac_table option" where
  "LoadRBAC permRows linkRows defaultRows =
     (if permRows = [] then Some ClearRBAC
      else
        let ps = load_permissions permRows [] in
        if linkRows = [] then Some (ClearRBAC\<lparr>permissions := ps\<rparr>)
        else map_option
          (\<lambda>ps'. \<lparr>permissions = ps', defaultPermissions = load_defaults defaultRows []\<rparr>)
          (load_links linkRows 0 None ps))"

section \<open>The permissions of an account\<close>

datatype RBACCommandResult =
    RBAC_OK
  | RBAC_CANT_ADD_ALREADY_ADDED
  | RBAC_CANT_REVOKE_NOT_IN_LIST
  | RBAC_IN_GRANTED_LIST
  | RBAC_IN_DENIED_LIST
  | RBAC_ID_DOES_NOT_EXISTS

record RBACData =
  rb_id :: nat
  rb_realmId :: int
  rb_secLevel :: nat
  grantedPerms :: perm_set
  deniedPerms :: perm_set
  globalPerms :: perm_set

text \<open>The statements executed on the login database: account, permission, granted, realm.\<close>

datatype rbac_stmt =
    INS_RBAC_ACCOUNT_PERMISSION nat nat bool int
  | DEL_RBAC_ACCOUNT_PERMISSION nat nat int

definition new_RBACData :: "nat \<Rightarrow> int \<Rightarrow> nat \<Rightarrow> RBACData" where
  "new_RBACData i realmId secLevel =
     \<lparr>rb_id = i, rb_realmId = realmId, rb_secLevel = secLevel,
      grantedPerms = [], deniedPerms = [], globalPerms = []\<rparr>"

definition HasPermission :: "nat \<Rightarrow> RBACData \<Rightarrow> bool" where
  "HasPermission p d \<longleftrightarrow> p \<in> set (globalPerms d)"

definition HasGrantedPermission :: "nat \<Rightarrow> RBACData \<Rightarrow> bool" where
  "HasGrantedPermission p d \<longleftrightarrow> p \<in> set (grantedPerms d)"

definition HasDeniedPermission :: "nat \<Rightarrow> RBACData \<Rightarrow> bool" where
  "HasDeniedPermission p d \<longleftrightarrow> p \<in> set (deniedPerms d)"

definition ClearData :: "RBACData \<Rightarrow> RBACData" where
  "ClearData d = d\<lparr>grantedPerms := [], deniedPerms := [], globalPerms := []\<rparr>"

definition RemovePermissions :: "perm_set \<Rightarrow> perm_set \<Rightarrow> perm_set" where
  "RemovePermissions permsFrom permsToRemove = fold removeAll permsToRemove permsFrom"

text \<open>
  The loop of \<open>ExpandPermissions\<close>: \<open>toCheck\<close> holds what is still to be looked at,
  \<open>perms\<close> what has been expanded. Links not expanded yet are queued again.
\<close>

fun queue_links :: "perm_set \<Rightarrow> perm_set \<Rightarrow> perm_set \<Rightarrow> perm_set" where
  "queue_links [] perms toCheck = toCheck"
| "queue_links (l # links) perms toCheck =
     queue_links links perms (if l \<notin> set perms then insort_insert l toCheck else toCheck)"

lemma set_queue_links: "set (queue_links ls perms td) = set td \<union> (set ls - set perms)"
  by (induction ls perms td rule: queue_links.induct) (auto simp: set_insort_insert)

function expand_loop :: "rbac_table \<Rightarrow> perm_set \<Rightarrow> perm_set \<Rightarrow> perm_set" where
  "expand_loop T [] perms = perms"
| "expand_loop T (p # toCheck) perms =
     (case GetRBACPermission T p of
        None \<Rightarrow> expand_loop T toCheck perms
      | Some links \<Rightarrow>
          let perms' = insort_insert p perms
          in expand_loop T (queue_links links perms' toCheck) perms')"
  by pat_completeness auto

text \<open>
  It ends because a defined permission is expanded once: the defined permissions not
  expanded yet get fewer, or else the queue loses an entry that cannot come back.
\<close>

lemma finite_permission_ids [simp]: "finite {p. GetRBACPermission T p \<noteq> None}"
  using finite_dom_map_of [of "permissions T"] by (simp add: GetRBACPermission_def dom_def)

lemma expanded_queue_links:
  "length (filter (\<lambda>x. x \<in> set perms) (queue_links ls perms td)) =
     length (filter (\<lambda>x. x \<in> set perms) td)"
proof (induction ls perms td rule: queue_links.induct)
  case (2 l ls perms td)
  have "length (filter (\<lambda>x. x \<in> set perms) (insort_insert l td)) =
      length (filter (\<lambda>x. x \<in> set perms) td)" if "l \<notin> set perms"
    using that by (induction td) (auto simp: insort_insert_key_def)
  with 2 show ?case by simp
qed simp

termination expand_loop
proof (relation "measures [\<lambda>(T, td, ps). card ({p. GetRBACPermission T p \<noteq> None} - set ps),
    \<lambda>(T, td, ps). length (filter (\<lambda>x. x \<in> set ps) td), \<lambda>(T, td, ps). length td]", goal_cases)
  case (3 T p td ps links ps')
  let ?known = "{p. GetRBACPermission T p \<noteq> None}"
  show ?case
  proof (cases "p \<in> set ps")
    case True
    then have "ps' = ps" using 3(2) by (simp add: insort_insert_triv)
    with True show ?thesis by (simp add: expanded_queue_links)
  next
    case False
    then have "?known - set ps' \<subset> ?known - set ps"
      using 3 by (auto simp: set_insort_insert)
    then have "card (?known - set ps') < card (?known - set ps)"
      by (intro psubset_card_mono finite_Diff finite_permission_ids)
    then show ?thesis by simp
  qed
qed auto

definition ExpandPermissions :: "rbac_table \<Rightarrow> perm_set \<Rightarrow> perm_set" where
  "ExpandPermissions T perms = expand_loop T perms []"

definition CalculateNewPermissions :: "rbac_table \<Rightarrow> RBACData \<Rightarrow> RBACData" where
  "CalculateNewPermissions T d =
     (let glob = ExpandPermissions T (grantedPerms d);
          revoked = ExpandPermissions T (deniedPerms d)
      in d\<lparr>globalPerms := RemovePermissions glob revoked\<rparr>)"

definition SavePermission :: "nat \<Rightarrow> bool \<Rightarrow> int \<Rightarrow> RBACData \<Rightarrow> rbac_stmt" where
  "SavePermission p granted realmId d = INS_RBAC_ACCOUNT_PERMISSION (rb_id d) p granted realmId"

definition GrantPermission ::
    "rbac_table \<Rightarrow> nat \<Rightarrow> int \<Rightarrow> RBACData \<Rightarrow> RBACCommandResult \<times> RBACData \<times> rbac_stmt list" where
  "GrantPermission T p realmId d =
     (if GetRBACPermission T p = None then (RBAC_ID_DOES_NOT_EXISTS, d, [])
      else if HasDeniedPermission p d then (RBAC_IN_DENIED_LIST, d, [])
      else if HasGrantedPermission p d then (RBAC_CANT_ADD_ALREADY_ADDED, d, [])
      else
        let d' = d\<lparr>grantedPerms := insort_insert p (grantedPerms d)\<rparr> in
        if realmId \<noteq> 0
        then (RBAC_OK, CalculateNewPermissions T d', [SavePermission p True realmId d'])
        else (RBAC_OK, d', []))"

definition DenyPermission ::
    "rbac_table \<Rightarrow> nat \<Rightarrow> int \<Rightarrow> RBACData \<Rightarrow> RBACCommandResult \<times> RBACData \<times> rbac_stmt list" where
  "DenyPermission T p realmId d =
     (if GetRBACPermission T p = None then (RBAC_ID_DOES_NOT_EXISTS, d, [])
      else if HasGrantedPermission p d then (RBAC_IN_GRANTED_LIST, d, [])
      else if HasDeniedPermission p d then (RBAC_CANT_ADD_ALREADY_ADDED, d, [])
      else
        let d' = d\<lparr>deniedPerms := insort_insert p (deniedPerms d)\<rparr> in
        if realmId \<noteq> 0
        then (RBAC_OK, CalculateNewPermissions T d', [SavePermission p False realmId d'])
        else (RBAC_OK, d', []))"

definition RevokePermission ::
    "rbac_table \<Rightarrow> nat \<Rightarrow> int \<Rightarrow> RBACData \<Rightarrow> RBACCommandResult \<times> RBACData \<times> rbac_stmt list" where
  "RevokePermission T p realmId d =
     (if \<not> HasGrantedPermission p d \<and> \<not> HasDeniedPermission p d
      then (RBAC_CANT_REVOKE_NOT_IN_LIST, d, [])
      else
        let d' = d\<lparr>grantedPerms := removeAll p (grantedPerms d),
                   deniedPerms := removeAll p (deniedPerms d)\<rparr> in
        if realmId \<noteq> 0
        then (RBAC_OK, CalculateNewPermissions T d',
              [DEL_RBAC_ACCOUNT_PERMISSION (rb_id d') p realmId])
        else (RBAC_OK, d', []))"

text \<open>The rows of \<open>LOGIN_SEL_RBAC_ACCOUNT_PERMISSIONS\<close>: permission id and granted flag.\<close>

fun load_rows :: "rbac_table \<Rightarrow> (nat \<times> bool) list \<Rightarrow> RBACData \<Rightarrow> RBACData" where
  "load_rows T [] d = d"
| "load_rows T ((p, granted) # rows) d =
     load_rows T rows
       (fst (snd (if granted then GrantPermission T p 0 d else DenyPermission T p 0 d)))"

fun grant_defaults :: "rbac_table \<Rightarrow> perm_set \<Rightarrow> RBACData \<Rightarrow> RBACData" where
  "grant_defaults T [] d = d"
| "grant_defaults T (p # ps) d = grant_defaults T ps (fst (snd (GrantPermission T p 0 d)))"

definition LoadFromDBCallback :: "rbac_table \<Rightarrow> (nat \<times> bool) list \<Rightarrow> RBACData \<Rightarrow> RBACData" where
  "LoadFromDBCallback T rows d =
     CalculateNewPermissions T
       (grant_defaults T (GetRBACDefaultPermissions T (rb_secLevel d)) (load_rows T rows d))"

definition LoadFromDB :: "rbac_table \<Rightarrow> (nat \<times> bool) list \<Rightarrow> RBACData \<Rightarrow> RBACData" where
  "LoadFromDB T rows d = LoadFromDBCallback T rows (ClearData d)"

definition SetSecurityLevel :: "rbac_table \<Rightarrow> (nat \<times> bool) list \<Rightarrow> nat \<Rightarrow> RBACData \<Rightarrow> RBACData" where
  "SetSecurityLevel T rows lvl d = LoadFromDB T rows (d\<lparr>rb_secLevel := lvl\<rparr>)"

text \<open>\<open>AccountMgr::HasPermission\<close>, for the security level and rows the database gives.\<close>

definition AccountMgr_HasPermission ::
    "rbac_table \<Rightarrow> (nat \<times> bool) list \<Rightarrow> nat \<Rightarrow> nat \<Rightarrow> nat \<Rightarrow> int \<Rightarrow> bool" where
  "AccountMgr_HasPermission T rows secLevel accountId p realmId =
     (if accountId = 0 then False
      else HasPermission p (LoadFromDB T rows (new_RBACData accountId realmId secLevel)))"

section \<open>\<open>ExpandPermissions\<close> is reachability\<close>

text \<open>The links between defined permissions, and what a set of permissions reaches.\<close>

definition known :: "rbac_table \<Rightarrow> nat \<Rightarrow> bool" where
  "known T p \<longleftrightarrow> GetRBACPermission T p \<noteq> None"

definition perm_links :: "rbac_table \<Rightarrow> (nat \<times> nat) set" where
  "perm_links T = {(p, q). \<exists>ls. GetRBACPermission T p = Some ls \<and> q \<in> set ls \<and> known T q}"

definition reachable_perms :: "rbac_table \<Rightarrow> nat set \<Rightarrow> nat set" where
  "reachable_perms T P = (perm_links T)\<^sup>* `` {p \<in> P. known T p}"

lemma expand_loop_sound:
  "set (expand_loop T td ps) \<subseteq> set ps \<union> reachable_perms T (set td)"
proof (induction T td ps rule: expand_loop.induct)
  case (2 T p td ps)
  show ?case
  proof (cases "GetRBACPermission T p")
    case None
    with 2(1) show ?thesis by (auto simp: reachable_perms_def)
  next
    case (Some ls)
    let ?td = "queue_links ls (insort_insert p ps) td"
    have self: "p \<in> reachable_perms T (set (p # td))"
      using Some by (auto simp: reachable_perms_def known_def)
    have "reachable_perms T (set ?td) \<subseteq> reachable_perms T (set (p # td))"
    proof
      fix x assume "x \<in> reachable_perms T (set ?td)"
      then obtain q where q: "q \<in> set td \<or> q \<in> set ls" "known T q" "(q, x) \<in> (perm_links T)\<^sup>*"
        by (auto simp: reachable_perms_def set_queue_links)
      show "x \<in> reachable_perms T (set (p # td))"
      proof (cases "q \<in> set td")
        case False
        with q Some have "(p, q) \<in> perm_links T" by (auto simp: perm_links_def)
        from this q(3) have "(p, x) \<in> (perm_links T)\<^sup>*" by (rule converse_rtrancl_into_rtrancl)
        with Some show ?thesis by (auto simp: reachable_perms_def known_def)
      qed (use q in \<open>auto simp: reachable_perms_def\<close>)
    qed
    with 2(2) [OF Some refl] self Some show ?thesis
      by (auto simp: set_insort_insert Let_def)
  qed
qed simp

lemma expand_loop_complete:
  assumes "\<And>p ls l. p \<in> set ps \<Longrightarrow> GetRBACPermission T p = Some ls \<Longrightarrow> l \<in> set ls \<Longrightarrow>
      known T l \<Longrightarrow> l \<in> set ps \<union> set td"
    and "\<And>p. p \<in> set ps \<Longrightarrow> known T p"
  shows "set ps \<union> {p \<in> set td. known T p} \<subseteq> set (expand_loop T td ps) \<and>
    (\<forall>p q. p \<in> set (expand_loop T td ps) \<longrightarrow> (p, q) \<in> perm_links T \<longrightarrow> q \<in> set (expand_loop T td ps)) \<and>
    (\<forall>p \<in> set (expand_loop T td ps). known T p)"
  using assms
proof (induction T td ps rule: expand_loop.induct)
  case (1 T ps)
  then show ?case by (auto simp: perm_links_def)
next
  case (2 T p td ps)
  show ?case
  proof (cases "GetRBACPermission T p")
    case None
    then have unknown: "\<not> known T p" by (simp add: known_def)
    have links: "l \<in> set ps \<union> set td"
      if "q \<in> set ps" "GetRBACPermission T q = Some ls" "l \<in> set ls" "known T l" for q ls l
      using "2.prems"(1) [OF that] that(4) unknown by auto
    have same: "{q \<in> set (p # td). known T q} = {q \<in> set td. known T q}"
      using unknown by auto
    have skip: "expand_loop T (p # td) ps = expand_loop T td ps"
      using None by simp
    have "set ps \<union> {q \<in> set td. known T q} \<subseteq> set (expand_loop T td ps) \<and>
      (\<forall>p q. p \<in> set (expand_loop T td ps) \<longrightarrow> (p, q) \<in> perm_links T \<longrightarrow> q \<in> set (expand_loop T td ps)) \<and>
      (\<forall>p \<in> set (expand_loop T td ps). known T p)"
      by (rule 2(1) [OF None]) (fact links, fact "2.prems"(2))
    then show ?thesis unfolding same skip .
  next
    case (Some ls)
    let ?td = "queue_links ls (insort_insert p ps) td"
    have step: "l \<in> set (insort_insert p ps) \<union> set ?td"
      if "q \<in> set (insort_insert p ps)" "GetRBACPermission T q = Some ms" "l \<in> set ms" "known T l"
      for q ms l
      using that "2.prems"(1) [of q ms l] Some by (auto simp: set_insort_insert set_queue_links)
    have knows: "known T q" if "q \<in> set (insort_insert p ps)" for q
      using that "2.prems"(2) Some by (auto simp: set_insort_insert known_def)
    have unfold: "expand_loop T (p # td) ps = expand_loop T ?td (insort_insert p ps)"
      using Some by (simp add: Let_def)
    have sub: "set ps \<union> {q \<in> set (p # td). known T q} \<subseteq>
        set (insort_insert p ps) \<union> {q \<in> set ?td. known T q}"
      by (auto simp: set_insort_insert set_queue_links)
    have IH: "set (insort_insert p ps) \<union> {q \<in> set ?td. known T q} \<subseteq>
          set (expand_loop T ?td (insort_insert p ps)) \<and>
        (\<forall>p' q. p' \<in> set (expand_loop T ?td (insort_insert p ps)) \<longrightarrow> (p', q) \<in> perm_links T \<longrightarrow>
          q \<in> set (expand_loop T ?td (insort_insert p ps))) \<and>
        (\<forall>q \<in> set (expand_loop T ?td (insort_insert p ps)). known T q)"
      by (rule 2(2) [OF Some refl]) (fact step, fact knows)
    show ?thesis
      unfolding unfold by (rule conjI [OF order.trans [OF sub conjunct1 [OF IH]] conjunct2 [OF IH]])
  qed
qed

lemma set_ExpandPermissions: "set (ExpandPermissions T ps) = reachable_perms T (set ps)"
proof
  show "set (ExpandPermissions T ps) \<subseteq> reachable_perms T (set ps)"
    using expand_loop_sound [of T ps "[]"] by (simp add: ExpandPermissions_def)
  note complete = expand_loop_complete [of "[]" T ps, folded ExpandPermissions_def, simplified]
  have "x \<in> set (ExpandPermissions T ps)"
    if "(p, x) \<in> (perm_links T)\<^sup>*" "p \<in> set (ExpandPermissions T ps)" for p x
    using that by (induction rule: rtrancl_induct) (use complete in blast)+
  then show "reachable_perms T (set ps) \<subseteq> set (ExpandPermissions T ps)"
    using complete by (auto simp: reachable_perms_def)
qed

lemma set_ok_expand_loop: "set_ok ps \<Longrightarrow> set_ok (expand_loop T td ps)"
  by (induction T td ps rule: expand_loop.induct) (auto simp: Let_def split: option.split)

lemma set_RemovePermissions: "set (RemovePermissions ps qs) = set ps - set qs"
  unfolding RemovePermissions_def by (induction qs arbitrary: ps) auto

section \<open>What the operations keep\<close>

text \<open>The permissions an account has, computed from its two lists.\<close>

definition effective_perms :: "rbac_table \<Rightarrow> RBACData \<Rightarrow> nat set" where
  "effective_perms T d =
     reachable_perms T (set (grantedPerms d)) - reachable_perms T (set (deniedPerms d))"

text \<open>
  The lists are sets of defined permissions and no permission is in both, which
  \<open>GrantPermission\<close> and \<open>DenyPermission\<close> check for.
\<close>

definition rbac_ok :: "rbac_table \<Rightarrow> RBACData \<Rightarrow> bool" where
  "rbac_ok T d \<longleftrightarrow> set_ok (grantedPerms d) \<and> set_ok (deniedPerms d) \<and> set_ok (globalPerms d) \<and>
     set (grantedPerms d) \<inter> set (deniedPerms d) = {} \<and>
     (\<forall>p \<in> set (grantedPerms d) \<union> set (deniedPerms d). known T p)"

lemma set_ok_RemovePermissions: "set_ok ps \<Longrightarrow> set_ok (RemovePermissions ps qs)"
  unfolding RemovePermissions_def by (induction qs arbitrary: ps) auto

lemma Calculate_simps [simp]:
  "grantedPerms (CalculateNewPermissions T d) = grantedPerms d"
  "deniedPerms (CalculateNewPermissions T d) = deniedPerms d"
  "rb_secLevel (CalculateNewPermissions T d) = rb_secLevel d"
  "effective_perms T (CalculateNewPermissions T d) = effective_perms T d"
  by (simp_all add: CalculateNewPermissions_def Let_def effective_perms_def)

lemma set_globalPerms_Calculate:
  "set (globalPerms (CalculateNewPermissions T d)) = effective_perms T d"
  by (simp add: CalculateNewPermissions_def Let_def effective_perms_def set_RemovePermissions
      set_ExpandPermissions)

lemma rbac_ok_Calculate [simp]: "rbac_ok T d \<Longrightarrow> rbac_ok T (CalculateNewPermissions T d)"
  by (simp add: rbac_ok_def CalculateNewPermissions_def Let_def set_ok_RemovePermissions
      set_ok_expand_loop ExpandPermissions_def)

lemma rbac_ok_Grant: "rbac_ok T d \<Longrightarrow> rbac_ok T (fst (snd (GrantPermission T p r d)))"
  by (auto simp: GrantPermission_def Let_def intro!: rbac_ok_Calculate)
    (auto simp: rbac_ok_def HasDeniedPermission_def set_insort_insert known_def)

lemma rbac_ok_Deny: "rbac_ok T d \<Longrightarrow> rbac_ok T (fst (snd (DenyPermission T p r d)))"
  by (auto simp: DenyPermission_def Let_def intro!: rbac_ok_Calculate)
    (auto simp: rbac_ok_def HasGrantedPermission_def set_insort_insert known_def)

lemma rbac_ok_Revoke: "rbac_ok T d \<Longrightarrow> rbac_ok T (fst (snd (RevokePermission T p r d)))"
  by (auto simp: RevokePermission_def Let_def intro!: rbac_ok_Calculate) (auto simp: rbac_ok_def)

lemma rbac_ok_load_rows: "rbac_ok T d \<Longrightarrow> rbac_ok T (load_rows T rows d)"
  by (induction T rows d rule: load_rows.induct) (auto simp: rbac_ok_Grant rbac_ok_Deny)

lemma rbac_ok_grant_defaults: "rbac_ok T d \<Longrightarrow> rbac_ok T (grant_defaults T ps d)"
  by (induction T ps d rule: grant_defaults.induct) (auto simp: rbac_ok_Grant)

lemma rbac_ok_new: "rbac_ok T (new_RBACData i r s)" "rbac_ok T (ClearData d)"
  by (simp_all add: rbac_ok_def new_RBACData_def ClearData_def)

lemma rbac_ok_LoadFromDB: "rbac_ok T (LoadFromDB T rows d)"
  unfolding LoadFromDB_def LoadFromDBCallback_def
  by (intro rbac_ok_Calculate rbac_ok_grant_defaults rbac_ok_load_rows rbac_ok_new)

text \<open>The steps of an account: the operations commands and the loading code call.\<close>

inductive rbac_next :: "rbac_table \<Rightarrow> RBACData \<Rightarrow> RBACData \<Rightarrow> bool" for T where
  "rbac_next T d (fst (snd (GrantPermission T p r d)))"
| "rbac_next T d (fst (snd (DenyPermission T p r d)))"
| "rbac_next T d (fst (snd (RevokePermission T p r d)))"
| "rbac_next T d (LoadFromDB T rows d)"
| "rbac_next T d (SetSecurityLevel T rows lvl d)"

definition rbac_new :: "RBACData \<Rightarrow> bool" where
  "rbac_new d \<longleftrightarrow> (\<exists>i r s. d = new_RBACData i r s)"

interpretation rbac: invariant_system rbac_new "rbac_next T" "rbac_ok T" for T
proof unfold_locales
  fix d d' :: RBACData
  show "rbac_new d \<Longrightarrow> rbac_ok T d" by (auto simp: rbac_new_def rbac_ok_new)
  show "rbac_ok T d \<Longrightarrow> rbac_next T d d' \<Longrightarrow> rbac_ok T d'"
    by (erule rbac_next.cases)
      (auto simp: rbac_ok_Grant rbac_ok_Deny rbac_ok_Revoke rbac_ok_LoadFromDB SetSecurityLevel_def)
qed

text \<open>A denied permission stays denied while the rest of the rows and the defaults load.\<close>

lemma load_rows_denied:
  "p \<in> set (deniedPerms d) \<Longrightarrow> p \<in> set (deniedPerms (load_rows T rows d))"
  by (induction T rows d rule: load_rows.induct)
    (auto simp: GrantPermission_def DenyPermission_def Let_def set_insort_insert)

lemma load_rows_denies:
  assumes "(p, False) \<in> set rows" "(p, True) \<notin> set rows" "known T p" "p \<notin> set (grantedPerms d)"
  shows "p \<in> set (deniedPerms (load_rows T rows d))"
  using assms
proof (induction T rows d rule: load_rows.induct)
  case (2 T q granted rows d)
  show ?case
  proof (cases "q = p \<and> \<not> granted")
    case True
    with 2 have "p \<in> set (deniedPerms (fst (snd (DenyPermission T p 0 d))))"
      by (auto simp: DenyPermission_def HasGrantedPermission_def HasDeniedPermission_def Let_def
          known_def set_insort_insert)
    with True show ?thesis by (simp add: load_rows_denied)
  next
    case False
    with 2 show ?thesis
      by (auto simp: GrantPermission_def DenyPermission_def Let_def set_insort_insert)
  qed
qed simp

lemma grant_defaults_denied [simp]: "deniedPerms (grant_defaults T ps d) = deniedPerms d"
  by (induction T ps d rule: grant_defaults.induct) (auto simp: GrantPermission_def Let_def)

section \<open>Loading the table\<close>

lemma dom_load_permissions: "dom (map_of (load_permissions rows ps)) = set rows \<union> dom (map_of ps)"
  by (induction rows ps rule: load_permissions.induct) (auto simp: update_conv')

lemma dom_map_entry: "dom (map_of (AList.map_entry k f ps)) = dom (map_of ps)"
  by (simp add: dom_map_of_conv_image_fst AList.dom_map_entry)

lemma load_links_None:
  assumes "sorted (map fst rows)" "\<forall>r \<in> set rows. cur \<le> fst r"
    and "perm = (if cur \<noteq> 0 \<and> cur \<in> dom (map_of ps) then Some cur else None)"
  shows "load_links rows cur perm ps = None \<longleftrightarrow>
    (\<exists>(i, l) \<in> set rows. l \<noteq> i \<and> (i = 0 \<or> i \<notin> dom (map_of ps)))"
  using assms
proof (induction rows cur perm ps rule: load_links.induct)
  case (2 i l rows cur perm ps)
  define perm' where "perm' = (if i \<noteq> 0 \<and> i \<in> dom (map_of ps) then Some i else None)"
  have perm': "(if cur \<noteq> i then (if map_of ps i = None then None else Some i) else perm) = perm'"
    using "2.prems" by (auto simp: perm'_def dom_def)
  have step: "load_links ((i, l) # rows) cur perm ps =
      (if l = i then load_links rows i perm' ps
       else case perm' of None \<Rightarrow> None
         | Some j \<Rightarrow> load_links rows i perm' (AList.map_entry j (insort_insert l) ps))"
    by (simp only: load_links.simps Let_def perm')
  have rows: "sorted (map fst rows)" "\<forall>r \<in> set rows. i \<le> fst r"
    using "2.prems"(1) by auto
  show ?case
  proof (cases "l = i")
    case True
    with 2(1) [OF perm' [symmetric] True rows] perm'_def step show ?thesis by simp
  next
    case False
    show ?thesis
    proof (cases perm')
      case None
      with False step show ?thesis by (auto simp: perm'_def split: if_splits)
    next
      case (Some j)
      then have j: "i \<noteq> 0" "i \<in> dom (map_of ps)" "j = i" by (auto simp: perm'_def split: if_splits)
      have "load_links rows i perm' (AList.map_entry j (insort_insert l) ps) = None \<longleftrightarrow>
        (\<exists>(i, l) \<in> set rows. l \<noteq> i \<and> (i = 0 \<or> i \<notin> dom (map_of ps)))"
        using 2(2) [OF perm' [symmetric] False Some rows] j by (simp add: perm'_def dom_map_entry)
      with False Some step j show ?thesis by simp
    qed
  qed
qed simp

section \<open>Properties\<close>

text \<open>A small table: 1 links 2 and 3, 2 links back to 1 and to the undefined 9, 3 links nothing.\<close>

definition rbac_example :: rbac_table where
  "rbac_example = \<lparr>permissions = [(1, [2, 3]), (2, [1, 9]), (3, []), (4, [3])],
     defaultPermissions = [(0, [1])]\<rparr>"

text \<open>
  C2: \<open>ExpandPermissions\<close> returns, for cyclic link tables too, exactly the defined
  permissions that links between defined permissions reach from the given ones, as a set.
\<close>

theorem expand_is_reachability:
  "set (ExpandPermissions T ps) = reachable_perms T (set ps) \<and> set_ok (ExpandPermissions T ps)"
  by (simp add: set_ExpandPermissions) (simp add: ExpandPermissions_def set_ok_expand_loop)

text \<open>
  C17: every way the code refreshes an account -- loading it, changing its security level, and
  a successful grant, denial or revocation on a realm -- leaves \<open>HasPermission\<close> true of
  exactly the permissions the granted list reaches and the denied list does not.
\<close>

theorem has_permission_iff:
  assumes "d' = LoadFromDB T rows d \<or> d' = SetSecurityLevel T rows lvl d \<or>
    r \<noteq> 0 \<and> (\<exists>st. GrantPermission T p r d = (RBAC_OK, d', st) \<or>
      DenyPermission T p r d = (RBAC_OK, d', st) \<or> RevokePermission T p r d = (RBAC_OK, d', st))"
  shows "HasPermission q d' \<longleftrightarrow>
    q \<in> reachable_perms T (set (grantedPerms d')) \<and> q \<notin> reachable_perms T (set (deniedPerms d'))"
proof -
  from assms obtain d1 where "d' = CalculateNewPermissions T d1"
    by (auto simp: LoadFromDB_def LoadFromDBCallback_def SetSecurityLevel_def GrantPermission_def
        DenyPermission_def RevokePermission_def Let_def split: if_splits)
  then show ?thesis
    by (simp add: HasPermission_def set_globalPerms_Calculate)
      (simp add: effective_perms_def)
qed

theorem has_permission_iff_witness:
  "HasPermission 2 (LoadFromDB rbac_example [] (new_RBACData 7 1 0)) \<and>
   2 \<in> reachable_perms rbac_example {1}"
proof -
  let ?d = "LoadFromDB rbac_example [] (new_RBACData 7 1 0)"
  have "HasPermission 2 ?d" "set (grantedPerms ?d) = {1}" by code_simp+
  with has_permission_iff [of ?d rbac_example "[]" "new_RBACData 7 1 0" 0 0 0 2] show ?thesis by simp
qed

text \<open>
  In every state an account can reach, the granted and the denied list are sets of
  defined permissions and no permission is in both, so a grant or denial always finds a
  permission on at most one side.
\<close>

theorem rbac_lists_disjoint:
  assumes "reach rbac_new (rbac_next T) d"
  shows "rbac_ok T d"
  by (rule rbac.reach_inv [OF assms])

theorem rbac_lists_disjoint_witness:
  "rbac_ok rbac_example (fst (snd (DenyPermission rbac_example 4 1 (new_RBACData 7 1 0))))"
  by (rule rbac_lists_disjoint)
    (rule reach_step [OF reach_start], auto simp: rbac_new_def intro: rbac_next.intros)

text \<open>
  A permission the account's rows deny and never grant is not held after loading,
  whatever the security level's default permissions and their links say.
\<close>

theorem denied_row_wins:
  assumes "(p, False) \<in> set rows" and "(p, True) \<notin> set rows" and "known T p"
  shows "\<not> HasPermission p (LoadFromDB T rows d)"
proof -
  have "p \<in> set (deniedPerms (load_rows T rows (ClearData d)))"
    using assms by (intro load_rows_denies) (auto simp: ClearData_def)
  then have "p \<in> set (deniedPerms (LoadFromDB T rows d))"
    by (simp add: LoadFromDB_def LoadFromDBCallback_def)
  with assms(3) have "p \<in> reachable_perms T (set (deniedPerms (LoadFromDB T rows d)))"
    by (auto simp: reachable_perms_def)
  then show ?thesis
    by (simp add: HasPermission_def LoadFromDB_def LoadFromDBCallback_def set_globalPerms_Calculate)
      (simp add: effective_perms_def)
qed

theorem denied_row_wins_witness:
  "\<not> HasPermission 1 (LoadFromDB rbac_example [(1, False)] (new_RBACData 7 1 0))"
  by (rule denied_row_wins) (auto simp: known_def GetRBACPermission_def rbac_example_def)

text \<open>
  Granting a permission and revoking it again brings both lists back, and the two
  statements written for a realm are the insertion and the deletion of the same row.
\<close>

theorem grant_revoke_roundtrip:
  assumes "rbac_ok T d" and "GrantPermission T p r d = (RBAC_OK, d', st)"
  shows "\<exists>d'' st'. RevokePermission T p r d' = (RBAC_OK, d'', st') \<and>
    grantedPerms d'' = grantedPerms d \<and> deniedPerms d'' = deniedPerms d \<and>
    (if r = 0 then st = [] \<and> st' = []
     else st = [INS_RBAC_ACCOUNT_PERMISSION (rb_id d) p True r] \<and>
       st' = [DEL_RBAC_ACCOUNT_PERMISSION (rb_id d) p r])"
proof -
  have fresh: "p \<notin> set (grantedPerms d)" "p \<notin> set (deniedPerms d)"
    using assms(2) by (auto simp: GrantPermission_def HasGrantedPermission_def
        HasDeniedPermission_def split: if_splits)
  have "removeAll p (insort_insert p (grantedPerms d)) = grantedPerms d"
    using fresh(1) by (rule removeAll_insort_insert)
  then show ?thesis
    using assms(2) fresh
    by (auto simp: GrantPermission_def RevokePermission_def Let_def HasGrantedPermission_def
        SavePermission_def CalculateNewPermissions_def set_insort_insert removeAll_id
        split: if_splits)
qed

theorem grant_revoke_roundtrip_witness:
  "grantedPerms (fst (snd (RevokePermission rbac_example 4 1
     (fst (snd (GrantPermission rbac_example 4 1 (new_RBACData 7 1 0))))))) = []"
proof -
  let ?d = "new_RBACData 7 1 0"
  have g: "GrantPermission rbac_example 4 1 ?d =
      (RBAC_OK, fst (snd (GrantPermission rbac_example 4 1 ?d)), snd (snd (GrantPermission rbac_example 4 1 ?d)))"
    by code_simp
  from grant_revoke_roundtrip [OF rbac_ok_new(1) g] show ?thesis
    by (auto simp: new_RBACData_def)
qed

text \<open>
  \<open>LoadRBAC\<close>, whose link rows come ordered by id, goes through a null pointer exactly
  when some row links from an id that has no definition or from the id 0 (self links are
  skipped first).
\<close>

theorem load_rbac_null_iff:
  assumes "sorted (map fst linkRows)" and "permRows \<noteq> []"
  shows "LoadRBAC permRows linkRows defaultRows = None \<longleftrightarrow>
    (\<exists>(i, l) \<in> set linkRows. l \<noteq> i \<and> (i = 0 \<or> i \<notin> set permRows))"
  using assms load_links_None [of linkRows 0 None "load_permissions permRows []"]
  by (auto simp: LoadRBAC_def Let_def dom_load_permissions)

theorem load_rbac_null_iff_witness:
  "LoadRBAC [1, 2] [(1, 2), (3, 1)] [] = None \<and> LoadRBAC [1, 2] [(1, 2), (2, 2)] [] \<noteq> None"
  using load_rbac_null_iff [of "[(1, 2), (3, 1)]" "[1, 2]" "[]"]
    load_rbac_null_iff [of "[(1, 2), (2, 2)]" "[1, 2]" "[]"] by simp

end
