(* ===== verification/Float32.thy ===== *)
theory Float32
  imports Prelude Complex_Main "HOL-Library.Log_Nat"
begin

text \<open>
  The C++ \<open>float\<close>. A finite value is a rational number, and every arithmetic operation
  of the code is the exact operation followed by \<open>f32\<close>, the rounding of IEEE 754
  binary32: to nearest, ties to even, 24 significant bits, with gradual underflow
  below \<open>2^(-126)\<close>. Values stay finite: an overflow to infinity is outside the model.
\<close>

text \<open>The exponent \<open>e\<close> with \<open>2^e \<le> q < 2^(e+1)\<close>.\<close>

definition ilog2 :: "rat \<Rightarrow> int" where
  "ilog2 q =
     (case quotient_of q of
        (n, d) \<Rightarrow> let e = bitlen n - bitlen d in if 2 powi e \<le> q then e else e - 1)"

text \<open>The distance of the neighbours of \<open>q\<close>.\<close>

definition ulp :: "rat \<Rightarrow> rat" where
  "ulp q = 2 powi (max (ilog2 q - 23) (- 149))"

definition round_even :: "rat \<Rightarrow> int" where
  "round_even x =
     (let f = \<lfloor>x\<rfloor>; r = x - of_int f in
      if r < 1 / 2 then f else if 1 / 2 < r then f + 1 else if even f then f else f + 1)"

definition f32_pos :: "rat \<Rightarrow> rat" where
  "f32_pos q = of_int (round_even (q / ulp q)) * ulp q"

definition f32 :: "rat \<Rightarrow> rat" where
  "f32 q = (if q = 0 then 0 else if 0 < q then f32_pos q else - f32_pos (- q))"

section \<open>Rounding\<close>

lemma ilog2_bounds:
  assumes "0 < q"
  shows "2 powi (ilog2 q) \<le> q" "q < 2 powi (ilog2 q + 1)"
proof -
  obtain n d where nd: "quotient_of q = (n, d)" by fastforce
  have d: "0 < d" and q: "q = of_int n / of_int d"
    using quotient_of_denom_pos [OF nd] quotient_of_div [OF nd] by auto
  have n: "0 < n" using assms d by (simp add: q zero_less_divide_iff)
  have bl: "1 \<le> bitlen n" "1 \<le> bitlen d"
    using n d bitlen_nonneg [of n] bitlen_nonneg [of d]
      bitlen_eq_zero_iff [of n] bitlen_eq_zero_iff [of d] by linarith+
  have rn: "(2::rat) powi (bitlen n - 1) \<le> of_int n" "of_int n < (2::rat) powi (bitlen n)"
    if "0 < n" "1 \<le> bitlen n" for n
  proof -
    have "(2::rat) powi (bitlen n - 1) = of_int (2 ^ nat (bitlen n - 1))"
      using that by (simp add: power_int_def)
    then show "(2::rat) powi (bitlen n - 1) \<le> of_int n"
      using bitlen_bounds [OF that(1)] by (simp only: of_int_le_iff)
    have "(2::rat) powi (bitlen n) = of_int (2 ^ nat (bitlen n))"
      using that by (simp add: power_int_def)
    then show "of_int n < (2::rat) powi (bitlen n)"
      using bitlen_bounds [OF that(1)] by (simp only: of_int_less_iff)
  qed
  define e where "e = bitlen n - bitlen d"
  have d': "(0::rat) < of_int d" using d by simp
  have up: "q < 2 powi (e + 1)"
  proof -
    have "of_int n < (2::rat) powi (bitlen n)" by (rule rn) (use n bl in auto)
    also have "\<dots> = 2 powi (e + 1) * 2 powi (bitlen d - 1)"
      by (simp add: e_def power_int_add [symmetric])
    also have "\<dots> \<le> 2 powi (e + 1) * of_int d"
      by (rule mult_left_mono) (use rn(1) [of d] d bl in auto)
    finally show ?thesis using d' by (simp add: q field_simps)
  qed
  have lo: "2 powi (e - 1) \<le> q"
  proof -
    have "2 powi (e - 1) * of_int d \<le> 2 powi (e - 1) * (2::rat) powi (bitlen d)"
      by (rule mult_left_mono) (use rn(2) [of d] d bl in auto)
    also have "\<dots> = 2 powi (bitlen n - 1)"
      by (simp add: e_def power_int_add [symmetric])
    also have "\<dots> \<le> of_int n" by (rule rn) (use n bl in auto)
    finally show ?thesis using d' by (simp add: q field_simps)
  qed
  have i: "ilog2 q = (if 2 powi e \<le> q then e else e - 1)"
    by (simp add: ilog2_def nd e_def Let_def)
  show "2 powi (ilog2 q) \<le> q" using i lo by simp
  show "q < 2 powi (ilog2 q + 1)" using i up by auto
qed

lemma ulp_pos [simp]: "0 < ulp q"
  by (simp add: ulp_def)

lemma ilog2_mono: "0 < p \<Longrightarrow> p \<le> q \<Longrightarrow> ilog2 p \<le> ilog2 q"
proof (rule ccontr)
  assume pq: "0 < p" "p \<le> q" "\<not> ilog2 p \<le> ilog2 q"
  then have "(2::rat) powi (ilog2 q + 1) \<le> 2 powi (ilog2 p)"
    by (intro power_int_increasing) auto
  with ilog2_bounds(1) [of p] ilog2_bounds(2) [of q] pq show False by linarith
qed

lemma round_even_bounds: "\<lfloor>x\<rfloor> \<le> round_even x" "round_even x \<le> \<lceil>x\<rceil>"
proof -
  show "\<lfloor>x\<rfloor> \<le> round_even x" by (simp add: round_even_def Let_def)
  have "\<lfloor>x\<rfloor> \<le> \<lceil>x\<rceil>" by (rule floor_le_ceiling)
  moreover have "\<lfloor>x\<rfloor> + 1 \<le> \<lceil>x\<rceil>" if "x \<noteq> of_int \<lfloor>x\<rfloor>"
    using that by linarith
  ultimately show "round_even x \<le> \<lceil>x\<rceil>"
    by (auto simp: round_even_def Let_def not_less)
qed

lemma round_even_int [simp]: "round_even (of_int n) = n"
  by (simp add: round_even_def)

lemma round_even_numeral [simp]: "round_even (numeral k) = numeral k"
  using round_even_int [of "numeral k"] by simp

lemma round_even_mono:
  assumes "x \<le> y"
  shows "round_even x \<le> round_even y"
proof (cases "\<lfloor>x\<rfloor> = \<lfloor>y\<rfloor>")
  case True
  then show ?thesis using assms by (auto simp: round_even_def Let_def not_less)
next
  case False
  with floor_mono [OF assms] have "\<lfloor>x\<rfloor> + 1 \<le> \<lfloor>y\<rfloor>" by linarith
  moreover have "round_even x \<le> \<lfloor>x\<rfloor> + 1" by (auto simp: round_even_def Let_def)
  ultimately show ?thesis using round_even_bounds(1) [of y] by linarith
qed

text \<open>A bound that is a multiple of the unit is kept by the rounding.\<close>

lemma f32_pos_le:
  assumes "q \<le> of_int n * ulp q"
  shows "f32_pos q \<le> of_int n * ulp q"
proof -
  have "q / ulp q \<le> of_int n" using assms by (simp add: field_simps)
  then have "round_even (q / ulp q) \<le> n" using round_even_mono [of "q / ulp q" "of_int n"] by simp
  then show ?thesis by (simp add: f32_pos_def mult_right_mono)
qed

lemma f32_pos_ge:
  assumes "of_int n * ulp q \<le> q"
  shows "of_int n * ulp q \<le> f32_pos q"
proof -
  have "of_int n \<le> q / ulp q" using assms by (simp add: field_simps)
  then have "n \<le> round_even (q / ulp q)" using round_even_mono [of "of_int n" "q / ulp q"] by simp
  then show ?thesis by (simp add: f32_pos_def mult_right_mono)
qed

lemma f32_pos_nonneg [simp]: "0 < q \<Longrightarrow> 0 \<le> f32_pos q"
  using f32_pos_ge [of 0 q] by simp

lemma powi_multiple: "(a::int) \<le> b \<Longrightarrow> \<exists>n. (2::rat) powi b = of_int n * 2 powi a"
  by (rule exI [of _ "2 ^ nat (b - a)"])
    (simp add: power_int_add [symmetric] flip: power_int_of_nat)

lemma f32_pos_mono:
  assumes "0 < p" "p \<le> q"
  shows "f32_pos p \<le> f32_pos q"
proof (cases "ulp p = ulp q")
  case True
  have "p / ulp q \<le> q / ulp q"
    by (intro divide_right_mono less_imp_le [OF ulp_pos]) (rule assms)
  with True show ?thesis by (simp add: f32_pos_def round_even_mono mult_right_mono)
next
  case False
  then have neq: "max (ilog2 p - 23) (- 149) \<noteq> max (ilog2 q - 23) (- 149)"
    by (auto simp: ulp_def)
  with ilog2_mono [OF assms] have le: "ilog2 p + 1 \<le> ilog2 q" and q: "- 149 \<le> ilog2 q - 23"
    by (auto simp: max_def split: if_splits)
  have "\<exists>n. (2::rat) powi (ilog2 q) = of_int n * ulp p"
    unfolding ulp_def by (rule powi_multiple) (use le q in auto)
  then obtain n where n: "(2::rat) powi (ilog2 q) = of_int n * ulp p" ..
  have "(2::rat) powi (ilog2 p + 1) \<le> 2 powi (ilog2 q)"
    using le by (intro power_int_increasing) auto
  then have "p \<le> of_int n * ulp p"
    using ilog2_bounds(2) [OF assms(1)] n by linarith
  then have below: "f32_pos p \<le> 2 powi (ilog2 q)" using f32_pos_le n by simp
  have "\<exists>m. (2::rat) powi (ilog2 q) = of_int m * ulp q"
    unfolding ulp_def by (rule powi_multiple) (use q in auto)
  then obtain m where m: "(2::rat) powi (ilog2 q) = of_int m * ulp q" ..
  have "0 < q" using assms by linarith
  then have "2 powi (ilog2 q) \<le> f32_pos q"
    using f32_pos_ge [of m q] ilog2_bounds(1) [of q] m by simp
  with below show ?thesis by linarith
qed

lemma f32_0 [simp]: "f32 0 = 0"
  by (simp add: f32_def)

lemma f32_nonneg [simp]: "0 \<le> q \<Longrightarrow> 0 \<le> f32 q"
  by (simp add: f32_def)

lemma f32_nonpos: "q \<le> 0 \<Longrightarrow> f32 q \<le> 0"
  by (auto simp: f32_def not_less)

lemma f32_mono:
  assumes "p \<le> q"
  shows "f32 p \<le> f32 q"
proof -
  have "f32 p \<le> f32 q" if "0 < p" using that assms f32_pos_mono by (auto simp: f32_def)
  moreover have "f32 p \<le> f32 q" if "p \<le> 0" "0 \<le> q"
    using that f32_nonneg [of q] f32_nonpos [of p] by linarith
  moreover have "f32 p \<le> f32 q" if "q < 0"
    using that assms f32_pos_mono [of "- q" "- p"] by (auto simp: f32_def)
  ultimately show ?thesis by linarith
qed

text \<open>Values of the type: those the rounding keeps.\<close>

definition is_f32 :: "rat \<Rightarrow> bool" where
  "is_f32 q \<longleftrightarrow> f32 q = q"

lemma ilog2_eqI: "2 powi e \<le> q \<Longrightarrow> q < 2 powi (e + 1) \<Longrightarrow> ilog2 q = e"
proof -
  assume a: "2 powi e \<le> q" "q < 2 powi (e + 1)"
  have "(0::rat) < 2 powi e" by simp
  with a(1) have q: "0 < q" by linarith
  have "\<not> e < ilog2 q"
  proof
    assume "e < ilog2 q"
    then have "(2::rat) powi (e + 1) \<le> 2 powi (ilog2 q)" by (intro power_int_increasing) auto
    with ilog2_bounds(1) [OF q] a(2) show False by linarith
  qed
  moreover have "\<not> ilog2 q < e"
  proof
    assume "ilog2 q < e"
    then have "(2::rat) powi (ilog2 q + 1) \<le> 2 powi e" by (intro power_int_increasing) auto
    with ilog2_bounds(2) [OF q] a(1) show False by linarith
  qed
  ultimately show ?thesis by linarith
qed

lemma f32_pos_multiple:
  assumes "q = of_int n * ulp q"
  shows "f32_pos q = q"
  using f32_pos_le [of q n] f32_pos_ge [of n q] assms by simp

lemma is_f32_f32 [simp, intro]: "is_f32 (f32 q)"
proof -
  have pos: "f32 (f32_pos p) = f32_pos p" if p: "0 < p" for p
  proof (cases "f32_pos p = 0")
    case False
    define r where "r = f32_pos p"
    have r: "0 < r" using False f32_pos_nonneg [OF p] by (simp add: r_def)
    define k where "k = max (ilog2 p - 23) (- 149)"
    have u: "ulp p = 2 powi k" by (simp add: ulp_def k_def)
    have n: "\<exists>n. r = of_int n * ulp r"
    proof (cases "r < 2 powi (ilog2 p + 1)")
      case True
      have "ilog2 r \<le> ilog2 p"
        using True ilog2_bounds(1) [OF r] power_int_le_imp_le_exp [of "2::rat" "ilog2 r" "ilog2 p"]
          power_int_increasing [of "ilog2 p + 1" "ilog2 r" "2::rat"] by linarith
      then have "\<exists>n. (2::rat) powi k = of_int n * ulp r"
        unfolding ulp_def by (intro powi_multiple) (auto simp: k_def)
      then obtain n where "(2::rat) powi k = of_int n * ulp r" ..
      then have "r = of_int (round_even (p / ulp p) * n) * ulp r"
        by (simp add: r_def f32_pos_def u)
      then show ?thesis by blast
    next
      case ge: False
      show ?thesis
      proof (cases "- 149 \<le> ilog2 p + 1")
        case True
        then have "\<exists>m. (2::rat) powi (ilog2 p + 1) = of_int m * ulp p"
          unfolding u by (intro powi_multiple) (auto simp: k_def)
        then obtain m where m: "(2::rat) powi (ilog2 p + 1) = of_int m * ulp p" ..
        have "r \<le> 2 powi (ilog2 p + 1)"
          using f32_pos_le [of p m] ilog2_bounds(2) [OF p] m by (simp add: r_def)
        with ge have e: "r = 2 powi (ilog2 p + 1)" by simp
        have "ilog2 r = ilog2 p + 1"
          by (rule ilog2_eqI) (simp_all add: e power_int_strict_increasing)
        with True have "\<exists>n. (2::rat) powi (ilog2 p + 1) = of_int n * ulp r"
          unfolding ulp_def by (intro powi_multiple) auto
        with e show ?thesis by simp
      next
        case False
        then have k: "k = - 149" by (auto simp: k_def)
        have "(2::rat) powi (ilog2 p + 1) \<le> 2 powi k"
          using False k by (intro power_int_increasing) auto
        then have "p \<le> of_int 1 * ulp p" using ilog2_bounds(2) [OF p] u by simp
        then have "r \<le> ulp p" using f32_pos_le [of p 1] by (simp add: r_def)
        then have le: "r \<le> 2 powi (- 149)" using u k by simp
        have ri: "r = of_int (round_even (p / ulp p)) * 2 powi (- 149)"
          by (simp add: r_def f32_pos_def u k)
        then have "ilog2 r \<le> - 149"
          using ilog2_bounds(1) [OF r] le power_int_strict_increasing [of "- 149" "ilog2 r" "2::rat"]
          by linarith
        then have "ulp r = 2 powi (- 149)" by (simp add: ulp_def)
        with ri show ?thesis by metis
      qed
    qed
    then have "f32_pos r = r" using f32_pos_multiple by blast
    with r show ?thesis by (simp add: f32_def r_def)
  qed simp
  show ?thesis
    using pos [of q] pos [of "- q"] f32_pos_nonneg [of q] f32_pos_nonneg [of "- q"]
    by (auto simp: is_f32_def f32_def split: if_splits)
qed

lemma is_f32_0 [simp, intro]: "is_f32 0"
  by (simp add: is_f32_def)

text \<open>Adding something non-negative to a value, rounded, does not make it smaller.\<close>

lemma f32_add_ge: "is_f32 x \<Longrightarrow> 0 \<le> d \<Longrightarrow> x \<le> f32 (x + d)"
  using f32_mono [of x "x + d"] by (simp add: is_f32_def)

lemma f32_add_le: "is_f32 x \<Longrightarrow> d \<le> 0 \<Longrightarrow> f32 (x + d) \<le> x"
  using f32_mono [of "x + d" x] by (simp add: is_f32_def)

lemma f32_mult_ge: "is_f32 x \<Longrightarrow> 0 \<le> x \<Longrightarrow> 1 \<le> k \<Longrightarrow> x \<le> f32 (x * k)"
  using f32_mono [of x "x * k"] mult_left_mono [of 1 k x] by (simp add: is_f32_def)

lemma f32_mult_le: "is_f32 x \<Longrightarrow> 0 \<le> x \<Longrightarrow> k \<le> 1 \<Longrightarrow> f32 (x * k) \<le> x"
  using f32_mono [of "x * k" x] mult_left_mono [of k 1 x] by (simp add: is_f32_def)

end
