(* ===== verification/World_State.thy ===== *)
theory World_State
  imports Prelude Float32 "HOL-Library.While_Combinator"
begin

text \<open>
  The state that \<open>CombatManager\<close> and \<open>ThreatManager\<close> (\<open>src/server/game/Combat/\<close>) work
  on. A \<open>Unit*\<close> is the GUID of the unit, a \<open>CombatReference*\<close> or \<open>ThreatReference*\<close> an
  address of a store of such objects (\<open>new\<close> takes the next address, \<open>delete\<close> empties
  it), so that the same reference is shared by the managers of both units as in the code.
  An \<open>unordered_map\<close> is an association list in iteration order. Calls that leave the two
  managers (AI hooks, packets, auras, notifications of the heap) are entries of \<open>w_log\<close>; a
  failing \<open>ASSERT\<close> or an \<open>ABORT\<close> sets \<open>w_crashed\<close>.
\<close>

type_synonym guid = u64
type_synonym addr = nat

section \<open>References\<close>

record combat_ref =
  cr_first :: guid
  cr_second :: guid
  cr_isPvP :: bool
  cr_suppressFirst :: bool
  cr_suppressSecond :: bool
  cr_combatTimer :: u32

datatype online_state = ONLINE_STATE_OFFLINE | ONLINE_STATE_SUPPRESSED | ONLINE_STATE_ONLINE

fun online_value :: "online_state \<Rightarrow> nat" where
  "online_value ONLINE_STATE_OFFLINE = 0"
| "online_value ONLINE_STATE_SUPPRESSED = 1"
| "online_value ONLINE_STATE_ONLINE = 2"

lemma online_value_inj [simp]: "online_value a = online_value b \<longleftrightarrow> a = b"
  by (cases a; cases b) auto

instantiation online_state :: linorder
begin

definition less_eq_online_state :: "online_state \<Rightarrow> online_state \<Rightarrow> bool" where
  "less_eq_online_state a b \<longleftrightarrow> online_value a \<le> online_value b"

definition less_online_state :: "online_state \<Rightarrow> online_state \<Rightarrow> bool" where
  "less_online_state a b \<longleftrightarrow> online_value a < online_value b"

instance
  by standard (auto simp: less_eq_online_state_def less_online_state_def)

end

definition TAUNT_STATE_DETAUNT :: u32 where "TAUNT_STATE_DETAUNT = 0"
definition TAUNT_STATE_NONE :: u32 where "TAUNT_STATE_NONE = 1"
definition TAUNT_STATE_TAUNT :: u32 where "TAUNT_STATE_TAUNT = 2"

record threat_ref =
  tr_owner :: guid
  tr_victim :: guid
  tr_online :: online_state
  tr_baseAmount :: rat
  tr_tempModifier :: int
  tr_taunted :: u32

section \<open>Units and their managers\<close>

text \<open>
  The last field is not a field of \<open>Unit\<close>: it records that code outside the managers has
  written the \<open>IN_COMBAT\<close> bit of the unit's flags. \<open>CombatManager\<close> alone should, but scripts
  (\<open>boss_halion.cpp:406\<close>, \<open>npcs_special.cpp:773\<close>, \<open>814\<close>, \<open>847\<close>, \<open>zone_azuremyst_isle.cpp:95\<close>,
  \<open>295\<close>), commands (\<open>Player.cpp:2769\<close> behind \<open>.reset stats\<close>, \<open>cs_modify.cpp:245\<close>) and
  \<open>ReplaceAllUnitFlags\<close> (\<open>boss_flame_leviathan.cpp:639\<close>) do too.
\<close>

record unit_state =
  u_inWorld :: bool
  u_alive :: bool
  u_map :: nat
  u_phaseMask :: u32
  u_state :: u32
  u_flags :: u32
  u_combatDisallowed :: bool
  u_typeId :: u8
  u_isTrigger :: bool
  u_unitTypeMask :: u32
  u_summonedByPlayer :: bool
  u_gameMaster :: bool
  u_playerItself :: "guid option"
  u_controlledByPlayer :: bool
  u_charmerOrOwner :: "guid option"
  u_controlled :: "guid list"
  u_hasAI :: bool
  u_flagWritten :: bool

definition TYPEID_UNIT :: u8 where "TYPEID_UNIT = 3"
definition TYPEID_PLAYER :: u8 where "TYPEID_PLAYER = 4"

definition UNIT_MASK_MINION :: u32 where "UNIT_MASK_MINION = 0x2"
definition UNIT_MASK_GUARDIAN :: u32 where "UNIT_MASK_GUARDIAN = 0x4"
definition UNIT_MASK_TOTEM :: u32 where "UNIT_MASK_TOTEM = 0x8"
definition UNIT_MASK_PET :: u32 where "UNIT_MASK_PET = 0x10"
definition UNIT_MASK_ACCESSORY :: u32 where "UNIT_MASK_ACCESSORY = 0x200"

definition UNIT_FLAG_PLAYER_CONTROLLED :: u32 where "UNIT_FLAG_PLAYER_CONTROLLED = 0x8"
definition UNIT_FLAG_IMMUNE_TO_PC :: u32 where "UNIT_FLAG_IMMUNE_TO_PC = 0x100"
definition UNIT_FLAG_IMMUNE_TO_NPC :: u32 where "UNIT_FLAG_IMMUNE_TO_NPC = 0x200"
definition UNIT_FLAG_PET_IN_COMBAT :: u32 where "UNIT_FLAG_PET_IN_COMBAT = 0x800"
definition UNIT_FLAG_IN_COMBAT :: u32 where "UNIT_FLAG_IN_COMBAT = 0x80000"
definition UNIT_STATE_STUNNED :: u32 where "UNIT_STATE_STUNNED = 0x8"
definition UNIT_STATE_FLEEING :: u32 where "UNIT_STATE_FLEEING = 0x80"
definition UNIT_STATE_IN_FLIGHT :: u32 where "UNIT_STATE_IN_FLIGHT = 0x100"
definition UNIT_STATE_CONFUSED :: u32 where "UNIT_STATE_CONFUSED = 0x800"
definition UNIT_STATE_EVADE :: u32 where "UNIT_STATE_EVADE = 0x400000"
definition UNIT_STATE_CONTROLLED :: u32 where
  "UNIT_STATE_CONTROLLED = UNIT_STATE_CONFUSED OR UNIT_STATE_STUNNED OR UNIT_STATE_FLEEING"

definition HasUnitFlag :: "unit_state \<Rightarrow> u32 \<Rightarrow> bool" where
  "HasUnitFlag u f \<longleftrightarrow> u_flags u AND f \<noteq> 0"

definition SetUnitFlag :: "u32 \<Rightarrow> unit_state \<Rightarrow> unit_state" where
  "SetUnitFlag f u = u\<lparr>u_flags := u_flags u OR f\<rparr>"

definition RemoveUnitFlag :: "u32 \<Rightarrow> unit_state \<Rightarrow> unit_state" where
  "RemoveUnitFlag f u = u\<lparr>u_flags := u_flags u AND NOT f\<rparr>"

definition HasUnitState :: "unit_state \<Rightarrow> u32 \<Rightarrow> bool" where
  "HasUnitState u s \<longleftrightarrow> u_state u AND s \<noteq> 0"

definition HasUnitTypeMask :: "unit_state \<Rightarrow> u32 \<Rightarrow> bool" where
  "HasUnitTypeMask u m \<longleftrightarrow> u_unitTypeMask u AND m \<noteq> 0"

definition IsInCombat :: "unit_state \<Rightarrow> bool" where
  "IsInCombat u \<longleftrightarrow> HasUnitFlag u UNIT_FLAG_IN_COMBAT"

record combat_manager =
  cm_pveRefs :: "(guid \<times> addr) list"
  cm_pvpRefs :: "(guid \<times> addr) list"

record threat_manager =
  tm_ownerCanHaveThreatList :: bool
  tm_updateFlags :: u8
  tm_updateTimer :: u32
  tm_sortedThreatList :: "addr list"
  tm_myThreatListEntries :: "(guid \<times> addr) list"
  tm_needsAIUpdate :: "guid list"
  tm_currentVictimRef :: "addr option"
  tm_fixateRef :: "addr option"
  tm_threatenedByMe :: "(guid \<times> addr) list"
  tm_singleSchoolModifiers :: "rat list"
  tm_multiSchoolModifiers :: "(u32 \<times> rat) list"
  tm_redirectInfo :: "(guid \<times> u32) list"
  tm_redirectRegistry :: "(u32 \<times> (guid \<times> u32) list) list"

datatype effect =
    AtEnterCombat guid
  | AtExitCombat guid
  | AtEngage guid "guid option"
  | AtDisengage guid
  | JustEnteredCombat guid guid
  | JustExitedCombat guid
  | JustStartedThreateningMe guid guid
  | ThreatRemove guid guid
  | ThreatClear guid
  | ThreatUpdate guid "(guid \<times> int) list"
  | HighestThreatUpdate guid guid "(guid \<times> int) list"
  | HeapIncreased addr
  | HeapDecreased addr

record world =
  w_unit :: "guid \<Rightarrow> unit_state"
  w_combat :: "guid \<Rightarrow> combat_manager"
  w_threat :: "guid \<Rightarrow> threat_manager"
  w_cref :: "addr \<Rightarrow> combat_ref option"
  w_tref :: "addr \<Rightarrow> threat_ref option"
  w_next :: addr
  w_log :: "effect list"
  w_crashed :: bool

text \<open>
  What the managers ask of the rest of the game, and the priority queue of boost.
  \<open>ordered lt xs\<close> is the sequence \<open>ordered_begin()\<close> to \<open>ordered_end()\<close> of the heap holding
  \<open>xs\<close>, greatest first; \<open>top()\<close> is its first element.
\<close>

record env =
  IsFriendlyTo :: "guid \<Rightarrow> guid \<Rightarrow> bool"
  IsWithinDistInMap :: "guid \<Rightarrow> guid \<Rightarrow> rat \<Rightarrow> bool"
  IsWithinMeleeRange :: "guid \<Rightarrow> guid \<Rightarrow> bool"
  CanSeeOrDetect :: "guid \<Rightarrow> guid \<Rightarrow> bool"
  IsTargetAcceptable :: "guid \<Rightarrow> guid \<Rightarrow> bool"
  CanCreatureAttack :: "guid \<Rightarrow> guid \<Rightarrow> bool"
  IsImmunedToMeleeOf :: "guid \<Rightarrow> guid \<Rightarrow> bool"
  HasConfuseAura :: "guid \<Rightarrow> bool"
  HasBreakableStun :: "guid \<Rightarrow> bool"
  HasDetauntAuraFrom :: "guid \<Rightarrow> guid \<Rightarrow> bool"
  TauntCasters :: "guid \<Rightarrow> guid list"
  TotalThreatAmounts :: "guid \<Rightarrow> int list"
  ThreatAuraMultiplier :: "guid \<Rightarrow> u32 \<Rightarrow> rat"
  SpellThreatPctMod :: "u32 \<Rightarrow> rat option"
  ApplyThreatSpellMod :: "guid \<Rightarrow> u32 \<Rightarrow> rat \<Rightarrow> rat"
  IsEngaged :: "guid \<Rightarrow> bool"
  VehicleBase :: "guid \<Rightarrow> guid option"
  IsPrivateObject :: "guid \<Rightarrow> bool"
  PrivateOwnerVisible :: "guid \<Rightarrow> guid \<Rightarrow> bool"
  PrivateObjectOwner :: "guid \<Rightarrow> guid"
  GetUnit :: "guid \<Rightarrow> guid \<Rightarrow> guid option"
  ordered :: "(addr \<Rightarrow> addr \<Rightarrow> bool) \<Rightarrow> addr list \<Rightarrow> addr list"

text \<open>
  What is assumed of the heap: its ordered iteration yields every element once. In which
  order is not assumed: the keys change inside the heap, and boost promises the order only
  as long as every change has been notified in the right direction. An \<open>env\<close> belongs to one
  call, so \<open>ordered\<close> stands for the heap as the notifications before it have left it.
\<close>

definition strict_weak :: "('a \<Rightarrow> 'a \<Rightarrow> bool) \<Rightarrow> bool" where
  "strict_weak lt \<longleftrightarrow>
     (\<forall>x. \<not> lt x x) \<and> (\<forall>x y z. lt x y \<longrightarrow> lt y z \<longrightarrow> lt x z) \<and>
     (\<forall>x y z. lt x y \<longrightarrow> lt x z \<or> lt z y)"

definition heap_contract :: "((addr \<Rightarrow> addr \<Rightarrow> bool) \<Rightarrow> addr list \<Rightarrow> addr list) \<Rightarrow> bool" where
  "heap_contract ord \<longleftrightarrow>
     (\<forall>lt xs. mset (ord lt xs) = mset xs)"

text \<open>An insertion sort keeps the contract: it serves the concrete runs of the model.\<close>

fun insert_desc :: "('a \<Rightarrow> 'a \<Rightarrow> bool) \<Rightarrow> 'a \<Rightarrow> 'a list \<Rightarrow> 'a list" where
  "insert_desc lt x [] = [x]"
| "insert_desc lt x (y # ys) = (if lt x y then y # insert_desc lt x ys else x # y # ys)"

definition sort_desc :: "('a \<Rightarrow> 'a \<Rightarrow> bool) \<Rightarrow> 'a list \<Rightarrow> 'a list" where
  "sort_desc lt xs = foldr (insert_desc lt) xs []"

lemma mset_insert_desc [simp]: "mset (insert_desc lt x xs) = add_mset x (mset xs)"
  by (induction xs) auto

lemma set_insert_desc [simp]: "set (insert_desc lt x xs) = insert x (set xs)"
  by (induction xs) auto

lemma sorted_insert_desc:
  assumes "strict_weak lt" "sorted_wrt (\<lambda>x y. \<not> lt x y) xs"
  shows "sorted_wrt (\<lambda>x y. \<not> lt x y) (insert_desc lt x xs)"
  using assms(2)
proof (induction xs)
  case (Cons y ys)
  have irr: "\<not> lt a a" and tr: "lt a b \<Longrightarrow> lt b c \<Longrightarrow> lt a c"
    and sp: "lt a b \<Longrightarrow> lt a c \<or> lt c b" for a b c
    using assms(1) by (auto simp: strict_weak_def)
  show ?case
  proof (cases "lt x y")
    case True
    then have "\<not> lt y x" using tr irr by blast
    with True Cons show ?thesis by auto
  next
    case False
    moreover have "\<not> lt x z" if "z \<in> set ys" for z
      using that False Cons.prems sp [of x z y] by auto
    ultimately show ?thesis using Cons.prems by auto
  qed
qed simp

lemma sorted_sort_desc: "strict_weak lt \<Longrightarrow> sorted_wrt (\<lambda>x y. \<not> lt x y) (sort_desc lt xs)"
  by (induction xs) (auto simp: sort_desc_def intro: sorted_insert_desc)

lemma heap_contract_sort_desc: "heap_contract sort_desc"
proof -
  have "mset (sort_desc lt xs) = mset xs" for lt :: "addr \<Rightarrow> addr \<Rightarrow> bool" and xs
    by (induction xs) (auto simp: sort_desc_def)
  then show ?thesis by (simp add: heap_contract_def)
qed

section \<open>Access\<close>

definition cref :: "world \<Rightarrow> addr \<Rightarrow> combat_ref" where
  "cref w a = the (w_cref w a)"

definition tref :: "world \<Rightarrow> addr \<Rightarrow> threat_ref" where
  "tref w a = the (w_tref w a)"

definition put_cref :: "addr \<Rightarrow> combat_ref \<Rightarrow> world \<Rightarrow> world" where
  "put_cref a r w = w\<lparr>w_cref := (w_cref w)(a \<mapsto> r)\<rparr>"

definition put_tref :: "addr \<Rightarrow> threat_ref \<Rightarrow> world \<Rightarrow> world" where
  "put_tref a r w = w\<lparr>w_tref := (w_tref w)(a \<mapsto> r)\<rparr>"

definition upd_unit :: "guid \<Rightarrow> (unit_state \<Rightarrow> unit_state) \<Rightarrow> world \<Rightarrow> world" where
  "upd_unit u f w = w\<lparr>w_unit := (w_unit w)(u := f (w_unit w u))\<rparr>"

definition upd_combat :: "guid \<Rightarrow> (combat_manager \<Rightarrow> combat_manager) \<Rightarrow> world \<Rightarrow> world" where
  "upd_combat u f w = w\<lparr>w_combat := (w_combat w)(u := f (w_combat w u))\<rparr>"

definition upd_threat :: "guid \<Rightarrow> (threat_manager \<Rightarrow> threat_manager) \<Rightarrow> world \<Rightarrow> world" where
  "upd_threat u f w = w\<lparr>w_threat := (w_threat w)(u := f (w_threat w u))\<rparr>"

definition emit :: "effect \<Rightarrow> world \<Rightarrow> world" where
  "emit x w = w\<lparr>w_log := w_log w @ [x]\<rparr>"

text \<open>\<open>ASSERT c\<close>.\<close>

definition assert_that :: "bool \<Rightarrow> world \<Rightarrow> world" where
  "assert_that c w = (if c then w else w\<lparr>w_crashed := True\<rparr>)"

abbreviation entries :: "world \<Rightarrow> guid \<Rightarrow> (guid \<times> addr) list" where
  "entries w u \<equiv> tm_myThreatListEntries (w_threat w u)"

abbreviation threatened :: "world \<Rightarrow> guid \<Rightarrow> (guid \<times> addr) list" where
  "threatened w u \<equiv> tm_threatenedByMe (w_threat w u)"

lemmas access_defs = cref_def tref_def put_cref_def put_tref_def upd_unit_def upd_combat_def
  upd_threat_def emit_def assert_that_def

lemma flag_simps [simp]:
  "UNIT_FLAG_IN_COMBAT \<noteq> 0"
  "UNIT_FLAG_PET_IN_COMBAT AND UNIT_FLAG_IN_COMBAT = 0"
  by (simp_all add: UNIT_FLAG_IN_COMBAT_def UNIT_FLAG_PET_IN_COMBAT_def)

lemma flag_fixed [simp]:
  "u_typeId (SetUnitFlag f u) = u_typeId u" "u_typeId (RemoveUnitFlag f u) = u_typeId u"
  "u_flagWritten (SetUnitFlag f u) = u_flagWritten u" "u_flagWritten (RemoveUnitFlag f u) = u_flagWritten u"
  by (simp_all add: SetUnitFlag_def RemoveUnitFlag_def)

lemma IsInCombat_flags [simp]:
  "IsInCombat (SetUnitFlag UNIT_FLAG_IN_COMBAT u)"
  "\<not> IsInCombat (RemoveUnitFlag UNIT_FLAG_IN_COMBAT u)"
  "IsInCombat (SetUnitFlag UNIT_FLAG_PET_IN_COMBAT u) = IsInCombat u"
  "IsInCombat (RemoveUnitFlag UNIT_FLAG_PET_IN_COMBAT u) = IsInCombat u"
proof -
  have pet: "NOT UNIT_FLAG_PET_IN_COMBAT AND UNIT_FLAG_IN_COMBAT = UNIT_FLAG_IN_COMBAT"
    by (simp add: UNIT_FLAG_IN_COMBAT_def UNIT_FLAG_PET_IN_COMBAT_def)
  show "IsInCombat (SetUnitFlag UNIT_FLAG_IN_COMBAT u)"
    by (simp add: IsInCombat_def HasUnitFlag_def SetUnitFlag_def and.commute bit.conj_disj_distrib)
  show "\<not> IsInCombat (RemoveUnitFlag UNIT_FLAG_IN_COMBAT u)"
    by (simp add: IsInCombat_def HasUnitFlag_def RemoveUnitFlag_def and.assoc)
  show "IsInCombat (SetUnitFlag UNIT_FLAG_PET_IN_COMBAT u) = IsInCombat u"
    by (simp add: IsInCombat_def HasUnitFlag_def SetUnitFlag_def bit.conj_disj_distrib2)
  show "IsInCombat (RemoveUnitFlag UNIT_FLAG_PET_IN_COMBAT u) = IsInCombat u"
    by (simp add: IsInCombat_def HasUnitFlag_def RemoveUnitFlag_def and.assoc pet)
qed

end
