(* ===== verification/Threat_List.thy ===== *)
theory Threat_List
  imports World_State
begin

text \<open>
  \<open>ThreatReference\<close> and the part of \<open>ThreatManager\<close> (\<open>src/server/game/Combat/\<close>) that
  stays inside the threat lists: the order of the references, the choice of the victim,
  registering and removing references. The operations that start combat are in theory
  \<open>Threat_Manager\<close>.
\<close>

section \<open>ThreatReference\<close>

definition GetThreat :: "threat_ref \<Rightarrow> rat" where
  "GetThreat r = max (f32 (tr_baseAmount r + f32 (of_int (tr_tempModifier r)))) 0"

definition IsOnline :: "threat_ref \<Rightarrow> bool" where
  "IsOnline r \<longleftrightarrow> tr_online r \<ge> ONLINE_STATE_ONLINE"

definition IsAvailable :: "threat_ref \<Rightarrow> bool" where
  "IsAvailable r \<longleftrightarrow> tr_online r > ONLINE_STATE_OFFLINE"

definition IsSuppressed :: "threat_ref \<Rightarrow> bool" where
  "IsSuppressed r \<longleftrightarrow> tr_online r = ONLINE_STATE_SUPPRESSED"

definition IsOffline :: "threat_ref \<Rightarrow> bool" where
  "IsOffline r \<longleftrightarrow> tr_online r \<le> ONLINE_STATE_OFFLINE"

definition IsTaunting :: "threat_ref \<Rightarrow> bool" where
  "IsTaunting r \<longleftrightarrow> tr_taunted r \<ge> TAUNT_STATE_TAUNT"

definition IsDetaunted :: "threat_ref \<Rightarrow> bool" where
  "IsDetaunted r \<longleftrightarrow> tr_taunted r = TAUNT_STATE_DETAUNT"

definition GetTauntState :: "threat_ref \<Rightarrow> u32" where
  "GetTauntState r = (if IsTaunting r then TAUNT_STATE_TAUNT else tr_taunted r)"

lemma online_tests [simp]:
  "IsOnline r \<longleftrightarrow> tr_online r = ONLINE_STATE_ONLINE"
  "IsAvailable r \<longleftrightarrow> tr_online r \<noteq> ONLINE_STATE_OFFLINE"
  "IsOffline r \<longleftrightarrow> tr_online r = ONLINE_STATE_OFFLINE"
  by (cases "tr_online r"; simp add: IsOnline_def IsAvailable_def IsOffline_def
      less_eq_online_state_def less_online_state_def)+

text \<open>\<open>CompareReferencesLT\<close>: is \<open>a\<close> lower on the threat list than \<open>b\<close>?\<close>

definition CompareReferencesLT :: "threat_ref \<Rightarrow> threat_ref \<Rightarrow> rat \<Rightarrow> bool" where
  "CompareReferencesLT a b aWeight \<longleftrightarrow>
     (if tr_online a \<noteq> tr_online b then tr_online a < tr_online b
      else if tr_taunted a \<noteq> tr_taunted b then tr_taunted a < tr_taunted b
      else f32 (GetThreat a * aWeight) < GetThreat b)"

definition CompareThreat :: "world \<Rightarrow> addr \<Rightarrow> addr \<Rightarrow> bool" where
  "CompareThreat w a b \<longleftrightarrow> CompareReferencesLT (tref w a) (tref w b) 1"

text \<open>
  The changes of a single reference, each with the notification it sends to the heap:
  \<open>Some True\<close> is \<open>HeapNotifyIncreased\<close>, \<open>Some False\<close> is \<open>HeapNotifyDecreased\<close>.
\<close>

type_synonym notified_ref = "threat_ref \<times> bool option"

definition AddThreat_ref :: "rat \<Rightarrow> threat_ref \<Rightarrow> notified_ref" where
  "AddThreat_ref amount r =
     (if amount = 0 then (r, None)
      else (r\<lparr>tr_baseAmount := max (f32 (tr_baseAmount r + amount)) 0\<rparr>, Some (amount > 0)))"

definition ScaleThreat_ref :: "rat \<Rightarrow> threat_ref \<Rightarrow> notified_ref" where
  "ScaleThreat_ref factor r =
     (if factor = 1 then (r, None)
      else (r\<lparr>tr_baseAmount := f32 (tr_baseAmount r * factor)\<rparr>, Some (factor > 1)))"

definition UpdateTauntState_ref :: "bool \<Rightarrow> u32 \<Rightarrow> threat_ref \<Rightarrow> notified_ref" where
  "UpdateTauntState_ref detauntAura st r =
     (let st' = (if st < TAUNT_STATE_TAUNT \<and> detauntAura then TAUNT_STATE_DETAUNT else st)
      in if st' = tr_taunted r then (r, None)
         else (r\<lparr>tr_taunted := st'\<rparr>, Some (\<not> st' < tr_taunted r)))"

definition FlagsAllowFighting :: "unit_state \<Rightarrow> unit_state \<Rightarrow> bool" where
  "FlagsAllowFighting a b \<longleftrightarrow>
     (if u_typeId a = TYPEID_UNIT \<and> u_isTrigger a then False
      else if HasUnitFlag a UNIT_FLAG_PLAYER_CONTROLLED
      then \<not> HasUnitFlag b UNIT_FLAG_IMMUNE_TO_PC
      else \<not> HasUnitFlag b UNIT_FLAG_IMMUNE_TO_NPC)"

definition ShouldBeOffline :: "env \<Rightarrow> world \<Rightarrow> threat_ref \<Rightarrow> bool" where
  "ShouldBeOffline env w r =
     (let own = tr_owner r; vic = tr_victim r in
      if \<not> CanSeeOrDetect env own vic then True
      else if \<not> IsTargetAcceptable env own vic \<or> \<not> CanCreatureAttack env own vic then True
      else if \<not> FlagsAllowFighting (w_unit w own) (w_unit w vic)
              \<or> \<not> FlagsAllowFighting (w_unit w vic) (w_unit w own) then True
      else False)"

definition ShouldBeSuppressed :: "env \<Rightarrow> threat_ref \<Rightarrow> bool" where
  "ShouldBeSuppressed env r =
     (if IsTaunting r then False
      else if IsImmunedToMeleeOf env (tr_victim r) (tr_owner r) then True
      else if HasConfuseAura env (tr_victim r) then True
      else if HasBreakableStun env (tr_victim r) then True
      else False)"

section \<open>Notifications, packets and flags\<close>

definition UpdateNeeded :: u8 where "UpdateNeeded = 1"
definition ForceHighestUpdate :: u8 where "ForceHighestUpdate = 2"

definition add_update_flag :: "u8 \<Rightarrow> guid \<Rightarrow> world \<Rightarrow> world" where
  "add_update_flag f u = upd_threat u (\<lambda>t. t\<lparr>tm_updateFlags := tm_updateFlags t OR f\<rparr>)"

fun HeapNotify :: "addr \<Rightarrow> bool option \<Rightarrow> world \<Rightarrow> world" where
  "HeapNotify a None w = w"
| "HeapNotify a (Some True) w = emit (HeapIncreased a) w"
| "HeapNotify a (Some False) w = emit (HeapDecreased a) w"

text \<open>Storing a changed reference, telling the heap and marking the list as changed.\<close>

definition apply_ref :: "addr \<Rightarrow> (threat_ref \<Rightarrow> notified_ref) \<Rightarrow> world \<Rightarrow> world" where
  "apply_ref a f w =
     (let (r', note) = f (tref w a) in
      if note = None then w
      else add_update_flag UpdateNeeded (tr_owner r') (HeapNotify a note (put_tref a r' w)))"

definition RegisterForAIUpdate :: "guid \<Rightarrow> guid \<Rightarrow> world \<Rightarrow> world" where
  "RegisterForAIUpdate u g = upd_threat u (\<lambda>t. t\<lparr>tm_needsAIUpdate := tm_needsAIUpdate t @ [g]\<rparr>)"

definition SendRemoveToClients :: "guid \<Rightarrow> guid \<Rightarrow> world \<Rightarrow> world" where
  "SendRemoveToClients u victim = emit (ThreatRemove u victim)"

definition SendClearAllThreatToClients :: "guid \<Rightarrow> world \<Rightarrow> world" where
  "SendClearAllThreatToClients u = emit (ThreatClear u)"

definition threat_infos :: "world \<Rightarrow> guid \<Rightarrow> (guid \<times> int) list" where
  "threat_infos w u =
     map (\<lambda>a. (tr_victim (tref w a), \<lfloor>f32 (GetThreat (tref w a) * 100)\<rfloor>))
       (filter (\<lambda>a. IsAvailable (tref w a)) (tm_sortedThreatList (w_threat w u)))"

definition SendThreatListToClients :: "bool \<Rightarrow> guid \<Rightarrow> world \<Rightarrow> world" where
  "SendThreatListToClients newHighest u w =
     (if newHighest
      then emit (HighestThreatUpdate u
             (tr_victim (tref w (the (tm_currentVictimRef (w_threat w u))))) (threat_infos w u)) w
      else emit (ThreatUpdate u (threat_infos w u)) w)"

definition UpdateOffline :: "env \<Rightarrow> addr \<Rightarrow> world \<Rightarrow> world" where
  "UpdateOffline env a w =
     (let r = tref w a; off = ShouldBeOffline env w r in
      if off = IsOffline r then w
      else if off
      then SendRemoveToClients (tr_owner r) (tr_victim r)
             (HeapNotify a (Some False) (put_tref a (r\<lparr>tr_online := ONLINE_STATE_OFFLINE\<rparr>) w))
      else add_update_flag ForceHighestUpdate (tr_owner r)
             (RegisterForAIUpdate (tr_owner r) (tr_victim r)
               (HeapNotify a (Some True)
                 (put_tref a
                   (r\<lparr>tr_online := (if ShouldBeSuppressed env r then ONLINE_STATE_SUPPRESSED
                                    else ONLINE_STATE_ONLINE)\<rparr>) w))))"

section \<open>The choice of the victim\<close>

datatype victim_choice = Chosen "addr option" | Abort

text \<open>The walk down the ordered list when the highest is ranged and below 130%.\<close>

fun reselect_loop :: "(addr \<Rightarrow> bool) \<Rightarrow> (addr \<Rightarrow> bool) \<Rightarrow> addr \<Rightarrow> addr list \<Rightarrow> victim_choice" where
  "reselect_loop breaks110 melee old [] = Abort"
| "reselect_loop breaks110 melee old (nxt # it) =
     (if nxt = old then Chosen (Some nxt)
      else if \<not> breaks110 nxt then Chosen (Some old)
      else if melee nxt then Chosen (Some nxt)
      else reselect_loop breaks110 melee old it)"

definition select_highest ::
    "(addr \<Rightarrow> threat_ref) \<Rightarrow> addr option \<Rightarrow> addr list \<Rightarrow> (addr \<Rightarrow> bool) \<Rightarrow> victim_choice" where
  "select_highest ref oldVictim sortedList melee =
     (let highest = hd sortedList in
      if \<not> IsAvailable (ref highest) then Chosen None
      else case oldVictim of
        None \<Rightarrow> Chosen (Some highest)
      | Some old \<Rightarrow>
          if highest = old then Chosen (Some highest)
          else if \<not> CompareReferencesLT (ref old) (ref highest) (f32 (11 / 10))
          then Chosen (Some old)
          else if CompareReferencesLT (ref old) (ref highest) (f32 (13 / 10))
          then Chosen (Some highest)
          else if melee highest then Chosen (Some highest)
          else reselect_loop (\<lambda>a. CompareReferencesLT (ref old) (ref a) (f32 (11 / 10)))
                 melee old sortedList)"

text \<open>\<open>ReselectVictim\<close> behind the update of the online states.\<close>

definition oldVictimRef :: "guid \<Rightarrow> world \<Rightarrow> addr option" where
  "oldVictimRef u w =
     (case tm_currentVictimRef (w_threat w u) of
        None \<Rightarrow> None
      | Some a \<Rightarrow> if IsOffline (tref w a) then None else Some a)"

definition select_victim :: "env \<Rightarrow> guid \<Rightarrow> world \<Rightarrow> victim_choice" where
  "select_victim env u w =
     (let t = w_threat w u;
          choice = select_highest (tref w) (oldVictimRef u w)
                     (ordered env (CompareThreat w) (tm_sortedThreatList t))
                     (\<lambda>a. IsWithinMeleeRange env u (tr_victim (tref w a)))
      in case tm_fixateRef t of
           Some f \<Rightarrow> if IsAvailable (tref w f) then Chosen (Some f) else choice
         | None \<Rightarrow> choice)"

definition update_all_offline :: "env \<Rightarrow> guid \<Rightarrow> world \<Rightarrow> world" where
  "update_all_offline env u w = fold (UpdateOffline env) (map snd (entries w u)) w"

definition ReselectVictim :: "env \<Rightarrow> guid \<Rightarrow> world \<Rightarrow> victim_choice \<times> world" where
  "ReselectVictim env u w =
     (if tm_sortedThreatList (w_threat w u) = [] then (Chosen None, w)
      else let w' = update_all_offline env u w in (select_victim env u w', w'))"

text \<open>
  The loop of \<open>ProcessAIUpdates\<close> over the GUIDs taken out of \<open>_needsAIUpdate\<close>; the function
  asserts that the owner is a creature.
\<close>

fun process_updates :: "guid \<Rightarrow> guid list \<Rightarrow> world \<Rightarrow> world" where
  "process_updates u [] w = w"
| "process_updates u (g # v) w =
     process_updates u v
       (case map_of (entries w u) g of
          None \<Rightarrow> w
        | Some a \<Rightarrow> emit (JustStartedThreateningMe u (tr_victim (tref w a))) w)"

definition ProcessAIUpdates :: "guid \<Rightarrow> world \<Rightarrow> world" where
  "ProcessAIUpdates u w =
     (let w0 = assert_that (u_typeId (w_unit w u) = TYPEID_UNIT) w;
          v = tm_needsAIUpdate (w_threat w u);
          w' = upd_threat u (\<lambda>t. t\<lparr>tm_needsAIUpdate := []\<rparr>) w0
      in if \<not> u_hasAI (w_unit w u) then w' else process_updates u v w')"

definition UpdateVictim :: "env \<Rightarrow> guid \<Rightarrow> world \<Rightarrow> world" where
  "UpdateVictim env u w =
     (case ReselectVictim env u w of
        (Abort, w1) \<Rightarrow> assert_that False w1
      | (Chosen newVictim, w1) \<Rightarrow>
          let flags = tm_updateFlags (w_threat w1 u);
              newHighest = newVictim \<noteq> None \<and>
                (newVictim \<noteq> tm_currentVictimRef (w_threat w1 u)
                 \<or> flags AND ForceHighestUpdate \<noteq> 0);
              w2 = upd_threat u (\<lambda>t. t\<lparr>tm_currentVictimRef := newVictim\<rparr>) w1;
              w3 = (if newHighest \<or> flags AND UpdateNeeded \<noteq> 0
                    then upd_threat u (\<lambda>t. t\<lparr>tm_updateFlags := 0\<rparr>)
                           (SendThreatListToClients newHighest u w2)
                    else w2)
          in ProcessAIUpdates u w3)"

section \<open>Registering and removing references\<close>

definition PutThreatListRef :: "guid \<Rightarrow> guid \<Rightarrow> addr \<Rightarrow> world \<Rightarrow> world" where
  "PutThreatListRef u g a w =
     upd_threat u
       (\<lambda>t. t\<lparr>tm_myThreatListEntries := AList.update g a (tm_myThreatListEntries t),
               tm_sortedThreatList := a # tm_sortedThreatList t\<rparr>)
       (assert_that (map_of (entries w u) g = None) (add_update_flag UpdateNeeded u w))"

definition PutThreatenedByMeRef :: "guid \<Rightarrow> guid \<Rightarrow> addr \<Rightarrow> world \<Rightarrow> world" where
  "PutThreatenedByMeRef u g a w =
     upd_threat u (\<lambda>t. t\<lparr>tm_threatenedByMe := AList.update g a (tm_threatenedByMe t)\<rparr>)
       (assert_that (map_of (threatened w u) g = None) w)"

definition PurgeThreatListRef :: "guid \<Rightarrow> guid \<Rightarrow> world \<Rightarrow> world" where
  "PurgeThreatListRef u g w =
     (case map_of (entries w u) g of
        None \<Rightarrow> w
      | Some ref \<Rightarrow>
          upd_threat u
            (\<lambda>t. t\<lparr>tm_myThreatListEntries := AList.delete g (tm_myThreatListEntries t),
                    tm_sortedThreatList := remove1 ref (tm_sortedThreatList t),
                    tm_fixateRef := (if tm_fixateRef t = Some ref then None else tm_fixateRef t),
                    tm_currentVictimRef := (if tm_currentVictimRef t = Some ref then None
                                            else tm_currentVictimRef t)\<rparr>) w)"

definition PurgeThreatenedByMeRef :: "guid \<Rightarrow> guid \<Rightarrow> world \<Rightarrow> world" where
  "PurgeThreatenedByMeRef u g =
     upd_threat u (\<lambda>t. t\<lparr>tm_threatenedByMe := AList.delete g (tm_threatenedByMe t)\<rparr>)"

definition UnregisterAndFree :: "addr \<Rightarrow> world \<Rightarrow> world" where
  "UnregisterAndFree a w =
     (let r = tref w a;
          w1 = PurgeThreatListRef (tr_owner r) (tr_victim r) w;
          w2 = PurgeThreatenedByMeRef (tr_victim r) (tr_owner r) w1
      in w2\<lparr>w_tref := (w_tref w2)(a := None)\<rparr>)"

definition ClearThreat_ref :: "env \<Rightarrow> guid \<Rightarrow> addr \<Rightarrow> world \<Rightarrow> world" where
  "ClearThreat_ref env u a w =
     (let w1 = UnregisterAndFree a (SendRemoveToClients u (tr_victim (tref w a)) w)
      in if tm_currentVictimRef (w_threat w1 u) = None then UpdateVictim env u w1 else w1)"

definition ClearThreat :: "env \<Rightarrow> guid \<Rightarrow> guid \<Rightarrow> world \<Rightarrow> world" where
  "ClearThreat env u target w =
     (case map_of (entries w u) target of
        None \<Rightarrow> w
      | Some a \<Rightarrow> ClearThreat_ref env u a w)"

text \<open>The loops \<open>while (!empty())\<close> are \<open>while_option\<close>: \<open>None\<close> if they never end.\<close>

definition ClearAllThreat :: "guid \<Rightarrow> world \<Rightarrow> world option" where
  "ClearAllThreat u w =
     (if entries w u \<noteq> []
      then while_option (\<lambda>w. entries w u \<noteq> [])
             (\<lambda>w. UnregisterAndFree (snd (hd (entries w u))) w) (SendClearAllThreatToClients u w)
      else Some w)"

definition RemoveMeFromThreatLists :: "env \<Rightarrow> guid \<Rightarrow> world \<Rightarrow> world option" where
  "RemoveMeFromThreatLists env u w =
     while_option (\<lambda>w. threatened w u \<noteq> [])
       (\<lambda>w. ClearThreat env (tr_owner (tref w (snd (hd (threatened w u))))) u w) w"

section \<open>The order of the references\<close>

lemma GetThreat_nonneg [simp]: "0 \<le> GetThreat r"
  by (simp add: GetThreat_def)

lemma is_f32_GetThreat [simp]: "is_f32 (GetThreat r)"
  by (auto simp: GetThreat_def max_def)

lemma f32_GetThreat [simp]: "f32 (GetThreat r) = GetThreat r"
  using is_f32_GetThreat by (simp add: is_f32_def)

lemma strict_weak_CompareReferences: "strict_weak (\<lambda>r s. CompareReferencesLT r s 1)"
  unfolding strict_weak_def CompareReferencesLT_def
  by (auto split: if_splits)

lemma strict_weak_CompareThreat: "strict_weak (CompareThreat w)"
  using strict_weak_CompareReferences unfolding strict_weak_def CompareThreat_def by blast

text \<open>What lies no lower than a reference that breaks a percentage breaks it too.\<close>

lemma breaks_upward:
  assumes "CompareReferencesLT r b k" "\<not> CompareReferencesLT a b 1"
  shows "CompareReferencesLT r a k"
  using assms by (auto simp: CompareReferencesLT_def split: if_splits)

lemma breaks_less:
  assumes "CompareReferencesLT r b k'" "k \<le> k'"
  shows "CompareReferencesLT r b k"
  using assms f32_mono [of "GetThreat r * k" "GetThreat r * k'"] mult_left_mono [of k k' "GetThreat r"]
  by (auto simp: CompareReferencesLT_def split: if_splits)

lemma not_breaks_self: "1 \<le> k \<Longrightarrow> \<not> CompareReferencesLT r r k"
  using f32_mult_ge [of "GetThreat r" k] by (simp add: CompareReferencesLT_def not_less)

lemma percent_order: "1 \<le> f32 (11 / 10)" "f32 (11 / 10) \<le> f32 (13 / 10)"
proof -
  have "f32 1 = 1"
    using is_f32_f32 [of 1] by (simp add: f32_def f32_pos_def ulp_def ilog2_eqI [of 0])
  then show "1 \<le> f32 (11 / 10)" using f32_mono [of 1 "11 / 10"] by simp
  show "f32 (11 / 10) \<le> f32 (13 / 10)" by (rule f32_mono) simp
qed

lemma available_upward:
  assumes "\<not> CompareReferencesLT x y k" "IsAvailable y"
  shows "IsAvailable x"
proof (cases "tr_online x = tr_online y")
  case False
  with assms(1) have "\<not> tr_online x < tr_online y" by (simp add: CompareReferencesLT_def)
  with assms(2) show ?thesis by (cases "tr_online x"; cases "tr_online y"; simp add: less_online_state_def)
qed (use assms(2) in simp)

lemma reselect_loop_result:
  assumes "old \<in> set xs" "sorted_wrt (\<lambda>x y. \<not> lt x y) xs" "\<not> breaks old"
    and "\<And>x y. breaks y \<Longrightarrow> \<not> lt x y \<Longrightarrow> breaks x" "\<And>x. \<not> lt x x"
  shows "reselect_loop breaks melee old xs = Chosen (Some old) \<and> (\<forall>b \<in> set xs. \<not> (breaks b \<and> melee b))
    \<or> (\<exists>n \<in> set xs. reselect_loop breaks melee old xs = Chosen (Some n) \<and> n \<noteq> old
         \<and> breaks n \<and> melee n \<and> (\<forall>b \<in> set xs. lt n b \<longrightarrow> \<not> melee b))"
  using assms(1,2)
proof (induction xs)
  case (Cons x xs)
  note up = assms(4)
  consider "x = old" | "x \<noteq> old" "\<not> breaks x" | "x \<noteq> old" "breaks x" "melee x"
    | "x \<noteq> old" "breaks x" "\<not> melee x" by blast
  then show ?case
  proof cases
    case 1
    then have "\<not> breaks b" if "b \<in> set xs" for b
      using up [of b x] that Cons.prems assms(3) by auto
    with 1 assms(3) show ?thesis by auto
  next
    case 2
    then have "\<not> breaks b" if "b \<in> set xs" for b
      using up [of b x] that Cons.prems by auto
    with 2 show ?thesis by auto
  next
    case 3
    with Cons.prems assms(5) show ?thesis by auto
  next
    case 4
    with Cons show ?thesis by auto
  qed
qed simp

text \<open>
  What the selection promises whatever the order of the heap, for the references \<open>as\<close> of the
  list: an available reference of the list, and in place of an available old victim only one
  that breaks 110% of it and is in melee range or breaks 130%.
\<close>

definition allowed_victim ::
    "(addr \<Rightarrow> threat_ref) \<Rightarrow> addr option \<Rightarrow> addr set \<Rightarrow> (addr \<Rightarrow> bool) \<Rightarrow> addr option \<Rightarrow> bool" where
  "allowed_victim ref oldVictim as melee v \<longleftrightarrow>
     (let breaks = (\<lambda>k a b. CompareReferencesLT (ref a) (ref b) k)
      in case v of
        None \<Rightarrow> as = {} \<or> (\<exists>a \<in> as. IsOffline (ref a))
      | Some n \<Rightarrow> n \<in> as \<and> IsAvailable (ref n) \<and>
          (case oldVictim of
             None \<Rightarrow> True
           | Some old \<Rightarrow> n = old \<or>
               breaks (f32 (11 / 10)) old n \<and> (melee n \<or> breaks (f32 (13 / 10)) old n)))"

lemma reselect_loop_allowed:
  assumes "old \<in> set xs"
  shows "\<exists>n \<in> set xs. reselect_loop breaks melee old xs = Chosen (Some n) \<and> (n = old \<or> breaks n \<and> melee n)"
  using assms by (induction xs) auto

lemma breaks_available:
  assumes "CompareReferencesLT (ref old) (ref n) (f32 (11 / 10))" "IsAvailable (ref old)"
  shows "IsAvailable (ref n)"
proof -
  have "\<not> CompareReferencesLT (ref n) (ref old) 1"
    using breaks_less [OF assms(1) percent_order(1)] strict_weak_CompareReferences by (meson strict_weak_def)
  then show ?thesis using assms(2) by (rule available_upward)
qed

lemma select_highest_allowed:
  assumes "xs \<noteq> []" and old: "\<And>a. oldVictim = Some a \<Longrightarrow> a \<in> set xs \<and> IsAvailable (ref a)"
  shows "\<exists>v. select_highest ref oldVictim xs melee = Chosen v \<and> allowed_victim ref oldVictim (set xs) melee v"
proof (cases "IsAvailable (ref (hd xs))")
  case False
  then show ?thesis using assms(1) by (auto simp: select_highest_def allowed_victim_def intro!: bexI [of _ "hd xs"])
next
  case avh: True
  show ?thesis
  proof (cases oldVictim)
    case None
    then show ?thesis using avh assms(1) by (auto simp: select_highest_def allowed_victim_def)
  next
    case (Some o')
    let ?lt = "\<lambda>k b. CompareReferencesLT (ref o') (ref b) k"
    note o = old [OF Some]
    obtain n where n: "n \<in> set xs" "n = o' \<or> ?lt (f32 (11 / 10)) n \<and> melee n"
      "reselect_loop (?lt (f32 (11 / 10))) melee o' xs = Chosen (Some n)"
      using reselect_loop_allowed [of o' xs "?lt (f32 (11 / 10))" melee] o by blast
    have "IsAvailable (ref n)" using n(2) o breaks_available [of ref o' n] by blast
    then show ?thesis using avh Some n o assms(1) hd_in_set [OF assms(1)]
      by (auto simp: select_highest_def allowed_victim_def Let_def)
  qed
qed

text \<open>
  What it promises when the heap is in order: nobody without an
  available reference; without an old victim the highest; otherwise either the old victim,
  if none in melee range breaks 110% and none breaks 130%, or one that breaks 130% and is
  highest, or one in melee range that breaks 110% with nobody in melee range above it.
\<close>

definition good_victim ::
    "(addr \<Rightarrow> threat_ref) \<Rightarrow> addr option \<Rightarrow> addr set \<Rightarrow> (addr \<Rightarrow> bool) \<Rightarrow> addr option \<Rightarrow> bool" where
  "good_victim ref oldVictim as melee v \<longleftrightarrow>
     (let lower = (\<lambda>k a b. CompareReferencesLT (ref a) (ref b) k); p110 = f32 (11 / 10); p130 = f32 (13 / 10)
      in case v of
        None \<Rightarrow> (\<forall>a \<in> as. IsOffline (ref a))
      | Some n \<Rightarrow> n \<in> as \<and> IsAvailable (ref n) \<and>
          (case oldVictim of
             None \<Rightarrow> (\<forall>b \<in> as. \<not> lower 1 n b)
           | Some old \<Rightarrow>
               n = old \<and> (\<forall>b \<in> as. \<not> lower p130 old b \<and> \<not> (lower p110 old b \<and> melee b))
               \<or> lower p130 old n \<and> (\<forall>b \<in> as. \<not> lower 1 n b)
               \<or> lower p110 old n \<and> melee n \<and> (\<forall>b \<in> as. lower 1 n b \<longrightarrow> \<not> melee b)))"

lemma select_highest_good:
  assumes xs: "xs \<noteq> []" and srt: "sorted_wrt (\<lambda>x y. \<not> CompareReferencesLT (ref x) (ref y) 1) xs"
    and old: "\<And>a. oldVictim = Some a \<Longrightarrow> a \<in> set xs \<and> IsAvailable (ref a)"
  shows "\<exists>v. select_highest ref oldVictim xs melee = Chosen v \<and> good_victim ref oldVictim (set xs) melee v"
proof -
  obtain h t where ht: "xs = h # t" using xs by (cases xs) auto
  have irr: "\<not> CompareReferencesLT r r 1" for r using not_breaks_self [of 1] by simp
  have top: "\<not> CompareReferencesLT (ref h) (ref b) 1" if "b \<in> set xs" for b
    using srt that irr by (auto simp: ht)
  have av: "IsAvailable (ref a)" if "\<not> CompareReferencesLT (ref a) (ref b) 1" "IsAvailable (ref b)" for a b
    using that available_upward by blast
  show ?thesis
  proof (cases "IsAvailable (ref h)")
    case False
    then have "IsOffline (ref a)" if "a \<in> set xs" for a using av top that by auto
    with False show ?thesis by (auto simp: select_highest_def good_victim_def ht)
  next
    case avh: True
    show ?thesis
    proof (cases oldVictim)
      case None
      with avh top show ?thesis by (auto simp: select_highest_def good_victim_def ht)
    next
      case (Some old)
      then have o: "old \<in> set xs" "IsAvailable (ref old)" using assms(3) by auto
      let ?lt = "\<lambda>k a b. CompareReferencesLT (ref a) (ref b) k"
      have up: "?lt k old b \<Longrightarrow> \<not> ?lt 1 a b \<Longrightarrow> ?lt k old a" for k a b by (rule breaks_upward)
      have h_all: "?lt k old h" if "?lt k old b" "b \<in> set xs" for k b using up top that by blast
      have p: "?lt (f32 (11 / 10)) old b" if "?lt (f32 (13 / 10)) old b" for b
        using breaks_less that percent_order(2) by blast
      consider "h = old" | "h \<noteq> old" "\<not> ?lt (f32 (11 / 10)) old h" | "h \<noteq> old" "?lt (f32 (13 / 10)) old h"
        | "h \<noteq> old" "?lt (f32 (11 / 10)) old h" "\<not> ?lt (f32 (13 / 10)) old h" "melee h"
        | "h \<noteq> old" "?lt (f32 (11 / 10)) old h" "\<not> ?lt (f32 (13 / 10)) old h" "\<not> melee h"
        by blast
      then show ?thesis
      proof cases
        case 1
        have "\<not> ?lt (f32 (11 / 10)) old b" if "b \<in> set xs" for b
          using h_all [OF _ that] not_breaks_self [OF percent_order(1)] 1 by blast
        with 1 avh Some o p show ?thesis
          by (auto simp: select_highest_def good_victim_def ht Let_def)
      next
        case 2
        have "\<not> ?lt (f32 (11 / 10)) old b" if "b \<in> set xs" for b using h_all [OF _ that] 2 by blast
        with 2 avh Some o p show ?thesis
          by (auto simp: select_highest_def good_victim_def ht Let_def)
      next
        case 3
        with avh Some top p show ?thesis
          by (auto simp: select_highest_def good_victim_def ht Let_def)
      next
        case 4
        with avh Some top p show ?thesis
          by (auto simp: select_highest_def good_victim_def ht Let_def)
      next
        case 5
        have sel: "select_highest ref oldVictim xs melee
            = reselect_loop (?lt (f32 (11 / 10)) old) melee old xs"
          using 5 avh Some by (simp add: select_highest_def ht)
        have no130: "\<not> ?lt (f32 (13 / 10)) old b" if "b \<in> set xs" for b using h_all [OF _ that] 5 by blast
        have "?lt (f32 (11 / 10)) old n \<Longrightarrow> IsAvailable (ref n)" for n
          using breaks_available [of ref old n] o(2) by blast
        with reselect_loop_result [of old xs "?lt 1" "?lt (f32 (11 / 10)) old" melee] o srt up
          not_breaks_self [OF percent_order(1)] no130 Some irr
        show ?thesis unfolding sel good_victim_def by (auto simp: Let_def)
      qed
    qed
  qed
qed

end
