(* ===== verification/Threat_Links.thy ===== *)
theory Threat_Links
  imports Threat_List
begin

text \<open>
  The invariant of the threat lists: every \<open>ThreatReference\<close> lies in exactly the two maps
  and the heap its documentation names (\<open>ThreatManager.h\<close>), nothing points to a freed
  one, its amount is a non-negative \<open>float\<close>, and only creatures have lists; and what the operations of theory
  \<open>Threat_List\<close> do to it.
\<close>

section \<open>The invariant\<close>

abbreviation sorted_list :: "world \<Rightarrow> guid \<Rightarrow> addr list" where
  "sorted_list w u \<equiv> tm_sortedThreatList (w_threat w u)"

abbreviation current :: "world \<Rightarrow> guid \<Rightarrow> addr option" where
  "current w u \<equiv> tm_currentVictimRef (w_threat w u)"

abbreviation fixate :: "world \<Rightarrow> guid \<Rightarrow> addr option" where
  "fixate w u \<equiv> tm_fixateRef (w_threat w u)"

definition ends :: "world \<Rightarrow> addr \<Rightarrow> (guid \<times> guid) option" where
  "ends w a = map_option (\<lambda>r. (tr_owner r, tr_victim r)) (w_tref w a)"

definition threat_links :: "world \<Rightarrow> bool" where
  "threat_links w \<longleftrightarrow>
     (\<forall>u v. map_of (entries w u) v = map_of (threatened w v) u) \<and>
     (\<forall>u v a. map_of (entries w u) v = Some a \<longleftrightarrow> ends w a = Some (u, v)) \<and>
     (\<forall>a. w_next w \<le> a \<longrightarrow> ends w a = None) \<and>
     (\<forall>u. distinct (map fst (entries w u)) \<and> distinct (map fst (threatened w u))
          \<and> distinct (sorted_list w u)) \<and>
     (\<forall>u a. a \<in> set (sorted_list w u) \<longleftrightarrow> (\<exists>v. map_of (entries w u) v = Some a)) \<and>
     (\<forall>u a. fixate w u = Some a \<longrightarrow> a \<in> set (sorted_list w u))"

definition current_mem :: "world \<Rightarrow> bool" where
  "current_mem w \<longleftrightarrow> (\<forall>u a. current w u = Some a \<longrightarrow> a \<in> set (sorted_list w u))"

definition current_ok :: "world \<Rightarrow> bool" where
  "current_ok w \<longleftrightarrow> current_mem w \<and> (\<forall>u a. current w u = Some a \<longrightarrow> IsAvailable (tref w a))"

definition amounts_ok :: "world \<Rightarrow> bool" where
  "amounts_ok w \<longleftrightarrow>
     (\<forall>a r. w_tref w a = Some r \<longrightarrow> 0 \<le> tr_baseAmount r \<and> is_f32 (tr_baseAmount r))"

abbreviation can_have :: "world \<Rightarrow> guid \<Rightarrow> bool" where
  "can_have w u \<equiv> tm_ownerCanHaveThreatList (w_threat w u)"

abbreviation creature :: "world \<Rightarrow> guid \<Rightarrow> bool" where
  "creature w u \<equiv> u_typeId (w_unit w u) = TYPEID_UNIT"

definition creature_lists :: "world \<Rightarrow> bool" where
  "creature_lists w \<longleftrightarrow> (\<forall>u. can_have w u \<or> entries w u \<noteq> [] \<longrightarrow> creature w u)"

definition threat_ok :: "world \<Rightarrow> bool" where
  "threat_ok w \<longleftrightarrow> threat_links w \<and> current_ok w \<and> amounts_ok w \<and> creature_lists w"

lemma threat_ok_creature:
  assumes "threat_ok w"
  shows "can_have w u \<Longrightarrow> creature w u" "map_of (entries w u) v = Some a \<Longrightarrow> creature w u"
    "sorted_list w u \<noteq> [] \<Longrightarrow> creature w u"
proof -
  have c: "creature_lists w" and ln: "threat_links w" using assms by (simp_all add: threat_ok_def)
  show "can_have w u \<Longrightarrow> creature w u" using c by (simp add: creature_lists_def)
  show m: "creature w u" if "map_of (entries w u) v = Some a" for v a
    using c that by (cases "entries w u = []") (simp_all add: creature_lists_def)
  assume "sorted_list w u \<noteq> []"
  then obtain a where "a \<in> set (sorted_list w u)" by (cases "sorted_list w u") auto
  then show "creature w u"
    using ln m unfolding threat_links_def by blast
qed

lemma threat_linksD:
  assumes "threat_links w"
  shows "map_of (entries w u) v = map_of (threatened w v) u"
    "map_of (entries w u) v = Some a \<longleftrightarrow> ends w a = Some (u, v)"
    "w_next w \<le> a \<Longrightarrow> ends w a = None"
    "distinct (map fst (entries w u))" "distinct (map fst (threatened w u))"
    "distinct (sorted_list w u)"
    "a \<in> set (sorted_list w u) \<longleftrightarrow> (\<exists>v. map_of (entries w u) v = Some a)"
    "fixate w u = Some a \<Longrightarrow> a \<in> set (sorted_list w u)"
  using assms unfolding threat_links_def by blast+

lemma threat_linksI:
  assumes "\<And>u v. map_of (entries w u) v = map_of (threatened w v) u"
    "\<And>u v a. map_of (entries w u) v = Some a \<longleftrightarrow> ends w a = Some (u, v)"
    "\<And>a. w_next w \<le> a \<Longrightarrow> ends w a = None"
    "\<And>u. distinct (map fst (entries w u))" "\<And>u. distinct (map fst (threatened w u))"
    "\<And>u. distinct (sorted_list w u)"
    "\<And>u a. a \<in> set (sorted_list w u) \<longleftrightarrow> (\<exists>v. map_of (entries w u) v = Some a)"
    "\<And>u a. fixate w u = Some a \<Longrightarrow> a \<in> set (sorted_list w u)"
  shows "threat_links w"
  unfolding threat_links_def using assms by blast

lemma ends_Some:
  "ends w a = Some (u, v) \<longleftrightarrow>
     (\<exists>r. w_tref w a = Some r \<and> tref w a = r \<and> tr_owner r = u \<and> tr_victim r = v)"
  by (auto simp: ends_def tref_def)

section \<open>What operations on the references leave alone\<close>

text \<open>
  \<open>quiet w w'\<close>: from \<open>w\<close> to \<open>w'\<close> only amounts, online and taunt states, update flags,
  pending notices and the log may change, and amounts stay in order.
\<close>

definition skel :: "world \<Rightarrow> _" where
  "skel w = ((w_unit w, w_combat w, w_cref w, w_next w),
     (\<lambda>u. (entries w u, threatened w u, sorted_list w u, fixate w u, can_have w u)), ends w)"

definition quiet :: "world \<Rightarrow> world \<Rightarrow> bool" where
  "quiet w w' \<longleftrightarrow> skel w' = skel w \<and> (amounts_ok w \<longrightarrow> amounts_ok w')
     \<and> (w_crashed w' \<longrightarrow> w_crashed w)"

lemma quiet_refl [simp, intro]: "quiet w w"
  by (simp add: quiet_def)

lemma quiet_trans: "quiet w w' \<Longrightarrow> quiet w' w'' \<Longrightarrow> quiet w w''"
  by (simp add: quiet_def)

lemma skel_eqD:
  assumes "skel w' = skel w"
  shows "w_unit w' = w_unit w" "w_combat w' = w_combat w" "w_cref w' = w_cref w" "w_next w' = w_next w"
    "entries w' u = entries w u" "threatened w' u = threatened w u"
    "sorted_list w' u = sorted_list w u" "fixate w' u = fixate w u" "ends w' = ends w"
    "can_have w' u = can_have w u"
  using assms by (auto simp: skel_def dest: fun_cong [where x = u])

lemma skel_links: "skel w' = skel w \<Longrightarrow> threat_links w' = threat_links w"
  by (simp add: threat_links_def skel_eqD [of w' w])

lemma skel_creatures: "skel w' = skel w \<Longrightarrow> creature_lists w' = creature_lists w"
  by (simp add: creature_lists_def skel_eqD [of w' w])

lemma skel_assert [simp]: "skel (assert_that c w) = skel w"
  by (auto simp: skel_def assert_that_def ends_def)

lemma skel_emit [simp]: "skel (emit x w) = skel w"
  by (auto simp: skel_def emit_def ends_def)

lemma skel_upd_threat:
  assumes "\<And>t. tm_myThreatListEntries (f t) = tm_myThreatListEntries t"
    "\<And>t. tm_threatenedByMe (f t) = tm_threatenedByMe t"
    "\<And>t. tm_sortedThreatList (f t) = tm_sortedThreatList t" "\<And>t. tm_fixateRef (f t) = tm_fixateRef t"
    "\<And>t. tm_ownerCanHaveThreatList (f t) = tm_ownerCanHaveThreatList t"
  shows "skel (upd_threat u f w) = skel w"
  using assms by (auto simp: skel_def upd_threat_def ends_def fun_eq_iff)

lemma current_upd_threat:
  assumes "\<And>t. tm_currentVictimRef (f t) = tm_currentVictimRef t"
  shows "current (upd_threat u f w) v = current w v"
  using assms by (simp add: upd_threat_def)

lemma amounts_frame [simp]:
  "amounts_ok (emit x w) = amounts_ok w" "amounts_ok (upd_threat u f w) = amounts_ok w"
  "amounts_ok (w\<lparr>w_crashed := c\<rparr>) = amounts_ok w" "amounts_ok (assert_that b w) = amounts_ok w"
  by (simp_all add: amounts_ok_def emit_def upd_threat_def assert_that_def)

lemma crashed_frame [simp]:
  "w_crashed (emit x w) = w_crashed w" "w_crashed (upd_threat u f w) = w_crashed w"
  "w_crashed (put_tref a r w) = w_crashed w" "w_crashed (put_cref a c w) = w_crashed w"
  "w_crashed (upd_unit u g w) = w_crashed w" "w_crashed (upd_combat u h w) = w_crashed w"
  "w_crashed (assert_that ok w) \<longleftrightarrow> w_crashed w \<or> \<not> ok"
  by (simp_all add: access_defs)

lemma current_frame [simp]:
  "current (emit x w) u = current w u" "current (put_tref a r w) u = current w u"
  by (simp_all add: access_defs)

lemma skel_put_tref:
  assumes "ends w a = Some (tr_owner r, tr_victim r)"
  shows "skel (put_tref a r w) = skel w"
  using assms by (auto simp: skel_def put_tref_def ends_def fun_eq_iff)

lemma amounts_put_tref:
  "amounts_ok w \<Longrightarrow> 0 \<le> tr_baseAmount r \<Longrightarrow> is_f32 (tr_baseAmount r) \<Longrightarrow> amounts_ok (put_tref a r w)"
  by (auto simp: amounts_ok_def put_tref_def)

lemma HeapNotify_frame [simp]:
  "skel (HeapNotify a n w) = skel w" "amounts_ok (HeapNotify a n w) = amounts_ok w"
  "w_crashed (HeapNotify a n w) = w_crashed w" "current (HeapNotify a n w) u = current w u"
  by (cases "(a, n, w)" rule: HeapNotify.cases; simp)+

lemma flag_frame [simp]:
  "skel (add_update_flag f u w) = skel w" "amounts_ok (add_update_flag f u w) = amounts_ok w"
  "w_crashed (add_update_flag f u w) = w_crashed w" "current (add_update_flag f u w) v = current w v"
  by (simp_all add: add_update_flag_def skel_upd_threat) (simp add: upd_threat_def)

lemma register_frame [simp]:
  "skel (RegisterForAIUpdate u g w) = skel w" "amounts_ok (RegisterForAIUpdate u g w) = amounts_ok w"
  "w_crashed (RegisterForAIUpdate u g w) = w_crashed w" "current (RegisterForAIUpdate u g w) v = current w v"
  by (simp_all add: RegisterForAIUpdate_def skel_upd_threat) (simp add: upd_threat_def)

lemma send_frame [simp]:
  "skel (SendRemoveToClients u g w) = skel w" "amounts_ok (SendRemoveToClients u g w) = amounts_ok w"
  "w_crashed (SendRemoveToClients u g w) = w_crashed w" "current (SendRemoveToClients u g w) v = current w v"
  "skel (SendThreatListToClients b u w) = skel w" "amounts_ok (SendThreatListToClients b u w) = amounts_ok w"
  "w_crashed (SendThreatListToClients b u w) = w_crashed w"
  "current (SendThreatListToClients b u w) v = current w v"
  by (simp_all add: SendRemoveToClients_def SendThreatListToClients_def)

text \<open>A change of one reference that keeps its ends and an amount in order is quiet.\<close>

definition ref_change :: "(threat_ref \<Rightarrow> threat_ref) \<Rightarrow> bool" where
  "ref_change f \<longleftrightarrow> (\<forall>r. tr_owner (f r) = tr_owner r \<and> tr_victim (f r) = tr_victim r \<and>
     (0 \<le> tr_baseAmount r \<and> is_f32 (tr_baseAmount r) \<longrightarrow> 0 \<le> tr_baseAmount (f r) \<and> is_f32 (tr_baseAmount (f r))))"

lemma quiet_put:
  assumes "w_tref w a = Some r" "ref_change f"
  shows "quiet w (put_tref a (f r) w)"
proof -
  have "skel (put_tref a (f r) w) = skel w"
    by (rule skel_put_tref) (use assms in \<open>simp add: ends_def ref_change_def\<close>)
  moreover have "amounts_ok (put_tref a (f r) w)" if "amounts_ok w"
    using that assms by (auto simp: amounts_ok_def ref_change_def put_tref_def)
  ultimately show ?thesis by (simp add: quiet_def)
qed

lemma quiet_put_tref:
  assumes "w_tref w a \<noteq> None" "ref_change f"
  shows "quiet w (put_tref a (f (tref w a)) w)"
  using quiet_put [of w a "tref w a" f] assms by (auto simp: tref_def)

lemma ref_change_simps [simp]:
  "ref_change (\<lambda>r. r\<lparr>tr_online := x\<rparr>)" "ref_change (\<lambda>r. r\<lparr>tr_taunted := y\<rparr>)"
  "ref_change (\<lambda>r. r\<lparr>tr_tempModifier := z\<rparr>)" "ref_change (\<lambda>r. r\<lparr>tr_online := g r\<rparr>)"
  by (simp_all add: ref_change_def)

lemma ref_change_amount: "ref_change (\<lambda>r. fst (AddThreat_ref amount r))"
  by (auto simp: ref_change_def AddThreat_ref_def max_def)

lemma ref_change_scale: "0 \<le> k \<Longrightarrow> ref_change (\<lambda>r. fst (ScaleThreat_ref k r))"
  by (auto simp: ref_change_def ScaleThreat_ref_def)

lemma ref_change_taunt: "ref_change (\<lambda>r. fst (UpdateTauntState_ref d st r))"
  by (auto simp: ref_change_def UpdateTauntState_ref_def Let_def)

lemma quiet_apply_ref:
  assumes "w_tref w a \<noteq> None" "ref_change (\<lambda>r. fst (f r))"
  shows "quiet w (apply_ref a f w)"
  using quiet_put_tref [OF assms]
  by (auto simp: apply_ref_def quiet_def split: prod.splits)

lemma current_apply_ref [simp]: "current (apply_ref a f w) u = current w u"
  by (auto simp: apply_ref_def split: prod.splits)

lemma alloc_quiet: "quiet w w' \<Longrightarrow> w_tref w' a \<noteq> None \<longleftrightarrow> w_tref w a \<noteq> None"
proof -
  assume "quiet w w'"
  then have "skel w' = skel w" by (simp add: quiet_def)
  then have "ends w' a = ends w a" by (rule fun_cong [OF skel_eqD(9)])
  then show ?thesis by (cases "w_tref w a"; cases "w_tref w' a") (auto simp: ends_def)
qed

lemma quiet_UpdateOffline:
  assumes "w_tref w a \<noteq> None"
  shows "quiet w (UpdateOffline env a w)"
proof -
  have q: "quiet w (put_tref a ((tref w a)\<lparr>tr_online := x\<rparr>) w)" for x
    using quiet_put_tref [OF assms, of "\<lambda>r. r\<lparr>tr_online := x\<rparr>"] by simp
  consider "UpdateOffline env a w = w"
    | "UpdateOffline env a w = SendRemoveToClients (tr_owner (tref w a)) (tr_victim (tref w a))
         (HeapNotify a (Some False) (put_tref a ((tref w a)\<lparr>tr_online := ONLINE_STATE_OFFLINE\<rparr>) w))"
    | x where "UpdateOffline env a w = add_update_flag ForceHighestUpdate (tr_owner (tref w a))
         (RegisterForAIUpdate (tr_owner (tref w a)) (tr_victim (tref w a))
           (HeapNotify a (Some True) (put_tref a ((tref w a)\<lparr>tr_online := x\<rparr>) w)))"
    unfolding UpdateOffline_def Let_def by metis
  then show ?thesis
  proof cases
    case 1
    then show ?thesis by simp
  next
    case 2
    show ?thesis unfolding 2 by (rule quiet_trans [OF q [of ONLINE_STATE_OFFLINE]]) (simp add: quiet_def)
  next
    case 3
    show ?thesis unfolding 3 by (rule quiet_trans [OF q [of x]]) (simp add: quiet_def)
  qed
qed

lemma current_UpdateOffline [simp]: "current (UpdateOffline env a w) u = current w u"
  by (simp add: UpdateOffline_def Let_def)

text \<open>A loop of quiet steps is quiet.\<close>

lemma quiet_fold:
  assumes "\<And>x w. w_tref w x \<noteq> None \<Longrightarrow> quiet w (f x w)" "\<forall>a \<in> set as. w_tref w a \<noteq> None"
  shows "quiet w (fold f as w)"
  using assms(2)
proof (induction as arbitrary: w)
  case (Cons a as)
  then have "quiet w (f a w)" by (simp add: assms(1))
  moreover from this have "quiet (f a w) (fold f as (f a w))"
    by (intro Cons.IH ballI) (metis Cons.prems alloc_quiet list.set_intros(2))
  ultimately show ?case by (auto intro: quiet_trans)
qed simp

lemma current_fold: "(\<And>x w. current (f x w) u = current w u) \<Longrightarrow> current (fold f as w) u = current w u"
  by (induction as arbitrary: w) auto

lemma entry_alloc:
  assumes "threat_links w" "a \<in> set (map snd (entries w u)) \<or> a \<in> set (map snd (threatened w u)) \<or> a \<in> set (sorted_list w u)"
  shows "w_tref w a \<noteq> None"
proof -
  note D = threat_linksD [OF assms(1)]
  have "\<exists>v. map_of (entries w u) v = Some a \<or> map_of (threatened w u) v = Some a"
    using assms(2) D(7) [of a u] map_of_is_SomeI [OF D(4) [of u]] map_of_is_SomeI [OF D(5) [of u]] by fastforce
  then have "ends w a \<noteq> None" using D(1,2) by (metis option.distinct(1))
  then show ?thesis by (simp add: ends_def)
qed

lemma quiet_update_all:
  assumes "threat_links w"
  shows "quiet w (update_all_offline env u w)"
  unfolding update_all_offline_def
  by (intro quiet_fold ballI) (use quiet_UpdateOffline entry_alloc [OF assms] in blast)+

lemma current_update_all [simp]: "current (update_all_offline env u w) v = current w v"
  unfolding update_all_offline_def by (rule current_fold) simp

section \<open>Choosing the victim\<close>

lemma skel_process_updates: "skel (process_updates u v w) = skel w \<and> amounts_ok (process_updates u v w) = amounts_ok w
    \<and> w_crashed (process_updates u v w) = w_crashed w \<and> current (process_updates u v w) x = current w x"
  by (induction u v w rule: process_updates.induct) (auto split: option.splits)

lemma ProcessAIUpdates_frame [simp]:
  "skel (ProcessAIUpdates u w) = skel w" "amounts_ok (ProcessAIUpdates u w) = amounts_ok w"
  "w_crashed (ProcessAIUpdates u w) \<longleftrightarrow> w_crashed w \<or> \<not> creature w u"
  "current (ProcessAIUpdates u w) x = current w x"
  by (simp_all add: ProcessAIUpdates_def Let_def skel_process_updates skel_upd_threat)
    (simp add: upd_threat_def assert_that_def)

text \<open>
  Is the ordered iteration of the heap of \<open>u\<close> in the order of the keys? boost promises it when
  every change of a key has been notified in the right direction.
\<close>

definition heap_in_order :: "env \<Rightarrow> guid \<Rightarrow> world \<Rightarrow> bool" where
  "heap_in_order env u w \<longleftrightarrow>
     sorted_wrt (\<lambda>x y. \<not> CompareThreat w x y) (ordered env (CompareThreat w) (sorted_list w u))"

definition selected_well :: "env \<Rightarrow> guid \<Rightarrow> world \<Rightarrow> addr option \<Rightarrow> bool" where
  "selected_well env u w v \<longleftrightarrow>
     (let as = set (sorted_list w u); melee = (\<lambda>a. IsWithinMeleeRange env u (tr_victim (tref w a)))
      in allowed_victim (tref w) (oldVictimRef u w) as melee v
         \<and> (heap_in_order env u w \<longrightarrow> good_victim (tref w) (oldVictimRef u w) as melee v))"

definition chosen_well :: "env \<Rightarrow> guid \<Rightarrow> world \<Rightarrow> addr option \<Rightarrow> bool" where
  "chosen_well env u w v \<longleftrightarrow>
     (case fixate w u of
        Some f \<Rightarrow> if IsAvailable (tref w f) then v = Some f else selected_well env u w v
      | None \<Rightarrow> selected_well env u w v)"

lemma select_victim_good:
  assumes ord: "heap_contract (ordered env)" and ne: "sorted_list w u \<noteq> []" and cur: "current_mem w"
  shows "\<exists>v. select_victim env u w = Chosen v \<and> chosen_well env u w v"
proof -
  let ?xs = "ordered env (CompareThreat w) (sorted_list w u)"
  let ?melee = "\<lambda>a. IsWithinMeleeRange env u (tr_victim (tref w a))"
  have "mset ?xs = mset (sorted_list w u)" using ord by (simp add: heap_contract_def)
  then have st: "set ?xs = set (sorted_list w u)" by (metis set_mset_mset)
  have old: "a \<in> set ?xs \<and> IsAvailable (tref w a)" if "oldVictimRef u w = Some a" for a
    using that cur st by (auto simp: oldVictimRef_def current_mem_def split: option.splits if_splits)
  have nx: "?xs \<noteq> []" using st ne by (metis set_empty)
  from select_highest_allowed [OF nx old] obtain v where
    v: "select_highest (tref w) (oldVictimRef u w) ?xs ?melee = Chosen v"
      "allowed_victim (tref w) (oldVictimRef u w) (set ?xs) ?melee v" by blast
  have "good_victim (tref w) (oldVictimRef u w) (set ?xs) ?melee v" if "heap_in_order env u w"
    using select_highest_good [where oldVictim = "oldVictimRef u w", OF nx _ old, where melee = ?melee] that v(1)
    unfolding heap_in_order_def CompareThreat_def by auto
  with v st have "selected_well env u w v" by (simp add: selected_well_def)
  with v(1) show ?thesis
    by (cases "fixate w u") (auto simp: select_victim_def chosen_well_def Let_def)
qed

lemma current_mem_skel:
  assumes "skel w' = skel w" "\<And>u. current w' u = current w u"
  shows "current_mem w' = current_mem w"
  using assms(2) skel_eqD(7) [OF assms(1)] by (simp add: current_mem_def)

lemma tref_HeapNotify [simp]: "w_tref (HeapNotify a n w) = w_tref w"
  by (cases "(a, n, w)" rule: HeapNotify.cases) (simp_all add: emit_def)

lemma tref_UpdateOffline: "a \<noteq> b \<Longrightarrow> w_tref (UpdateOffline env b w) a = w_tref w a"
  by (simp add: UpdateOffline_def Let_def SendRemoveToClients_def emit_def add_update_flag_def
      RegisterForAIUpdate_def upd_threat_def put_tref_def)

lemma tref_update_all: "a \<notin> set (map snd (entries w u)) \<Longrightarrow> w_tref (update_all_offline env u w) a = w_tref w a"
proof -
  have "a \<notin> set bs \<Longrightarrow> w_tref (fold (UpdateOffline env) bs w) a = w_tref w a" for bs w
    by (induction bs arbitrary: w) (auto simp: tref_UpdateOffline)
  then show "a \<notin> set (map snd (entries w u)) \<Longrightarrow> ?thesis" by (simp add: update_all_offline_def)
qed

lemma ReselectVictim_good:
  assumes "threat_ok w" "heap_contract (ordered env)"
  obtains v w' where "ReselectVictim env u w = (Chosen v, w')" "quiet w w'"
    "\<And>x. current w' x = current w x" "chosen_well env u w' v"
    "\<And>a. a \<notin> set (map snd (entries w u)) \<Longrightarrow> w_tref w' a = w_tref w a"
proof (cases "sorted_list w u = []")
  case True
  have "fixate w u = None"
    using assms(1) True threat_linksD(8) [of w u] by (cases "fixate w u") (auto simp: threat_ok_def)
  with that [of None w] True show ?thesis
    by (simp add: ReselectVictim_def chosen_well_def selected_well_def good_victim_def allowed_victim_def)
next
  case False
  let ?w = "update_all_offline env u w"
  have q: "quiet w ?w" using assms(1) by (intro quiet_update_all) (simp add: threat_ok_def)
  then have sk: "skel ?w = skel w" by (simp add: quiet_def)
  have "current_mem ?w" using current_mem_skel [OF sk] assms(1) by (simp add: threat_ok_def current_ok_def)
  then have "\<exists>v. select_victim env u ?w = Chosen v \<and> chosen_well env u ?w v"
    using False skel_eqD(7) [OF sk, of u] by (intro select_victim_good assms(2)) simp_all
  with that [OF _ q] False tref_update_all show ?thesis by (auto simp: ReselectVictim_def Let_def)
qed

lemma selected_well_mem:
  "selected_well env u w (Some n) \<Longrightarrow> n \<in> set (sorted_list w u) \<and> IsAvailable (tref w n)"
  by (simp add: selected_well_def allowed_victim_def Let_def)

lemma chosen_well_mem:
  assumes "chosen_well env u w (Some n)" "threat_links w"
  shows "n \<in> set (sorted_list w u)" "IsAvailable (tref w n)"
  using assms(1) threat_linksD(8) [OF assms(2), of u n]
  by (cases "fixate w u"; auto simp: chosen_well_def split: if_splits dest: selected_well_mem)+

lemma UpdateVictim_result:
  assumes "threat_ok w" "heap_contract (ordered env)" "creature w u"
  obtains v w1 where "quiet w w1" "\<And>x. current w1 x = current w x" "chosen_well env u w1 v"
    "skel (UpdateVictim env u w) = skel w" "threat_ok (UpdateVictim env u w)"
    "w_crashed (UpdateVictim env u w) \<longrightarrow> w_crashed w"
    "\<And>x. current (UpdateVictim env u w) x = (if x = u then v else current w x)"
    "w_tref (UpdateVictim env u w) = w_tref w1"
proof -
  from ReselectVictim_good [OF assms(1,2)] obtain v w1 where
    r: "ReselectVictim env u w = (Chosen v, w1)" "quiet w w1"
    "\<And>x. current w1 x = current w x" "chosen_well env u w1 v"
    "\<And>a. a \<notin> set (map snd (entries w u)) \<Longrightarrow> w_tref w1 a = w_tref w a" by metis
  let ?w = "UpdateVictim env u w"
  have sk1: "skel w1 = skel w" using r(2) by (simp add: quiet_def)
  have sk: "skel ?w = skel w"
    by (simp add: UpdateVictim_def r(1) Let_def skel_upd_threat sk1)
  have cr: "w_crashed ?w \<longrightarrow> w_crashed w"
    using r(2) assms(3) skel_eqD(1) [OF sk1]
    by (simp add: UpdateVictim_def r(1) Let_def quiet_def) (simp add: upd_threat_def emit_def SendThreatListToClients_def)
  have cur: "current ?w x = (if x = u then v else current w x)" for x
    by (simp add: UpdateVictim_def r(1,3) Let_def upd_threat_def emit_def SendThreatListToClients_def)
  have am: "amounts_ok ?w"
    using r(2) assms(1) by (simp add: UpdateVictim_def r(1) Let_def quiet_def threat_ok_def)
  have ln: "threat_links ?w" "threat_links w1"
    using skel_links [OF sk] skel_links [OF sk1] assms(1) by (simp_all add: threat_ok_def)
  have tr: "w_tref (process_updates u gs w0) = w_tref w0" for gs w0
    by (induction u gs w0 rule: process_updates.induct) (auto simp: emit_def split: option.splits)
  have tw: "w_tref ?w = w_tref w1"
    by (simp add: UpdateVictim_def r(1) Let_def ProcessAIUpdates_def upd_threat_def tr
        SendThreatListToClients_def emit_def assert_that_def)
  have chosen: "a \<in> set (sorted_list ?w u) \<and> IsAvailable (tref ?w a)" if "v = Some a" for a
    using chosen_well_mem [OF _ ln(2)] r(4) that skel_eqD(7) [OF sk] skel_eqD(7) [OF sk1] tw
    by (simp add: tref_def)
  have other: "a \<in> set (sorted_list ?w x) \<and> IsAvailable (tref ?w a)"
    if a: "current w x = Some a" "x \<noteq> u" for a x
  proof -
    have lw: "threat_links w" using assms(1) by (simp add: threat_ok_def)
    have m: "a \<in> set (sorted_list w x)" "IsAvailable (tref w a)"
      using a assms(1) by (auto simp: threat_ok_def current_ok_def current_mem_def)
    have "a \<notin> set (map snd (entries w u))"
      using m(1) a(2) threat_linksD(2,7) [OF lw] map_of_is_SomeI [OF threat_linksD(4) [OF lw, of u]]
      by fastforce
    then have "tref ?w a = tref w a" using r(5) tw by (simp add: tref_def)
    with m skel_eqD(7) [OF sk] show ?thesis by simp
  qed
  have "current_ok ?w"
    using chosen other by (auto simp: current_ok_def current_mem_def cur split: if_splits)
  moreover have "creature_lists ?w" using skel_creatures [OF sk] assms(1) by (simp add: threat_ok_def)
  ultimately have ok: "threat_ok ?w" using am ln by (simp add: threat_ok_def)
  from that [OF r(2,3,4) sk ok cr cur tw] show thesis .
qed

lemma UpdateVictim_ok:
  assumes "threat_ok w" "heap_contract (ordered env)" "creature w u"
  shows "threat_ok (UpdateVictim env u w)" "skel (UpdateVictim env u w) = skel w"
    "w_crashed (UpdateVictim env u w) \<longrightarrow> w_crashed w"
  using UpdateVictim_result [OF assms] by blast+

section \<open>Removing and adding references\<close>

text \<open>What removing the reference between \<open>u\<close> and \<open>v\<close> does to the maps.\<close>

lemma UnregisterAndFree_eq:
  assumes "threat_links w" "map_of (entries w u) v = Some a"
  shows "UnregisterAndFree a w =
    (let w1 = upd_threat u
            (\<lambda>t. t\<lparr>tm_myThreatListEntries := AList.delete v (tm_myThreatListEntries t),
                    tm_sortedThreatList := remove1 a (tm_sortedThreatList t),
                    tm_fixateRef := (if tm_fixateRef t = Some a then None else tm_fixateRef t),
                    tm_currentVictimRef := (if tm_currentVictimRef t = Some a then None
                                            else tm_currentVictimRef t)\<rparr>) w
     in (upd_threat v (\<lambda>t. t\<lparr>tm_threatenedByMe := AList.delete u (tm_threatenedByMe t)\<rparr>) w1)
          \<lparr>w_tref := (w_tref w)(a := None)\<rparr>)"
proof -
  have "tr_owner (tref w a) = u" "tr_victim (tref w a) = v"
    using threat_linksD(2) [OF assms(1), of u v a] assms(2) by (auto simp: ends_Some)
  then show ?thesis
    by (simp add: UnregisterAndFree_def PurgeThreatListRef_def PurgeThreatenedByMeRef_def assms(2) Let_def
        upd_threat_def)
qed

lemma UnregisterAndFree_fields:
  assumes "threat_links w" "map_of (entries w u) v = Some a"
  shows "entries (UnregisterAndFree a w) x = (if x = u then AList.delete v (entries w u) else entries w x)"
    "threatened (UnregisterAndFree a w) x = (if x = v then AList.delete u (threatened w v) else threatened w x)"
    "sorted_list (UnregisterAndFree a w) x = (if x = u then remove1 a (sorted_list w u) else sorted_list w x)"
    "fixate (UnregisterAndFree a w) x = (if x = u \<and> fixate w u = Some a then None else fixate w x)"
    "current (UnregisterAndFree a w) x = (if x = u \<and> current w u = Some a then None else current w x)"
    "w_tref (UnregisterAndFree a w) = (w_tref w)(a := None)"
    "w_unit (UnregisterAndFree a w) = w_unit w" "w_combat (UnregisterAndFree a w) = w_combat w"
    "w_cref (UnregisterAndFree a w) = w_cref w" "w_next (UnregisterAndFree a w) = w_next w"
    "w_crashed (UnregisterAndFree a w) = w_crashed w" "can_have (UnregisterAndFree a w) x = can_have w x"
  by (simp_all add: UnregisterAndFree_eq [OF assms] Let_def upd_threat_def)

lemma UnregisterAndFree_ok:
  assumes ok: "threat_ok w" and e: "map_of (entries w u) v = Some a"
  shows "threat_ok (UnregisterAndFree a w)"
proof -
  have ln: "threat_links w" using ok by (simp add: threat_ok_def)
  note D = threat_linksD [OF ln] and F = UnregisterAndFree_fields [OF ln e]
  let ?w = "UnregisterAndFree a w"
  have ea: "ends w a = Some (u, v)" using D(2) e by blast
  have en: "ends ?w b = (if b = a then None else ends w b)" for b
    by (simp add: ends_def F)
  have mo: "map_of (entries ?w x) y = (if x = u \<and> y = v then None else map_of (entries w x) y)" for x y
    by (simp add: F delete_conv')
  have mine: "x = u" if "a \<in> set (sorted_list w x)" for x
    using that D(7) D(2) ea by (metis option.inject prod.inject)
  have srt: "b \<in> set (sorted_list ?w x) \<longleftrightarrow> b \<in> set (sorted_list w x) \<and> b \<noteq> a" for b x
  proof (cases "x = u")
    case False
    then have "a \<notin> set (sorted_list w x)" using mine by blast
    with False show ?thesis by (auto simp: F)
  qed (simp add: F set_remove1_eq [OF D(6)])
  have lk: "map_of (entries ?w x) y = Some b \<longleftrightarrow> ends ?w b = Some (x, y)" for x y b
    using D(2) [of x y b] ea e by (auto simp: mo en)
  have "threat_links ?w"
  proof (rule threat_linksI)
    fix x y
    show "map_of (entries ?w x) y = map_of (threatened ?w y) x"
      by (simp add: F delete_conv' D(1))
    fix b
    show "map_of (entries ?w x) y = Some b \<longleftrightarrow> ends ?w b = Some (x, y)" by (rule lk)
  next
    fix b x
    show "w_next ?w \<le> b \<Longrightarrow> ends ?w b = None" using D(3) by (simp add: en F)
    show "distinct (map fst (entries ?w x))" "distinct (map fst (threatened ?w x))"
      using D(4) D(5) by (simp_all add: F distinct_delete)
    show "distinct (sorted_list ?w x)" using D(6) by (simp add: F distinct_remove1)
    show "b \<in> set (sorted_list ?w x) \<longleftrightarrow> (\<exists>y. map_of (entries ?w x) y = Some b)"
      unfolding lk srt D(7) D(2) by (auto simp: en)
    show "fixate ?w x = Some b \<Longrightarrow> b \<in> set (sorted_list ?w x)"
      using D(8) [of x b] D(7) [of b x] D(2) [of x _ a] ea by (auto simp: srt F(4) split: if_splits)
  qed
  moreover have "current_ok ?w"
    using ok mine
    by (auto simp: threat_ok_def current_ok_def current_mem_def srt F(5) tref_def F(6) split: if_splits)
  moreover have "amounts_ok ?w" using ok by (auto simp: threat_ok_def amounts_ok_def F)
  moreover have "entries ?w x \<noteq> [] \<Longrightarrow> entries w x \<noteq> []" for x by (auto simp: F split: if_splits)
  then have "creature_lists ?w" using ok by (auto simp: threat_ok_def creature_lists_def F)
  ultimately show ?thesis by (simp add: threat_ok_def)
qed

text \<open>
  What a change of the threat lists leaves alone of the rest of the world, and how the map
  of the links may change.
\<close>

definition frame :: "world \<Rightarrow> world \<Rightarrow> bool" where
  "frame w w' \<longleftrightarrow> w_unit w' = w_unit w \<and> w_combat w' = w_combat w \<and> w_cref w' = w_cref w
     \<and> w_next w' = w_next w \<and> (w_crashed w' \<longrightarrow> w_crashed w)"

lemma frame_refl [simp]: "frame w w"
  by (simp add: frame_def)

lemma frame_trans: "frame w w' \<Longrightarrow> frame w' w'' \<Longrightarrow> frame w w''"
  by (simp add: frame_def)

lemma frame_skel: "skel w' = skel w \<Longrightarrow> (w_crashed w' \<longrightarrow> w_crashed w) \<Longrightarrow> frame w w'"
  by (simp add: frame_def skel_def)

lemma frame_quiet: "quiet w w' \<Longrightarrow> frame w w'"
  by (simp add: quiet_def frame_skel)

lemma frame_emit [simp]: "frame w (emit x w)"
  by (simp add: frame_def emit_def)

definition threat_map :: "world \<Rightarrow> guid \<Rightarrow> guid \<Rightarrow> addr option" where
  "threat_map w u v = map_of (entries w u) v"

definition drop_link :: "guid \<Rightarrow> guid \<Rightarrow> (guid \<Rightarrow> guid \<Rightarrow> addr option) \<Rightarrow> guid \<Rightarrow> guid \<Rightarrow> addr option" where
  "drop_link u v m = m(u := (m u)(v := None))"

lemma threat_map_skel: "skel w' = skel w \<Longrightarrow> threat_map w' = threat_map w"
  by (intro ext) (simp add: threat_map_def skel_eqD(5) [of w' w])

lemma drop_link_absent: "m u v = None \<Longrightarrow> drop_link u v m = m"
  by (auto simp: drop_link_def fun_eq_iff)

lemma threat_ok_emit [simp]: "threat_ok (emit x w) = threat_ok w" "threat_map (emit x w) = threat_map w"
  using skel_links [OF skel_emit] current_mem_skel [OF skel_emit] threat_map_skel [OF skel_emit]
    skel_creatures [OF skel_emit]
  by (simp_all add: threat_ok_def current_ok_def) (simp add: emit_def tref_def)

lemma Unregister_ok:
  assumes "threat_ok w" "threat_map w u v = Some a"
  shows "threat_ok (UnregisterAndFree a w)" "frame w (UnregisterAndFree a w)"
    "threat_map (UnregisterAndFree a w) = drop_link u v (threat_map w)"
  using UnregisterAndFree_ok UnregisterAndFree_fields assms
  by (auto simp: threat_ok_def threat_map_def frame_def drop_link_def fun_eq_iff delete_conv')

lemma ClearThreat_ok:
  assumes ok: "threat_ok w" and ord: "heap_contract (ordered env)"
  shows "threat_ok (ClearThreat env u v w)" "frame w (ClearThreat env u v w)"
    "threat_map (ClearThreat env u v w) = drop_link u v (threat_map w)"
proof -
  have "threat_ok (ClearThreat env u v w) \<and> frame w (ClearThreat env u v w)
      \<and> threat_map (ClearThreat env u v w) = drop_link u v (threat_map w)"
  proof (cases "threat_map w u v")
    case None
    with ok show ?thesis by (simp add: ClearThreat_def drop_link_absent) (simp add: threat_map_def)
  next
    case (Some a)
    let ?e = "SendRemoveToClients u (tr_victim (tref w a)) w"
    have e: "threat_ok ?e" "threat_map ?e = threat_map w" "frame w ?e"
      using ok by (simp_all add: SendRemoveToClients_def)
    define w1 where "w1 = UnregisterAndFree a ?e"
    have w1: "threat_ok w1" "frame w w1" "threat_map w1 = drop_link u v (threat_map w)"
      using Unregister_ok [OF e(1), of u v a] Some e frame_trans by (auto simp: w1_def)
    have "creature w u" using threat_ok_creature(2) [OF ok] Some by (simp add: threat_map_def)
    then have "creature w1 u" using w1(2) by (simp add: frame_def)
    then have w2: "threat_ok (UpdateVictim env u w1)" "frame w (UpdateVictim env u w1)"
      "threat_map (UpdateVictim env u w1) = threat_map w1"
      using UpdateVictim_ok [OF w1(1) ord, of u] frame_skel [of "UpdateVictim env u w1" w1]
        threat_map_skel [of "UpdateVictim env u w1" w1] w1(2) frame_trans by blast+
    have "ClearThreat env u v w = (if current w1 u = None then UpdateVictim env u w1 else w1)"
      using Some by (simp add: ClearThreat_def threat_map_def ClearThreat_ref_def w1_def Let_def)
    with w1 w2 show ?thesis by (simp split: if_split)
  qed
  then show "threat_ok (ClearThreat env u v w)" "frame w (ClearThreat env u v w)"
    "threat_map (ClearThreat env u v w) = drop_link u v (threat_map w)" by blast+
qed

lemma hd_entry:
  "al \<noteq> [] \<Longrightarrow> map_of al (fst (hd al)) = Some (snd (hd al))"
  by (cases al) auto

text \<open>The loops of \<open>ClearAllThreat\<close> and \<open>RemoveMeFromThreatLists\<close> end, with nothing left.\<close>

lemma ClearAllThreat_ok:
  assumes ok: "threat_ok w"
  shows "\<exists>w'. ClearAllThreat u w = Some w' \<and> threat_ok w' \<and> frame w w'
    \<and> threat_map w' = (threat_map w)(u := (\<lambda>_. None))"
proof (cases "entries w u = []")
  case True
  with ok show ?thesis by (auto simp: ClearAllThreat_def threat_map_def fun_eq_iff)
next
  case False
  let ?b = "\<lambda>w. entries w u \<noteq> []" and ?c = "\<lambda>w. UnregisterAndFree (snd (hd (entries w u))) w"
  let ?P = "\<lambda>w'. threat_ok w' \<and> frame w w' \<and> (\<forall>x. x \<noteq> u \<longrightarrow> threat_map w' x = threat_map w x)"
  have step: "?P (?c w') \<and> length (entries (?c w') u) < length (entries w' u)"
    if "?P w'" "?b w'" for w'
  proof -
    obtain v a where va: "hd (entries w' u) = (v, a)" by fastforce
    have m: "threat_map w' u v = Some a" using hd_entry [OF that(2)] va by (simp add: threat_map_def)
    have ln: "threat_links w'" using that(1) by (simp add: threat_ok_def)
    have "entries (?c w') u = AList.delete v (entries w' u)"
      using UnregisterAndFree_fields(1) [OF ln, of u v a] m va by (simp add: threat_map_def)
    moreover have "length (AList.delete v (entries w' u)) < length (entries w' u)"
      using that(2) va by (cases "entries w' u") (auto simp: AList.delete_eq less_Suc_eq_le)
    ultimately show ?thesis
      using Unregister_ok [OF _ m] that(1) va frame_trans by (auto simp: drop_link_def)
  qed
  let ?s = "SendClearAllThreatToClients u w"
  have s: "?P ?s" using ok by (simp add: SendClearAllThreatToClients_def)
  obtain w' where w': "while_option ?b ?c ?s = Some w'"
    using measure_while_option_Some [of ?P ?b ?c "\<lambda>w. length (entries w u)" ?s] step s by blast
  have "?P w'" using while_option_rule [of ?P ?b ?c ?s w'] step s w' by blast
  moreover have "entries w' u = []" using while_option_stop [OF w'] by simp
  ultimately show ?thesis using w' False
    by (auto simp: ClearAllThreat_def fun_eq_iff) (simp_all add: threat_map_def)
qed

lemma RemoveMe_ok:
  assumes ok: "threat_ok w" and ord: "heap_contract (ordered env)"
  shows "\<exists>w'. RemoveMeFromThreatLists env u w = Some w' \<and> threat_ok w' \<and> frame w w'
    \<and> threat_map w' = (\<lambda>x. (threat_map w x)(u := None))"
proof -
  let ?b = "\<lambda>w. threatened w u \<noteq> []"
    and ?c = "\<lambda>w. ClearThreat env (tr_owner (tref w (snd (hd (threatened w u))))) u w"
  let ?P = "\<lambda>w'. threat_ok w' \<and> frame w w' \<and> (\<forall>x v. v \<noteq> u \<longrightarrow> threat_map w' x v = threat_map w x v)"
  have keys: "set (map fst (threatened w u)) = {x. threat_map w x u \<noteq> None}" if "threat_links w" for w
    using threat_linksD(1) [OF that, of _ u] by (auto simp: threat_map_def dom_map_of_conv_image_fst [symmetric])
  have card: "length (threatened w u) = card {x. threat_map w x u \<noteq> None}" if "threat_links w" for w
    using distinct_card [OF threat_linksD(5) [OF that, of u]] unfolding keys [OF that] by simp
  have step: "?P (?c w') \<and> length (threatened (?c w') u) < length (threatened w' u)"
    if "?P w'" "?b w'" for w'
  proof -
    obtain x a where va: "hd (threatened w' u) = (x, a)" by fastforce
    have ln: "threat_links w'" using that(1) by (simp add: threat_ok_def)
    have m: "threat_map w' x u = Some a"
      using hd_entry [OF that(2)] va threat_linksD(1) [OF ln] by (simp add: threat_map_def)
    have "tr_owner (tref w' a) = x"
      using m threat_linksD(2) [OF ln] by (auto simp: threat_map_def ends_Some)
    with va have c: "?c w' = ClearThreat env x u w'" by simp
    note C = ClearThreat_ok [OF _ ord, of w' x u]
    have ok': "threat_ok (?c w')" and fr: "frame w' (?c w')"
      and mp: "threat_map (?c w') = drop_link x u (threat_map w')"
      using C that(1) c by simp_all
    have "{y. threat_map (?c w') y u \<noteq> None} = {y. threat_map w' y u \<noteq> None} - {x}"
      by (auto simp: mp drop_link_def)
    moreover have "finite {y. threat_map w' y u \<noteq> None}" using keys [OF ln] by (metis List.finite_set)
    then have "card ({y. threat_map w' y u \<noteq> None} - {x}) < card {y. threat_map w' y u \<noteq> None}"
      by (rule card_Diff1_less) (simp add: m)
    ultimately have "card {y. threat_map (?c w') y u \<noteq> None} < card {y. threat_map w' y u \<noteq> None}"
      by (simp only:)
    with card [OF ln] card [of "?c w'"] ok' that(1) mp fr frame_trans show ?thesis
      by (auto simp: threat_ok_def drop_link_def)
  qed
  have s: "?P w" using ok by simp
  obtain w' where w': "while_option ?b ?c w = Some w'"
    using measure_while_option_Some [of ?P ?b ?c "\<lambda>w. length (threatened w u)" w] step s by blast
  have P: "?P w'" using while_option_rule [of ?P ?b ?c w w'] step s w' by blast
  have "threatened w' u = []" using while_option_stop [OF w'] by simp
  then have "threat_map w' x u = None" for x
    using P threat_linksD(1) [of w' x u] by (simp add: threat_map_def threat_ok_def)
  with P w' show ?thesis by (auto simp: RemoveMeFromThreatLists_def fun_eq_iff)
qed

end
