(* ===== verification/Combat_Manager.thy ===== *)
theory Combat_Manager
  imports Threat_Links "HOL-Library.Monad_Syntax"
begin

text \<open>
  \<open>CombatReference\<close>, \<open>PvPCombatReference\<close> and \<open>CombatManager\<close>
  (\<open>src/server/game/Combat/CombatManager.cpp\<close>), with the part of \<open>Unit\<close> that keeps the
  \<open>IN_COMBAT\<close> flags. AI hooks are entries of the log, so what a script does inside such a
  hook is a later operation of the model.
\<close>

section \<open>References\<close>

definition PVP_COMBAT_TIMEOUT :: u32 where
  "PVP_COMBAT_TIMEOUT = 5000"

definition GetOther :: "combat_ref \<Rightarrow> guid \<Rightarrow> guid" where
  "GetOther r me = (if cr_first r = me then cr_second r else cr_first r)"

definition IsSuppressedFor :: "combat_ref \<Rightarrow> guid \<Rightarrow> bool" where
  "IsSuppressedFor r who = (if who = cr_first r then cr_suppressFirst r else cr_suppressSecond r)"

definition Suppress :: "guid \<Rightarrow> combat_ref \<Rightarrow> combat_ref" where
  "Suppress who r =
     (if who = cr_first r then r\<lparr>cr_suppressFirst := True\<rparr> else r\<lparr>cr_suppressSecond := True\<rparr>)"

definition CombatReference :: "guid \<Rightarrow> guid \<Rightarrow> bool \<Rightarrow> combat_ref" where
  "CombatReference a b pvp =
     \<lparr>cr_first = a, cr_second = b, cr_isPvP = pvp, cr_suppressFirst = False,
      cr_suppressSecond = False, cr_combatTimer = PVP_COMBAT_TIMEOUT\<rparr>"

text \<open>\<open>PvPCombatReference::Update\<close>: the new reference, or \<open>None\<close> when the timer is over.\<close>

definition PvP_Update :: "u32 \<Rightarrow> combat_ref \<Rightarrow> combat_ref option" where
  "PvP_Update tdiff r =
     (if cr_combatTimer r \<le> tdiff then None
      else Some (r\<lparr>cr_combatTimer := cr_combatTimer r - tdiff\<rparr>))"

definition RefreshTimer :: "combat_ref \<Rightarrow> combat_ref" where
  "RefreshTimer r = r\<lparr>cr_combatTimer := PVP_COMBAT_TIMEOUT\<rparr>"

section \<open>Queries\<close>

definition CanBeginCombat :: "env \<Rightarrow> world \<Rightarrow> guid \<Rightarrow> guid \<Rightarrow> bool" where
  "CanBeginCombat env w a b =
     (let ua = w_unit w a; ub = w_unit w b in
      if a = b then False
      else if \<not> u_inWorld ua \<or> \<not> u_inWorld ub then False
      else if \<not> u_alive ua \<or> \<not> u_alive ub then False
      else if u_map ua \<noteq> u_map ub then False
      else if u_phaseMask ua AND u_phaseMask ub = 0 then False
      else if HasUnitState ua UNIT_STATE_EVADE \<or> HasUnitState ub UNIT_STATE_EVADE then False
      else if HasUnitState ua UNIT_STATE_IN_FLIGHT \<or> HasUnitState ub UNIT_STATE_IN_FLIGHT then False
      else if u_combatDisallowed ua \<or> u_combatDisallowed ub then False
      else if IsFriendlyTo env a b \<or> IsFriendlyTo env b a then False
      else let gm = (\<lambda>u. case u_playerItself u of None \<Rightarrow> False | Some p \<Rightarrow> u_gameMaster (w_unit w p))
           in if gm ua \<or> gm ub then False else True)"

abbreviation pveRefs :: "world \<Rightarrow> guid \<Rightarrow> (guid \<times> addr) list" where
  "pveRefs w u \<equiv> cm_pveRefs (w_combat w u)"

abbreviation pvpRefs :: "world \<Rightarrow> guid \<Rightarrow> (guid \<times> addr) list" where
  "pvpRefs w u \<equiv> cm_pvpRefs (w_combat w u)"

definition HasPvECombat :: "world \<Rightarrow> guid \<Rightarrow> bool" where
  "HasPvECombat w u = list_ex (\<lambda>(g, a). \<not> IsSuppressedFor (cref w a) u) (pveRefs w u)"

definition HasPvECombatWithPlayers :: "world \<Rightarrow> guid \<Rightarrow> bool" where
  "HasPvECombatWithPlayers w u =
     list_ex (\<lambda>(g, a). \<not> IsSuppressedFor (cref w a) u
       \<and> u_typeId (w_unit w (GetOther (cref w a) u)) = TYPEID_PLAYER) (pveRefs w u)"

definition HasPvPCombat :: "world \<Rightarrow> guid \<Rightarrow> bool" where
  "HasPvPCombat w u = list_ex (\<lambda>(g, a). \<not> IsSuppressedFor (cref w a) u) (pvpRefs w u)"

definition HasCombat :: "world \<Rightarrow> guid \<Rightarrow> bool" where
  "HasCombat w u \<longleftrightarrow> HasPvECombat w u \<or> HasPvPCombat w u"

definition GetAnyTarget :: "world \<Rightarrow> guid \<Rightarrow> guid option" where
  "GetAnyTarget w u =
     (case find (\<lambda>(g, a). \<not> IsSuppressedFor (cref w a) u) (pveRefs w u) of
        Some (g, a) \<Rightarrow> Some (GetOther (cref w a) u)
      | None \<Rightarrow>
         (case find (\<lambda>(g, a). \<not> IsSuppressedFor (cref w a) u) (pvpRefs w u) of
            Some (g, a) \<Rightarrow> Some (GetOther (cref w a) u)
          | None \<Rightarrow> None))"

definition IsInCombatWith :: "world \<Rightarrow> guid \<Rightarrow> guid \<Rightarrow> bool" where
  "IsInCombatWith w u g \<longleftrightarrow> map_of (pveRefs w u) g \<noteq> None \<or> map_of (pvpRefs w u) g \<noteq> None"

section \<open>Combat state of the owner\<close>

definition UpdatePetCombatState :: "guid \<Rightarrow> world \<Rightarrow> world" where
  "UpdatePetCombatState m w =
     (let st = list_ex (\<lambda>minion. IsInCombat (w_unit w minion)) (u_controlled (w_unit w m))
      in upd_unit m (if st then SetUnitFlag UNIT_FLAG_PET_IN_COMBAT
                     else RemoveUnitFlag UNIT_FLAG_PET_IN_COMBAT) w)"

definition UpdateOwnerCombatState :: "guid \<Rightarrow> world \<Rightarrow> bool \<times> world" where
  "UpdateOwnerCombatState u w =
     (let combatState = HasCombat w u in
      if combatState = IsInCombat (w_unit w u) then (False, w)
      else
        let w1 = (if combatState
                  then let w0 = emit (AtEnterCombat u) (upd_unit u (SetUnitFlag UNIT_FLAG_IN_COMBAT) w)
                       in if u_typeId (w_unit w u) \<noteq> TYPEID_UNIT
                          then emit (AtEngage u (GetAnyTarget w0 u)) w0 else w0
                  else let w0 = emit (AtExitCombat u) (upd_unit u (RemoveUnitFlag UNIT_FLAG_IN_COMBAT) w)
                       in if u_typeId (w_unit w u) \<noteq> TYPEID_UNIT
                          then emit (AtDisengage u) w0 else w0);
            w2 = (case u_charmerOrOwner (w_unit w u) of
                    None \<Rightarrow> w1
                  | Some master \<Rightarrow> UpdatePetCombatState master w1)
        in (True, w2))"

definition NotifyAICombat :: "guid \<Rightarrow> guid \<Rightarrow> world \<Rightarrow> world" where
  "NotifyAICombat me other w =
     (if u_hasAI (w_unit w me) then emit (JustEnteredCombat me other) w else w)"

text \<open>\<open>if (needAI) if (ai) ai->JustExitedCombat()\<close>.\<close>

definition NotifyAIExit :: "bool \<Rightarrow> guid \<Rightarrow> world \<Rightarrow> world" where
  "NotifyAIExit need u w =
     (if need \<and> u_hasAI (w_unit w u) then emit (JustExitedCombat u) w else w)"

definition PutReference :: "guid \<Rightarrow> guid \<Rightarrow> addr \<Rightarrow> world \<Rightarrow> world" where
  "PutReference u g a w =
     (if cr_isPvP (cref w a)
      then upd_combat u (\<lambda>c. c\<lparr>cm_pvpRefs := AList.update g a (cm_pvpRefs c)\<rparr>)
             (assert_that (map_of (pvpRefs w u) g = None) w)
      else upd_combat u (\<lambda>c. c\<lparr>cm_pveRefs := AList.update g a (cm_pveRefs c)\<rparr>)
             (assert_that (map_of (pveRefs w u) g = None) w))"

definition PurgeReference :: "guid \<Rightarrow> guid \<Rightarrow> bool \<Rightarrow> world \<Rightarrow> world" where
  "PurgeReference u g pvp =
     (if pvp then upd_combat u (\<lambda>c. c\<lparr>cm_pvpRefs := AList.delete g (cm_pvpRefs c)\<rparr>)
      else upd_combat u (\<lambda>c. c\<lparr>cm_pveRefs := AList.delete g (cm_pveRefs c)\<rparr>))"

section \<open>Ending, refreshing and suppressing a reference\<close>

definition EndCombat :: "env \<Rightarrow> addr \<Rightarrow> world \<Rightarrow> world" where
  "EndCombat env a w =
     (let r = cref w a; f = cr_first r; s = cr_second r;
          w1 = ClearThreat env s f (ClearThreat env f s w);
          w2 = PurgeReference s f (cr_isPvP r) (PurgeReference f s (cr_isPvP r) w1);
          (needFirstAI, w3) = UpdateOwnerCombatState f w2;
          (needSecondAI, w4) = UpdateOwnerCombatState s w3;
          w5 = NotifyAIExit needSecondAI s (NotifyAIExit needFirstAI f w4)
      in w5\<lparr>w_cref := (w_cref w5)(a := None)\<rparr>)"

definition Refresh :: "addr \<Rightarrow> world \<Rightarrow> world" where
  "Refresh a w =
     (let f = cr_first (cref w a); s = cr_second (cref w a);
          (needFirstAI, w1) =
            (if cr_suppressFirst (cref w a)
             then UpdateOwnerCombatState f (put_cref a ((cref w a)\<lparr>cr_suppressFirst := False\<rparr>) w)
             else (False, w));
          (needSecondAI, w2) =
            (if cr_suppressSecond (cref w1 a)
             then UpdateOwnerCombatState s (put_cref a ((cref w1 a)\<lparr>cr_suppressSecond := False\<rparr>) w1)
             else (False, w1));
          w3 = (if needFirstAI then NotifyAICombat f s w2 else w2)
      in if needSecondAI then NotifyAICombat s f w3 else w3)"

definition SuppressFor :: "addr \<Rightarrow> guid \<Rightarrow> world \<Rightarrow> world" where
  "SuppressFor a who w =
     (let (need, w1) = UpdateOwnerCombatState who (put_cref a (Suppress who (cref w a)) w)
      in NotifyAIExit need who w1)"

section \<open>CombatManager\<close>

definition SetInCombatWith :: "env \<Rightarrow> guid \<Rightarrow> guid \<Rightarrow> bool \<Rightarrow> world \<Rightarrow> bool \<times> world" where
  "SetInCombatWith env me who addSecondUnitSuppressed w =
     (case map_of (pvpRefs w me) who of
        Some a \<Rightarrow> (True, Refresh a (put_cref a (RefreshTimer (cref w a)) w))
      | None \<Rightarrow>
     (case map_of (pveRefs w me) who of
        Some a \<Rightarrow> (True, Refresh a w)
      | None \<Rightarrow>
      if \<not> CanBeginCombat env w me who then (False, w)
      else
        let pvp = (u_controlledByPlayer (w_unit w me) \<and> u_controlledByPlayer (w_unit w who));
            r0 = CombatReference me who pvp;
            a = w_next w;
            r = (if addSecondUnitSuppressed then Suppress who r0 else r0);
            w1 = (put_cref a r w)\<lparr>w_next := Suc a\<rparr>;
            w2 = PutReference who me a (PutReference me who a w1);
            (needSelfAI, w3) = UpdateOwnerCombatState me w2;
            (needOtherAI, w4) = UpdateOwnerCombatState who w3;
            w5 = (if needSelfAI then NotifyAICombat me who w4 else w4);
            w6 = (if needOtherAI then NotifyAICombat who me w5 else w5)
        in (IsInCombatWith w6 me who, w6)))"

text \<open>The loop of \<open>Update\<close>; \<open>it\<close> is what lies behind the iterator.\<close>

fun Update_loop :: "env \<Rightarrow> u32 \<Rightarrow> guid \<Rightarrow> (guid \<times> addr) list \<Rightarrow> world \<Rightarrow> world" where
  "Update_loop env tdiff me [] w = w"
| "Update_loop env tdiff me ((g, a) # it) w =
     (if cr_first (cref w a) = me
      then (case PvP_Update tdiff (cref w a) of
              None \<Rightarrow> Update_loop env tdiff me it (EndCombat env a (PurgeReference me g True w))
            | Some r \<Rightarrow> Update_loop env tdiff me it (put_cref a r w))
      else Update_loop env tdiff me it w)"

definition CombatManager_Update :: "env \<Rightarrow> u32 \<Rightarrow> guid \<Rightarrow> world \<Rightarrow> world" where
  "CombatManager_Update env tdiff me w = Update_loop env tdiff me (pvpRefs w me) w"

text \<open>
  The loop that \<open>EndCombatBeyondRange\<close> and \<open>RevalidateCombat\<close> run over each of the two
  maps: erase and end every reference for which \<open>bad\<close> holds.
\<close>

fun end_loop ::
    "env \<Rightarrow> (world \<Rightarrow> combat_ref \<Rightarrow> bool) \<Rightarrow> bool \<Rightarrow> guid \<Rightarrow> (guid \<times> addr) list \<Rightarrow> world \<Rightarrow> world" where
  "end_loop env bad pvp me [] w = w"
| "end_loop env bad pvp me ((g, a) # it) w =
     (if bad w (cref w a)
      then end_loop env bad pvp me it (EndCombat env a (PurgeReference me g pvp w))
      else end_loop env bad pvp me it w)"

definition EndCombatBeyondRange :: "env \<Rightarrow> guid \<Rightarrow> rat \<Rightarrow> bool \<Rightarrow> world \<Rightarrow> world" where
  "EndCombatBeyondRange env me radius includingPvP w =
     (let far = (\<lambda>_ r. \<not> IsWithinDistInMap env (cr_first r) (cr_second r) radius);
          w1 = end_loop env far False me (pveRefs w me) w
      in if \<not> includingPvP then w1 else end_loop env far True me (pvpRefs w1 me) w1)"

definition RevalidateCombat :: "env \<Rightarrow> guid \<Rightarrow> world \<Rightarrow> world" where
  "RevalidateCombat env me w =
     (let bad = (\<lambda>w r. \<not> CanBeginCombat env w me (GetOther r me));
          w1 = end_loop env bad False me (pveRefs w me) w
      in end_loop env bad True me (pvpRefs w1 me) w1)"

definition immune_to :: "world \<Rightarrow> guid \<Rightarrow> guid \<Rightarrow> bool" where
  "immune_to w me target \<longleftrightarrow>
     HasUnitFlag (w_unit w me) UNIT_FLAG_IMMUNE_TO_PC
       \<and> HasUnitFlag (w_unit w target) UNIT_FLAG_PLAYER_CONTROLLED
     \<or> HasUnitFlag (w_unit w me) UNIT_FLAG_IMMUNE_TO_NPC
       \<and> \<not> HasUnitFlag (w_unit w target) UNIT_FLAG_PLAYER_CONTROLLED"

fun inherit_loop :: "env \<Rightarrow> bool \<Rightarrow> guid \<Rightarrow> guid \<Rightarrow> (guid \<times> addr) list \<Rightarrow> world \<Rightarrow> world" where
  "inherit_loop env pvp me who [] w = w"
| "inherit_loop env pvp me who ((g, a) # it) w =
     (let target = GetOther (cref w a) who in
      inherit_loop env pvp me who it
        (if \<not> pvp \<and> IsInCombatWith w me g then w
         else if immune_to w me target then w
         else snd (SetInCombatWith env me target False w)))"

definition InheritCombatStatesFrom :: "env \<Rightarrow> guid \<Rightarrow> guid \<Rightarrow> world \<Rightarrow> world" where
  "InheritCombatStatesFrom env me who w =
     (let w1 = inherit_loop env False me who (pveRefs w who) w
      in inherit_loop env True me who (pvpRefs w1 who) w1)"

definition SuppressPvPCombat :: "guid \<Rightarrow> world \<Rightarrow> world" where
  "SuppressPvPCombat me w =
     (let w1 = fold (\<lambda>(g, a) w. put_cref a (Suppress me (cref w a)) w) (pvpRefs w me) w;
          (need, w2) = UpdateOwnerCombatState me w1
      in NotifyAIExit need me w2)"

text \<open>As for the threat lists, a loop \<open>while (!empty())\<close> is \<open>None\<close> if it never ends.\<close>

definition end_all_loop :: "env \<Rightarrow> bool \<Rightarrow> guid \<Rightarrow> world \<Rightarrow> world option" where
  "end_all_loop env pvp me w =
     (let refs = (\<lambda>w. if pvp then pvpRefs w me else pveRefs w me) in
      while_option (\<lambda>w. refs w \<noteq> []) (\<lambda>w. EndCombat env (snd (hd (refs w))) w) w)"

definition EndAllPvECombat :: "env \<Rightarrow> guid \<Rightarrow> world \<Rightarrow> world option" where
  "EndAllPvECombat env me w =
     do { w1 \<leftarrow> RemoveMeFromThreatLists env me w;
          w2 \<leftarrow> ClearAllThreat me w1;
          end_all_loop env False me w2 }"

definition EndAllPvPCombat :: "env \<Rightarrow> guid \<Rightarrow> world \<Rightarrow> world option" where
  "EndAllPvPCombat env me w = end_all_loop env True me w"

definition EndAllCombat :: "env \<Rightarrow> guid \<Rightarrow> world \<Rightarrow> world option" where
  "EndAllCombat env me w =
     do { w1 \<leftarrow> EndAllPvECombat env me w; EndAllPvPCombat env me w1 }"

end
