(* ===== verification/Combat_Links.thy ===== *)
theory Combat_Links
  imports Combat_Manager
begin

text \<open>
  The invariant of the combat system: a \<open>CombatReference\<close> lies in the maps of exactly its
  two units, a unit whose flag nobody else has written has the \<open>IN_COMBAT\<close> flag exactly when it
  has a reference that is not suppressed for it, and threat implies combat (the guarantees \<open>CombatManager.h\<close> and
  \<open>ThreatManager.h\<close> document). Every operation of theory \<open>Combat_Manager\<close> keeps it.
\<close>

section \<open>The invariant\<close>

definition crefs :: "bool \<Rightarrow> world \<Rightarrow> guid \<Rightarrow> (guid \<times> addr) list" where
  "crefs p w u = (if p then pvpRefs w u else pveRefs w u)"

definition joins :: "combat_ref \<Rightarrow> guid \<Rightarrow> guid \<Rightarrow> bool" where
  "joins r u v \<longleftrightarrow> cr_first r = u \<and> cr_second r = v \<or> cr_first r = v \<and> cr_second r = u"

definition combat_links :: "world \<Rightarrow> bool" where
  "combat_links w \<longleftrightarrow>
     (\<forall>p u v a. map_of (crefs p w u) v = Some a
        \<longleftrightarrow> (\<exists>r. w_cref w a = Some r \<and> cr_isPvP r = p \<and> joins r u v)) \<and>
     (\<forall>a r. w_cref w a = Some r \<longrightarrow> cr_first r \<noteq> cr_second r \<and> a < w_next w) \<and>
     (\<forall>p u. distinct (map fst (crefs p w u))) \<and>
     (\<forall>u v. map_of (crefs False w u) v = None \<or> map_of (crefs True w u) v = None)"

definition flags_except :: "guid set \<Rightarrow> world \<Rightarrow> bool" where
  "flags_except S w \<longleftrightarrow>
     (\<forall>u. u \<notin> S \<and> \<not> u_flagWritten (w_unit w u) \<longrightarrow> IsInCombat (w_unit w u) = HasCombat w u)"

text \<open>What the managers never change of a unit: its type, and whether others wrote its flag.\<close>

definition fixed :: "world \<Rightarrow> guid \<Rightarrow> u8 \<times> bool" where
  "fixed w u = (u_typeId (w_unit w u), u_flagWritten (w_unit w u))"

lemma fixed_units: "w_unit w' = w_unit w \<Longrightarrow> fixed w' = fixed w"
  by (simp add: fixed_def fun_eq_iff)

lemma fixedD:
  "fixed w' = fixed w \<Longrightarrow> u_typeId (w_unit w' u) = u_typeId (w_unit w u)"
  "fixed w' = fixed w \<Longrightarrow> u_flagWritten (w_unit w' u) = u_flagWritten (w_unit w u)"
  by (auto simp: fixed_def dest: fun_cong [where x = u])

abbreviation flag_ok :: "world \<Rightarrow> guid \<Rightarrow> bool" where
  "flag_ok w u \<equiv> IsInCombat (w_unit w u) = HasCombat w u"

definition covered :: "world \<Rightarrow> bool" where
  "covered w \<longleftrightarrow> (\<forall>u v. threat_map w u v \<noteq> None \<longrightarrow> IsInCombatWith w u v)"

definition world_ok :: "world \<Rightarrow> bool" where
  "world_ok w \<longleftrightarrow> threat_ok w \<and> combat_links w \<and> flags_except {} w \<and> covered w \<and> \<not> w_crashed w"

lemma combat_linksD:
  assumes "combat_links w"
  shows "map_of (crefs p w u) v = Some a \<longleftrightarrow> (\<exists>r. w_cref w a = Some r \<and> cr_isPvP r = p \<and> joins r u v)"
    "w_cref w a = Some r \<Longrightarrow> cr_first r \<noteq> cr_second r" "w_cref w a = Some r \<Longrightarrow> a < w_next w"
    "distinct (map fst (crefs p w u))"
    "map_of (crefs p w u) v = None \<or> map_of (crefs (\<not> p) w u) v = None"
proof -
  note L = assms [unfolded combat_links_def]
  show "map_of (crefs p w u) v = Some a \<longleftrightarrow> (\<exists>r. w_cref w a = Some r \<and> cr_isPvP r = p \<and> joins r u v)"
    using L by blast
  show "w_cref w a = Some r \<Longrightarrow> cr_first r \<noteq> cr_second r" "w_cref w a = Some r \<Longrightarrow> a < w_next w"
    "distinct (map fst (crefs p w u))"
    using L by blast+
  show "map_of (crefs p w u) v = None \<or> map_of (crefs (\<not> p) w u) v = None"
    using L [THEN conjunct2, THEN conjunct2, THEN conjunct2, THEN spec, THEN spec, of u v] by (cases p) auto
qed

lemma combat_linksI:
  assumes "\<And>p u v a. map_of (crefs p w u) v = Some a
      \<longleftrightarrow> (\<exists>r. w_cref w a = Some r \<and> cr_isPvP r = p \<and> joins r u v)"
    "\<And>a r. w_cref w a = Some r \<Longrightarrow> cr_first r \<noteq> cr_second r \<and> a < w_next w"
    "\<And>p u. distinct (map fst (crefs p w u))"
    "\<And>u v. map_of (crefs False w u) v = None \<or> map_of (crefs True w u) v = None"
  shows "combat_links w"
  unfolding combat_links_def using assms by blast

lemma joins_sym: "joins r u v = joins r v u"
  by (auto simp: joins_def)

lemma combat_sym:
  assumes "combat_links w"
  shows "map_of (crefs p w u) v = map_of (crefs p w v) u"
proof -
  have "map_of (crefs p w u) v = Some a \<longleftrightarrow> map_of (crefs p w v) u = Some a" for a
    by (simp add: combat_linksD(1) [OF assms] joins_sym)
  then show ?thesis by (metis option.exhaust)
qed

lemma IsInCombatWith_crefs: "IsInCombatWith w u v \<longleftrightarrow> (\<exists>p. map_of (crefs p w u) v \<noteq> None)"
  unfolding IsInCombatWith_def crefs_def ex_bool_eq by auto

lemma HasCombat_crefs:
  "HasCombat w u \<longleftrightarrow> (\<exists>p. \<exists>(g, a) \<in> set (crefs p w u). \<not> IsSuppressedFor (cref w a) u)"
  unfolding HasCombat_def HasPvECombat_def HasPvPCombat_def crefs_def list_ex_iff ex_bool_eq
  by auto

lemma HasCombat_cong:
  assumes "\<And>p. crefs p w' u = crefs p w u"
    "\<And>p g a. (g, a) \<in> set (crefs p w u) \<Longrightarrow> IsSuppressedFor (cref w' a) u = IsSuppressedFor (cref w a) u"
  shows "HasCombat w' u = HasCombat w u"
  using assms(2) unfolding HasCombat_crefs assms(1) by blast

text \<open>The threat lists do not notice a change of the rest.\<close>

lemma threat_ok_cong:
  assumes "threat_ok w" "w_threat w' = w_threat w" "w_tref w' = w_tref w" "w_next w \<le> w_next w'"
    "\<And>u. u_typeId (w_unit w' u) = u_typeId (w_unit w u)"
  shows "threat_ok w'" "threat_map w' = threat_map w"
proof -
  have e: "ends w' = ends w" by (simp add: ends_def fun_eq_iff assms)
  have n: "\<And>b. w_next w' \<le> b \<Longrightarrow> w_next w \<le> b" using assms(4) by linarith
  have ln: "threat_links w" and co: "current_ok w" and am: "amounts_ok w" and cl: "creature_lists w"
    using assms(1) by (simp_all add: threat_ok_def)
  have "creature_lists w'" using cl by (simp add: creature_lists_def assms(2,5))
  moreover have "threat_links w'"
    by (rule threat_linksI; simp only: assms(2) e)
      (use threat_linksD [OF ln] n in blast)+
  ultimately show "threat_ok w'" using co am
    by (simp add: threat_ok_def current_ok_def current_mem_def amounts_ok_def tref_def assms(2,3))
  show "threat_map w' = threat_map w" by (simp add: threat_map_def assms(2) fun_eq_iff)
qed

section \<open>Updating the flags\<close>

lemma UpdatePet_fields [simp]:
  "w_combat (UpdatePetCombatState m w) = w_combat w" "w_cref (UpdatePetCombatState m w) = w_cref w"
  "w_threat (UpdatePetCombatState m w) = w_threat w" "w_tref (UpdatePetCombatState m w) = w_tref w"
  "w_next (UpdatePetCombatState m w) = w_next w" "w_crashed (UpdatePetCombatState m w) = w_crashed w"
  "IsInCombat (w_unit (UpdatePetCombatState m w) x) = IsInCombat (w_unit w x)"
  "fixed (UpdatePetCombatState m w) = fixed w"
  by (simp_all add: UpdatePetCombatState_def upd_unit_def Let_def fixed_def fun_eq_iff)

lemma UpdateOwner_fields:
  assumes "UpdateOwnerCombatState u w = (b, w')"
  shows "w_combat w' = w_combat w" "w_cref w' = w_cref w" "w_threat w' = w_threat w"
    "w_tref w' = w_tref w" "w_next w' = w_next w" "w_crashed w' = w_crashed w"
    "IsInCombat (w_unit w' x) = (if x = u then HasCombat w u else IsInCombat (w_unit w x))"
    "fixed w' = fixed w"
proof -
  have w': "w' = snd (UpdateOwnerCombatState u w)" by (simp add: assms)
  show "w_combat w' = w_combat w" "w_cref w' = w_cref w" "w_threat w' = w_threat w"
    "w_tref w' = w_tref w" "w_next w' = w_next w" "w_crashed w' = w_crashed w"
    unfolding w' UpdateOwnerCombatState_def Let_def
    by (auto simp: emit_def upd_unit_def split: option.splits)
  show "IsInCombat (w_unit w' x) = (if x = u then HasCombat w u else IsInCombat (w_unit w x))"
    unfolding w' UpdateOwnerCombatState_def Let_def
    by (auto simp: emit_def upd_unit_def split: option.splits)
  have "fixed (upd_unit u (SetUnitFlag f) v) = fixed v" "fixed (upd_unit u (RemoveUnitFlag f) v) = fixed v"
    "fixed (emit x v) = fixed v" for f v x
    by (simp_all add: fixed_def upd_unit_def emit_def fun_eq_iff)
  then show "fixed w' = fixed w"
    unfolding w' UpdateOwnerCombatState_def Let_def by (simp split: option.split)
qed

lemma crefs_cong: "w_combat w' = w_combat w \<Longrightarrow> crefs p w' u = crefs p w u"
  by (simp add: crefs_def)

lemma UpdateOwner_flags:
  assumes "UpdateOwnerCombatState u w = (b, w')" "flags_except S w"
  shows "flags_except (S - {u}) w'"
proof -
  note F = UpdateOwner_fields [OF assms(1)]
  have "HasCombat w' x = HasCombat w x" for x
    by (rule HasCombat_cong, rule crefs_cong, rule F(1)) (simp add: F cref_def)
  then show ?thesis using assms(2) fixedD(2) [OF F(8)] by (simp add: flags_except_def F(7))
qed

lemma notify_fields [simp]:
  "w_combat (NotifyAICombat m x w) = w_combat w" "w_cref (NotifyAICombat m x w) = w_cref w"
  "w_threat (NotifyAICombat m x w) = w_threat w" "w_tref (NotifyAICombat m x w) = w_tref w"
  "w_next (NotifyAICombat m x w) = w_next w" "w_crashed (NotifyAICombat m x w) = w_crashed w"
  "w_unit (NotifyAICombat m x w) = w_unit w"
  "w_combat (NotifyAIExit n m w) = w_combat w" "w_cref (NotifyAIExit n m w) = w_cref w"
  "w_threat (NotifyAIExit n m w) = w_threat w" "w_tref (NotifyAIExit n m w) = w_tref w"
  "w_next (NotifyAIExit n m w) = w_next w" "w_crashed (NotifyAIExit n m w) = w_crashed w"
  "w_unit (NotifyAIExit n m w) = w_unit w"
  by (simp_all add: NotifyAICombat_def NotifyAIExit_def emit_def)

lemma fixed_frame [simp]:
  "fixed (NotifyAICombat m x w) = fixed w" "fixed (NotifyAIExit n m w) = fixed w"
  "fixed (put_cref a r w) = fixed w" "fixed (PurgeReference u g q w) = fixed w"
  by (rule fixed_units, simp add: put_cref_def PurgeReference_def upd_combat_def)+

text \<open>Worlds that differ in units' attributes other than the flag, in the log, and so on.\<close>

definition same_core :: "world \<Rightarrow> world \<Rightarrow> bool" where
  "same_core w w' \<longleftrightarrow> w_combat w' = w_combat w \<and> w_cref w' = w_cref w \<and> w_threat w' = w_threat w
     \<and> w_tref w' = w_tref w \<and> w_next w' = w_next w \<and> w_crashed w' = w_crashed w \<and> fixed w' = fixed w"

lemma same_core_links: "same_core w w' \<Longrightarrow> combat_links w' = combat_links w"
  by (simp add: same_core_def combat_links_def crefs_def)

lemma same_core_flags:
  assumes "same_core w w'" "\<And>u. IsInCombat (w_unit w' u) = IsInCombat (w_unit w u)"
  shows "flags_except S w' = flags_except S w"
proof -
  have "HasCombat w' x = HasCombat w x" for x
    by (rule HasCombat_cong, rule crefs_cong) (use assms(1) in \<open>simp_all add: same_core_def cref_def\<close>)
  moreover have "fixed w' = fixed w" using assms(1) by (simp add: same_core_def)
  ultimately show ?thesis using assms(2) fixedD(2) [of w' w] by (simp add: flags_except_def)
qed

lemma same_core_ok:
  assumes "world_ok w" "same_core w w'" "flags_except {} w'"
  shows "world_ok w'"
proof -
  have "threat_ok w'" "threat_map w' = threat_map w"
    using threat_ok_cong [of w w'] assms fixedD(1) [of w' w] by (simp_all add: world_ok_def same_core_def)
  moreover have "IsInCombatWith w' = IsInCombatWith w"
    using assms(2) by (simp add: IsInCombatWith_def same_core_def fun_eq_iff)
  ultimately show ?thesis
    using assms same_core_links [OF assms(2)] by (simp add: world_ok_def covered_def same_core_def)
qed

lemma UpdateOwner_core: "UpdateOwnerCombatState u w = (b, w') \<Longrightarrow> same_core w w'"
  by (simp add: same_core_def UpdateOwner_fields)

section \<open>Ending combat\<close>

lemma PurgeReference_fields [simp]:
  "crefs p (PurgeReference u g q w) x =
     (if p = q \<and> x = u then AList.delete g (crefs p w u) else crefs p w x)"
  "w_cref (PurgeReference u g q w) = w_cref w" "w_threat (PurgeReference u g q w) = w_threat w"
  "w_tref (PurgeReference u g q w) = w_tref w" "w_next (PurgeReference u g q w) = w_next w"
  "w_crashed (PurgeReference u g q w) = w_crashed w" "w_unit (PurgeReference u g q w) = w_unit w"
  by (auto simp: PurgeReference_def upd_combat_def crefs_def)

lemma PurgeReference_threat:
  assumes "threat_ok w"
  shows "threat_ok (PurgeReference u g q w)" "threat_map (PurgeReference u g q w) = threat_map w"
  using threat_ok_cong [OF assms, of "PurgeReference u g q w"] by simp_all

text \<open>
  \<open>ended p u v a w w'\<close>: in \<open>w'\<close> the reference \<open>a\<close> between \<open>u\<close> and \<open>v\<close> is gone from the
  store and both maps, with the threat between the two, and the flags of both are updated.
\<close>

definition ended :: "bool \<Rightarrow> guid \<Rightarrow> guid \<Rightarrow> addr \<Rightarrow> world \<Rightarrow> world \<Rightarrow> bool" where
  "ended p u v a w w' \<longleftrightarrow>
     threat_ok w' \<and> threat_map w' = drop_link v u (drop_link u v (threat_map w)) \<and>
     (\<forall>q x. crefs q w' x = (if q = p \<and> x = u then AList.delete v (crefs q w u)
        else if q = p \<and> x = v then AList.delete u (crefs q w v) else crefs q w x)) \<and>
     w_cref w' = (w_cref w)(a := None) \<and> w_next w' = w_next w \<and> (w_crashed w' \<longrightarrow> w_crashed w) \<and>
     fixed w' = fixed w \<and> flags_except {} w' \<and> flag_ok w' u \<and> flag_ok w' v"

lemma ended_map:
  assumes "ended p u v a w w'"
  shows "map_of (crefs q w' x) y = (if q = p \<and> (x = u \<and> y = v \<or> x = v \<and> y = u) then None
    else map_of (crefs q w x) y)"
  using assms by (auto simp: ended_def delete_conv')

lemma ended_ok:
  assumes ok: "world_ok w" and a: "map_of (crefs p w u) v = Some a" and e: "ended p u v a w w'"
  shows "world_ok w'"
proof -
  have ln: "combat_links w" using ok by (simp add: world_ok_def)
  note D = combat_linksD [OF ln] and M = ended_map [OF e]
  obtain r where r: "w_cref w a = Some r" "cr_isPvP r = p" "joins r u v" using a D(1) by blast
  have cr: "w_cref w' = (w_cref w)(a := None)" "w_next w' = w_next w" using e by (simp_all add: ended_def)
  have "combat_links w'"
  proof (rule combat_linksI)
    fix q x y b
    have mine: "map_of (crefs q w x) y = Some a \<longleftrightarrow> q = p \<and> (x = u \<and> y = v \<or> x = v \<and> y = u)"
      using D(1) [of q x y a] r by (auto simp: joins_def)
    have this': "map_of (crefs p w x) y = Some a" if "x = u \<and> y = v \<or> x = v \<and> y = u"
      using that a combat_sym [OF ln] by auto
    show "map_of (crefs q w' x) y = Some b \<longleftrightarrow> (\<exists>r. w_cref w' b = Some r \<and> cr_isPvP r = q \<and> joins r x y)"
    proof (cases "b = a")
      case True
      then show ?thesis using mine by (simp add: M cr)
    next
      case False
      have "map_of (crefs q w' x) y = Some b \<longleftrightarrow> map_of (crefs q w x) y = Some b"
        using False this' by (auto simp: M)
      with False show ?thesis using D(1) by (simp add: cr)
    qed
  next
    fix b s
    show "w_cref w' b = Some s \<Longrightarrow> cr_first s \<noteq> cr_second s \<and> b < w_next w'"
      using D(2,3) [of b s] by (auto simp: cr split: if_splits)
  next
    fix q x
    show "distinct (map fst (crefs q w' x))"
      using e D(4) by (auto simp: ended_def distinct_delete)
  next
    fix x y
    show "map_of (crefs False w' x) y = None \<or> map_of (crefs True w' x) y = None"
      using D(5) [of False x y] by (auto simp: M)
  qed
  moreover have "covered w'"
  proof -
    have "IsInCombatWith w' x y" if t: "threat_map w' x y \<noteq> None" for x y
    proof -
      have n: "\<not> (x = u \<and> y = v \<or> x = v \<and> y = u)" and tw: "threat_map w x y \<noteq> None"
        using e t by (auto simp: ended_def drop_link_def split: if_splits)
      then show ?thesis
        using ok M [of _ x y] by (auto simp: world_ok_def covered_def IsInCombatWith_crefs)
    qed
    then show ?thesis by (simp add: covered_def)
  qed
  ultimately show ?thesis using e ok by (simp add: world_ok_def ended_def)
qed

lemma flags_except_mono: "flags_except S w \<Longrightarrow> S \<subseteq> T \<Longrightarrow> flags_except T w"
  by (auto simp: flags_except_def)

lemma delete_idem [simp]: "AList.delete k (AList.delete k l) = AList.delete k l"
  by (rule delete_idem)

text \<open>\<open>EndCombat\<close>, also with the entry of one side erased before, as the loops do it.\<close>

lemma EndCombat_ended:
  assumes ok: "world_ok w" and a: "map_of (crefs p w u) v = Some a" and ord: "heap_contract (ordered env)"
    and w0: "w0 = w \<or> w0 = PurgeReference u v p w"
  shows "ended p u v a w (EndCombat env a w0)"
proof -
  have ln: "combat_links w" and th: "threat_ok w" using ok by (simp_all add: world_ok_def)
  note D = combat_linksD [OF ln]
  obtain r where r: "w_cref w a = Some r" "cr_isPvP r = p" "joins r u v" using a D(1) by blast
  let ?f = "cr_first r" and ?s = "cr_second r"
  have fs: "?f \<noteq> ?s" using D(2) r by blast
  have W0: "threat_ok w0" "threat_map w0 = threat_map w" "w_cref w0 = w_cref w" "w_next w0 = w_next w"
    "w_unit w0 = w_unit w" "w_crashed w0 = w_crashed w"
    "\<And>q x. crefs q w0 x = (if w0 \<noteq> w \<and> q = p \<and> x = u then AList.delete v (crefs q w u) else crefs q w x)"
    using w0 th PurgeReference_threat by auto
  have cr: "cref w0 a = r" using r by (simp add: cref_def W0)
  define w1 where "w1 = ClearThreat env ?s ?f (ClearThreat env ?f ?s w0)"
  have W1: "threat_ok w1" "threat_map w1 = drop_link ?s ?f (drop_link ?f ?s (threat_map w))" "frame w0 w1"
    unfolding w1_def using ClearThreat_ok [OF W0(1) ord] W0(2)
      ClearThreat_ok [OF ClearThreat_ok(1) [OF W0(1) ord] ord] by (simp_all) (blast intro: frame_trans)
  define w2 where "w2 = PurgeReference ?s ?f p (PurgeReference ?f ?s p w1)"
  have C2: "crefs q w2 x = (if q = p \<and> x = u then AList.delete v (crefs q w u)
      else if q = p \<and> x = v then AList.delete u (crefs q w v) else crefs q w x)" for q x
  proof -
    have "crefs q w1 y = crefs q w0 y" for y using W1(3) by (simp add: frame_def crefs_def)
    with r(3) fs show ?thesis by (auto simp: w2_def W0(7) joins_def)
  qed
  have W2: "threat_ok w2" "threat_map w2 = threat_map w1" "w_cref w2 = w_cref w" "w_next w2 = w_next w"
    "w_unit w2 = w_unit w" "w_crashed w2 \<longrightarrow> w_crashed w"
    using W1 PurgeReference_threat W0 by (auto simp: w2_def frame_def)
  have notin: "(g, a) \<notin> set (crefs q w2 x)" for g q x
  proof
    assume "(g, a) \<in> set (crefs q w2 x)"
    moreover have "distinct (map fst (crefs q w2 x))" using D(4) by (simp add: C2 distinct_delete)
    ultimately have m: "map_of (crefs q w2 x) g = Some a" by (rule map_of_is_SomeI [rotated])
    then have "map_of (crefs q w x) g = Some a"
      by (auto simp: C2 delete_conv' split: if_splits)
    with D(1) r have "q = p" "x = u \<and> g = v \<or> x = v \<and> g = u" by (auto simp: joins_def)
    with m show False by (auto simp: C2 delete_conv' split: if_splits)
  qed
  have "flags_except {?f, ?s} w2"
  proof -
    have "HasCombat w2 x = HasCombat w x" if "x \<noteq> ?f" "x \<noteq> ?s" for x
      using that r(3) by (intro HasCombat_cong) (auto simp: C2 joins_def cref_def W2(3))
    then show ?thesis using ok by (simp add: flags_except_def W2(5) world_ok_def)
  qed
  obtain b3 w3 where u3: "UpdateOwnerCombatState ?f w2 = (b3, w3)" by fastforce
  obtain b4 w4 where u4: "UpdateOwnerCombatState ?s w3 = (b4, w4)" by fastforce
  have fl: "flags_except {} w4"
    using UpdateOwner_flags [OF u4 UpdateOwner_flags [OF u3 \<open>flags_except {?f, ?s} w2\<close>]]
    by (rule flags_except_mono) auto
  have core: "same_core w2 w4" using UpdateOwner_core [OF u3] UpdateOwner_core [OF u4]
    by (simp add: same_core_def)
  define w' where "w' = EndCombat env a w0"
  have w'_eq: "w' = (NotifyAIExit b4 ?s (NotifyAIExit b3 ?f w4))\<lparr>w_cref := (w_cref w4)(a := None)\<rparr>"
    by (simp add: w'_def EndCombat_def cr Let_def r(2) w1_def [symmetric] w2_def [symmetric] u3 u4)
  have W': "w_combat w' = w_combat w2" "w_cref w' = (w_cref w)(a := None)" "w_threat w' = w_threat w2"
    "w_tref w' = w_tref w2" "w_next w' = w_next w" "w_crashed w' \<longrightarrow> w_crashed w" "w_unit w' = w_unit w4"
    using core W2 by (auto simp: w'_eq same_core_def)
  have fx: "fixed w4 = fixed w2" "fixed w2 = fixed w" "fixed w' = fixed w4"
    using core fixed_units [OF W2(5)] fixed_units [OF W'(7)] by (simp_all add: same_core_def)
  have "HasCombat w' x = HasCombat w4 x" for x
  proof (rule HasCombat_cong)
    show cq: "crefs q w' x = crefs q w4 x" for q using core W' by (simp add: crefs_def same_core_def)
    show "IsSuppressedFor (cref w' b) x = IsSuppressedFor (cref w4 b) x"
      if "(g, b) \<in> set (crefs q w4 x)" for q g b
    proof -
      have "(g, b) \<in> set (crefs q w2 x)"
        using that core by (auto simp: crefs_def same_core_def split: if_splits)
      then have "b \<noteq> a" using notin by blast
      then show ?thesis using core W2 by (simp add: cref_def W' same_core_def)
    qed
  qed
  note hc = this
  then have fl': "flags_except {} w'" using fl by (simp add: flags_except_def W')
  have "HasCombat z' x = HasCombat z x" if "UpdateOwnerCombatState y z = (b, z')" for x y b z z'
    by (rule HasCombat_cong, rule crefs_cong) (simp_all add: UpdateOwner_fields [OF that] cref_def)
  then have fo: "flag_ok w' ?f" "flag_ok w' ?s"
    using u3 u4 fs by (simp_all add: hc W' UpdateOwner_fields(7) [OF u4] UpdateOwner_fields(7) [OF u3])
  then have fo': "flag_ok w' u" "flag_ok w' v" using r(3) by (auto simp: joins_def)
  have C': "crefs q w' x = crefs q w2 x" for q x using W' by (simp add: crefs_def)
  have T': "threat_ok w'" "threat_map w' = threat_map w1"
    using threat_ok_cong [OF W2(1), of w'] W2(2,4) W' fixedD(1) [OF fx(1)] by simp_all
  have dl: "drop_link ?s ?f (drop_link ?f ?s m) = drop_link v u (drop_link u v m)" for m
    using r(3) fs by (auto simp: joins_def drop_link_def fun_eq_iff)
  show ?thesis
    unfolding ended_def w'_def [symmetric] using T' W1(2) W' fl' fx fo' by (simp add: dl C' C2)
qed

lemma EndCombat_ok:
  assumes "world_ok w" "map_of (crefs p w u) v = Some a" "heap_contract (ordered env)"
    "w0 = w \<or> w0 = PurgeReference u v p w"
  shows "world_ok (EndCombat env a w0)"
  using ended_ok [OF assms(1,2) EndCombat_ended [OF assms]] .

section \<open>Between two flag updates\<close>

text \<open>\<open>world_mid S\<close>: everything but the flags of the units in \<open>S\<close>, still to be updated.\<close>

definition world_mid :: "guid set \<Rightarrow> world \<Rightarrow> bool" where
  "world_mid S w \<longleftrightarrow> threat_ok w \<and> combat_links w \<and> flags_except S w \<and> covered w \<and> \<not> w_crashed w"

lemma world_ok_mid: "world_ok w = world_mid {} w"
  by (simp add: world_ok_def world_mid_def)

lemma world_mid_mono: "world_mid S w \<Longrightarrow> S \<subseteq> T \<Longrightarrow> world_mid T w"
  unfolding world_mid_def using flags_except_mono by blast

lemma mid_core:
  assumes "world_mid S w" "same_core w w'" "flags_except T w'"
  shows "world_mid T w'"
proof -
  have "threat_ok w'" "threat_map w' = threat_map w"
    using threat_ok_cong [of w w'] assms fixedD(1) [of w' w] by (simp_all add: world_mid_def same_core_def)
  moreover have "IsInCombatWith w' = IsInCombatWith w"
    using assms(2) by (simp add: IsInCombatWith_def same_core_def fun_eq_iff)
  ultimately show ?thesis
    using assms same_core_links [OF assms(2)] by (simp add: world_mid_def covered_def same_core_def)
qed

lemma mid_update:
  assumes "world_mid S w" "UpdateOwnerCombatState u w = (b, w')"
  shows "world_mid (S - {u}) w'"
proof -
  have "flags_except S w" using assms(1) by (simp add: world_mid_def)
  from mid_core [OF assms(1) UpdateOwner_core [OF assms(2)] UpdateOwner_flags [OF assms(2) this]]
  show ?thesis .
qed

lemma mid_notify:
  assumes "world_mid S w"
  shows "world_mid S (NotifyAICombat m x w)" "world_mid S (NotifyAIExit n m w)"
proof -
  have "flags_except S w" using assms by (simp add: world_mid_def)
  then show "world_mid S (NotifyAICombat m x w)" "world_mid S (NotifyAIExit n m w)"
    using same_core_flags [of w "NotifyAICombat m x w"] same_core_flags [of w "NotifyAIExit n m w"]
    by (auto intro!: mid_core [OF assms] simp: same_core_def)
qed

lemma put_cref_fields [simp]:
  "crefs p (put_cref a r w) u = crefs p w u" "w_cref (put_cref a r w) = (w_cref w)(a \<mapsto> r)"
  "w_threat (put_cref a r w) = w_threat w" "w_tref (put_cref a r w) = w_tref w"
  "w_next (put_cref a r w) = w_next w" "w_unit (put_cref a r w) = w_unit w"
  "w_combat (put_cref a r w) = w_combat w" "cref (put_cref a r w) b = (if b = a then r else cref w b)"
  by (simp_all add: put_cref_def crefs_def cref_def)

text \<open>A change of a reference that keeps its ends, and suppression outside \<open>S\<close>.\<close>

lemma mid_put:
  assumes mid: "world_mid S w" and r: "w_cref w a = Some r"
    and same: "cr_first r' = cr_first r" "cr_second r' = cr_second r" "cr_isPvP r' = cr_isPvP r"
    and sup: "\<And>x. x \<in> {cr_first r, cr_second r} \<Longrightarrow> x \<notin> S \<Longrightarrow> IsSuppressedFor r' x = IsSuppressedFor r x"
  shows "world_mid S (put_cref a r' w)"
proof -
  let ?w = "put_cref a r' w"
  have ln: "combat_links w" using mid by (simp add: world_mid_def)
  note D = combat_linksD [OF ln]
  have "combat_links ?w"
  proof (rule combat_linksI)
    fix p u v b
    show "map_of (crefs p ?w u) v = Some b \<longleftrightarrow> (\<exists>s. w_cref ?w b = Some s \<and> cr_isPvP s = p \<and> joins s u v)"
      using D(1) [of p u v b] r same by (auto simp: joins_def)
  next
    fix b s
    show "w_cref ?w b = Some s \<Longrightarrow> cr_first s \<noteq> cr_second s \<and> b < w_next ?w"
      using D(2,3) r same by (auto split: if_splits)
  next
    fix p u v
    show "distinct (map fst (crefs p ?w u))" using D(4) by simp
    show "map_of (crefs False ?w u) v = None \<or> map_of (crefs True ?w u) v = None"
      using D(5) [of False u v] by simp
  qed
  moreover have "flags_except S ?w"
  proof -
    have "HasCombat ?w x = HasCombat w x" if x: "x \<notin> S" for x
    proof (rule HasCombat_cong)
      show "crefs p ?w x = crefs p w x" for p by simp
      show "IsSuppressedFor (cref ?w b) x = IsSuppressedFor (cref w b) x"
        if m: "(g, b) \<in> set (crefs p w x)" for p g b
      proof (cases "b = a")
        case True
        have "map_of (crefs p w x) g = Some a" using m True D(4) by (simp add: map_of_is_SomeI)
        then have "x \<in> {cr_first r, cr_second r}" using D(1) r by (auto simp: joins_def)
        then have "IsSuppressedFor r' x = IsSuppressedFor r x" using sup x by blast
        then show ?thesis using True r by (simp add: cref_def)
      qed simp
    qed
    then show ?thesis using mid by (simp add: world_mid_def flags_except_def)
  qed
  moreover have "threat_ok ?w" "threat_map ?w = threat_map w"
    using threat_ok_cong [of w ?w] mid by (simp_all add: world_mid_def)
  moreover have "IsInCombatWith ?w u v = IsInCombatWith w u v" for u v
    by (simp add: IsInCombatWith_crefs)
  ultimately show ?thesis using mid by (simp add: world_mid_def covered_def)
qed

lemma Refresh_fields:
  "w_combat (Refresh a w) = w_combat w" "w_threat (Refresh a w) = w_threat w"
  "w_tref (Refresh a w) = w_tref w" "w_next (Refresh a w) = w_next w" "fixed (Refresh a w) = fixed w"
  by (auto simp: Refresh_def Let_def UpdateOwner_fields split: prod.splits if_splits)

lemma Refresh_ok:
  assumes ok: "world_ok w" and r: "w_cref w a = Some r"
  shows "world_ok (Refresh a w)"
proof -
  let ?f = "cr_first r" and ?s = "cr_second r"
  have mid: "world_mid {} w" using ok by (simp add: world_ok_mid)
  have fs: "?f \<noteq> ?s" using combat_linksD(2) [of w a r] ok r by (simp add: world_ok_def)
  have cr: "cref w a = r" using r by (simp add: cref_def)
  obtain b1 w1 where u1: "(if cr_suppressFirst r
      then UpdateOwnerCombatState ?f (put_cref a (r\<lparr>cr_suppressFirst := False\<rparr>) w) else (False, w)) = (b1, w1)"
    by fastforce
  have "world_mid {?f} (put_cref a (r\<lparr>cr_suppressFirst := False\<rparr>) w)"
    by (rule mid_put [OF world_mid_mono [OF mid] r]) (auto simp: IsSuppressedFor_def)
  then have m1: "world_mid {} w1"
    using mid u1 mid_update [where u = ?f and S = "{?f}"] by (auto split: if_splits)
  have "\<exists>r1. w_cref w1 a = Some r1 \<and> cr_first r1 = ?f \<and> cr_second r1 = ?s"
    using u1 r by (auto split: if_splits simp: UpdateOwner_fields)
  then obtain r1 where r1: "w_cref w1 a = Some r1" "cr_first r1 = ?f" "cr_second r1 = ?s" by blast
  have cr1: "cref w1 a = r1" using r1 by (simp add: cref_def)
  obtain b2 w2 where u2: "(if cr_suppressSecond r1
      then UpdateOwnerCombatState ?s (put_cref a (r1\<lparr>cr_suppressSecond := False\<rparr>) w1) else (False, w1)) = (b2, w2)"
    by fastforce
  have "world_mid {?s} (put_cref a (r1\<lparr>cr_suppressSecond := False\<rparr>) w1)"
    by (rule mid_put [OF world_mid_mono [OF m1] r1(1)]) (use fs r1 in \<open>auto simp: IsSuppressedFor_def\<close>)
  then have m2: "world_mid {} w2"
    using m1 u2 mid_update [where u = ?s and S = "{?s}"] by (auto split: if_splits)
  have "Refresh a w = (let w3 = (if b1 then NotifyAICombat ?f ?s w2 else w2)
      in if b2 then NotifyAICombat ?s ?f w3 else w3)"
    by (simp only: Refresh_def Let_def cr u1 cr1 u2 prod.case)
  then show ?thesis using m2 by (auto simp: world_ok_mid Let_def mid_notify)
qed

lemma SuppressFor_ok:
  assumes ok: "world_ok w" and r: "w_cref w a = Some r" and who: "who \<in> {cr_first r, cr_second r}"
  shows "world_ok (SuppressFor a who w)"
proof -
  have mid: "world_mid {} w" using ok by (simp add: world_ok_mid)
  have "world_mid {who} (put_cref a (Suppress who r) w)"
    by (rule mid_put [OF world_mid_mono [OF mid] r])
      (use who in \<open>auto simp: IsSuppressedFor_def Suppress_def\<close>)
  then have "world_mid {} w1" if "UpdateOwnerCombatState who (put_cref a (Suppress who r) w) = (b, w1)" for b w1
    using mid_update that by fastforce
  then show ?thesis using r
    by (auto simp: SuppressFor_def cref_def world_ok_mid split: prod.splits intro: mid_notify)
qed

end
