(* ===== verification/Combat_Ops.thy ===== *)
theory Combat_Ops
  imports Combat_Links
begin

text \<open>
  Every operation of \<open>CombatManager\<close> keeps the invariant of theory \<open>Combat_Links\<close>; what
  \<open>SetInCombatWith\<close> returns; the loops that end all combat terminate.
\<close>

section \<open>Starting combat\<close>

lemma put_next_fields [simp]:
  "crefs p (w\<lparr>w_next := n\<rparr>) u = crefs p w u" "crefs p (w\<lparr>w_cref := f\<rparr>) u = crefs p w u"
  "cref (w\<lparr>w_next := n\<rparr>) a = cref w a"
  by (simp_all add: crefs_def cref_def)

lemma PutReference_fields [simp]:
  "crefs p (PutReference u g a w) x =
     (if p = cr_isPvP (cref w a) \<and> x = u then AList.update g a (crefs p w u) else crefs p w x)"
  "w_cref (PutReference u g a w) = w_cref w" "w_threat (PutReference u g a w) = w_threat w"
  "w_tref (PutReference u g a w) = w_tref w" "w_next (PutReference u g a w) = w_next w"
  "w_unit (PutReference u g a w) = w_unit w" "cref (PutReference u g a w) b = cref w b"
  by (auto simp: PutReference_def upd_combat_def crefs_def assert_that_def cref_def)

lemma PutReference_crashed:
  "w_crashed (PutReference u g a w) \<longleftrightarrow>
     w_crashed w \<or> map_of (crefs (cr_isPvP (cref w a)) w u) g \<noteq> None"
  by (auto simp: PutReference_def crefs_def assert_that_def upd_combat_def)

lemma new_reference_map:
  assumes "u \<noteq> v" "cr_first r = u" "cr_second r = v"
  shows "map_of (crefs p (PutReference v u a (PutReference u v a ((put_cref a r w)\<lparr>w_next := n\<rparr>))) x) y =
    (if p = cr_isPvP r \<and> joins r x y then Some a else map_of (crefs p w x) y)"
  using assms by (auto simp: update_conv' joins_def)

lemma new_reference_mid:
  assumes ok: "world_ok w" and no: "\<not> IsInCombatWith w u v" and uv: "u \<noteq> v"
    and r: "cr_first r = u" "cr_second r = v"
  defines "w' \<equiv> PutReference v u (w_next w) (PutReference u v (w_next w) ((put_cref (w_next w) r w)\<lparr>w_next := Suc (w_next w)\<rparr>))"
  shows "world_mid {u, v} w'"
proof -
  let ?a = "w_next w"
  have ln: "combat_links w" and th: "threat_ok w" using ok by (simp_all add: world_ok_def)
  note D = combat_linksD [OF ln]
  have fresh: "w_cref w ?a = None" using D(3) by (metis less_irrefl not_None_eq)
  have nuv: "map_of (crefs p w u) v = None" "map_of (crefs p w v) u = None" for p
    using no combat_sym [OF ln] by (auto simp: IsInCombatWith_crefs)
  have cr: "w_cref w' = (w_cref w)(?a \<mapsto> r)" by (simp add: w'_def)
  have C: "crefs p w' x = (if p = cr_isPvP r \<and> x = u then AList.update v ?a (crefs p w u)
      else if p = cr_isPvP r \<and> x = v then AList.update u ?a (crefs p w v) else crefs p w x)" for p x
    using uv by (simp add: w'_def cref_def)
  have M: "map_of (crefs p w' x) y = (if p = cr_isPvP r \<and> joins r x y then Some ?a
      else map_of (crefs p w x) y)" for p x y
    using uv r by (auto simp: C update_conv' joins_def)
  have links: "combat_links w'"
  proof (rule combat_linksI)
    fix p x y b
    show "map_of (crefs p w' x) y = Some b \<longleftrightarrow> (\<exists>s. w_cref w' b = Some s \<and> cr_isPvP s = p \<and> joins s x y)"
    proof (cases "b = ?a")
      case True
      have "map_of (crefs p w x) y \<noteq> Some ?a" using D(1) fresh by (metis option.distinct(1))
      with True show ?thesis by (auto simp: M cr)
    next
      case False
      have "map_of (crefs p w x) y = None" if "joins r x y" for p
        using that nuv r by (auto simp: joins_def)
      with False D(1) [of p x y b] show ?thesis by (auto simp: M cr)
    qed
  next
    fix b s
    show "w_cref w' b = Some s \<Longrightarrow> cr_first s \<noteq> cr_second s \<and> b < w_next w'"
      using D(2,3) [of b s] uv r by (auto simp: cr w'_def split: if_splits)
  next
    fix p x y
    show "distinct (map fst (crefs p w' x))" using D(4) by (auto simp: C distinct_update)
    have "map_of (crefs q w x) y = None" if "joins r x y" for q
      using that nuv r by (auto simp: joins_def)
    then show "map_of (crefs False w' x) y = None \<or> map_of (crefs True w' x) y = None"
      using D(5) [of False x y] by (cases "cr_isPvP r") (auto simp: M)
  qed
  have hc: "HasCombat w' x = HasCombat w x" if "x \<notin> {u, v}" for x
  proof (rule HasCombat_cong)
    show "crefs p w' x = crefs p w x" for p using that by (simp add: C)
    show "IsSuppressedFor (cref w' b) x = IsSuppressedFor (cref w b) x"
      if m: "(g, b) \<in> set (crefs p w x)" for p g b
    proof -
      have "map_of (crefs p w x) g = Some b" using m D(4) by (simp add: map_of_is_SomeI)
      then have "b \<noteq> ?a" using D(1) fresh by (metis option.distinct(1))
      then show ?thesis by (simp add: cref_def cr)
    qed
  qed
  have wu: "w_unit w' = w_unit w" by (simp add: w'_def)
  have fl: "IsInCombat (w_unit w x) = HasCombat w x" if "\<not> u_flagWritten (w_unit w x)" for x
    using ok that by (simp add: world_ok_def flags_except_def)
  have "flags_except {u, v} w'" unfolding flags_except_def wu
    using fl hc by (intro allI impI) simp
  moreover have "threat_ok w'" "threat_map w' = threat_map w"
    using threat_ok_cong [OF th, of w'] by (simp_all add: w'_def)
  moreover have "IsInCombatWith w x y \<Longrightarrow> IsInCombatWith w' x y" for x y
    unfolding IsInCombatWith_crefs M by (metis option.distinct(1))
  moreover have "\<not> w_crashed w'"
    using nuv ok uv by (simp add: w'_def PutReference_crashed cref_def world_ok_def)
  ultimately show ?thesis using links ok by (auto simp: world_mid_def covered_def world_ok_def)
qed

lemma CanBeginCombat_neq: "CanBeginCombat env w a b \<Longrightarrow> a \<noteq> b"
  by (auto simp: CanBeginCombat_def Let_def)

text \<open>Everything \<open>SetInCombatWith\<close> guarantees.\<close>

lemma SetInCombatWith_ok:
  assumes ok: "world_ok w"
  shows "world_ok (snd (SetInCombatWith env me who supp w))"
    "fst (SetInCombatWith env me who supp w) = IsInCombatWith (snd (SetInCombatWith env me who supp w)) me who"
    "w_threat (snd (SetInCombatWith env me who supp w)) = w_threat w"
    "w_tref (snd (SetInCombatWith env me who supp w)) = w_tref w"
    "IsInCombatWith w x y \<Longrightarrow> IsInCombatWith (snd (SetInCombatWith env me who supp w)) x y"
    "fst (SetInCombatWith env me who supp w) \<longleftrightarrow> IsInCombatWith w me who \<or> CanBeginCombat env w me who"
    "fixed (snd (SetInCombatWith env me who supp w)) = fixed w"
proof -
  let ?R = "SetInCombatWith env me who supp w"
  have mid: "world_mid {} w" and ln: "combat_links w" using ok by (simp_all add: world_ok_mid world_mid_def)
  note D = combat_linksD [OF ln]
  have same: "IsInCombatWith (Refresh a w') x y = IsInCombatWith w' x y" for a w' x y
    by (simp add: IsInCombatWith_def Refresh_fields)
  have "world_ok (snd ?R) \<and> fst ?R = IsInCombatWith (snd ?R) me who \<and> w_threat (snd ?R) = w_threat w
      \<and> w_tref (snd ?R) = w_tref w \<and> (IsInCombatWith w x y \<longrightarrow> IsInCombatWith (snd ?R) x y)
      \<and> fst ?R = (IsInCombatWith w me who \<or> CanBeginCombat env w me who) \<and> fixed (snd ?R) = fixed w"
  proof (cases "map_of (pvpRefs w me) who")
    case (Some a)
    then obtain r where r: "w_cref w a = Some r" using D(1) [of True me who a] by (auto simp: crefs_def)
    have "world_mid {} (put_cref a (RefreshTimer r) w)"
      by (rule mid_put [OF mid r]) (simp_all add: RefreshTimer_def IsSuppressedFor_def)
    then have "world_ok (Refresh a (put_cref a (RefreshTimer r) w))"
      using Refresh_ok by (simp add: world_ok_mid)
    moreover have "?R = (True, Refresh a (put_cref a (RefreshTimer r) w))"
      using r by (simp add: SetInCombatWith_def Some cref_def)
    moreover have "IsInCombatWith w me who" using Some by (simp add: IsInCombatWith_def)
    moreover have "IsInCombatWith (put_cref b s w) x y = IsInCombatWith w x y" for b s x y
      by (simp add: IsInCombatWith_def)
    ultimately show ?thesis by (simp add: same Refresh_fields)
  next
    case no_pvp: None
    show ?thesis
    proof (cases "map_of (pveRefs w me) who")
      case (Some a)
      then obtain r where r: "w_cref w a = Some r" using D(1) [of False me who a] by (auto simp: crefs_def)
      have "world_ok (Refresh a w)" using Refresh_ok [OF ok r] .
      with Some no_pvp show ?thesis
        by (simp add: SetInCombatWith_def same Refresh_fields) (simp add: IsInCombatWith_def)
    next
      case None
      then have no: "\<not> IsInCombatWith w me who" using no_pvp by (simp add: IsInCombatWith_def)
      show ?thesis
      proof (cases "CanBeginCombat env w me who")
        case False
        with no_pvp None no ok show ?thesis by (simp add: SetInCombatWith_def)
      next
        case True
        define r0 where "r0 = CombatReference me who
          (u_controlledByPlayer (w_unit w me) \<and> u_controlledByPlayer (w_unit w who))"
        define r where "r = (if supp then Suppress who r0 else r0)"
        define w2 where "w2 = PutReference who me (w_next w)
          (PutReference me who (w_next w) ((put_cref (w_next w) r w)\<lparr>w_next := Suc (w_next w)\<rparr>))"
        obtain b3 w3 where u3: "UpdateOwnerCombatState me w2 = (b3, w3)" by fastforce
        obtain b4 w4 where u4: "UpdateOwnerCombatState who w3 = (b4, w4)" by fastforce
        define w6 where "w6 = (if b4 then NotifyAICombat who me
            (if b3 then NotifyAICombat me who w4 else w4) else (if b3 then NotifyAICombat me who w4 else w4))"
        have R: "?R = (IsInCombatWith w6 me who, w6)"
          unfolding SetInCombatWith_def Let_def no_pvp None option.case r0_def [symmetric]
            r_def [symmetric] w2_def [symmetric] u3 u4 prod.case w6_def
          using True by (simp only: not_True_eq_False if_False)
        have rr: "cr_first r = me" "cr_second r = who"
          by (simp_all add: r_def r0_def Suppress_def CombatReference_def)
        have "world_mid {me, who} w2"
          unfolding w2_def by (rule new_reference_mid [OF ok no CanBeginCombat_neq [OF True] rr])
        from mid_update [OF mid_update [OF this u3] u4] have "world_mid {} w4"
          by (rule world_mid_mono) auto
        then have "world_ok w6" by (simp add: world_ok_mid w6_def mid_notify)
        moreover have C: "crefs p w6 x = crefs p w2 x" for p x
          by (simp add: w6_def crefs_def UpdateOwner_fields [OF u3] UpdateOwner_fields [OF u4])
        moreover have "fixed w2 = fixed w" by (rule fixed_units) (simp add: w2_def)
        then have "w_threat w6 = w_threat w" "w_tref w6 = w_tref w" "fixed w6 = fixed w"
          by (simp_all add: w6_def UpdateOwner_fields [OF u3] UpdateOwner_fields [OF u4])
            (simp_all add: w2_def)
        moreover have M: "map_of (crefs p w6 x) y =
            (if p = cr_isPvP r \<and> joins r x y then Some (w_next w) else map_of (crefs p w x) y)" for p x y
          unfolding C w2_def by (rule new_reference_map [OF CanBeginCombat_neq [OF True] rr])
        then have "IsInCombatWith w x y \<longrightarrow> IsInCombatWith w6 x y"
          unfolding IsInCombatWith_crefs M by (metis option.distinct(1))
        moreover have "joins r me who" by (simp add: joins_def rr)
        then have "IsInCombatWith w6 me who"
          unfolding IsInCombatWith_crefs M by (metis option.distinct(1))
        ultimately show ?thesis using True by (simp add: R)
      qed
    qed
  qed
  then show "world_ok (snd ?R)" "fst ?R = IsInCombatWith (snd ?R) me who" "w_threat (snd ?R) = w_threat w"
    "w_tref (snd ?R) = w_tref w" "IsInCombatWith w x y \<Longrightarrow> IsInCombatWith (snd ?R) x y"
    "fst ?R \<longleftrightarrow> IsInCombatWith w me who \<or> CanBeginCombat env w me who" "fixed (snd ?R) = fixed w"
    by blast+
qed

section \<open>The loops\<close>

text \<open>What lies behind the iterator is still in the map.\<close>

definition pending :: "bool \<Rightarrow> guid \<Rightarrow> (guid \<times> addr) list \<Rightarrow> world \<Rightarrow> bool" where
  "pending p me it w \<longleftrightarrow> distinct (map fst it) \<and> (\<forall>(g, a) \<in> set it. map_of (crefs p w me) g = Some a)"

lemma pending_all: "combat_links w \<Longrightarrow> pending p me (crefs p w me) w"
  using combat_linksD(4) by (auto simp: pending_def map_of_is_SomeI)

lemma pending_Cons:
  assumes "pending p me ((g, a) # it) w"
  shows "map_of (crefs p w me) g = Some a" "pending p me it w"
  using assms by (auto simp: pending_def)

lemma pending_ended:
  assumes p: "pending p me ((g, a) # it) w" and e: "ended p me g a w w'"
  shows "pending p me it w'"
proof -
  have "map_of (crefs p w' me) h = Some b" if h: "(h, b) \<in> set it" for h b
  proof -
    have "h \<noteq> g" using p h by (force simp: pending_def)
    moreover have "map_of (crefs p w me) h = Some b" using p h by (auto simp: pending_def)
    moreover have "\<not> (me = g \<and> h = me)" using \<open>h \<noteq> g\<close> by blast
    ultimately show ?thesis using ended_map [OF e, of p me h] by auto
  qed
  then show ?thesis using p by (auto simp: pending_def)
qed

lemma end_loop_ok:
  assumes "world_ok w" "pending p me it w" "heap_contract (ordered env)"
  shows "world_ok (end_loop env bad p me it w)"
  using assms(1,2)
proof (induction it arbitrary: w)
  case (Cons ga it)
  obtain g a where ga: "ga = (g, a)" by fastforce
  note prems = Cons.prems [unfolded ga]
  note pc = pending_Cons [OF prems(2)]
  let ?w = "EndCombat env a (PurgeReference me g p w)"
  show ?case
  proof (cases "bad w (cref w a)")
    case True
    have e: "ended p me g a w ?w" by (rule EndCombat_ended [OF prems(1) pc(1)]) (use assms(3) in simp_all)
    have "world_ok ?w" using ended_ok [OF prems(1) pc(1) e] .
    with True Cons.IH [OF _ pending_ended [OF prems(2) e]] show ?thesis by (simp add: ga)
  next
    case False
    with False Cons.IH [OF prems(1) pc(2)] show ?thesis by (simp add: ga)
  qed
qed simp

lemma Update_loop_ok:
  assumes "world_ok w" "pending True me it w" "heap_contract (ordered env)"
  shows "world_ok (Update_loop env tdiff me it w)"
  using assms(1,2)
proof (induction it arbitrary: w)
  case (Cons ga it)
  obtain g a where ga: "ga = (g, a)" by fastforce
  note prems = Cons.prems [unfolded ga]
  note pc = pending_Cons [OF prems(2)]
  have ln: "combat_links w" using prems(1) by (simp add: world_ok_def)
  obtain r where r: "w_cref w a = Some r" using combat_linksD(1) [OF ln] pc(1) by blast
  have cr: "cref w a = r" using r by (simp add: cref_def)
  let ?w = "EndCombat env a (PurgeReference me g True w)"
  show ?case
  proof (cases "cr_first r = me")
    case False
    with Cons.IH [OF prems(1) pc(2)] show ?thesis by (simp add: ga cr)
  next
    case me: True
    show ?thesis
    proof (cases "PvP_Update tdiff r")
      case None
      have e: "ended True me g a w ?w"
        by (rule EndCombat_ended [OF prems(1) pc(1)]) (use assms(3) in simp_all)
      have "world_ok ?w" using ended_ok [OF prems(1) pc(1) e] .
      with me None Cons.IH [OF _ pending_ended [OF prems(2) e]] show ?thesis by (simp add: ga cr)
    next
      case (Some r')
      have r': "r' = r\<lparr>cr_combatTimer := cr_combatTimer r - tdiff\<rparr>"
        using Some by (auto simp: PvP_Update_def split: if_splits)
      have "world_mid {} w" using prems(1) by (simp add: world_ok_mid)
      then have "world_mid {} (put_cref a r' w)"
        by (rule mid_put [OF _ r]) (simp_all add: r' IsSuppressedFor_def)
      then have "world_ok (put_cref a r' w)" by (simp add: world_ok_mid)
      moreover have "pending True me it (put_cref a r' w)" using pc(2) by (simp add: pending_def)
      ultimately show ?thesis using me Some Cons.IH by (simp add: ga cr)
    qed
  qed
qed simp

lemma inherit_loop_ok: "world_ok w \<Longrightarrow> world_ok (inherit_loop env p me who it w)"
proof (induction it arbitrary: w)
  case (Cons ga it)
  then show ?case by (cases ga) (simp add: Let_def SetInCombatWith_ok(1))
qed simp

lemma suppress_all_mid:
  assumes "world_mid {me} w" "pending True me it w"
  shows "world_mid {me} (fold (\<lambda>(g, a) w. put_cref a (Suppress me (cref w a)) w) it w)"
  using assms
proof (induction it arbitrary: w)
  case (Cons ga it)
  obtain g a where ga: "ga = (g, a)" by fastforce
  note prems = Cons.prems [unfolded ga]
  note pc = pending_Cons [OF prems(2)]
  have ln: "combat_links w" using prems(1) by (simp add: world_mid_def)
  obtain r where r: "w_cref w a = Some r" using combat_linksD(1) [OF ln] pc(1) by blast
  have "world_mid {me} (put_cref a (Suppress me r) w)"
    by (rule mid_put [OF prems(1) r])
      (use pc(1) combat_linksD(1) [OF ln] r in \<open>auto simp: Suppress_def IsSuppressedFor_def joins_def\<close>)
  moreover have "pending True me it (put_cref a (Suppress me r) w)" using pc(2) by (simp add: pending_def)
  ultimately show ?case using Cons.IH r by (simp add: ga cref_def)
qed simp

lemma SuppressPvPCombat_ok:
  assumes "world_ok w"
  shows "world_ok (SuppressPvPCombat me w)"
proof -
  define w1 where "w1 = fold (\<lambda>(g, a) w. put_cref a (Suppress me (cref w a)) w) (pvpRefs w me) w"
  have "world_mid {me} w" using assms world_mid_mono by (auto simp: world_ok_mid)
  moreover have "pending True me (pvpRefs w me) w"
    using pending_all [of w True me] assms by (simp add: world_ok_def crefs_def)
  ultimately have m1: "world_mid {me} w1" unfolding w1_def by (rule suppress_all_mid)
  obtain b w2 where u: "UpdateOwnerCombatState me w1 = (b, w2)" by fastforce
  have "world_mid {} w2" using mid_update [OF m1 u] by simp
  then show ?thesis
    by (simp add: SuppressPvPCombat_def w1_def [symmetric] u Let_def world_ok_mid mid_notify)
qed

lemma pending_refs: "world_ok w \<Longrightarrow> pending True me (pvpRefs w me) w" "world_ok w \<Longrightarrow> pending False me (pveRefs w me) w"
  using pending_all [of w True me] pending_all [of w False me] by (simp_all add: world_ok_def crefs_def)

lemma Inherit_ok: "world_ok w \<Longrightarrow> world_ok (InheritCombatStatesFrom env me who w)"
  by (simp add: InheritCombatStatesFrom_def Let_def inherit_loop_ok)

lemma CombatManager_ops_ok:
  assumes ok: "world_ok w" and ord: "heap_contract (ordered env)"
  shows "world_ok (CombatManager_Update env tdiff me w)"
    "world_ok (EndCombatBeyondRange env me radius pvp w)"
    "world_ok (RevalidateCombat env me w)"
  unfolding CombatManager_Update_def EndCombatBeyondRange_def RevalidateCombat_def Let_def
  by (auto intro!: Update_loop_ok end_loop_ok pending_refs ok ord)

section \<open>Ending all combat\<close>

lemma end_all_loop_ok:
  assumes ok: "world_ok w" and ord: "heap_contract (ordered env)"
  shows "\<exists>w'. end_all_loop env p me w = Some w' \<and> world_ok w' \<and> crefs p w' me = []
    \<and> (\<forall>q. q \<noteq> p \<longrightarrow> crefs q w' me = crefs q w me)
    \<and> (crefs p w me \<noteq> [] \<or> flag_ok w me \<longrightarrow> flag_ok w' me)"
proof -
  let ?b = "\<lambda>w. crefs p w me \<noteq> []" and ?c = "\<lambda>w. EndCombat env (snd (hd (crefs p w me))) w"
  let ?P = "\<lambda>w'. world_ok w' \<and> (\<forall>q. q \<noteq> p \<longrightarrow> crefs q w' me = crefs q w me) \<and> (w' = w \<or> flag_ok w' me)"
  have step: "?P (?c w') \<and> length (crefs p (?c w') me) < length (crefs p w' me)"
    if "?P w'" "?b w'" for w'
  proof -
    obtain g a where ga: "hd (crefs p w' me) = (g, a)" by fastforce
    have m: "map_of (crefs p w' me) g = Some a" using hd_entry [OF that(2)] ga by simp
    have e: "ended p me g a w' (?c w')"
      using EndCombat_ended [OF _ m ord] that(1) ga by simp
    have "length (AList.delete g (crefs p w' me)) < length (crefs p w' me)"
      using that(2) ga by (cases "crefs p w' me") (auto simp: AList.delete_eq less_Suc_eq_le)
    moreover have "crefs q (?c w') me = crefs q w' me" if "q \<noteq> p" for q
      using e that by (simp add: ended_def)
    moreover have "crefs p (?c w') me = AList.delete g (crefs p w' me)" using e by (simp add: ended_def)
    moreover have "flag_ok (?c w') me" using e by (simp add: ended_def)
    ultimately show ?thesis using ended_ok [OF _ m e] that(1) by simp
  qed
  have s: "?P w" using ok by simp
  obtain w' where w': "while_option ?b ?c w = Some w'"
    using measure_while_option_Some [of ?P ?b ?c "\<lambda>w. length (crefs p w me)" w] step s by blast
  have "?P w'" using while_option_rule [of ?P ?b ?c w w'] step s w' by blast
  moreover have "crefs p w' me = []" using while_option_stop [OF w'] by simp
  moreover have "end_all_loop env p me w = Some w'"
    using w' unfolding end_all_loop_def Let_def crefs_def .
  ultimately show ?thesis by blast
qed

lemma threat_change_ok:
  assumes ok: "world_ok w" and fr: "frame w w'" and th: "threat_ok w'"
    and sub: "\<And>u v. threat_map w' u v \<noteq> None \<Longrightarrow> threat_map w u v \<noteq> None \<or> IsInCombatWith w u v"
  shows "world_ok w'"
proof -
  have F: "w_unit w' = w_unit w" "w_combat w' = w_combat w" "w_cref w' = w_cref w" "w_next w' = w_next w"
    using fr by (simp_all add: frame_def)
  have "HasCombat w' x = HasCombat w x" for x
    by (rule HasCombat_cong, rule crefs_cong, rule F) (simp add: F cref_def)
  then have "flags_except {} w'" using ok by (simp add: world_ok_def flags_except_def F)
  moreover have C: "crefs p w' u = crefs p w u" for p u by (rule crefs_cong [OF F(2)])
  have "combat_links w'" using ok unfolding world_ok_def combat_links_def C F
    by (rule conjunct1 [OF conjunct2])
  moreover have inC: "IsInCombatWith w' u v = IsInCombatWith w u v" for u v
    by (simp add: IsInCombatWith_def F)
  moreover have "covered w'" using ok sub unfolding world_ok_def covered_def inC by blast
  ultimately show ?thesis using th fr ok by (auto simp: world_ok_def frame_def)
qed

lemma EndAllPvECombat_ok:
  assumes ok: "world_ok w" and ord: "heap_contract (ordered env)"
  shows "\<exists>w'. EndAllPvECombat env me w = Some w' \<and> world_ok w' \<and> pveRefs w' me = []
    \<and> pvpRefs w' me = pvpRefs w me \<and> (pveRefs w me \<noteq> [] \<or> flag_ok w me \<longrightarrow> flag_ok w' me)"
proof -
  have th: "threat_ok w" using ok by (simp add: world_ok_def)
  obtain w1 where w1: "RemoveMeFromThreatLists env me w = Some w1" "threat_ok w1" "frame w w1"
    "threat_map w1 = (\<lambda>x. (threat_map w x)(me := None))"
    using RemoveMe_ok [OF th ord] by blast
  obtain w2 where w2: "ClearAllThreat me w1 = Some w2" "threat_ok w2" "frame w1 w2"
    "threat_map w2 = (threat_map w1)(me := (\<lambda>_. None))"
    using ClearAllThreat_ok [OF w1(2)] by blast
  have fr: "frame w w2" using frame_trans [OF w1(3) w2(3)] .
  have ok2: "world_ok w2"
    by (rule threat_change_ok [OF ok fr w2(2)]) (auto simp: w1(4) w2(4) split: if_splits)
  obtain w3 where w3: "end_all_loop env False me w2 = Some w3" "world_ok w3" "crefs False w3 me = []"
    "\<And>q. q \<noteq> False \<Longrightarrow> crefs q w3 me = crefs q w2 me"
    "crefs False w2 me \<noteq> [] \<or> flag_ok w2 me \<Longrightarrow> flag_ok w3 me"
    using end_all_loop_ok [OF ok2 ord, of False me] by blast
  have "pvpRefs w3 me = pvpRefs w me"
    using w3(4) [of True] fr by (simp add: crefs_def frame_def)
  moreover have "HasCombat w2 me = HasCombat w me"
    by (rule HasCombat_cong, rule crefs_cong) (use fr in \<open>simp_all add: frame_def cref_def\<close>)
  then have "pveRefs w me \<noteq> [] \<or> flag_ok w me \<Longrightarrow> flag_ok w3 me"
    using w3(5) fr by (simp add: crefs_def frame_def)
  ultimately show ?thesis using w3 by (simp add: EndAllPvECombat_def w1(1) w2(1) crefs_def)
qed

lemma EndAllCombat_ok:
  assumes ok: "world_ok w" and ord: "heap_contract (ordered env)"
  shows "\<exists>w'. EndAllCombat env me w = Some w' \<and> world_ok w' \<and> pveRefs w' me = [] \<and> pvpRefs w' me = []
    \<and> (IsInCombatWith w me v \<or> flag_ok w me \<longrightarrow> \<not> IsInCombat (w_unit w' me))"
proof -
  obtain w1 where w1: "EndAllPvECombat env me w = Some w1" "world_ok w1" "pveRefs w1 me = []"
    "pvpRefs w1 me = pvpRefs w me" "pveRefs w me \<noteq> [] \<or> flag_ok w me \<Longrightarrow> flag_ok w1 me"
    using EndAllPvECombat_ok [OF assms] by blast
  obtain w2 where w2: "end_all_loop env True me w1 = Some w2" "world_ok w2" "crefs True w2 me = []"
    "\<And>q. q \<noteq> True \<Longrightarrow> crefs q w2 me = crefs q w1 me"
    "crefs True w1 me \<noteq> [] \<or> flag_ok w1 me \<Longrightarrow> flag_ok w2 me"
    using end_all_loop_ok [OF w1(2) ord, of True me] by blast
  have e: "pveRefs w2 me = []" "pvpRefs w2 me = []" using w2(3) w2(4) [of False] w1(3) by (simp_all add: crefs_def)
  then have "\<not> HasCombat w2 me" by (simp add: HasCombat_def HasPvECombat_def HasPvPCombat_def)
  moreover have "IsInCombatWith w me v \<Longrightarrow> pveRefs w me \<noteq> [] \<or> pvpRefs w me \<noteq> []"
    by (auto simp: IsInCombatWith_def)
  ultimately have "IsInCombatWith w me v \<or> flag_ok w me \<Longrightarrow> \<not> IsInCombat (w_unit w2 me)"
    using w1(4,5) w2(5) by (auto simp: crefs_def)
  with e show ?thesis using w1(1) w2(1,2) by (auto simp: EndAllCombat_def EndAllPvPCombat_def)
qed

end
