(* ===== verification/Threat_Manager.thy ===== *)
theory Threat_Manager
  imports Combat_Ops
begin

text \<open>
  The operations of \<open>ThreatManager\<close> (\<open>src/server/game/Combat/ThreatManager.cpp\<close>) on top of
  the lists of theory \<open>Threat_List\<close>: adding threat (with modifiers, redirection, vehicles
  and the start of combat), scaling it, taunts, suppression, fixate and the registry of
  redirections. \<open>AddThreat\<close> calls itself for vehicles, owners of private objects and
  redirection targets; its first argument bounds the depth of these calls.
\<close>

record spell_info =
  si_Id :: u32
  si_AttributesEx :: u32
  si_AttributesEx3 :: u32
  si_SchoolMask :: u32

definition SPELL_ATTR1_NO_THREAT :: u32 where "SPELL_ATTR1_NO_THREAT = 0x400"
definition SPELL_ATTR3_NO_INITIAL_AGGRO :: u32 where "SPELL_ATTR3_NO_INITIAL_AGGRO = 0x20000"

definition THREAT_UPDATE_INTERVAL :: u32 where "THREAT_UPDATE_INTERVAL = 1000"

definition CanHaveThreatList :: "unit_state \<Rightarrow> bool" where
  "CanHaveThreatList u \<longleftrightarrow>
     (if u_typeId u \<noteq> TYPEID_UNIT then False
      else if HasUnitTypeMask u UNIT_MASK_PET \<or> HasUnitTypeMask u UNIT_MASK_TOTEM \<or> u_isTrigger u
      then False
      else if HasUnitTypeMask u (UNIT_MASK_MINION OR UNIT_MASK_GUARDIAN) \<and> u_summonedByPlayer u
      then False else True)"

definition new_ThreatManager :: threat_manager where
  "new_ThreatManager =
     \<lparr>tm_ownerCanHaveThreatList = False, tm_updateFlags = 0, tm_updateTimer = THREAT_UPDATE_INTERVAL,
      tm_sortedThreatList = [], tm_myThreatListEntries = [], tm_needsAIUpdate = [],
      tm_currentVictimRef = None, tm_fixateRef = None, tm_threatenedByMe = [],
      tm_singleSchoolModifiers = replicate 7 1, tm_multiSchoolModifiers = [],
      tm_redirectInfo = [], tm_redirectRegistry = []\<rparr>"

definition Initialize :: "guid \<Rightarrow> world \<Rightarrow> world" where
  "Initialize u w =
     upd_threat u (\<lambda>t. t\<lparr>tm_ownerCanHaveThreatList := CanHaveThreatList (w_unit w u)\<rparr>) w"

section \<open>Queries\<close>

definition IsThreatListEmpty :: "world \<Rightarrow> guid \<Rightarrow> bool \<Rightarrow> bool" where
  "IsThreatListEmpty w u includeOffline \<longleftrightarrow>
     (if includeOffline then sorted_list w u = []
      else \<not> list_ex (\<lambda>a. IsAvailable (tref w a)) (sorted_list w u))"

definition IsThreatenedBy :: "world \<Rightarrow> guid \<Rightarrow> guid \<Rightarrow> bool \<Rightarrow> bool" where
  "IsThreatenedBy w u who includeOffline \<longleftrightarrow>
     (case map_of (entries w u) who of
        None \<Rightarrow> False | Some a \<Rightarrow> includeOffline \<or> IsAvailable (tref w a))"

definition ThreatManager_GetThreat :: "world \<Rightarrow> guid \<Rightarrow> guid \<Rightarrow> bool \<Rightarrow> rat" where
  "ThreatManager_GetThreat w u who includeOffline =
     (case map_of (entries w u) who of
        None \<Rightarrow> 0
      | Some a \<Rightarrow> if includeOffline \<or> IsAvailable (tref w a) then GetThreat (tref w a) else 0)"

definition GetThreatListPlayerCount :: "world \<Rightarrow> guid \<Rightarrow> bool \<Rightarrow> nat" where
  "GetThreatListPlayerCount w u includeOffline =
     (if includeOffline then length (sorted_list w u)
      else length (filter (\<lambda>a. IsAvailable (tref w a)
             \<and> u_typeId (w_unit w (tr_victim (tref w a))) = TYPEID_PLAYER) (sorted_list w u)))"

definition IsThreateningAnyone :: "world \<Rightarrow> guid \<Rightarrow> bool \<Rightarrow> bool" where
  "IsThreateningAnyone w u includeOffline \<longleftrightarrow>
     (if includeOffline then threatened w u \<noteq> []
      else list_ex (\<lambda>(g, a). IsAvailable (tref w a)) (threatened w u))"

definition IsThreateningTo :: "world \<Rightarrow> guid \<Rightarrow> guid \<Rightarrow> bool \<Rightarrow> bool" where
  "IsThreateningTo w u who includeOffline \<longleftrightarrow>
     (case map_of (threatened w u) who of
        None \<Rightarrow> False | Some a \<Rightarrow> includeOffline \<or> IsAvailable (tref w a))"

definition GetLastVictim :: "env \<Rightarrow> world \<Rightarrow> guid \<Rightarrow> guid option" where
  "GetLastVictim env w u =
     (case current w u of
        Some a \<Rightarrow> if \<not> ShouldBeOffline env w (tref w a) then Some (tr_victim (tref w a)) else None
      | None \<Rightarrow> None)"

definition GetCurrentVictim :: "env \<Rightarrow> guid \<Rightarrow> world \<Rightarrow> guid option \<times> world" where
  "GetCurrentVictim env u w =
     (let w1 = (case current w u of
                  None \<Rightarrow> UpdateVictim env u w
                | Some a \<Rightarrow> if ShouldBeOffline env w (tref w a) then UpdateVictim env u w else w);
          w2 = assert_that (case current w1 u of None \<Rightarrow> True | Some a \<Rightarrow> IsAvailable (tref w1 a)) w1
      in (map_option (\<lambda>a. tr_victim (tref w2 a)) (current w2 u), w2))"

definition ThreatManager_Update :: "env \<Rightarrow> u32 \<Rightarrow> guid \<Rightarrow> world \<Rightarrow> world" where
  "ThreatManager_Update env tdiff u w =
     (let t = w_threat w u in
      if \<not> tm_ownerCanHaveThreatList t \<or> IsThreatListEmpty w u True then w
      else if tm_updateTimer t \<le> tdiff
      then upd_threat u (\<lambda>t. t\<lparr>tm_updateTimer := THREAT_UPDATE_INTERVAL\<rparr>) (UpdateVictim env u w)
      else upd_threat u (\<lambda>t. t\<lparr>tm_updateTimer := tm_updateTimer t - tdiff\<rparr>) w)"

section \<open>Changing amounts and states\<close>

definition EvaluateSuppressed_ref :: "env \<Rightarrow> bool \<Rightarrow> addr \<Rightarrow> world \<Rightarrow> world" where
  "EvaluateSuppressed_ref env canExpire a w =
     (let r = tref w a; shouldBeSuppressed = ShouldBeSuppressed env r in
      if IsOnline r \<and> shouldBeSuppressed
      then HeapNotify a (Some False) (put_tref a (r\<lparr>tr_online := ONLINE_STATE_SUPPRESSED\<rparr>) w)
      else if canExpire \<and> IsSuppressed r \<and> \<not> shouldBeSuppressed
      then HeapNotify a (Some True) (put_tref a (r\<lparr>tr_online := ONLINE_STATE_ONLINE\<rparr>) w)
      else w)"

definition EvaluateSuppressed :: "env \<Rightarrow> bool \<Rightarrow> guid \<Rightarrow> world \<Rightarrow> world" where
  "EvaluateSuppressed env canExpire u w =
     fold (EvaluateSuppressed_ref env canExpire) (map snd (threatened w u)) w"

definition ScaleThreat :: "guid \<Rightarrow> guid \<Rightarrow> rat \<Rightarrow> world \<Rightarrow> world" where
  "ScaleThreat u target factor w =
     (case map_of (entries w u) target of
        None \<Rightarrow> w | Some a \<Rightarrow> apply_ref a (ScaleThreat_ref (max factor 0)) w)"

definition ModifyThreatByPercent :: "guid \<Rightarrow> guid \<Rightarrow> int \<Rightarrow> world \<Rightarrow> world" where
  "ModifyThreatByPercent u target percent w =
     (if percent \<noteq> 0
      then ScaleThreat u target (f32 (f32 (1 / 100) * f32 (of_int (100 + percent)))) w else w)"

definition ResetAllThreat :: "guid \<Rightarrow> world \<Rightarrow> world" where
  "ResetAllThreat u w = fold (\<lambda>a. apply_ref a (ScaleThreat_ref 0)) (map snd (entries w u)) w"

definition taunt_states :: "guid list \<Rightarrow> (guid \<times> u32) list" where
  "taunt_states casters =
     snd (fold (\<lambda>g (st, m). (st + 1, AList.update g st m)) casters (TAUNT_STATE_TAUNT, []))"

definition UpdateTauntState :: "env \<Rightarrow> u32 \<Rightarrow> addr \<Rightarrow> world \<Rightarrow> world" where
  "UpdateTauntState env st a w =
     apply_ref a
       (UpdateTauntState_ref (HasDetauntAuraFrom env (tr_victim (tref w a)) (tr_owner (tref w a))) st) w"

definition TauntUpdate :: "env \<Rightarrow> guid \<Rightarrow> world \<Rightarrow> world" where
  "TauntUpdate env u w =
     (let states = taunt_states (TauntCasters env u);
          w1 = fold (\<lambda>(g, a). UpdateTauntState env
                 (case map_of states g of None \<Rightarrow> TAUNT_STATE_NONE | Some st \<Rightarrow> st) a) (entries w u) w
      in EvaluateSuppressed env True u w1)"

definition FixateTarget :: "guid \<Rightarrow> guid option \<Rightarrow> world \<Rightarrow> world" where
  "FixateTarget u target w =
     upd_threat u
       (\<lambda>t. t\<lparr>tm_fixateRef :=
               (case target of None \<Rightarrow> None | Some g \<Rightarrow> map_of (tm_myThreatListEntries t) g)\<rparr>) w"

definition UpdateMyTempModifiers :: "env \<Rightarrow> guid \<Rightarrow> world \<Rightarrow> world" where
  "UpdateMyTempModifiers env u w =
     (let newMod = sum_list (TotalThreatAmounts env u) in
      case threatened w u of
        [] \<Rightarrow> w
      | (g, a) # _ \<Rightarrow>
          let isIncrease = tr_tempModifier (tref w a) < newMod in
          fold (\<lambda>a w. HeapNotify a (Some isIncrease)
                  (put_tref a ((tref w a)\<lparr>tr_tempModifier := newMod\<rparr>) w))
            (map snd (threatened w u)) w)"

definition UpdateMySpellSchoolModifiers :: "env \<Rightarrow> guid \<Rightarrow> world \<Rightarrow> world" where
  "UpdateMySpellSchoolModifiers env u =
     upd_threat u
       (\<lambda>t. t\<lparr>tm_singleSchoolModifiers :=
               map (\<lambda>i. ThreatAuraMultiplier env u (push_bit i 1)) [0 ..< 7],
               tm_multiSchoolModifiers := []\<rparr>)"

section \<open>Redirection\<close>

text \<open>\<open>UpdateRedirectInfo\<close>: the percentages never sum to more than 100.\<close>

fun redirect_info :: "u32 \<Rightarrow> (guid \<times> u32) list \<Rightarrow> (guid \<times> u32) list" where
  "redirect_info totalPct [] = []"
| "redirect_info totalPct ((victim, pct) # pairs) =
     (let thisPct = min (100 - totalPct) pct in
      if thisPct > 0
      then (victim, thisPct) # (if totalPct + thisPct = 100 then []
                                else redirect_info (totalPct + thisPct) pairs)
      else redirect_info totalPct pairs)"

definition UpdateRedirectInfo :: "threat_manager \<Rightarrow> threat_manager" where
  "UpdateRedirectInfo t =
     t\<lparr>tm_redirectInfo := redirect_info 0 (concat (map snd (tm_redirectRegistry t)))\<rparr>"

text \<open>\<open>ASSERT(totalPct <= 100)\<close> behind every addition to \<open>totalPct\<close>.\<close>

fun redirect_asserts :: "u32 \<Rightarrow> (guid \<times> u32) list \<Rightarrow> bool" where
  "redirect_asserts totalPct [] = True"
| "redirect_asserts totalPct ((victim, pct) # pairs) =
     (let thisPct = min (100 - totalPct) pct in
      if thisPct > 0
      then totalPct + thisPct \<le> 100 \<and>
           (totalPct + thisPct = 100 \<or> redirect_asserts (totalPct + thisPct) pairs)
      else redirect_asserts totalPct pairs)"

text \<open>A new registry, and \<open>UpdateRedirectInfo\<close> with its assertion.\<close>

definition put_redirects :: "guid \<Rightarrow> (u32 \<times> (guid \<times> u32) list) list \<Rightarrow> world \<Rightarrow> world" where
  "put_redirects u reg w =
     upd_threat u (\<lambda>t. UpdateRedirectInfo (t\<lparr>tm_redirectRegistry := reg\<rparr>))
       (assert_that (redirect_asserts 0 (concat (map snd reg))) w)"

definition RegisterRedirectThreat :: "guid \<Rightarrow> u32 \<Rightarrow> guid \<Rightarrow> u32 \<Rightarrow> world \<Rightarrow> world" where
  "RegisterRedirectThreat u spellId victim pct w =
     (let reg = tm_redirectRegistry (w_threat w u);
          victims = (case map_of reg spellId of None \<Rightarrow> [] | Some m \<Rightarrow> m)
      in put_redirects u (AList.update spellId (AList.update victim pct victims) reg) w)"

definition UnregisterRedirectThreat :: "guid \<Rightarrow> u32 \<Rightarrow> world \<Rightarrow> world" where
  "UnregisterRedirectThreat u spellId w =
     (let reg = tm_redirectRegistry (w_threat w u) in
      case map_of reg spellId of
        None \<Rightarrow> w
      | Some _ \<Rightarrow> put_redirects u (AList.delete spellId reg) w)"

definition UnregisterRedirectThreat_victim :: "guid \<Rightarrow> u32 \<Rightarrow> guid \<Rightarrow> world \<Rightarrow> world" where
  "UnregisterRedirectThreat_victim u spellId victim w =
     (let reg = tm_redirectRegistry (w_threat w u) in
      case map_of reg spellId of
        None \<Rightarrow> w
      | Some victimMap \<Rightarrow>
          (case map_of victimMap victim of
             None \<Rightarrow> w
           | Some _ \<Rightarrow> put_redirects u (AList.update spellId (AList.delete victim victimMap) reg) w))"

section \<open>Adding threat\<close>

definition CalculatePct :: "rat \<Rightarrow> u32 \<Rightarrow> rat" where
  "CalculatePct base pct = f32 (f32 (base * f32 (of_int (uint pct))) / 100)"

text \<open>The index of a mask with a single school, the cases of the switch.\<close>

definition single_school :: "u32 \<Rightarrow> nat option" where
  "single_school schools = find (\<lambda>i. push_bit i 1 = schools) [0 ..< 7]"

definition CalculateModifiedThreat ::
    "env \<Rightarrow> rat \<Rightarrow> guid \<Rightarrow> spell_info option \<Rightarrow> world \<Rightarrow> rat \<times> world" where
  "CalculateModifiedThreat env threat victim spell w =
     (let threat1 =
            (case spell of
               None \<Rightarrow> threat
             | Some s \<Rightarrow>
                 let t1 = (case SpellThreatPctMod env (si_Id s) of
                             None \<Rightarrow> threat
                           | Some pctMod \<Rightarrow> if pctMod \<noteq> 1 then f32 (threat * pctMod) else threat)
                 in ApplyThreatSpellMod env victim (si_Id s) t1);
          t = w_threat w victim;
          schools = (case spell of None \<Rightarrow> 1 | Some s \<Rightarrow> si_SchoolMask s)
      in case single_school schools of
           Some i \<Rightarrow> (f32 (threat1 * (tm_singleSchoolModifiers t ! i)), w)
         | None \<Rightarrow>
             (case map_of (tm_multiSchoolModifiers t) schools of
                Some m \<Rightarrow> (f32 (threat1 * m), w)
              | None \<Rightarrow>
                  let m = ThreatAuraMultiplier env victim schools
                  in (f32 (threat1 * m),
                      upd_threat victim
                        (\<lambda>t. t\<lparr>tm_multiSchoolModifiers :=
                                AList.update schools m (tm_multiSchoolModifiers t)\<rparr>) w)))"

text \<open>Adding threat for a unit without a threat list: combat with the target and its redirections.\<close>

definition engage_without_list :: "env \<Rightarrow> guid \<Rightarrow> guid \<Rightarrow> world \<Rightarrow> world" where
  "engage_without_list env me target w =
     (let (inCombat, w1) = SetInCombatWith env me target False w in
      if \<not> inCombat then w1
      else fold (\<lambda>(g, pct) w.
             if IsInCombatWith w me g then w
             else case GetUnit env me g of
                    None \<Rightarrow> w
                  | Some redirTarget \<Rightarrow> snd (SetInCombatWith env me redirTarget False w))
           (tm_redirectInfo (w_threat w1 target)) w1)"

text \<open>\<open>AddThreat\<close> from \<open>ensure we're in combat\<close> to its end.\<close>

definition apply_threat :: "env \<Rightarrow> guid \<Rightarrow> guid \<Rightarrow> rat \<Rightarrow> world \<Rightarrow> world" where
  "apply_threat env me target amount w =
     (let (inCombat, w1) = SetInCombatWith env me target False w in
      if \<not> inCombat then w1
      else case map_of (entries w1 me) target of
        Some a \<Rightarrow>
          let w2 = (if tr_online (tref w1 a) = ONLINE_STATE_SUPPRESSED
                       \<and> \<not> ShouldBeSuppressed env (tref w1 a)
                    then HeapNotify a (Some True)
                           (put_tref a ((tref w1 a)\<lparr>tr_online := ONLINE_STATE_ONLINE\<rparr>) w1)
                    else w1)
          in if IsOnline (tref w2 a) then apply_ref a (AddThreat_ref amount) w2 else w2
      | None \<Rightarrow>
          let a = w_next w1;
              r = \<lparr>tr_owner = me, tr_victim = target, tr_online = ONLINE_STATE_OFFLINE,
                   tr_baseAmount = 0, tr_tempModifier = 0, tr_taunted = TAUNT_STATE_NONE\<rparr>;
              w2 = (put_tref a r w1)\<lparr>w_next := Suc a\<rparr>;
              w3 = PutThreatenedByMeRef target me a (PutThreatListRef me target a w2);
              w4 = UpdateOffline env a w3;
              w5 = (if IsOnline (tref w4 a) then apply_ref a (AddThreat_ref amount) w4 else w4)
          in if current w5 me = None then UpdateVictim env me w5 else ProcessAIUpdates me w5)"

text \<open>The loop over the redirections, with \<open>add\<close> the nested call of \<open>AddThreat\<close>.\<close>

fun redirect_loop ::
    "(guid \<Rightarrow> rat \<Rightarrow> world \<Rightarrow> world option) \<Rightarrow> env \<Rightarrow> guid \<Rightarrow> rat \<Rightarrow> (guid \<times> u32) list
       \<Rightarrow> rat \<Rightarrow> world \<Rightarrow> (rat \<times> world) option" where
  "redirect_loop add env me origAmount [] amount w = Some (amount, w)"
| "redirect_loop add env me origAmount ((g, pct) # info) amount w =
     (case (case map_of (entries w me) g of
              Some a \<Rightarrow> Some (tr_victim (tref w a)) | None \<Rightarrow> GetUnit env me g) of
        None \<Rightarrow> redirect_loop add env me origAmount info amount w
      | Some redirTarget \<Rightarrow>
          let amountRedirected = CalculatePct origAmount pct in
          do { w' \<leftarrow> add redirTarget amountRedirected w;
               redirect_loop add env me origAmount info (f32 (amount - amountRedirected)) w' })"

definition spell_adds_no_threat :: "env \<Rightarrow> guid \<Rightarrow> spell_info option \<Rightarrow> bool" where
  "spell_adds_no_threat env me spell \<longleftrightarrow>
     (case spell of
        None \<Rightarrow> False
      | Some s \<Rightarrow> si_AttributesEx s AND SPELL_ATTR1_NO_THREAT \<noteq> 0
          \<or> \<not> IsEngaged env me \<and> si_AttributesEx3 s AND SPELL_ATTR3_NO_INITIAL_AGGRO \<noteq> 0)"

definition private_redirect :: "env \<Rightarrow> guid \<Rightarrow> guid \<Rightarrow> guid option" where
  "private_redirect env me target =
     (if IsPrivateObject env target
         \<and> (\<not> IsPrivateObject env me \<or> \<not> PrivateOwnerVisible env me target)
      then GetUnit env me (PrivateObjectOwner env target) else None)"

fun AddThreat ::
    "nat \<Rightarrow> env \<Rightarrow> guid \<Rightarrow> guid \<Rightarrow> rat \<Rightarrow> spell_info option \<Rightarrow> bool \<Rightarrow> bool \<Rightarrow> world \<Rightarrow> world option"
where
  "AddThreat 0 env me target amount spell ignoreModifiers ignoreRedirects w = None"
| "AddThreat (Suc n) env me target amount spell ignoreModifiers ignoreRedirects w =
     (if spell_adds_no_threat env me spell then Some w
      else do {
        (amount1, w1) \<leftarrow>
          (case VehicleBase env target of
             None \<Rightarrow> Some (amount, w)
           | Some vehicle \<Rightarrow> map_option (\<lambda>w'. (0, w'))
               (AddThreat n env me vehicle amount spell ignoreModifiers ignoreRedirects w));
        if VehicleBase env target \<noteq> None \<and> HasUnitTypeMask (w_unit w1 target) UNIT_MASK_ACCESSORY
        then Some w1
        else do {
          (amount2, w2) \<leftarrow>
            (case private_redirect env me target of
               None \<Rightarrow> Some (amount1, w1)
             | Some own \<Rightarrow> map_option (\<lambda>w'. (0, w'))
                 (AddThreat n env me own amount1 spell ignoreModifiers ignoreRedirects w1));
          if \<not> tm_ownerCanHaveThreatList (w_threat w2 me)
          then Some (engage_without_list env me target w2)
          else do {
            let (amount3, w3) =
              (if ignoreModifiers then (amount2, w2)
               else CalculateModifiedThreat env amount2 target spell w2);
            (amount4, w4) \<leftarrow>
              (if \<not> ignoreRedirects \<and> amount3 > 0
               then redirect_loop (\<lambda>g x. AddThreat n env me g x spell True True) env me amount3
                      (tm_redirectInfo (w_threat w3 target)) amount3 w3
               else Some (amount3, w3));
            Some (apply_threat env me target amount4 w4) } } })"

definition MatchUnitThreatToHighestThreat :: "nat \<Rightarrow> env \<Rightarrow> guid \<Rightarrow> guid \<Rightarrow> world \<Rightarrow> world option" where
  "MatchUnitThreatToHighestThreat n env u target w =
     (case ordered env (CompareThreat w) (sorted_list w u) of
        [] \<Rightarrow> Some w
      | first # rest \<Rightarrow>
          if \<not> IsAvailable (tref w first) then Some w
          else
            let highest = (case rest of
                  a # _ \<Rightarrow> if IsTaunting (tref w first) \<and> IsAvailable (tref w a)
                               \<and> GetThreat (tref w a) > GetThreat (tref w first)
                            then a else first
                | [] \<Rightarrow> first)
            in AddThreat n env u target
                 (f32 (GetThreat (tref w highest) - ThreatManager_GetThreat w u target True))
                 None True True w)"

fun add_threat_all ::
    "(guid \<Rightarrow> world \<Rightarrow> world option) \<Rightarrow> guid list \<Rightarrow> world \<Rightarrow> world option" where
  "add_threat_all add [] w = Some w"
| "add_threat_all add (g # gs) w = do { w' \<leftarrow> add g w; add_threat_all add gs w' }"

definition ForwardThreatForAssistingMe ::
    "nat \<Rightarrow> env \<Rightarrow> guid \<Rightarrow> guid \<Rightarrow> rat \<Rightarrow> spell_info option \<Rightarrow> bool \<Rightarrow> world \<Rightarrow> world option" where
  "ForwardThreatForAssistingMe n env u assistant baseAmount spell ignoreModifiers w =
     (if (case spell of None \<Rightarrow> False | Some s \<Rightarrow> si_AttributesEx s AND SPELL_ATTR1_NO_THREAT \<noteq> 0)
      then Some w
      else if threatened w u = [] then Some w
      else
        let owners = map (\<lambda>(g, a). tr_owner (tref w a)) (threatened w u);
            can = filter (\<lambda>g. \<not> HasUnitState (w_unit w g) UNIT_STATE_CONTROLLED) owners;
            cannot = filter (\<lambda>g. HasUnitState (w_unit w g) UNIT_STATE_CONTROLLED) owners;
            perTarget = f32 (baseAmount / of_nat (length can))
        in do {
             w1 \<leftarrow> add_threat_all
                    (\<lambda>g. AddThreat n env g assistant perTarget spell ignoreModifiers False) can w;
             add_threat_all (\<lambda>g. AddThreat n env g assistant 0 spell True False) cannot w1 })"

end
