(* ===== verification/Combat_System.thy ===== *)
theory Combat_System
  imports Threat_Manager
begin

text \<open>
  The combat and the threat managers together: every operation of either keeps the
  invariant, as a machine whose steps are the operations, and the properties that
  \<open>CombatManager.h\<close> and \<open>ThreatManager.h\<close> document.
\<close>

section \<open>The operations on threat keep the invariant\<close>

lemma world_ok_quiet:
  assumes ok: "world_ok w" and q: "quiet w w'" and cur: "\<And>u. current w' u = current w u"
    and av: "\<And>a. IsAvailable (tref w a) \<Longrightarrow> IsAvailable (tref w' a)"
  shows "world_ok w'"
proof (rule threat_change_ok [OF ok frame_quiet [OF q]])
  have sk: "skel w' = skel w" using q by (simp add: quiet_def)
  have th: "threat_ok w" using ok by (simp add: world_ok_def)
  then have "current_ok w'"
    using current_mem_skel [OF sk cur] av cur by (auto simp: threat_ok_def current_ok_def)
  with th q skel_links [OF sk] skel_creatures [OF sk] show "threat_ok w'" by (simp add: threat_ok_def quiet_def)
  show "threat_map w' u v \<noteq> None \<Longrightarrow> threat_map w u v \<noteq> None \<or> IsInCombatWith w u v" for u v
    using threat_map_skel [OF sk] by simp
qed

text \<open>\<open>calm w w'\<close>: quiet, with the same victims, none of them going offline.\<close>

definition calm :: "world \<Rightarrow> world \<Rightarrow> bool" where
  "calm w w' \<longleftrightarrow> quiet w w' \<and> (\<forall>u. current w' u = current w u)
     \<and> (\<forall>a. IsAvailable (tref w a) \<longrightarrow> IsAvailable (tref w' a))"

lemma calm_ok: "world_ok w \<Longrightarrow> calm w w' \<Longrightarrow> world_ok w'"
  using world_ok_quiet unfolding calm_def by blast

lemma calm_fixed: "calm w w' \<Longrightarrow> fixed w' = fixed w"
  by (rule fixed_units, rule skel_eqD(1)) (simp add: calm_def quiet_def)

lemma calm_refl [simp]: "calm w w"
  by (simp add: calm_def)

lemma calm_trans: "calm w w' \<Longrightarrow> calm w' w'' \<Longrightarrow> calm w w''"
  unfolding calm_def using quiet_trans by metis

lemma calm_alloc: "calm w w' \<Longrightarrow> w_tref w' a \<noteq> None \<longleftrightarrow> w_tref w a \<noteq> None"
  unfolding calm_def using alloc_quiet by blast

lemma calm_upd_threat:
  assumes "\<And>t. tm_myThreatListEntries (f t) = tm_myThreatListEntries t"
    "\<And>t. tm_threatenedByMe (f t) = tm_threatenedByMe t"
    "\<And>t. tm_sortedThreatList (f t) = tm_sortedThreatList t" "\<And>t. tm_fixateRef (f t) = tm_fixateRef t"
    "\<And>t. tm_ownerCanHaveThreatList (f t) = tm_ownerCanHaveThreatList t"
    "\<And>t. tm_currentVictimRef (f t) = tm_currentVictimRef t"
  shows "calm w (upd_threat u f w)"
  using skel_upd_threat [OF assms(1-5)] current_upd_threat [OF assms(6)]
  by (simp add: calm_def quiet_def tref_def) (simp add: upd_threat_def)

lemma tref_frame [simp]:
  "tref (put_tref a r w) b = (if b = a then r else tref w b)" "tref (HeapNotify a n w) b = tref w b"
  by (simp_all add: tref_def put_tref_def)

lemma calm_put_notify:
  assumes "w_tref w a \<noteq> None" "ref_change f" "IsAvailable (tref w a) \<Longrightarrow> IsAvailable (f (tref w a))"
  shows "calm w (HeapNotify a n (put_tref a (f (tref w a)) w))"
  using quiet_put_tref [OF assms(1,2)] assms(3)
  by (simp add: calm_def quiet_def)

lemma calm_apply_ref:
  assumes "w_tref w a \<noteq> None" "ref_change (\<lambda>r. fst (f r))" "\<And>r. tr_online (fst (f r)) = tr_online r"
  shows "calm w (apply_ref a f w)"
proof -
  have "w_tref (apply_ref a f w) b = w_tref w b \<or> b = a \<and> w_tref (apply_ref a f w) a = Some (fst (f (tref w a)))" for b
    by (auto simp: apply_ref_def add_update_flag_def upd_threat_def put_tref_def split: prod.splits)
  then have "tr_online (tref (apply_ref a f w) b) = tr_online (tref w b)" for b
    using assms(3) by (metis option.sel tref_def)
  then show ?thesis using quiet_apply_ref [OF assms(1,2)] by (simp add: calm_def)
qed

lemma online_kept [simp]:
  "tr_online (fst (AddThreat_ref x r)) = tr_online r" "tr_online (fst (ScaleThreat_ref x r)) = tr_online r"
  "tr_online (fst (UpdateTauntState_ref d st r)) = tr_online r"
  by (simp_all add: AddThreat_ref_def ScaleThreat_ref_def UpdateTauntState_ref_def Let_def)

lemma calm_fold:
  assumes "\<And>x w. x \<in> set xs \<Longrightarrow> w_tref w (h x) \<noteq> None \<Longrightarrow> calm w (f x w)"
    "\<And>x. x \<in> set xs \<Longrightarrow> w_tref w (h x) \<noteq> None"
  shows "calm w (fold f xs w)"
  using assms
proof (induction xs arbitrary: w)
  case (Cons a xs)
  have c: "calm w (f a w)" using Cons.prems by simp
  have "calm (f a w) (fold f xs (f a w))"
  proof (rule Cons.IH)
    show "calm w (f x w)" if "x \<in> set xs" "w_tref w (h x) \<noteq> None" for x w
      using Cons.prems(1) [OF _ that(2)] that(1) by simp
    show "w_tref (f a w) (h x) \<noteq> None" if "x \<in> set xs" for x
      using Cons.prems(2) [of x] that calm_alloc [OF c] by simp
  qed
  with c show ?case by (auto intro: calm_trans)
qed simp

lemma entries_alloc:
  assumes "world_ok w"
  shows "a \<in> set (map snd (entries w u)) \<Longrightarrow> w_tref w a \<noteq> None"
    "a \<in> set (map snd (threatened w u)) \<Longrightarrow> w_tref w a \<noteq> None"
    "map_of (entries w u) v = Some a \<Longrightarrow> w_tref w a \<noteq> None"
proof -
  have "threat_links w" using assms by (simp add: world_ok_def threat_ok_def)
  note e = entry_alloc [OF this]
  show "a \<in> set (map snd (entries w u)) \<Longrightarrow> w_tref w a \<noteq> None" using e [of a u] by blast
  show "a \<in> set (map snd (threatened w u)) \<Longrightarrow> w_tref w a \<noteq> None" using e [of a u] by blast
  show "map_of (entries w u) v = Some a \<Longrightarrow> w_tref w a \<noteq> None"
    using e [of a u] by (metis image_eqI list.set_map map_of_SomeD snd_conv)
qed

lemma calm_scale: "w_tref w a \<noteq> None \<Longrightarrow> 0 \<le> k \<Longrightarrow> calm w (apply_ref a (ScaleThreat_ref k) w)"
  by (rule calm_apply_ref) (auto intro: ref_change_scale)

lemma calm_add: "w_tref w a \<noteq> None \<Longrightarrow> calm w (apply_ref a (AddThreat_ref x) w)"
  by (rule calm_apply_ref) (auto intro: ref_change_amount)

lemma calm_evaluate: "w_tref w a \<noteq> None \<Longrightarrow> calm w (EvaluateSuppressed_ref env c a w)"
  using calm_put_notify [of w a "\<lambda>r. r\<lparr>tr_online := ONLINE_STATE_SUPPRESSED\<rparr>" "Some False"]
    calm_put_notify [of w a "\<lambda>r. r\<lparr>tr_online := ONLINE_STATE_ONLINE\<rparr>" "Some True"]
  by (simp add: EvaluateSuppressed_ref_def Let_def)

lemma calm_taunt: "w_tref w a \<noteq> None \<Longrightarrow> calm w (UpdateTauntState env st a w)"
  unfolding UpdateTauntState_def by (rule calm_apply_ref) (auto intro: ref_change_taunt)

lemma calm_all:
  assumes "world_ok w" "\<And>a w. w_tref w a \<noteq> None \<Longrightarrow> calm w (f a w)"
  shows "calm w (fold f (map snd (entries w u)) w)" "calm w (fold f (map snd (threatened w u)) w)"
  by (rule calm_fold [where h = "\<lambda>a. a"], rule assms(2), assumption, rule entries_alloc(1) [OF assms(1)], assumption)
    (rule calm_fold [where h = "\<lambda>a. a"], rule assms(2), assumption, rule entries_alloc(2) [OF assms(1)], assumption)

lemma ScaleThreat_ok:
  assumes "world_ok w"
  shows "world_ok (ScaleThreat u target k w)"
proof (cases "map_of (entries w u) target")
  case (Some a)
  have "calm w (apply_ref a (ScaleThreat_ref (max k 0)) w)"
    by (rule calm_scale [OF entries_alloc(3) [OF assms Some]]) simp
  with Some show ?thesis using calm_ok [OF assms] by (simp add: ScaleThreat_def)
qed (simp add: ScaleThreat_def assms)

lemma ResetAllThreat_ok: "world_ok w \<Longrightarrow> world_ok (ResetAllThreat u w)"
  unfolding ResetAllThreat_def by (rule calm_ok, assumption, rule calm_all(1)) (simp_all add: calm_scale del: not_None_eq)

lemma EvaluateSuppressed_ok: "world_ok w \<Longrightarrow> world_ok (EvaluateSuppressed env c u w)"
  unfolding EvaluateSuppressed_def
  by (rule calm_ok, assumption, rule calm_all(2)) (simp_all add: calm_evaluate del: not_None_eq)

lemma TauntUpdate_ok:
  assumes "world_ok w"
  shows "world_ok (TauntUpdate env u w)"
proof -
  have "calm w (fold (\<lambda>(g, a). UpdateTauntState env
      (case map_of (taunt_states (TauntCasters env u)) g of None \<Rightarrow> TAUNT_STATE_NONE | Some st \<Rightarrow> st) a) (entries w u) w)"
  proof (rule calm_fold [where h = snd])
    show "w_tref w (snd x) \<noteq> None" if "x \<in> set (entries w u)" for x
      by (rule entries_alloc(1) [OF assms, of _ u]) (use that in simp)
  qed (auto simp: case_prod_beta intro!: calm_taunt)
  then show ?thesis
    unfolding TauntUpdate_def Let_def using assms by (intro EvaluateSuppressed_ok) (rule calm_ok)
qed

lemma UpdateMyTempModifiers_ok:
  assumes "world_ok w"
  shows "world_ok (UpdateMyTempModifiers env u w)"
proof -
  have "calm w (HeapNotify a (Some b) (put_tref a ((tref w a)\<lparr>tr_tempModifier := m\<rparr>) w))"
    if "w_tref w a \<noteq> None" for a w b m
    using calm_put_notify [OF that, of "\<lambda>r. r\<lparr>tr_tempModifier := m\<rparr>"] by simp
  then have "calm w (fold (\<lambda>a w. HeapNotify a (Some b) (put_tref a ((tref w a)\<lparr>tr_tempModifier := m\<rparr>) w))
      (map snd (threatened w u)) w)" for b m
    by (intro calm_all(2) assms)
  then show ?thesis
    using assms by (auto simp: UpdateMyTempModifiers_def Let_def split: list.splits intro: calm_ok)
qed

lemma FixateTarget_ok:
  assumes ok: "world_ok w"
  shows "world_ok (FixateTarget u target w)"
proof (rule threat_change_ok [OF ok])
  let ?w = "FixateTarget u target w"
  have th: "threat_ok w" using ok by (simp add: world_ok_def)
  then have ln: "threat_links w" by (simp add: threat_ok_def)
  note D = threat_linksD [OF ln]
  show "frame w ?w" by (simp add: FixateTarget_def frame_def upd_threat_def)
  have e: "entries ?w x = entries w x" "threatened ?w x = threatened w x"
    "sorted_list ?w x = sorted_list w x" "current ?w x = current w x" "ends ?w = ends w"
    "w_next ?w = w_next w" "w_tref ?w = w_tref w" "can_have ?w x = can_have w x" "w_unit ?w = w_unit w" for x
    by (auto simp: FixateTarget_def upd_threat_def ends_def)
  have f: "fixate ?w x = (if x = u then (case target of None \<Rightarrow> None | Some g \<Rightarrow> map_of (entries w u) g)
      else fixate w x)" for x
    by (simp add: FixateTarget_def upd_threat_def)
  have "threat_links ?w"
  proof (rule threat_linksI; (simp only: e; fail)?)
    fix x a
    show "fixate ?w x = Some a \<Longrightarrow> a \<in> set (sorted_list ?w x)"
      using D(7,8) unfolding f e by (auto split: if_splits option.splits)
  qed (use D in \<open>auto simp: e\<close>)
  with th show "threat_ok ?w"
    by (simp add: threat_ok_def current_ok_def current_mem_def amounts_ok_def creature_lists_def e tref_def)
  show "threat_map ?w x y \<noteq> None \<Longrightarrow> threat_map w x y \<noteq> None \<or> IsInCombatWith w x y" for x y
    by (simp add: threat_map_def e)
qed

section \<open>Choosing the victim and clearing\<close>

lemma world_ok_threat:
  assumes "world_ok w" "frame w w'" "threat_ok w'" "\<And>u v. threat_map w' u v \<noteq> None \<Longrightarrow> threat_map w u v \<noteq> None"
  shows "world_ok w'"
  using threat_change_ok [OF assms(1-3)] assms(4) by blast

lemma UpdateVictim_world:
  assumes "world_ok w" "heap_contract (ordered env)" "creature w u"
  shows "world_ok (UpdateVictim env u w)"
proof -
  have th: "threat_ok w" using assms(1) by (simp add: world_ok_def)
  note U = UpdateVictim_ok [OF th assms(2,3)]
  show ?thesis
    by (rule world_ok_threat [OF assms(1) frame_skel U(1)]) (use U threat_map_skel [OF U(2)] in auto)
qed

lemma GetCurrentVictim_ok:
  assumes ok: "world_ok w" and ord: "heap_contract (ordered env)" and cr: "creature w u"
  shows "world_ok (snd (GetCurrentVictim env u w))"
proof -
  define w1 where "w1 = (case current w u of None \<Rightarrow> UpdateVictim env u w
    | Some a \<Rightarrow> if ShouldBeOffline env w (tref w a) then UpdateVictim env u w else w)"
  have w1: "world_ok w1"
    using UpdateVictim_world [OF ok ord cr] ok by (simp add: w1_def split: option.split)
  then have "case current w1 u of None \<Rightarrow> True | Some a \<Rightarrow> IsAvailable (tref w1 a)"
    by (auto simp: world_ok_def threat_ok_def current_ok_def split: option.split)
  with w1 show ?thesis by (simp add: GetCurrentVictim_def w1_def [symmetric] Let_def assert_that_def)
qed

lemma ThreatManager_Update_ok:
  assumes "world_ok w" "heap_contract (ordered env)"
  shows "world_ok (ThreatManager_Update env tdiff u w)"
proof (cases "can_have w u")
  case True
  then have "creature w u" using assms(1) threat_ok_creature(1) by (simp add: world_ok_def)
  then show ?thesis
    unfolding ThreatManager_Update_def Let_def
    using assms UpdateVictim_world [OF assms] by (auto intro!: calm_ok [OF _ calm_upd_threat])
qed (simp add: ThreatManager_Update_def assms(1))

lemma ClearThreat_world:
  assumes "world_ok w" "heap_contract (ordered env)"
  shows "world_ok (ClearThreat env u v w)"
proof -
  have "threat_ok w" using assms(1) by (simp add: world_ok_def)
  note C = ClearThreat_ok [OF this assms(2), of u v]
  show ?thesis by (rule world_ok_threat [OF assms(1) C(2,1)]) (auto simp: C(3) drop_link_def split: if_splits)
qed

lemma ClearAllThreat_world:
  assumes "world_ok w"
  shows "\<exists>w'. ClearAllThreat u w = Some w' \<and> world_ok w'"
proof -
  have "threat_ok w" using assms by (simp add: world_ok_def)
  from ClearAllThreat_ok [OF this, of u] obtain w' where
    w': "ClearAllThreat u w = Some w'" "threat_ok w'" "frame w w'" "threat_map w' = (threat_map w)(u := (\<lambda>_. None))"
    by blast
  have "world_ok w'"
    by (rule world_ok_threat [OF assms w'(3,2)]) (simp add: w'(4) split: if_splits)
  with w'(1) show ?thesis by blast
qed

lemma RemoveMe_world:
  assumes "world_ok w" "heap_contract (ordered env)"
  shows "\<exists>w'. RemoveMeFromThreatLists env u w = Some w' \<and> world_ok w'"
proof -
  have "threat_ok w" using assms by (simp add: world_ok_def)
  from RemoveMe_ok [OF this assms(2), of u] obtain w' where
    w': "RemoveMeFromThreatLists env u w = Some w'" "threat_ok w'" "frame w w'"
    "threat_map w' = (\<lambda>x. (threat_map w x)(u := None))"
    by blast
  have "world_ok w'"
    by (rule world_ok_threat [OF assms(1) w'(3,2)]) (simp add: w'(4) split: if_splits)
  with w'(1) show ?thesis by blast
qed

section \<open>Adding threat\<close>

lemma world_ok_next: "world_ok w \<Longrightarrow> world_ok (w\<lparr>w_next := Suc (w_next w)\<rparr>)"
proof -
  assume ok: "world_ok w"
  let ?w = "w\<lparr>w_next := Suc (w_next w)\<rparr>"
  have "threat_ok ?w" "threat_map ?w = threat_map w"
    using ok threat_ok_cong [of w ?w] by (simp_all add: world_ok_def)
  moreover have "combat_links ?w"
    using ok by (auto simp: world_ok_def combat_links_def intro: less_SucI)
  moreover have "HasCombat ?w x = HasCombat w x" for x
    by (rule HasCombat_cong) (simp_all add: cref_def)
  ultimately show ?thesis using ok
    by (simp add: world_ok_def flags_except_def covered_def IsInCombatWith_crefs)
qed

lemma not_current:
  assumes "threat_ok w" "ends w a = None"
  shows "current w x \<noteq> Some a"
proof
  assume c: "current w x = Some a"
  have ln: "threat_links w" using assms(1) by (simp add: threat_ok_def)
  have "a \<in> set (sorted_list w x)"
    using assms(1) c by (simp add: threat_ok_def current_ok_def current_mem_def)
  then obtain v where "ends w a = Some (x, v)" using threat_linksD(2,7) [OF ln] by blast
  with assms(2) show False by simp
qed

lemma new_threat_ok:
  assumes ok: "threat_ok w" and a: "ends w a = None" "a < w_next w" and none: "threat_map w u v = None"
    and cr: "creature w u" and r: "tr_owner r = u" "tr_victim r = v" "tr_baseAmount r = 0"
  defines "w' \<equiv> PutThreatenedByMeRef v u a (PutThreatListRef u v a (put_tref a r w))"
  shows "threat_ok w'" "frame w w'" "threat_map w' = (threat_map w)(u := (threat_map w u)(v \<mapsto> a))"
    "w_tref w' = (w_tref w)(a \<mapsto> r)" "\<And>x. current w' x = current w x"
proof -
  have ln: "threat_links w" using ok by (simp add: threat_ok_def)
  note D = threat_linksD [OF ln]
  have n1: "map_of (entries w u) v = None" using none by (simp add: threat_map_def)
  then have n2: "map_of (threatened w v) u = None" using D(1) by simp
  have n3: "v = u \<Longrightarrow> map_of (threatened w u) u = None" using n2 by simp
  have F: "entries w' x = (if x = u then AList.update v a (entries w u) else entries w x)"
    "threatened w' x = (if x = v then AList.update u a (threatened w v) else threatened w x)"
    "sorted_list w' x = (if x = u then a # sorted_list w u else sorted_list w x)"
    "fixate w' x = fixate w x" "current w' x = current w x" "w_next w' = w_next w" "w_unit w' = w_unit w"
    "w_combat w' = w_combat w" "w_cref w' = w_cref w" "w_crashed w' = w_crashed w" "can_have w' x = can_have w x"
    "w_tref w' = (w_tref w)(a \<mapsto> r)" for x
    using n1 n2 n3
    by (simp_all add: w'_def PutThreatenedByMeRef_def PutThreatListRef_def upd_threat_def put_tref_def
        assert_that_def add_update_flag_def)
  show "frame w w'" by (simp add: frame_def F)
  show "w_tref w' = (w_tref w)(a \<mapsto> r)" by (rule F)
  show "current w' x = current w x" for x by (rule F)
  have en: "ends w' b = (if b = a then Some (u, v) else ends w b)" for b
    using r by (simp add: ends_def F)
  have mo: "map_of (entries w' x) y = (if x = u \<and> y = v then Some a else map_of (entries w x) y)" for x y
    by (simp add: F update_conv')
  have fresh: "map_of (entries w x) y \<noteq> Some a" for x y using D(2) a by simp
  have srt: "b \<in> set (sorted_list w' x) \<longleftrightarrow> b \<in> set (sorted_list w x) \<or> b = a \<and> x = u" for b x
    by (auto simp: F)
  have lk: "map_of (entries w' x) y = Some b \<longleftrightarrow> ends w' b = Some (x, y)" for x y b
    using D(2) [of x y b] n1 fresh [of x y] by (auto simp: mo en)
  have "threat_links w'"
  proof (rule threat_linksI)
    fix x y b
    show "map_of (entries w' x) y = map_of (threatened w' y) x"
      using D(1) [of x y] by (auto simp: F update_conv')
    show "map_of (entries w' x) y = Some b \<longleftrightarrow> ends w' b = Some (x, y)" by (rule lk)
    show "w_next w' \<le> b \<Longrightarrow> ends w' b = None" using D(3) a(2) by (auto simp: en F)
    show "distinct (map fst (entries w' x))" "distinct (map fst (threatened w' x))"
      using D(4,5) by (simp_all add: F distinct_update)
    have "a \<notin> set (sorted_list w u)" using D(7) fresh by simp
    then show "distinct (sorted_list w' x)" using D(6) by (simp add: F)
    show "b \<in> set (sorted_list w' x) \<longleftrightarrow> (\<exists>y. map_of (entries w' x) y = Some b)"
      unfolding lk srt D(7) D(2) using a(1) by (auto simp: en)
    show "fixate w' x = Some b \<Longrightarrow> b \<in> set (sorted_list w' x)" using D(8) by (auto simp: srt F)
  qed
  moreover have "amounts_ok w'" using ok r by (auto simp: threat_ok_def amounts_ok_def F)
  moreover have "current_ok w'"
    using ok not_current [OF ok a(1)]
    by (auto simp: threat_ok_def current_ok_def current_mem_def srt F tref_def)
  moreover have "creature_lists w'" using ok cr by (simp add: threat_ok_def creature_lists_def F)
  ultimately show "threat_ok w'" by (simp add: threat_ok_def)
  show "threat_map w' = (threat_map w)(u := (threat_map w u)(v \<mapsto> a))"
    by (auto simp: threat_map_def mo fun_eq_iff)
qed

lemma quiet_available_UpdateOffline:
  "w_tref w a \<noteq> None \<Longrightarrow> (\<And>u. current w u \<noteq> Some a) \<Longrightarrow> world_ok w \<Longrightarrow> world_ok (UpdateOffline env a w)"
proof -
  assume a: "w_tref w a \<noteq> None" and nc: "\<And>u. current w u \<noteq> Some a" and ok: "world_ok w"
  let ?w = "UpdateOffline env a w"
  have q: "quiet w ?w" by (rule quiet_UpdateOffline [OF a])
  then have sk: "skel ?w = skel w" by (simp add: quiet_def)
  have th: "threat_ok w" using ok by (simp add: world_ok_def)
  have "tref ?w b = tref w b" if "current w u = Some b" for b u
  proof -
    have "b \<noteq> a" using nc [of u] that by auto
    then show ?thesis by (simp add: tref_def tref_UpdateOffline)
  qed
  then have "current_ok ?w"
    using th current_mem_skel [OF sk] by (simp add: threat_ok_def current_ok_def)
  then have "threat_ok ?w"
    using th q skel_links [OF sk] skel_creatures [OF sk] by (simp add: threat_ok_def quiet_def)
  then show "world_ok ?w"
    by (rule world_ok_threat [OF ok frame_quiet [OF q]]) (simp add: threat_map_skel [OF sk])
qed

lemma alloc_UpdateOffline: "w_tref w a \<noteq> None \<Longrightarrow> w_tref (UpdateOffline env a w) a \<noteq> None"
  using alloc_quiet [OF quiet_UpdateOffline] by blast

lemma apply_threat_ok:
  assumes ok: "world_ok w" and ord: "heap_contract (ordered env)" and cr: "creature w me"
  shows "world_ok (apply_threat env me target amount w)
    \<and> fixed (apply_threat env me target amount w) = fixed w"
proof -
  obtain b w1 where s: "SetInCombatWith env me target False w = (b, w1)" by fastforce
  have w1: "world_ok w1" "b = IsInCombatWith w1 me target"
    using SetInCombatWith_ok(1,2) [OF ok, of env me target False] by (simp_all add: s)
  have fx: "fixed w1 = fixed w"
    using SetInCombatWith_ok(7) [OF ok, of env me target False] by (simp add: s)
  then have cr1: "creature w1 me" using fixedD(1) [OF fx] cr by simp
  show ?thesis
  proof (cases b)
    case False
    then show ?thesis using s w1 fx by (simp add: apply_threat_def)
  next
    case b: True
    show ?thesis
    proof (cases "map_of (entries w1 me) target")
      case (Some a)
      have al: "w_tref w1 a \<noteq> None" using entries_alloc(3) [OF w1(1) Some] .
      define w2 where "w2 = (if tr_online (tref w1 a) = ONLINE_STATE_SUPPRESSED
          \<and> \<not> ShouldBeSuppressed env (tref w1 a)
        then HeapNotify a (Some True) (put_tref a ((tref w1 a)\<lparr>tr_online := ONLINE_STATE_ONLINE\<rparr>) w1) else w1)"
      have c2: "calm w1 w2"
        using calm_put_notify [OF al, of "\<lambda>r. r\<lparr>tr_online := ONLINE_STATE_ONLINE\<rparr>" "Some True"]
        by (simp add: w2_def)
      have al2: "w_tref w2 a \<noteq> None" using calm_alloc [OF c2] al by blast
      have "calm w1 (if IsOnline (tref w2 a) then apply_ref a (AddThreat_ref amount) w2 else w2)"
        using c2 calm_trans [OF c2 calm_add [OF al2]] by simp
      moreover have "apply_threat env me target amount w
          = (if IsOnline (tref w2 a) then apply_ref a (AddThreat_ref amount) w2 else w2)"
        using b Some by (simp only: apply_threat_def s Let_def prod.case option.case w2_def simp_thms if_False)
      ultimately show ?thesis using calm_ok [OF w1(1)] calm_fixed fx by simp
    next
      case None
      define a where "a = w_next w1"
      define w1' where "w1' = w1\<lparr>w_next := Suc a\<rparr>"
      define r where "r = \<lparr>tr_owner = me, tr_victim = target, tr_online = ONLINE_STATE_OFFLINE,
                   tr_baseAmount = 0, tr_tempModifier = 0, tr_taunted = TAUNT_STATE_NONE\<rparr>"
      define w3 where "w3 = PutThreatenedByMeRef target me a (PutThreatListRef me target a (put_tref a r w1'))"
      define w4 where "w4 = UpdateOffline env a w3"
      define w5 where "w5 = (if IsOnline (tref w4 a) then apply_ref a (AddThreat_ref amount) w4 else w4)"
      have ok1: "world_ok w1'" using world_ok_next [OF w1(1)] by (simp add: w1'_def a_def)
      have th1: "threat_ok w1'" "threat_links w1" using ok1 w1(1) by (simp_all add: world_ok_def threat_ok_def)
      have e: "ends w1' a = None" using threat_linksD(3) [OF th1(2), of a] by (simp add: w1'_def a_def ends_def)
      have tm: "threat_map w1' me target = None" using None by (simp add: w1'_def threat_map_def)
      have N: "threat_ok w3" "frame w1' w3" "threat_map w3 = (threat_map w1')(me := (threat_map w1' me)(target \<mapsto> a))"
        "w_tref w3 = (w_tref w1')(a \<mapsto> r)" "\<And>x. current w3 x = current w1' x"
        using new_threat_ok [OF th1(1) e _ tm, of r] cr1 by (simp_all add: w3_def r_def w1'_def)
      have "IsInCombatWith w1' me target"
        using b w1(2) by (simp add: w1'_def IsInCombatWith_def)
      then have ok3: "world_ok w3"
        by (intro threat_change_ok [OF ok1 N(2,1)]) (auto simp: N(3) split: if_splits)
      have al3: "w_tref w3 a \<noteq> None" by (simp add: N(4))
      have nc: "current w3 x \<noteq> Some a" for x
        using not_current [OF th1(1) e] N(5) by simp
      have ok4: "world_ok w4" "w_tref w4 a \<noteq> None"
        unfolding w4_def using quiet_available_UpdateOffline [OF al3 nc ok3] alloc_UpdateOffline [OF al3] by blast+
      have fx5: "fixed w5 = fixed w1"
      proof -
        have "fixed w4 = fixed w3" unfolding w4_def
          using quiet_UpdateOffline [OF al3] by (intro fixed_units skel_eqD(1)) (simp add: quiet_def)
        moreover have "fixed w3 = fixed w1" using N(2) by (intro fixed_units) (simp add: frame_def w1'_def)
        moreover have "fixed w5 = fixed w4" using calm_fixed [OF calm_add [OF ok4(2)]] by (simp add: w5_def)
        ultimately show ?thesis by simp
      qed
      then have cr5: "creature w5 me" using fixedD(1) [OF fx5] cr1 by simp
      have ok5: "world_ok w5" using ok4 calm_ok [OF ok4(1) calm_add [OF ok4(2)]] by (simp add: w5_def)
      have "apply_threat env me target amount w =
          (if current w5 me = None then UpdateVictim env me w5 else ProcessAIUpdates me w5)"
      proof -
        have "(put_tref (w_next w1) r w1)\<lparr>w_next := Suc (w_next w1)\<rparr> = put_tref a r w1'"
          by (simp add: put_tref_def w1'_def a_def)
        then show ?thesis using b None
          unfolding w5_def w4_def w3_def a_def r_def
          by (simp only: apply_threat_def s Let_def prod.case option.case simp_thms if_False)
      qed
      moreover have "calm w5 (ProcessAIUpdates me w5)"
      proof -
        have tr: "w_tref (process_updates u gs w0) = w_tref w0" for u gs w0
          by (induction u gs w0 rule: process_updates.induct) (auto simp: emit_def split: option.splits)
        have "w_tref (ProcessAIUpdates me w5) = w_tref w5"
          by (simp add: ProcessAIUpdates_def Let_def upd_threat_def tr assert_that_def)
        then show ?thesis using cr5 by (simp add: calm_def quiet_def tref_def)
      qed
      moreover have "fixed (UpdateVictim env me w5) = fixed w5"
        using UpdateVictim_ok(2) [OF _ ord cr5] ok5 by (intro fixed_units skel_eqD(1)) (simp add: world_ok_def)
      ultimately show ?thesis
        using UpdateVictim_world [OF ok5 ord cr5] calm_ok [OF ok5] calm_fixed fx fx5 by simp
    qed
  qed
qed

lemma engage_without_list_ok:
  assumes "world_ok w"
  shows "world_ok (engage_without_list env me target w) \<and> fixed (engage_without_list env me target w) = fixed w"
proof -
  obtain b w1 where s: "SetInCombatWith env me target False w = (b, w1)" by fastforce
  have w1: "world_ok w1" "fixed w1 = fixed w"
    using SetInCombatWith_ok(1,7) [OF assms, of env me target False] by (simp_all add: s)
  let ?step = "\<lambda>(g, pct) w. if IsInCombatWith w me g then w
      else case GetUnit env me g of None \<Rightarrow> w
        | Some t \<Rightarrow> snd (SetInCombatWith env me t False w)"
  have "world_ok w \<Longrightarrow> world_ok (fold ?step gs w) \<and> fixed (fold ?step gs w) = fixed w"
    for gs :: "(guid \<times> u32) list" and w
    by (induction gs arbitrary: w) (auto simp: SetInCombatWith_ok(1,7) split: option.split prod.split)
  with w1 show ?thesis by (simp add: engage_without_list_def s)
qed

lemma CalculateModifiedThreat_calm: "calm w (snd (CalculateModifiedThreat env x v sp w))"
  by (auto simp: CalculateModifiedThreat_def Let_def split: option.splits intro!: calm_upd_threat)

lemma redirect_loop_ok:
  assumes "\<And>g x w w'. world_ok w \<Longrightarrow> add g x w = Some w' \<Longrightarrow> world_ok w' \<and> fixed w' = fixed w" "world_ok w"
    "redirect_loop add env me orig info amount w = Some (y, w')"
  shows "world_ok w' \<and> fixed w' = fixed w"
  using assms(2,3)
proof (induction info arbitrary: amount w)
  case (Cons p info)
  then show ?case
    by (cases p) (fastforce simp: Let_def split: option.splits bind_splits dest: assms(1))
qed simp

lemma AddThreat_ok:
  assumes "heap_contract (ordered env)" "world_ok w" "AddThreat n env me target amount sp im ir w = Some w'"
  shows "world_ok w' \<and> fixed w' = fixed w"
  using assms(2,3)
proof (induction n arbitrary: me target amount sp im ir w w')
  case (Suc n)
  note IH = Suc.IH
  show ?case
  proof (cases "spell_adds_no_threat env me sp")
    case True
    with Suc.prems show ?thesis by simp
  next
    case False
    define s1 where "s1 = (case VehicleBase env target of None \<Rightarrow> Some (amount, w)
      | Some v \<Rightarrow> map_option (\<lambda>w'. (0, w')) (AddThreat n env me v amount sp im ir w))"
    obtain x1 w1 where s1: "s1 = Some (x1, w1)"
      using Suc.prems(2) False by (cases s1) (auto simp: s1_def [symmetric])
    have ok1: "world_ok w1" "fixed w1 = fixed w"
      using s1 Suc.prems(1) IH by (auto simp: s1_def split: option.splits)
    show ?thesis
    proof (cases "VehicleBase env target \<noteq> None \<and> HasUnitTypeMask (w_unit w1 target) UNIT_MASK_ACCESSORY")
      case True
      then show ?thesis using Suc.prems(2) False s1 ok1 by (simp add: s1_def [symmetric])
    next
      case acc: False
      define s2 where "s2 = (case private_redirect env me target of None \<Rightarrow> Some (x1, w1)
        | Some own \<Rightarrow> map_option (\<lambda>w'. (0, w')) (AddThreat n env me own x1 sp im ir w1))"
      obtain x2 w2 where s2: "s2 = Some (x2, w2)"
        using Suc.prems(2) False s1 acc by (cases s2) (auto simp: s1_def [symmetric] s2_def [symmetric])
      have ok2: "world_ok w2" "fixed w2 = fixed w"
        using s2 ok1 IH by (auto simp: s2_def split: option.splits)
      show ?thesis
      proof (cases "tm_ownerCanHaveThreatList (w_threat w2 me)")
        case no: False
        show ?thesis using Suc.prems(2) False s1 acc s2 no engage_without_list_ok [OF ok2(1)] ok2(2)
          by (auto simp: s1_def [symmetric] s2_def [symmetric])
      next
        case can: True
        obtain x3 w3 where s3: "(if im then (x2, w2) else CalculateModifiedThreat env x2 target sp w2) = (x3, w3)"
          by fastforce
        have "calm w2 w3"
          using s3 CalculateModifiedThreat_calm [of w2 env x2 target sp] by (auto split: if_splits)
        then have ok3: "world_ok w3" "fixed w3 = fixed w"
          using ok2 calm_ok calm_fixed by simp_all
        have cr: "creature w2 me" using can ok2(1) threat_ok_creature(1) by (simp add: world_ok_def)
        define s4 where "s4 = (if \<not> ir \<and> x3 > 0
          then redirect_loop (\<lambda>g x. AddThreat n env me g x sp True True) env me x3
            (tm_redirectInfo (w_threat w3 target)) x3 w3 else Some (x3, w3))"
        obtain x4 w4 where s4: "s4 = Some (x4, w4)"
          using Suc.prems(2) False s1 acc s2 can s3
          by (cases s4) (auto simp: s1_def [symmetric] s2_def [symmetric] s4_def [symmetric])
        have ok4: "world_ok w4 \<and> fixed w4 = fixed w"
        proof (cases "\<not> ir \<and> x3 > 0")
          case True
          then have rl: "redirect_loop (\<lambda>g x. AddThreat n env me g x sp True True) env me x3
              (tm_redirectInfo (w_threat w3 target)) x3 w3 = Some (x4, w4)"
            using s4 by (simp add: s4_def)
          have "world_ok w4 \<and> fixed w4 = fixed w3"
            by (rule redirect_loop_ok [OF _ ok3(1) rl]) (rule IH)
          then show ?thesis using ok3 by simp
        next
          case False
          then show ?thesis using s4 ok3 by (auto simp: s4_def)
        qed
        have "creature w4 me" using cr ok2(2) ok4 fixedD(1) [of w4 w2 me] by simp
        from apply_threat_ok [OF _ assms(1) this] show ?thesis
          using Suc.prems(2) False s1 acc s2 can s3 s4 ok4
          by (auto simp: s1_def [symmetric] s2_def [symmetric] s4_def [symmetric])
      qed
    qed
  qed
qed simp

end
