(* ===== verification/Combat_Theorems.thy ===== *)
theory Combat_Theorems
  imports Combat_System
begin

text \<open>
  The machine whose steps are the operations of the combat and threat managers on any
  units, and the properties of its reachable states and of its operations.
\<close>

section \<open>The machine\<close>

lemma MatchUnit_ok:
  assumes "heap_contract (ordered env)" "world_ok w" "MatchUnitThreatToHighestThreat n env u t w = Some w'"
  shows "world_ok w'"
proof (cases "ordered env (CompareThreat w) (sorted_list w u)")
  case Nil
  with assms show ?thesis by (simp add: MatchUnitThreatToHighestThreat_def)
next
  case (Cons first rest)
  with assms have "w' = w \<or> (\<exists>x. AddThreat n env u t x None True True w = Some w')"
    by (auto simp: MatchUnitThreatToHighestThreat_def Let_def split: if_splits)
  then show ?thesis using AddThreat_ok [OF assms(1,2)] assms(2) by blast
qed

lemma add_threat_all_ok:
  assumes "\<And>g w w'. world_ok w \<Longrightarrow> add g w = Some w' \<Longrightarrow> world_ok w'" "world_ok w"
    "add_threat_all add gs w = Some w'"
  shows "world_ok w'"
  using assms(2,3) by (induction gs arbitrary: w) (auto intro: assms(1) split: bind_splits)

lemma ForwardThreat_ok:
  assumes ord: "heap_contract (ordered env)" and ok: "world_ok w"
    and f: "ForwardThreatForAssistingMe n env u as x sp im w = Some w'"
  shows "world_ok w'"
proof -
  have "w' = w \<or> (\<exists>y can cannot w1.
      add_threat_all (\<lambda>g. AddThreat n env g as y sp im False) can w = Some w1 \<and>
      add_threat_all (\<lambda>g. AddThreat n env g as 0 sp True False) cannot w1 = Some w')"
    using f unfolding ForwardThreatForAssistingMe_def Let_def
    by (auto split: if_splits bind_splits)
  then show ?thesis
  proof (elim disjE exE conjE)
    fix y can cannot w1
    assume s: "add_threat_all (\<lambda>g. AddThreat n env g as y sp im False) can w = Some w1"
      "add_threat_all (\<lambda>g. AddThreat n env g as 0 sp True False) cannot w1 = Some w'"
    have "world_ok w1" by (rule add_threat_all_ok [OF _ ok s(1)]) (use AddThreat_ok [OF ord] in blast)
    then show ?thesis by (rule add_threat_all_ok [OF _ _ s(2), rotated]) (use AddThreat_ok [OF ord] in blast)
  qed (simp add: ok)
qed

definition combat_start :: "world \<Rightarrow> bool" where
  "combat_start w \<longleftrightarrow>
     (\<forall>u. pveRefs w u = [] \<and> pvpRefs w u = [] \<and> w_threat w u = new_ThreatManager
          \<and> (u_flagWritten (w_unit w u) \<or> \<not> IsInCombat (w_unit w u))) \<and>
     (\<forall>a. w_cref w a = None \<and> w_tref w a = None) \<and> \<not> w_crashed w"

text \<open>
  Each step takes its own \<open>env\<close>, so the rest of the game may change its answers between any
  two steps. \<open>attributes\<close> is the rest of the game changing the units themselves: anything but
  the type of a unit, and the \<open>IN_COMBAT\<close> flag too, which leaves its mark in \<open>u_flagWritten\<close>.
  \<open>GetCurrentVictim\<close> is asked of creatures only, as in \<open>Creature::SelectVictim\<close> and the AI.
\<close>

definition attributes_changed :: "(guid \<Rightarrow> unit_state) \<Rightarrow> world \<Rightarrow> bool" where
  "attributes_changed f w \<longleftrightarrow>
     (\<forall>x. u_typeId (f x) = u_typeId (w_unit w x) \<and>
          (u_flagWritten (f x) \<or>
           \<not> u_flagWritten (w_unit w x) \<and> IsInCombat (f x) = IsInCombat (w_unit w x)))"

inductive combat_step :: "world \<Rightarrow> world \<Rightarrow> bool" where
  attributes: "attributes_changed f w \<Longrightarrow> combat_step w (w\<lparr>w_unit := f\<rparr>)"
| set_in_combat: "combat_step w (snd (SetInCombatWith env u v b w))"
| end_combat: "heap_contract (ordered env) \<Longrightarrow> w_cref w a \<noteq> None \<Longrightarrow> combat_step w (EndCombat env a w)"
| suppress_for: "w_cref w a = Some r \<Longrightarrow> u \<in> {cr_first r, cr_second r} \<Longrightarrow> combat_step w (SuppressFor a u w)"
| combat_update: "heap_contract (ordered env) \<Longrightarrow> combat_step w (CombatManager_Update env diff u w)"
| beyond_range: "heap_contract (ordered env) \<Longrightarrow> combat_step w (EndCombatBeyondRange env u radius b w)"
| revalidate: "heap_contract (ordered env) \<Longrightarrow> combat_step w (RevalidateCombat env u w)"
| inherit_states: "combat_step w (InheritCombatStatesFrom env u v w)"
| suppress_pvp: "combat_step w (SuppressPvPCombat u w)"
| end_pve: "heap_contract (ordered env) \<Longrightarrow> EndAllPvECombat env u w = Some w' \<Longrightarrow> combat_step w w'"
| end_pvp: "heap_contract (ordered env) \<Longrightarrow> EndAllPvPCombat env u w = Some w' \<Longrightarrow> combat_step w w'"
| end_all: "heap_contract (ordered env) \<Longrightarrow> EndAllCombat env u w = Some w' \<Longrightarrow> combat_step w w'"
| initialize: "combat_step w (Initialize u w)"
| current_victim: "heap_contract (ordered env) \<Longrightarrow> creature w u \<Longrightarrow> combat_step w (snd (GetCurrentVictim env u w))"
| threat_update: "heap_contract (ordered env) \<Longrightarrow> combat_step w (ThreatManager_Update env diff u w)"
| add_threat: "heap_contract (ordered env) \<Longrightarrow> AddThreat n env u v x sp im ir w = Some w' \<Longrightarrow> combat_step w w'"
| scale_threat: "combat_step w (ScaleThreat u v k w)"
| modify_percent: "combat_step w (ModifyThreatByPercent u v p w)"
| match_highest: "heap_contract (ordered env) \<Longrightarrow> MatchUnitThreatToHighestThreat n env u v w = Some w'
    \<Longrightarrow> combat_step w w'"
| forward_threat: "heap_contract (ordered env) \<Longrightarrow> ForwardThreatForAssistingMe n env u v x sp im w = Some w'
    \<Longrightarrow> combat_step w w'"
| taunt_update: "combat_step w (TauntUpdate env u w)"
| evaluate_suppressed: "combat_step w (EvaluateSuppressed env c u w)"
| reset_threat: "combat_step w (ResetAllThreat u w)"
| clear_threat: "heap_contract (ordered env) \<Longrightarrow> combat_step w (ClearThreat env u v w)"
| clear_all: "ClearAllThreat u w = Some w' \<Longrightarrow> combat_step w w'"
| remove_me: "heap_contract (ordered env) \<Longrightarrow> RemoveMeFromThreatLists env u w = Some w' \<Longrightarrow> combat_step w w'"
| fixate_target: "combat_step w (FixateTarget u t w)"
| temp_modifiers: "combat_step w (UpdateMyTempModifiers env u w)"
| school_modifiers: "combat_step w (UpdateMySpellSchoolModifiers env u w)"
| register_redirect: "combat_step w (RegisterRedirectThreat u s v pct w)"
| unregister_redirect: "combat_step w (UnregisterRedirectThreat u s w)"
| unregister_victim: "combat_step w (UnregisterRedirectThreat_victim u s v w)"

lemma start_world_ok:
  assumes "combat_start w"
  shows "world_ok w"
proof -
  have c: "crefs p w u = []" for p u using assms by (simp add: combat_start_def crefs_def)
  have t: "entries w u = []" "threatened w u = []" "sorted_list w u = []" "fixate w u = None"
    "current w u = None" "\<not> can_have w u" for u
    using assms by (simp_all add: combat_start_def new_ThreatManager_def)
  have s: "w_cref w a = None" "w_tref w a = None" for a using assms by (simp_all add: combat_start_def)
  have "threat_ok w"
    by (simp add: threat_ok_def threat_links_def current_ok_def current_mem_def amounts_ok_def
        creature_lists_def t s ends_def)
  moreover have "combat_links w" by (simp add: combat_links_def c s)
  moreover have "flags_except {} w"
    using assms by (auto simp: flags_except_def HasCombat_crefs c combat_start_def)
  moreover have "covered w" by (simp add: covered_def threat_map_def t)
  ultimately show ?thesis using assms by (simp add: world_ok_def combat_start_def)
qed

lemma Initialize_ok:
  assumes "world_ok w"
  shows "world_ok (Initialize u w)"
proof (rule threat_change_ok [OF assms])
  let ?w = "Initialize u w"
  have th: "threat_ok w" using assms by (simp add: world_ok_def)
  show "frame w ?w" by (simp add: Initialize_def frame_def upd_threat_def)
  have e: "entries ?w x = entries w x" "threatened ?w x = threatened w x" "fixate ?w x = fixate w x"
    "sorted_list ?w x = sorted_list w x" "current ?w x = current w x" "ends ?w = ends w"
    "w_next ?w = w_next w" "w_tref ?w = w_tref w" "w_unit ?w = w_unit w"
    "can_have ?w x = (if x = u then CanHaveThreatList (w_unit w u) else can_have w x)" for x
    by (auto simp: Initialize_def upd_threat_def ends_def)
  have "threat_links ?w = threat_links w" unfolding threat_links_def e by (rule refl)
  then have "threat_links ?w" using th by (simp add: threat_ok_def)
  moreover have "creature_lists ?w"
    using th by (auto simp: threat_ok_def creature_lists_def e CanHaveThreatList_def)
  ultimately show "threat_ok ?w"
    using th by (simp add: threat_ok_def current_ok_def current_mem_def amounts_ok_def e tref_def)
  show "threat_map ?w x y \<noteq> None \<Longrightarrow> threat_map w x y \<noteq> None \<or> IsInCombatWith w x y" for x y
    by (simp add: threat_map_def e)
qed

lemma redirect_part:
  assumes "acc \<le> 100" "p = min (100 - acc) pct"
  shows "uint (acc + p) = uint acc + uint p" "acc + p \<le> (100::u32)"
proof -
  have t: "uint acc \<le> 100" using assms(1) by (simp add: word_le_def)
  have m: "uint (100 - acc) = 100 - uint acc" using t uint_sub_lem [of acc 100] by simp
  have p: "uint p \<le> 100 - uint acc"
    using m assms(2) by (metis min.cobounded1 word_le_def)
  show s: "uint (acc + p) = uint acc + uint p"
    using t p uint_add_lem [of acc p] by simp
  show "acc + p \<le> 100" using s p by (simp add: word_le_def)
qed

lemma redirect_asserts_hold: "acc \<le> 100 \<Longrightarrow> redirect_asserts acc ps"
  using redirect_part(2)
  by (induction acc ps rule: redirect_asserts.induct) (auto simp: Let_def)

lemma redirect_calm:
  "calm w (UpdateMySpellSchoolModifiers env u w)"
  "calm w (RegisterRedirectThreat u s v pct w)" "calm w (UnregisterRedirectThreat u s w)"
  "calm w (UnregisterRedirectThreat_victim u s v w)"
proof -
  show "calm w (UpdateMySpellSchoolModifiers env u w)"
    unfolding UpdateMySpellSchoolModifiers_def by (rule calm_upd_threat) simp_all
  have "redirect_asserts 0 ps" for ps by (rule redirect_asserts_hold) simp
  then have "calm w (put_redirects u reg w)" for reg
    unfolding put_redirects_def
    by (simp add: assert_that_def) (rule calm_upd_threat; simp add: UpdateRedirectInfo_def)
  then show "calm w (RegisterRedirectThreat u s v pct w)" "calm w (UnregisterRedirectThreat u s w)"
    "calm w (UnregisterRedirectThreat_victim u s v w)"
    by (simp_all add: RegisterRedirectThreat_def UnregisterRedirectThreat_def
        UnregisterRedirectThreat_victim_def Let_def split: option.split)
qed

lemma step_world_ok: "combat_step w w' \<Longrightarrow> world_ok w \<Longrightarrow> world_ok w'"
proof (induction rule: combat_step.induct)
  case (attributes f w)
  let ?w = "w\<lparr>w_unit := f\<rparr>"
  note A = attributes.hyps [unfolded attributes_changed_def]
  have T: "threat_ok ?w" "threat_map ?w = threat_map w"
    using attributes.prems A threat_ok_cong [of w ?w] by (simp_all add: world_ok_def)
  have C: "crefs p ?w x = crefs p w x" for p x by (simp add: crefs_def)
  have "combat_links ?w = combat_links w" unfolding combat_links_def C by simp
  then have "combat_links ?w" using attributes.prems by (simp add: world_ok_def)
  moreover have "HasCombat ?w x = HasCombat w x" for x
    by (rule HasCombat_cong) (simp_all add: crefs_def cref_def)
  then have "flags_except {} ?w" using attributes.prems A by (auto simp: world_ok_def flags_except_def)
  moreover have "covered ?w"
    using attributes.prems by (simp add: world_ok_def covered_def T(2) IsInCombatWith_def)
  ultimately show ?case using attributes.prems T(1) by (simp add: world_ok_def)
next
  case (end_combat env w a)
  then obtain r where r: "w_cref w a = Some r" by blast
  have "map_of (crefs (cr_isPvP r) w (cr_first r)) (cr_second r) = Some a"
    using end_combat.prems r combat_linksD(1) [of w] by (auto simp: world_ok_def joins_def)
  then show ?case using EndCombat_ok end_combat by blast
next
  case (end_pvp env u w w')
  then show ?case using end_all_loop_ok [of w env True u] by (auto simp: EndAllPvPCombat_def)
next
  case (end_pve env u w w')
  then show ?case using EndAllPvECombat_ok [of w env u] by auto
next
  case (end_all env u w w')
  then show ?case using EndAllCombat_ok [of w env u] by auto
next
  case (clear_all u w w')
  then show ?case using ClearAllThreat_world [of w u] by auto
next
  case (remove_me env u w w')
  then show ?case using RemoveMe_world [of w env u] by auto
next
  case (modify_percent w u v p)
  then show ?case by (simp add: ModifyThreatByPercent_def ScaleThreat_ok)
next
  case (add_threat env n u v x sp im ir w w')
  then show ?case using AddThreat_ok by blast
next
  case (match_highest env n u v w w')
  then show ?case using MatchUnit_ok by blast
next
  case (forward_threat env n u v x sp im w w')
  then show ?case using ForwardThreat_ok by blast
next
  case (suppress_for w a r u)
  then show ?case using SuppressFor_ok by blast
qed (simp_all add: SetInCombatWith_ok(1) CombatManager_ops_ok Inherit_ok SuppressPvPCombat_ok
    GetCurrentVictim_ok Initialize_ok ThreatManager_Update_ok ScaleThreat_ok TauntUpdate_ok EvaluateSuppressed_ok
    ResetAllThreat_ok ClearThreat_world FixateTarget_ok UpdateMyTempModifiers_ok
    calm_ok [OF _ redirect_calm(1)] calm_ok [OF _ redirect_calm(2)] calm_ok [OF _ redirect_calm(3)]
    calm_ok [OF _ redirect_calm(4)])

interpretation combat: invariant_system combat_start combat_step world_ok
  by unfold_locales (auto intro: start_world_ok step_world_ok)

abbreviation combat_reachable :: "world \<Rightarrow> bool" where
  "combat_reachable \<equiv> reach combat_start combat_step"

section \<open>The rules of the notifications and of the redirections\<close>

lemma GetThreat_mono: "tr_tempModifier r = tr_tempModifier s \<Longrightarrow> tr_baseAmount r \<le> tr_baseAmount s
    \<Longrightarrow> GetThreat r \<le> GetThreat s"
  using f32_mono [of "tr_baseAmount r + f32 (of_int (tr_tempModifier r))"
      "tr_baseAmount s + f32 (of_int (tr_tempModifier s))"]
  by (simp add: GetThreat_def max_def)

lemma redirect_info_sum:
  "acc \<le> 100 \<Longrightarrow> uint acc + (\<Sum>(v, p) \<leftarrow> redirect_info acc ps. uint p) \<le> 100
    \<and> (\<forall>(v, p) \<in> set (redirect_info acc ps). 0 < p)"
proof (induction acc ps rule: redirect_info.induct)
  case (2 acc v pct ps)
  let ?p = "min (100 - acc) pct"
  note s = redirect_part(1) [OF "2.prems" refl, of pct] and le = redirect_part(2) [OF "2.prems" refl, of pct]
  show ?case
  proof (cases "?p > 0")
    case True
    show ?thesis
    proof (cases "acc + ?p = 100")
      case eq: True
      then have "uint acc + uint ?p = 100" using s by simp
      with True eq show ?thesis by (simp add: Let_def)
    next
      case False
      with True "2.IH"(1) [OF refl True False le] s show ?thesis by (auto simp: Let_def)
    qed
  next
    case False
    with "2.IH"(2) [OF refl False] "2.prems" show ?thesis by (auto simp: Let_def)
  qed
qed (simp add: word_le_def)

section \<open>What the operations do to the references\<close>

lemma Refresh_cref:
  assumes "w_cref w a = Some r"
  shows "w_cref (Refresh a w) = (w_cref w)(a \<mapsto> r\<lparr>cr_suppressFirst := False, cr_suppressSecond := False\<rparr>)"
  using assms
  by (auto simp: Refresh_def Let_def cref_def UpdateOwner_fields fun_eq_iff split: prod.splits if_splits)

lemma flag_by_ref:
  assumes ok: "world_ok w" and r: "w_cref w a = Some r" and u: "joins r u v" and ns: "\<not> IsSuppressedFor r u"
    and nw: "\<not> u_flagWritten (w_unit w u)"
  shows "IsInCombat (w_unit w u)"
proof -
  have "map_of (crefs (cr_isPvP r) w u) v = Some a"
    using ok r u combat_linksD(1) [of w] by (auto simp: world_ok_def)
  then have "(v, a) \<in> set (crefs (cr_isPvP r) w u)" by (rule map_of_SomeD)
  then have "HasCombat w u"
    unfolding HasCombat_crefs using r ns
    by (intro exI [of _ "cr_isPvP r"] bexI [of _ "(v, a)"]) (simp_all add: cref_def)
  then show ?thesis using ok nw by (simp add: world_ok_def flags_except_def)
qed

lemma loop_address:
  assumes "combat_links w" "pending p me it w" "(g, a) \<in> set it" "(h, a) \<in> set it"
  shows "g = h"
proof -
  have "map_of (crefs p w me) g = Some a" "map_of (crefs p w me) h = Some a"
    using assms(2-4) by (auto simp: pending_def)
  then show ?thesis using combat_linksD(1,2) [OF assms(1)] by (force simp: joins_def)
qed

lemma end_loop_cref:
  assumes "world_ok w" "pending p me it w" "heap_contract (ordered env)"
  shows "w_cref (end_loop env (\<lambda>_. bad) p me it w) =
    (\<lambda>b. if b \<in> snd ` set it \<and> bad (cref w b) then None else w_cref w b)"
  using assms(1,2)
proof (induction it arbitrary: w)
  case (Cons ga it)
  obtain g a where ga: "ga = (g, a)" by fastforce
  note prems = Cons.prems [unfolded ga]
  note pc = pending_Cons [OF prems(2)]
  have ln: "combat_links w" using prems(1) by (simp add: world_ok_def)
  let ?w = "EndCombat env a (PurgeReference me g p w)"
  have notin: "(h, a) \<notin> set it" for h
    using loop_address [OF ln prems(2), of g a h] prems(2) by (force simp: pending_def)
  show ?case
  proof (cases "bad (cref w a)")
    case True
    have e: "ended p me g a w ?w"
      by (rule EndCombat_ended [OF prems(1) pc(1)]) (use assms(3) in simp_all)
    have "world_ok ?w" using ended_ok [OF prems(1) pc(1) e] .
    note IH = Cons.IH [OF this pending_ended [OF prems(2) e]]
    have c: "w_cref ?w = (w_cref w)(a := None)" using e by (simp add: ended_def)
    have "cref ?w b = cref w b" if "b \<noteq> a" for b using c that by (simp add: cref_def)
    with True IH c notin show ?thesis by (auto simp: ga fun_eq_iff)
  next
    case False
    with Cons.IH [OF prems(1) pc(2)] show ?thesis by (auto simp: ga fun_eq_iff)
  qed
qed simp

lemma Update_loop_cref:
  assumes "world_ok w" "pending True me it w" "heap_contract (ordered env)"
  shows "w_cref (Update_loop env tdiff me it w) =
    (\<lambda>b. if b \<in> snd ` set it \<and> cr_first (cref w b) = me then PvP_Update tdiff (cref w b) else w_cref w b)"
  using assms(1,2)
proof (induction it arbitrary: w)
  case (Cons ga it)
  obtain g a where ga: "ga = (g, a)" by fastforce
  note prems = Cons.prems [unfolded ga]
  note pc = pending_Cons [OF prems(2)]
  have ln: "combat_links w" using prems(1) by (simp add: world_ok_def)
  obtain r where r: "w_cref w a = Some r" using combat_linksD(1) [OF ln] pc(1) by blast
  have cr: "cref w a = r" using r by (simp add: cref_def)
  have notin: "(h, a) \<notin> set it" for h
    using loop_address [OF ln prems(2), of g a h] prems(2) by (force simp: pending_def)
  show ?case
  proof (cases "cr_first r = me")
    case False
    with Cons.IH [OF prems(1) pc(2)] cr show ?thesis by (auto simp: ga fun_eq_iff)
  next
    case me: True
    show ?thesis
    proof (cases "PvP_Update tdiff r")
      case None
      let ?w = "EndCombat env a (PurgeReference me g True w)"
      have e: "ended True me g a w ?w"
        by (rule EndCombat_ended [OF prems(1) pc(1)]) (use assms(3) in simp_all)
      have "world_ok ?w" using ended_ok [OF prems(1) pc(1) e] .
      note IH = Cons.IH [OF this pending_ended [OF prems(2) e]]
      have c: "w_cref ?w = (w_cref w)(a := None)" using e by (simp add: ended_def)
      have "cref ?w b = cref w b" if "b \<noteq> a" for b using c that by (simp add: cref_def)
      with None me IH c notin cr show ?thesis by (auto simp: ga fun_eq_iff)
    next
      case (Some r')
      have r': "r' = r\<lparr>cr_combatTimer := cr_combatTimer r - tdiff\<rparr>"
        using Some by (auto simp: PvP_Update_def split: if_splits)
      have "world_mid {} w" using prems(1) by (simp add: world_ok_mid)
      then have "world_mid {} (put_cref a r' w)"
        by (rule mid_put [OF _ r]) (simp_all add: r' IsSuppressedFor_def)
      then have ok': "world_ok (put_cref a r' w)" by (simp add: world_ok_mid)
      have pd: "pending True me it (put_cref a r' w)" using pc(2) by (simp add: pending_def)
      show ?thesis using me Some Cons.IH [OF ok' pd] notin cr by (auto simp: ga fun_eq_iff)
    qed
  qed
qed simp

text \<open>Depth of the nested calls of \<open>AddThreat\<close>: along vehicles and owners \<open>rank\<close> falls.\<close>

lemma redirect_loop_total:
  assumes "\<And>g x w. \<exists>w'. add g x w = Some w'"
  shows "\<exists>y w'. redirect_loop add env me orig info amount w = Some (y, w')"
proof (induction info arbitrary: amount w)
  case (Cons p info)
  obtain g pct where p: "p = (g, pct)" by fastforce
  show ?case
  proof (cases "case map_of (entries w me) g of Some a \<Rightarrow> Some (tr_victim (tref w a)) | None \<Rightarrow> GetUnit env me g")
    case None
    then show ?thesis using Cons.IH by (simp add: p)
  next
    case (Some t)
    obtain w' where "add t (CalculatePct orig pct) w = Some w'" using assms by blast
    then show ?thesis using Some Cons.IH by (simp add: p Let_def)
  qed
qed simp

lemma AddThreat_total:
  assumes "\<And>t v. VehicleBase env t = Some v \<Longrightarrow> rank v < rank t"
    "\<And>me t v. private_redirect env me t = Some v \<Longrightarrow> rank v < rank t" "\<And>t. rank t < R"
  shows "rank target + (if ir then 0 else R) < n \<Longrightarrow> \<exists>w'. AddThreat n env me target amount sp im ir w = Some w'"
proof (induction n arbitrary: me target amount sp im ir w)
  case (Suc n)
  define s1 where "s1 = (case VehicleBase env target of None \<Rightarrow> Some (amount, w)
    | Some v \<Rightarrow> map_option (\<lambda>w'. (0, w')) (AddThreat n env me v amount sp im ir w))"
  have "\<exists>x1 w1. s1 = Some (x1, w1)"
  proof (cases "VehicleBase env target")
    case (Some v)
    then have "rank v < rank target" by (rule assms(1))
    then show ?thesis using Some Suc.IH [of v ir me amount sp im w] Suc.prems by (auto simp: s1_def)
  qed (simp add: s1_def)
  then obtain x1 w1 where s1: "s1 = Some (x1, w1)" by blast
  define s2 where "s2 = (case private_redirect env me target of None \<Rightarrow> Some (x1, w1)
    | Some own \<Rightarrow> map_option (\<lambda>w'. (0, w')) (AddThreat n env me own x1 sp im ir w1))"
  have "\<exists>x2 w2. s2 = Some (x2, w2)"
  proof (cases "private_redirect env me target")
    case (Some v)
    then have "rank v < rank target" by (rule assms(2))
    then show ?thesis using Some Suc.IH [of v ir me x1 sp im w1] Suc.prems by (auto simp: s2_def)
  qed (simp add: s2_def)
  then obtain x2 w2 where s2: "s2 = Some (x2, w2)" by blast
  obtain x3 w3 where s3: "(if im then (x2, w2) else CalculateModifiedThreat env x2 target sp w2) = (x3, w3)"
    by fastforce
  define s4 where "s4 = (if \<not> ir \<and> x3 > 0
    then redirect_loop (\<lambda>g x. AddThreat n env me g x sp True True) env me x3
      (tm_redirectInfo (w_threat w3 target)) x3 w3 else Some (x3, w3))"
  have "\<exists>x4 w4. s4 = Some (x4, w4)"
  proof (cases "\<not> ir \<and> x3 > 0")
    case True
    have "\<exists>w'. AddThreat n env me g x sp True True w = Some w'" for g x w
      using Suc.IH [of g True me x sp True w] Suc.prems assms(3) [of g] True by simp
    then show ?thesis using True redirect_loop_total by (simp add: s4_def)
  qed (auto simp: s4_def)
  then obtain x4 w4 where s4: "s4 = Some (x4, w4)" by blast
  show ?case using s1 s2 s3 s4
    by (simp add: s1_def [symmetric] s2_def [symmetric] s4_def [symmetric])
qed simp

section \<open>A concrete run\<close>

text \<open>A player (GUID 1) and two creatures (2 and 3) that can see and attack each other.\<close>

definition demo_unit :: "guid \<Rightarrow> unit_state" where
  "demo_unit u =
     \<lparr>u_inWorld = True, u_alive = True, u_map = 0, u_phaseMask = 1, u_state = 0, u_flags = 0,
      u_combatDisallowed = False, u_typeId = (if u = 1 then TYPEID_PLAYER else TYPEID_UNIT),
      u_isTrigger = False, u_unitTypeMask = 0, u_summonedByPlayer = False, u_gameMaster = False,
      u_playerItself = (if u = 1 then Some 1 else None), u_controlledByPlayer = (u = 1),
      u_charmerOrOwner = None, u_controlled = [], u_hasAI = (u \<noteq> 1), u_flagWritten = False\<rparr>"

definition demo_start :: world where
  "demo_start =
     \<lparr>w_unit = demo_unit, w_combat = (\<lambda>_. \<lparr>cm_pveRefs = [], cm_pvpRefs = []\<rparr>),
      w_threat = (\<lambda>_. new_ThreatManager), w_cref = (\<lambda>_. None), w_tref = (\<lambda>_. None),
      w_next = 0, w_log = [], w_crashed = False\<rparr>"

definition demo_env :: env where
  "demo_env =
     \<lparr>IsFriendlyTo = (\<lambda>_ _. False), IsWithinDistInMap = (\<lambda>_ _ d. 30 \<le> d),
      IsWithinMeleeRange = (\<lambda>_ _. False), CanSeeOrDetect = (\<lambda>_ _. True),
      IsTargetAcceptable = (\<lambda>_ _. True), CanCreatureAttack = (\<lambda>_ _. True),
      IsImmunedToMeleeOf = (\<lambda>_ _. False), HasConfuseAura = (\<lambda>_. False),
      HasBreakableStun = (\<lambda>_. False), HasDetauntAuraFrom = (\<lambda>_ _. False),
      TauntCasters = (\<lambda>_. []), TotalThreatAmounts = (\<lambda>_. []), ThreatAuraMultiplier = (\<lambda>_ _. 1),
      SpellThreatPctMod = (\<lambda>_. None), ApplyThreatSpellMod = (\<lambda>_ _ x. x), IsEngaged = (\<lambda>_. True),
      VehicleBase = (\<lambda>_. None), IsPrivateObject = (\<lambda>_. False),
      PrivateOwnerVisible = (\<lambda>_ _. True), PrivateObjectOwner = (\<lambda>g. g),
      GetUnit = (\<lambda>_ g. Some g), ordered = sort_desc\<rparr>"

text \<open>The player starts combat with 2, and 2 gets 150 threat on the player.\<close>

definition demo_combat :: world where
  "demo_combat = snd (SetInCombatWith demo_env 1 2 False demo_start)"

definition demo_threat :: world where
  "demo_threat = the (AddThreat 2 demo_env 2 1 150 None True True (Initialize 2 demo_combat))"

lemma demo_heap: "heap_contract (ordered demo_env)"
  by (simp add: demo_env_def heap_contract_sort_desc)

lemma demo_start_reachable: "combat_reachable demo_start"
  by (rule reach_start)
    (simp add: combat_start_def demo_start_def demo_unit_def IsInCombat_def HasUnitFlag_def)

lemma demo_combat_reachable: "combat_reachable demo_combat"
  unfolding demo_combat_def by (rule reach_step [OF demo_start_reachable set_in_combat])

lemma demo_threat_runs:
  "AddThreat 2 demo_env 2 1 150 None True True (Initialize 2 demo_combat) \<noteq> None"
  using AddThreat_total [of demo_env "\<lambda>_. 0" 1 1 True 2 2 150 None True "Initialize 2 demo_combat"]
  by (simp add: demo_env_def private_redirect_def)

lemma demo_threat_reachable: "combat_reachable demo_threat"
proof -
  have "AddThreat 2 demo_env 2 1 150 None True True (Initialize 2 demo_combat) = Some demo_threat"
    using demo_threat_runs by (simp add: demo_threat_def)
  then have "combat_step (Initialize 2 demo_combat) demo_threat"
    by (rule add_threat [OF demo_heap])
  then show ?thesis
    by (rule reach_step [OF reach_step [OF demo_combat_reachable initialize]])
qed

lemma demo_facts:
  "w_cref demo_combat 0 = Some (CombatReference 1 2 False)"
  "map_of (pveRefs demo_combat 1) 2 = Some 0"
  "map_of (entries demo_threat 2) 1 = Some 1"
  "\<not> u_flagWritten (w_unit demo_combat 1)"
  by code_simp+

section \<open>Properties\<close>

text \<open>
  C3: a unit whose \<open>IN_COMBAT\<close> flag no code outside the combat manager has written has that
  flag exactly when some combat reference joins it that is not suppressed for it, in every
  reachable state ("no exceptions", \<open>CombatManager.h\<close>); where scripts, commands or
  \<open>ReplaceAllUnitFlags\<close> have written the flag, nothing is said.
\<close>

theorem in_combat_iff_unsuppressed:
  assumes "combat_reachable w" and "\<not> u_flagWritten (w_unit w u)"
  shows "IsInCombat (w_unit w u) \<longleftrightarrow>
    (\<exists>a r. w_cref w a = Some r \<and>
       (cr_first r = u \<and> \<not> cr_suppressFirst r \<or> cr_second r = u \<and> \<not> cr_suppressSecond r))"
proof
  have ok: "world_ok w" using combat.reach_inv [OF assms(1)] .
  then have ln: "combat_links w" by (simp add: world_ok_def)
  { assume "IsInCombat (w_unit w u)"
    then have "HasCombat w u" using ok assms(2) by (simp add: world_ok_def flags_except_def)
    then obtain p g a where ga: "(g, a) \<in> set (crefs p w u)" "\<not> IsSuppressedFor (cref w a) u"
      unfolding HasCombat_crefs by blast
    then obtain r where "w_cref w a = Some r" "joins r u g"
      using combat_linksD(1,4) [OF ln] map_of_is_SomeI by metis
    then show "\<exists>a r. w_cref w a = Some r \<and>
        (cr_first r = u \<and> \<not> cr_suppressFirst r \<or> cr_second r = u \<and> \<not> cr_suppressSecond r)"
      using ga(2) combat_linksD(2) [OF ln] by (fastforce simp: cref_def joins_def IsSuppressedFor_def) }
  { assume "\<exists>a r. w_cref w a = Some r \<and>
        (cr_first r = u \<and> \<not> cr_suppressFirst r \<or> cr_second r = u \<and> \<not> cr_suppressSecond r)"
    then obtain a r where r: "w_cref w a = Some r"
      "cr_first r = u \<and> \<not> cr_suppressFirst r \<or> cr_second r = u \<and> \<not> cr_suppressSecond r" by blast
    then have "joins r u (GetOther r u)" "\<not> IsSuppressedFor r u"
      using combat_linksD(2) [OF ln r(1)] by (auto simp: joins_def GetOther_def IsSuppressedFor_def)
    then show "IsInCombat (w_unit w u)" using flag_by_ref [OF ok r(1)] assms(2) by blast }
qed

theorem in_combat_iff_unsuppressed_witness:
  "combat_reachable demo_combat \<and> IsInCombat (w_unit demo_combat 1)"
proof
  show "combat_reachable demo_combat" by (rule demo_combat_reachable)
  have "cr_first (CombatReference 1 2 False) = 1 \<and> \<not> cr_suppressFirst (CombatReference 1 2 False)"
    by (simp add: CombatReference_def)
  then show "IsInCombat (w_unit demo_combat 1)"
    unfolding in_combat_iff_unsuppressed [OF demo_combat_reachable demo_facts(4)]
    using demo_facts(1) by blast
qed

text \<open>
  C14: in every reachable state a combat reference is in the store exactly when both of its
  two distinct units have it in their map of its kind under the other's GUID; no map points
  to a freed reference and no pair has references of both kinds.
\<close>

theorem combat_references_shared:
  assumes "combat_reachable w"
  shows "(map_of (crefs p w u) v = Some a \<longleftrightarrow>
      (\<exists>r. w_cref w a = Some r \<and> cr_isPvP r = p \<and> {cr_first r, cr_second r} = {u, v} \<and> u \<noteq> v))
    \<and> map_of (crefs p w u) v = map_of (crefs p w v) u
    \<and> (map_of (pveRefs w u) v = None \<or> map_of (pvpRefs w u) v = None)"
proof -
  have ln: "combat_links w" using combat.reach_inv [OF assms] by (simp add: world_ok_def)
  have j: "joins r u v \<longleftrightarrow> {cr_first r, cr_second r} = {u, v} \<and> u \<noteq> v" if "w_cref w a = Some r" for r
    using combat_linksD(2) [OF ln that] by (auto simp: joins_def doubleton_eq_iff)
  have "map_of (pveRefs w u) v = None \<or> map_of (pvpRefs w u) v = None"
    using combat_linksD(5) [OF ln, of False u v] by (simp add: crefs_def)
  with j show ?thesis using combat_sym [OF ln] combat_linksD(1) [OF ln, of p u v a] by blast
qed

theorem combat_references_shared_witness:
  "combat_reachable demo_combat \<and> map_of (crefs False demo_combat 2) 1 = Some 0"
proof
  show "combat_reachable demo_combat" by (rule demo_combat_reachable)
  have "w_cref demo_combat 0 = Some (CombatReference 1 2 False) \<and> \<not> cr_isPvP (CombatReference 1 2 False)
      \<and> {cr_first (CombatReference 1 2 False), cr_second (CombatReference 1 2 False)} = {2, 1}
      \<and> (2::guid) \<noteq> 1"
    using demo_facts(1) by (auto simp: CombatReference_def)
  then show "map_of (crefs False demo_combat 2) 1 = Some 0"
    using combat_references_shared [OF demo_combat_reachable, of False 2 1 0] by metis
qed

text \<open>
  C1: threat implies combat. In every reachable state a threat entry of \<open>u\<close> on \<open>v\<close> lies in
  all three places its documentation names, with a non-negative amount, and the two units
  are in combat with each other.
\<close>

theorem threat_implies_combat:
  assumes "combat_reachable w" and "map_of (entries w u) v = Some a"
  shows "IsInCombatWith w u v \<and> IsInCombatWith w v u \<and> u \<noteq> v
    \<and> map_of (threatened w v) u = Some a \<and> a \<in> set (sorted_list w u)
    \<and> (\<exists>r. w_tref w a = Some r \<and> tr_owner r = u \<and> tr_victim r = v \<and> 0 \<le> tr_baseAmount r)"
proof -
  have ok: "world_ok w" using combat.reach_inv [OF assms(1)] .
  then have ln: "combat_links w" and tl: "threat_links w" and am: "amounts_ok w"
    by (simp_all add: world_ok_def threat_ok_def)
  note T = threat_linksD [OF tl]
  have "IsInCombatWith w u v"
    using ok assms(2) by (simp add: world_ok_def covered_def threat_map_def)
  moreover from this have "IsInCombatWith w v u" "u \<noteq> v"
    using combat_sym [OF ln] combat_linksD(1,2) [OF ln] by (fastforce simp: IsInCombatWith_crefs joins_def)+
  moreover have "ends w a = Some (u, v)" using T(2) assms(2) by blast
  then have "\<exists>r. w_tref w a = Some r \<and> tr_owner r = u \<and> tr_victim r = v \<and> 0 \<le> tr_baseAmount r"
    using am by (auto simp: ends_Some amounts_ok_def)
  moreover have "map_of (threatened w v) u = Some a" "a \<in> set (sorted_list w u)"
    using T(1) T(7) assms(2) by auto
  ultimately show ?thesis by blast
qed

theorem threat_implies_combat_witness:
  "combat_reachable demo_threat \<and> IsInCombatWith demo_threat 2 1"
  using threat_implies_combat [OF demo_threat_reachable demo_facts(3)] demo_threat_reachable by blast

text \<open>
  C24: no \<open>ASSERT\<close> or \<open>ABORT\<close> of the two managers fails in a reachable state: no duplicate
  reference is put, the old victim is found in the heap whatever its order, the AI updates
  run for creatures only, the redirected percentages stay at 100, and a current victim is an
  available reference of the unit's own list. \<open>GetCurrentVictim\<close>, which would fail on a player
  (\<open>ProcessAIUpdates\<close>), is asked of creatures.
\<close>

theorem combat_asserts_hold:
  assumes "combat_reachable w"
  shows "\<not> w_crashed w \<and>
    (current w u = Some a \<longrightarrow> IsAvailable (tref w a) \<and> a \<in> set (sorted_list w u))"
proof -
  have "world_ok w" using combat.reach_inv [OF assms] .
  then have "current_ok w" "\<not> w_crashed w" by (simp_all add: world_ok_def threat_ok_def)
  then show ?thesis by (auto simp: current_ok_def current_mem_def)
qed

theorem combat_asserts_hold_witness:
  "combat_reachable demo_threat \<and> \<not> w_crashed demo_threat \<and> IsAvailable (tref demo_threat 1)"
proof -
  have "current demo_threat 2 = Some 1" by code_simp
  then show ?thesis using combat_asserts_hold [OF demo_threat_reachable, of 2 1] demo_threat_reachable
    by blast
qed

text \<open>
  C20: \<open>SetInCombatWith\<close> returns whether the two units are in combat with each other
  afterwards, in both directions, which is so exactly if they were before or combat may
  begin; it ends no other combat.
\<close>

theorem set_in_combat_result:
  assumes "combat_reachable w"
  shows "let (b, w') = SetInCombatWith env me who supp w in
    b = IsInCombatWith w' me who \<and> b = IsInCombatWith w' who me
    \<and> (b \<longleftrightarrow> IsInCombatWith w me who \<or> CanBeginCombat env w me who)
    \<and> (IsInCombatWith w x y \<longrightarrow> IsInCombatWith w' x y)"
proof -
  obtain b w' where bw: "SetInCombatWith env me who supp w = (b, w')" by fastforce
  have ok: "world_ok w" using combat.reach_inv [OF assms(1)] .
  note S = SetInCombatWith_ok [OF ok, where env = env and me = me and who = who and supp = supp, unfolded bw fst_conv snd_conv]
  have "world_ok w'" by (rule S(1))
  then have "IsInCombatWith w' me who = IsInCombatWith w' who me"
    using combat_sym [of w'] by (simp add: world_ok_def IsInCombatWith_crefs)
  with S(2,5,6) show ?thesis unfolding bw Let_def prod.case by blast
qed

theorem set_in_combat_result_witness:
  "combat_reachable demo_start \<and> fst (SetInCombatWith demo_env 1 2 False demo_start)
    \<and> \<not> IsInCombatWith demo_start 1 2"
proof -
  have "CanBeginCombat demo_env demo_start 1 2" by code_simp
  moreover have "\<not> IsInCombatWith demo_start 1 2" by code_simp
  ultimately show ?thesis
    using set_in_combat_result [OF demo_start_reachable, where env = demo_env and me = 1 and who = 2
        and supp = False and x = 1 and y = 2] demo_start_reachable
    unfolding case_prod_beta Let_def by blast
qed

text \<open>
  C22: \<open>EndCombat\<close> on a reference frees it, takes it out of both units' maps and removes the
  threat between the two in both directions, and leaves every other pair as it was.
\<close>

theorem end_combat_separates:
  assumes "combat_reachable w" and "w_cref w a = Some r" and "heap_contract (ordered env)"
  defines "w' \<equiv> EndCombat env a w" and "f \<equiv> cr_first r" and "s \<equiv> cr_second r"
  shows "\<not> IsInCombatWith w' f s \<and> \<not> IsInCombatWith w' s f \<and> w_cref w' a = None
    \<and> map_of (entries w' f) s = None \<and> map_of (entries w' s) f = None
    \<and> ({x, y} \<noteq> {f, s} \<longrightarrow> IsInCombatWith w' x y = IsInCombatWith w x y
         \<and> map_of (entries w' x) y = map_of (entries w x) y)"
proof -
  have ok: "world_ok w" using combat.reach_inv [OF assms(1)] .
  then have ln: "combat_links w" by (simp add: world_ok_def)
  have m: "map_of (crefs (cr_isPvP r) w f) s = Some a"
    using combat_linksD(1) [OF ln] assms(2) by (auto simp: joins_def f_def s_def)
  have fs: "f \<noteq> s" using combat_linksD(2) [OF ln assms(2)] by (simp add: f_def s_def)
  have e: "ended (cr_isPvP r) f s a w w'"
    unfolding w'_def by (rule EndCombat_ended [OF ok m assms(3)]) simp
  note M = ended_map [OF e]
  have other: "map_of (crefs (\<not> cr_isPvP r) w f) s = None" "map_of (crefs (\<not> cr_isPvP r) w s) f = None"
    using combat_linksD(5) [OF ln, of "cr_isPvP r" f s] combat_sym [OF ln] m by auto
  have no: "map_of (crefs p w' f) s = None" "map_of (crefs p w' s) f = None" for p
    using other by (cases "p = cr_isPvP r"; auto simp: M)+
  have tm: "threat_map w' = drop_link s f (drop_link f s (threat_map w))" using e by (simp add: ended_def)
  have keep: "IsInCombatWith w' x y = IsInCombatWith w x y \<and> threat_map w' x y = threat_map w x y"
    if "{x, y} \<noteq> {f, s}"
    using that by (auto simp: IsInCombatWith_crefs M tm drop_link_def doubleton_eq_iff)
  have "threat_map w' f s = None" "threat_map w' s f = None" by (simp_all add: tm drop_link_def)
  moreover have "w_cref w' a = None" using e by (simp add: ended_def)
  ultimately show ?thesis using no keep by (auto simp: IsInCombatWith_crefs threat_map_def)
qed

theorem end_combat_separates_witness:
  "combat_reachable demo_combat \<and> IsInCombatWith demo_combat 1 2
    \<and> \<not> IsInCombatWith (EndCombat demo_env 0 demo_combat) 1 2"
proof -
  have "IsInCombatWith demo_combat 1 2" using demo_facts(2) by (simp add: IsInCombatWith_def)
  then show ?thesis
    using end_combat_separates [OF demo_combat_reachable demo_facts(1) demo_heap, of 1 2] demo_combat_reachable
    by (simp add: CombatReference_def)
qed

text \<open>
  C23: \<open>EndAllCombat\<close> returns (its \<open>while (!empty())\<close> loops end), and then the unit is out of
  combat: no reference on either side, no threat from or to it, and no flag, if it was in
  combat with anybody or no other code has written its flag. A flag that a script has set on
  a unit without a reference is the exception.
\<close>

theorem end_all_combat_terminates:
  assumes "combat_reachable w" and "heap_contract (ordered env)"
  shows "\<exists>w'. EndAllCombat env u w = Some w'
    \<and> (IsInCombatWith w u x \<or> \<not> u_flagWritten (w_unit w u) \<longrightarrow> \<not> IsInCombat (w_unit w' u))
    \<and> (\<forall>v. \<not> IsInCombatWith w' u v \<and> \<not> IsInCombatWith w' v u
           \<and> map_of (entries w' u) v = None \<and> map_of (entries w' v) u = None)"
proof -
  have ok: "world_ok w" using combat.reach_inv [OF assms(1)] .
  from EndAllCombat_ok [OF ok assms(2), of u x] obtain w' where
    w': "EndAllCombat env u w = Some w'" "world_ok w'" "pveRefs w' u = []" "pvpRefs w' u = []"
    "IsInCombatWith w u x \<or> flag_ok w u \<longrightarrow> \<not> IsInCombat (w_unit w' u)" by blast
  then have ln: "combat_links w'" by (simp add: world_ok_def)
  have e: "crefs p w' u = []" for p using w' by (simp add: crefs_def)
  then have no: "\<not> IsInCombatWith w' u v" for v by (simp add: IsInCombatWith_crefs)
  then have no': "\<not> IsInCombatWith w' v u" for v
    using combat_sym [OF ln] unfolding IsInCombatWith_crefs by metis
  have "\<not> u_flagWritten (w_unit w u) \<Longrightarrow> flag_ok w u" using ok by (simp add: world_ok_def flags_except_def)
  moreover have "map_of (entries w' x) y = None" if "\<not> IsInCombatWith w' x y" for x y
    using that w'(2) unfolding world_ok_def covered_def threat_map_def by blast
  ultimately show ?thesis using w'(1,5) no no' by blast
qed

theorem end_all_combat_terminates_witness:
  "combat_reachable demo_threat \<and> (\<exists>w'. EndAllCombat demo_env 2 demo_threat = Some w'
    \<and> \<not> IsInCombatWith w' 2 1 \<and> \<not> IsInCombat (w_unit w' 2))"
proof -
  have "IsInCombatWith demo_threat 2 1" by code_simp
  then show ?thesis
    using end_all_combat_terminates [OF demo_threat_reachable demo_heap, of 2 1] demo_threat_reachable by blast
qed



text \<open>
  \<open>AddThreat\<close>, \<open>ScaleThreat\<close> and \<open>UpdateTauntState\<close> of \<open>ThreatReference\<close> tell the heap the
  truth: when one of them notifies an increase, the changed reference is not lower than
  before in the order of the heap; when it notifies a decrease it is not higher; without a
  notification it is unchanged. (\<open>UpdateMyTempModifiers\<close> does not:
  \<open>temp_modifier_notification_wrong\<close>.)
\<close>

theorem heap_notifications_sound:
  assumes "0 \<le> tr_baseAmount r" and "is_f32 (tr_baseAmount r)" and "0 \<le> k"
    and "f = AddThreat_ref x \<or> f = ScaleThreat_ref k \<or> f = UpdateTauntState_ref d st"
  shows "case snd (f r) of
      None \<Rightarrow> fst (f r) = r
    | Some increased \<Rightarrow> if increased then \<not> CompareReferencesLT (fst (f r)) r 1
                        else \<not> CompareReferencesLT r (fst (f r)) 1"
proof -
  have amount: "\<not> CompareReferencesLT s t 1"
    if "tr_online s = tr_online t" "tr_taunted s = tr_taunted t" "tr_tempModifier s = tr_tempModifier t"
      "tr_baseAmount t \<le> tr_baseAmount s" for s t
    using that GetThreat_mono [of t s] by (simp add: CompareReferencesLT_def not_less)
  consider "f = AddThreat_ref x" | "f = ScaleThreat_ref k" | "f = UpdateTauntState_ref d st"
    using assms(4) by blast
  then show ?thesis
  proof cases
    case 1
    let ?r = "r\<lparr>tr_baseAmount := max (f32 (tr_baseAmount r + x)) 0\<rparr>"
    have "\<not> CompareReferencesLT ?r r 1" if "x > 0"
      using f32_add_ge [OF assms(2), of x] that by (intro amount) simp_all
    moreover have "\<not> CompareReferencesLT r ?r 1" if "\<not> x > 0"
      using f32_add_le [OF assms(2), of x] assms(1) that by (intro amount) simp_all
    ultimately show ?thesis using 1 by (simp add: AddThreat_ref_def)
  next
    case 2
    let ?r = "r\<lparr>tr_baseAmount := f32 (tr_baseAmount r * k)\<rparr>"
    have "\<not> CompareReferencesLT ?r r 1" if "k > 1"
      using f32_mult_ge [OF assms(2,1), of k] that by (intro amount) simp_all
    moreover have "\<not> CompareReferencesLT r ?r 1" if "\<not> k > 1"
      using f32_mult_le [OF assms(2,1), of k] that by (intro amount) simp_all
    ultimately show ?thesis using 2 by (simp add: ScaleThreat_ref_def)
  next
    case 3
    then show ?thesis
      by (auto simp: UpdateTauntState_ref_def Let_def CompareReferencesLT_def)
  qed
qed

theorem heap_notifications_sound_witness:
  "\<not> CompareReferencesLT (fst (AddThreat_ref 5 (tref demo_threat 1))) (tref demo_threat 1) 1"
proof -
  have v: "threat_ok demo_threat"
    using combat.reach_inv [OF demo_threat_reachable] by (simp add: world_ok_def)
  have "w_tref demo_threat 1 = Some (tref demo_threat 1)"
    using threat_implies_combat [OF demo_threat_reachable demo_facts(3)] by (auto simp: tref_def)
  then have "0 \<le> tr_baseAmount (tref demo_threat 1)" "is_f32 (tr_baseAmount (tref demo_threat 1))"
    using v by (auto simp: threat_ok_def amounts_ok_def)
  from heap_notifications_sound [OF this, of 1 "AddThreat_ref 5" 5 False 0]
  show ?thesis by (simp add: AddThreat_ref_def)
qed

text \<open>
  The percentages \<open>UpdateRedirectInfo\<close> computes from the registry are positive and sum
  to at most 100, whatever percentages were registered.
\<close>

theorem redirect_percentages_bounded:
  "(\<Sum>(v, pct) \<leftarrow> tm_redirectInfo (UpdateRedirectInfo t). uint pct) \<le> 100
    \<and> (\<forall>(v, pct) \<in> set (tm_redirectInfo (UpdateRedirectInfo t)). 0 < pct)"
  using redirect_info_sum [of 0 "concat (map snd (tm_redirectRegistry t))"]
  by (auto simp: UpdateRedirectInfo_def)

theorem redirect_percentages_bounded_witness:
  "(\<Sum>(v, pct) \<leftarrow> tm_redirectInfo (UpdateRedirectInfo
       (new_ThreatManager\<lparr>tm_redirectRegistry := [(7, [(1, 70), (2, 70)])]\<rparr>)). uint pct) \<le> 100"
  using redirect_percentages_bounded by blast

text \<open>
  \<open>AddThreat\<close> returns when vehicles and owners of private objects do not form a cycle:
  with a rank that falls along both and stays below \<open>R\<close>, a depth of one more than
  \<open>rank target + R\<close> nested calls is enough, whatever the redirections are.
\<close>

theorem add_threat_terminates:
  assumes "\<And>t v. VehicleBase env t = Some v \<Longrightarrow> rank v < rank t"
    and "\<And>u t v. private_redirect env u t = Some v \<Longrightarrow> rank v < rank t"
    and "\<And>t. rank t < R" and "rank target + R < n"
  shows "\<exists>w'. AddThreat n env me target amount sp im ir w = Some w'"
  using AddThreat_total [of env rank R target ir n me amount sp im w] assms by (simp split: if_splits)

theorem add_threat_terminates_witness:
  "\<exists>w'. AddThreat 2 demo_env 2 1 150 None False False demo_combat = Some w'"
  by (rule add_threat_terminates [where rank = "\<lambda>_. 0" and R = 1])
    (simp_all add: demo_env_def private_redirect_def)

text \<open>
  \<open>Update\<close> of a unit's manager counts down exactly the PvP references in which it is the
  first unit: one whose timer is over is freed, another loses the elapsed time, and every
  other reference, those where it is second included, is untouched.
\<close>

theorem pvp_timers_count_down:
  assumes "combat_reachable w" and "heap_contract (ordered env)" and "w_cref w a = Some r"
  shows "w_cref (CombatManager_Update env tdiff u w) a =
    (if cr_isPvP r \<and> cr_first r = u
     then if cr_combatTimer r \<le> tdiff then None
          else Some (r\<lparr>cr_combatTimer := cr_combatTimer r - tdiff\<rparr>)
     else Some r)"
proof -
  have ok: "world_ok w" using combat.reach_inv [OF assms(1)] .
  then have ln: "combat_links w" by (simp add: world_ok_def)
  have mem: "a \<in> snd ` set (pvpRefs w u) \<longleftrightarrow> cr_isPvP r \<and> (cr_first r = u \<or> cr_second r = u)"
  proof -
    have "a \<in> snd ` set (pvpRefs w u) \<longleftrightarrow> (\<exists>g. map_of (crefs True w u) g = Some a)"
      using combat_linksD(4) [OF ln, of True u] by (force simp: crefs_def dest: map_of_SomeD intro: map_of_is_SomeI)
    then show ?thesis using combat_linksD(1) [OF ln] assms(3) by (auto simp: joins_def)
  qed
  have "cref w a = r" using assms(3) by (simp add: cref_def)
  then show ?thesis
    using assms(3) mem
    unfolding CombatManager_Update_def Update_loop_cref [OF ok pending_refs(1) [OF ok] assms(2)]
    by (auto simp: PvP_Update_def)
qed

theorem pvp_timers_count_down_witness:
  "combat_reachable demo_combat \<and> w_cref (CombatManager_Update demo_env 100 1 demo_combat) 0 \<noteq> None"
  using pvp_timers_count_down [OF demo_combat_reachable demo_heap demo_facts(1), of 100 1]
    demo_combat_reachable by (simp add: CombatReference_def)

text \<open>
  \<open>EndCombatBeyondRange\<close> without PvP frees exactly the PvE references of the unit whose
  two ends are not within the range, and no other reference.
\<close>

theorem beyond_range_ends_exactly:
  assumes "combat_reachable w" and "heap_contract (ordered env)" and "w_cref w a = Some r"
  shows "w_cref (EndCombatBeyondRange env u radius False w) a = None \<longleftrightarrow>
    \<not> cr_isPvP r \<and> (cr_first r = u \<or> cr_second r = u)
      \<and> \<not> IsWithinDistInMap env (cr_first r) (cr_second r) radius"
proof -
  have ok: "world_ok w" using combat.reach_inv [OF assms(1)] .
  then have ln: "combat_links w" by (simp add: world_ok_def)
  have mem: "a \<in> snd ` set (pveRefs w u) \<longleftrightarrow> \<not> cr_isPvP r \<and> (cr_first r = u \<or> cr_second r = u)"
  proof -
    have "a \<in> snd ` set (pveRefs w u) \<longleftrightarrow> (\<exists>g. map_of (crefs False w u) g = Some a)"
      using combat_linksD(4) [OF ln, of False u] by (force simp: crefs_def dest: map_of_SomeD intro: map_of_is_SomeI)
    then show ?thesis using combat_linksD(1) [OF ln] assms(3) by (auto simp: joins_def)
  qed
  have "cref w a = r" using assms(3) by (simp add: cref_def)
  then show ?thesis
    using assms(3) mem
    by (simp add: EndCombatBeyondRange_def Let_def end_loop_cref [OF ok pending_refs(2) [OF ok] assms(2)])
qed

theorem beyond_range_ends_exactly_witness:
  "combat_reachable demo_combat \<and> w_cref (EndCombatBeyondRange demo_env 1 20 False demo_combat) 0 = None"
  using beyond_range_ends_exactly [OF demo_combat_reachable demo_heap demo_facts(1), of 1 20]
    demo_combat_reachable by (simp add: CombatReference_def demo_env_def)

section \<open>A wrong notification\<close>

text \<open>
  \<open>UpdateMyTempModifiers\<close> takes the direction of its notification from the first reference
  only. A reference made while a modifier is active starts without it, so references may
  differ: here the first goes from -100 to -50 and the second from 0 to -50, and the heap is
  told that the second one increased although it is now lower than it was.
\<close>

lemma f32_values: "f32 (- 50) = - 50" "f32 150 = 150" "f32 200 = 200"
  by code_simp+

lemma temp_modifier_notification_wrong:
  assumes "threatened w u = [(g, a), (h, b)]" "a \<noteq> b"
    and "tr_tempModifier (tref w a) = - 100" "tr_tempModifier (tref w b) = 0"
    and "tr_baseAmount (tref w b) = 200" "TotalThreatAmounts env u = [- 50]"
  defines "w' \<equiv> UpdateMyTempModifiers env u w"
  shows "w_log w' = w_log w @ [HeapIncreased a, HeapIncreased b]
    \<and> CompareReferencesLT (tref w' b) (tref w b) 1"
  using assms(1-6)
  by (simp add: w'_def UpdateMyTempModifiers_def emit_def put_tref_def tref_def
      CompareReferencesLT_def GetThreat_def f32_values)

end
