(* ===== verification/Utf8_Codec.thy ===== *)
theory Utf8_Codec
  imports Prelude
begin

text \<open>
  UTF-8 as the library \<open>src/dep/utf8cpp\<close> decodes and encodes it (\<open>utf8/core.h\<close>). A
  \<open>std::string\<close> is its list of bytes, a \<open>std::wstring\<close> its list of 32-bit \<open>wchar_t\<close>, as on
  the platforms where \<open>wchar_t\<close> has four bytes; an iterator range \<open>[it, end)\<close> is the list
  of what lies ahead of \<open>it\<close>, so \<open>it == end\<close> is the empty list. The main lemma,
  \<open>validate_next_iff\<close>, says that one decoding step succeeds on exactly the encodings of
  the code points that are not surrogates.
\<close>

type_synonym bytes = "u8 list"
type_synonym wstring = "u32 list"

section \<open>Code points and sequences\<close>

definition is_trail :: "u8 \<Rightarrow> bool" where
  "is_trail oc \<longleftrightarrow> drop_bit 6 oc = 2"

definition is_lead_surrogate :: "u32 \<Rightarrow> bool" where
  "is_lead_surrogate cp \<longleftrightarrow> 0xd800 \<le> cp \<and> cp \<le> 0xdbff"

definition is_trail_surrogate :: "u32 \<Rightarrow> bool" where
  "is_trail_surrogate cp \<longleftrightarrow> 0xdc00 \<le> cp \<and> cp \<le> 0xdfff"

definition is_surrogate :: "u32 \<Rightarrow> bool" where
  "is_surrogate cp \<longleftrightarrow> 0xd800 \<le> cp \<and> cp \<le> 0xdfff"

definition is_code_point_valid :: "u32 \<Rightarrow> bool" where
  "is_code_point_valid cp \<longleftrightarrow> cp \<le> 0x0010ffff \<and> \<not> is_surrogate cp"

definition LEAD_OFFSET :: u32 where "LEAD_OFFSET = 0xd7c0"
definition TRAIL_SURROGATE_MIN :: u32 where "TRAIL_SURROGATE_MIN = 0xdc00"
definition SURROGATE_OFFSET :: u32 where "SURROGATE_OFFSET = 0xfca02400"

definition sequence_length :: "u8 \<Rightarrow> nat" where
  "sequence_length lead =
     (if lead < 0x80 then 1
      else if drop_bit 5 lead = 0x6 then 2
      else if drop_bit 4 lead = 0xe then 3
      else if drop_bit 3 lead = 0x1e then 4
      else 0)"

definition is_overlong_sequence :: "u32 \<Rightarrow> nat \<Rightarrow> bool" where
  "is_overlong_sequence cp len =
     (if cp < 0x80 then len \<noteq> 1
      else if cp < 0x800 then len \<noteq> 2
      else if cp < 0x10000 then len \<noteq> 3
      else False)"

datatype utf_error = UTF8_OK | NOT_ENOUGH_ROOM | INVALID_LEAD | INCOMPLETE_SEQUENCE
  | OVERLONG_SEQUENCE | INVALID_CODE_POINT

text \<open>
  \<open>increase_safely\<close> moves the iterator of a range that is not empty: the error code and
  the iterator.
\<close>

definition increase_safely :: "bytes \<Rightarrow> utf_error \<times> bytes" where
  "increase_safely it =
     (case tl it of
        [] \<Rightarrow> (NOT_ENOUGH_ROOM, [])
      | c # it' \<Rightarrow> (if is_trail c then UTF8_OK else INCOMPLETE_SEQUENCE, c # it'))"

text \<open>
  The macro \<open>UTF8_CPP_INCREASE_AND_RETURN_ON_ERROR\<close>: on success the rest of the function
  runs on the new octet. Each \<open>get_sequence_n\<close> returns the error code, the iterator on
  the last octet it has read, and the code point so far.
\<close>

definition increase_or_return ::
    "bytes \<Rightarrow> u32 \<Rightarrow> (bytes \<Rightarrow> u8 \<Rightarrow> utf_error \<times> bytes \<times> u32) \<Rightarrow> utf_error \<times> bytes \<times> u32" where
  "increase_or_return it cp k =
     (case increase_safely it of
        (err, it') \<Rightarrow> if err \<noteq> UTF8_OK then (err, it', cp) else k it' (hd it'))"

definition get_sequence_1 :: "bytes \<Rightarrow> u32 \<Rightarrow> utf_error \<times> bytes \<times> u32" where
  "get_sequence_1 it cp =
     (case it of [] \<Rightarrow> (NOT_ENOUGH_ROOM, [], cp) | c # _ \<Rightarrow> (UTF8_OK, it, ucast c))"

definition get_sequence_2 :: "bytes \<Rightarrow> u32 \<Rightarrow> utf_error \<times> bytes \<times> u32" where
  "get_sequence_2 it cp =
     (case it of [] \<Rightarrow> (NOT_ENOUGH_ROOM, [], cp) | c0 # _ \<Rightarrow>
        let cp = ucast c0 in
        increase_or_return it cp (\<lambda>it c.
        (UTF8_OK, it, (push_bit 6 cp AND 0x7ff) + (ucast c AND 0x3f))))"

definition get_sequence_3 :: "bytes \<Rightarrow> u32 \<Rightarrow> utf_error \<times> bytes \<times> u32" where
  "get_sequence_3 it cp =
     (case it of [] \<Rightarrow> (NOT_ENOUGH_ROOM, [], cp) | c0 # _ \<Rightarrow>
        let cp = ucast c0 in
        increase_or_return it cp (\<lambda>it c.
        let cp = (push_bit 12 cp AND 0xffff) + (push_bit 6 (ucast c) AND 0xfff) in
        increase_or_return it cp (\<lambda>it c.
        (UTF8_OK, it, cp + (ucast c AND 0x3f)))))"

definition get_sequence_4 :: "bytes \<Rightarrow> u32 \<Rightarrow> utf_error \<times> bytes \<times> u32" where
  "get_sequence_4 it cp =
     (case it of [] \<Rightarrow> (NOT_ENOUGH_ROOM, [], cp) | c0 # _ \<Rightarrow>
        let cp = ucast c0 in
        increase_or_return it cp (\<lambda>it c.
        let cp = (push_bit 18 cp AND 0x1fffff) + (push_bit 12 (ucast c) AND 0x3ffff) in
        increase_or_return it cp (\<lambda>it c.
        let cp = cp + (push_bit 6 (ucast c) AND 0xfff) in
        increase_or_return it cp (\<lambda>it c.
        (UTF8_OK, it, cp + (ucast c AND 0x3f))))))"

text \<open>
  \<open>validate_next it code_point\<close>: the error code, the iterator (moved past the sequence, or
  where it was on failure) and \<open>code_point\<close>, assigned on success only.
\<close>

definition validate_next :: "bytes \<Rightarrow> u32 \<Rightarrow> utf_error \<times> bytes \<times> u32" where
  "validate_next it code_point =
     (case it of
        [] \<Rightarrow> (NOT_ENOUGH_ROOM, it, code_point)
      | lead # _ \<Rightarrow>
          let len = sequence_length lead in
          if len = 0 then (INVALID_LEAD, it, code_point)
          else
            (case (if len = 1 then get_sequence_1 it 0
                   else if len = 2 then get_sequence_2 it 0
                   else if len = 3 then get_sequence_3 it 0
                   else get_sequence_4 it 0) of
               (err, it', cp) \<Rightarrow>
                 if err = UTF8_OK then
                   if is_code_point_valid cp then
                     if \<not> is_overlong_sequence cp len then (UTF8_OK, tl it', cp)
                     else (OVERLONG_SEQUENCE, it, code_point)
                   else (INVALID_CODE_POINT, it, code_point)
                 else (err, it, code_point)))"

text \<open>\<open>internal::append\<close>: the octets of a code point.\<close>

definition octets :: "u32 \<Rightarrow> bytes" where
  "octets cp =
     (if cp < 0x80 then [ucast cp]
      else if cp < 0x800 then
        [ucast (drop_bit 6 cp OR 0xc0), ucast ((cp AND 0x3f) OR 0x80)]
      else if cp < 0x10000 then
        [ucast (drop_bit 12 cp OR 0xe0), ucast ((drop_bit 6 cp AND 0x3f) OR 0x80),
         ucast ((cp AND 0x3f) OR 0x80)]
      else
        [ucast (drop_bit 18 cp OR 0xf0), ucast ((drop_bit 12 cp AND 0x3f) OR 0x80),
         ucast ((drop_bit 6 cp AND 0x3f) OR 0x80), ucast ((cp AND 0x3f) OR 0x80)])"

section \<open>The decoder accepts exactly the encodings of the code points\<close>

text \<open>Everything below is arithmetic on the values of the octets.\<close>


lemma u8_bound: "unat (b :: u8) < 256"
  using unsigned_less [of b] by simp

lemma u8_to_u32: "unat (ucast (b :: u8) :: u32) = unat b"
  using u8_bound [of b] by (simp add: unsigned_ucast_eq take_bit_nat_eq_self_iff)

lemma unat_and_mask: "unat ((w :: 'a :: len word) AND mask m) = unat w mod 2 ^ m"
  by (metis take_bit_eq_mask take_bit_eq_mod unsigned_take_bit_eq)

lemma unat_drop: "unat (drop_bit k (w :: 'a :: len word)) = unat w div 2 ^ k"
  by (simp only: unat_drop_bit_eq drop_bit_eq_div [of k "unat w"])

lemma unat_push:
  assumes "unat (w :: 'a :: len word) * 2 ^ k < 2 ^ LENGTH('a)"
  shows "unat (push_bit k w) = unat w * 2 ^ k"
proof -
  have "unat (push_bit k w) = take_bit LENGTH('a) (push_bit k (unat w))" by (rule unsigned_push_bit_eq)
  then show ?thesis using assms by (simp only: push_bit_eq_mult [of k "unat w"] take_bit_nat_eq_self_iff)
qed

lemma masks: "(0x3f :: u32) = mask 6" "(0x7ff :: u32) = mask 11" "(0xfff :: u32) = mask 12"
   "(0xffff :: u32) = mask 16" "(0x3ffff :: u32) = mask 18" "(0x1fffff :: u32) = mask 21"
   "(0x3ff :: u32) = mask 10"
  by (simp_all add: mask_eq_exp_minus_1)

lemma unat_eq_numeral: "(w :: 'a :: len word) = numeral n \<longleftrightarrow> unat w = unat (numeral n :: 'a word)"
  by (rule word_unat_eq_iff)

lemma is_trail_unat: "is_trail c \<longleftrightarrow> unat c div 64 = 2"
  by (simp only: is_trail_def unat_eq_numeral unat_drop) simp

lemma or_add:
  assumes "take_bit k x = (x :: 'a :: len word)" "take_bit k y = 0" "unat x + unat y < 2 ^ LENGTH('a)"
  shows "unat (x OR y) = unat x + unat y"
proof -
  have "x + y = x OR y"
  proof (rule disjunctive_add_eq_or, rule bit_eqI)
    fix n
    have "bit x n \<Longrightarrow> n < k" using assms(1) by (metis bit_take_bit_iff)
    moreover have "bit y n \<Longrightarrow> k \<le> n" using assms(2) by (metis bit_take_bit_iff bit_0_eq bot_apply bot_bool_def not_le)
    ultimately show "bit (x AND y) n = bit 0 n" by (auto simp: bit_simps)
  qed
  then show ?thesis using assms(3) by (metis unat_add_lem)
qed

lemma take_bit_small: "unat (x :: 'a :: len word) < 2 ^ k \<Longrightarrow> take_bit k x = x"
  by (simp only: word_unat_eq_iff unsigned_take_bit_eq take_bit_nat_eq_self_iff)


lemma push_mask:
  assumes "k \<le> m" "m \<le> 24"
  shows "unat (push_bit k (ucast (c :: u8) :: u32) AND mask m) = (unat c mod 2 ^ (m - k)) * 2 ^ k"
proof -
  have "unat c * 2 ^ k \<le> 255 * 2 ^ 24"
    using u8_bound [of c] assms by (intro mult_le_mono power_increasing) auto
  then have "unat (push_bit k (ucast c :: u32)) = unat c * 2 ^ k"
    using unat_push [of "ucast c :: u32" k] by (simp add: u8_to_u32)
  moreover have "(2 :: nat) ^ m = 2 ^ (m - k) * 2 ^ k" using assms by (simp flip: power_add)
  ultimately show ?thesis by (simp add: unat_and_mask mod_mult_mult2)
qed

lemma low_bits: "unat (ucast (c :: u8) AND (0x3f :: u32)) = unat c mod 64"
  by (simp add: masks unat_and_mask u8_to_u32)

lemma unat_add_small:
  "unat (x :: u32) \<le> a \<Longrightarrow> unat y \<le> b \<Longrightarrow> a + b < 2 ^ 32 \<Longrightarrow> unat (x + y) = unat x + unat y"
  by (simp add: unat_word_ariths)

lemma cp2: "unat ((push_bit 6 (ucast (c0 :: u8)) AND 0x7ff) + (ucast (c1 :: u8) AND 0x3f) :: u32)
    = (unat c0 mod 32) * 64 + unat c1 mod 64"
  by (subst unat_add_small [of _ "31 * 64" _ 63])
    (simp_all add: masks(2,3,4,5,6) push_mask low_bits)

lemma cp3: "unat ((push_bit 12 (ucast (c0 :: u8)) AND 0xffff) + (push_bit 6 (ucast (c1 :: u8)) AND 0xfff)
      + (ucast (c2 :: u8) AND 0x3f) :: u32)
    = (unat c0 mod 16) * 4096 + (unat c1 mod 64) * 64 + unat c2 mod 64"
proof -
  have a: "unat (push_bit 12 (ucast (c0 :: u8)) AND 0xffff :: u32) = (unat c0 mod 16) * 4096"
    "unat (push_bit 6 (ucast c1) AND 0xfff :: u32) = (unat c1 mod 64) * 64"
    by (simp_all add: masks(2,3,4,5,6) push_mask)
  have "(unat c0 mod 16) * 4096 \<le> 15 * 4096" "(unat c1 mod 64) * 64 \<le> 63 * 64" "unat c2 mod 64 \<le> 63"
    by simp_all
  then show ?thesis using a low_bits [of c2] by (simp add: unat_word_ariths)
qed

lemma cp4: "unat ((push_bit 18 (ucast (c0 :: u8)) AND 0x1fffff) + (push_bit 12 (ucast (c1 :: u8)) AND 0x3ffff)
      + (push_bit 6 (ucast (c2 :: u8)) AND 0xfff) + (ucast (c3 :: u8) AND 0x3f) :: u32)
    = (unat c0 mod 8) * 262144 + (unat c1 mod 64) * 4096 + (unat c2 mod 64) * 64 + unat c3 mod 64"
proof -
  have a: "unat (push_bit 18 (ucast (c0 :: u8)) AND 0x1fffff :: u32) = (unat c0 mod 8) * 262144"
    "unat (push_bit 12 (ucast c1) AND 0x3ffff :: u32) = (unat c1 mod 64) * 4096"
    "unat (push_bit 6 (ucast c2) AND 0xfff :: u32) = (unat c2 mod 64) * 64"
    by (simp_all add: masks(2,3,4,5,6) push_mask)
  have "(unat c0 mod 8) * 262144 \<le> 7 * 262144" "(unat c1 mod 64) * 4096 \<le> 63 * 4096"
    "(unat c2 mod 64) * 64 \<le> 63 * 64" "unat c3 mod 64 \<le> 63"
    by simp_all
  then show ?thesis using a low_bits [of c3] by (simp add: unat_word_ariths)
qed

text \<open>The values of the octets of a code point.\<close>

lemma unat_to_u8: "unat (ucast (w :: u32) :: u8) = unat w mod 256"
  by (simp only: unsigned_ucast_eq take_bit_eq_mod) simp

lemma trail_octet: "unat (ucast ((x AND 0x3f) OR 0x80 :: u32) :: u8) = 128 + unat x mod 64"
proof -
  have m: "unat (x AND 0x3f) = unat x mod 64" by (simp add: masks unat_and_mask)
  have "unat ((x AND 0x3f) OR 0x80) = unat (x AND 0x3f) + unat (0x80 :: u32)"
  proof (rule or_add [of 6])
    show "take_bit 6 (x AND 0x3f) = x AND 0x3f" by (rule take_bit_small) (simp add: m)
  qed (simp_all add: m)
  then show ?thesis by (simp add: unat_to_u8 m)
qed

lemma lead_octet:
  assumes "unat x < 2 ^ k" "take_bit k y = 0" "unat x + unat y < 256"
  shows "unat (ucast (x OR y :: u32) :: u8) = unat x + unat y"
proof -
  have "unat (x OR y) = unat x + unat y"
    by (rule or_add [of k]) (use assms in \<open>simp_all add: take_bit_small\<close>)
  then show ?thesis using assms(3) by (simp add: unat_to_u8)
qed


lemma less_unat: "(w :: u32) < numeral n \<longleftrightarrow> unat w < unat (numeral n :: u32)"
  by (rule word_less_nat_alt)

lemma octets_1: "unat cp < 128 \<Longrightarrow> \<exists>c0. octets cp = [c0] \<and> unat c0 = unat cp"
  by (simp add: octets_def less_unat unat_to_u8)

lemma octets_2:
  assumes "128 \<le> unat cp" "unat cp < 2048"
  shows "\<exists>c0 c1. octets cp = [c0, c1] \<and> unat c0 = 192 + unat cp div 64 \<and> unat c1 = 128 + unat cp mod 64"
proof -
  have "unat (drop_bit 6 cp) = unat cp div 64" by (simp only: unat_drop) simp
  then have "unat (ucast (drop_bit 6 cp OR 0xc0) :: u8) = unat cp div 64 + unat (0xc0 :: u32)"
    using assms lead_octet [of "drop_bit 6 cp" 5 "0xc0"] by simp
  then show ?thesis using assms by (simp add: octets_def less_unat trail_octet)
qed

lemma octets_3:
  assumes "2048 \<le> unat cp" "unat cp < 65536"
  shows "\<exists>c0 c1 c2. octets cp = [c0, c1, c2] \<and> unat c0 = 224 + unat cp div 4096 \<and>
    unat c1 = 128 + unat cp div 64 mod 64 \<and> unat c2 = 128 + unat cp mod 64"
proof -
  have d: "unat (drop_bit 12 cp) = unat cp div 4096" "unat (drop_bit 6 cp) = unat cp div 64"
    by (simp_all only: unat_drop) simp_all
  then have "unat (ucast (drop_bit 12 cp OR 0xe0) :: u8) = unat cp div 4096 + unat (0xe0 :: u32)"
    using assms lead_octet [of "drop_bit 12 cp" 4 "0xe0"] by simp
  then show ?thesis using assms d(2) by (simp add: octets_def less_unat trail_octet)
qed

lemma octets_4:
  assumes "65536 \<le> unat cp" "unat cp < 2097152"
  shows "\<exists>c0 c1 c2 c3. octets cp = [c0, c1, c2, c3] \<and> unat c0 = 240 + unat cp div 262144 \<and>
    unat c1 = 128 + unat cp div 4096 mod 64 \<and> unat c2 = 128 + unat cp div 64 mod 64 \<and>
    unat c3 = 128 + unat cp mod 64"
proof -
  have d: "unat (drop_bit 18 cp) = unat cp div 262144" "unat (drop_bit 12 cp) = unat cp div 4096"
    "unat (drop_bit 6 cp) = unat cp div 64"
    by (simp_all only: unat_drop) simp_all
  then have "unat (ucast (drop_bit 18 cp OR 0xf0) :: u8) = unat cp div 262144 + unat (0xf0 :: u32)"
    using assms lead_octet [of "drop_bit 18 cp" 3 "0xf0"] by simp
  then show ?thesis using assms d(2,3) by (simp add: octets_def less_unat trail_octet)
qed

lemma sequence_length_unat:
  "sequence_length c = (if unat c < 128 then 1 else if unat c div 32 = 6 then 2
     else if unat c div 16 = 14 then 3 else if unat c div 8 = 30 then 4 else 0)"
proof -
  have "c < 0x80 \<longleftrightarrow> unat c < 128" by (simp add: word_less_nat_alt)
  then show ?thesis
    by (simp only: sequence_length_def unat_eq_numeral unat_drop) simp
qed

lemma overlong_unat:
  "is_overlong_sequence cp len = (if unat cp < 128 then len \<noteq> 1 else if unat cp < 2048 then len \<noteq> 2
     else if unat cp < 65536 then len \<noteq> 3 else False)"
  by (simp add: is_overlong_sequence_def less_unat)

lemma increase_simps [simp]:
  "increase_or_return [x] cp k = (NOT_ENOUGH_ROOM, [], cp)"
  "increase_or_return (x # c # it) cp k = (if is_trail c then k (c # it) c else (INCOMPLETE_SEQUENCE, c # it, cp))"
  by (simp_all add: increase_or_return_def increase_safely_def)

lemma valid_bound: "is_code_point_valid cp \<Longrightarrow> unat cp < 2097152"
  by (simp add: is_code_point_valid_def word_le_nat_alt)

lemmas get_sequences = get_sequence_1_def get_sequence_2_def get_sequence_3_def get_sequence_4_def Let_def


text \<open>A number and its digits to the base 64, and the tags of the octets around them.\<close>

lemma digits:
  "(n :: nat) div 64 * 64 + n mod 64 = n"
  "n div 4096 * 4096 + n div 64 mod 64 * 64 + n mod 64 = n"
  "n div 262144 * 262144 + n div 4096 mod 64 * 4096 + n div 64 mod 64 * 64 + n mod 64 = n"
proof -
  have "n div 64 div 64 = n div 4096" "n div 4096 div 64 = n div 262144"
    by (simp_all only: div_mult2_eq [symmetric]) simp_all
  moreover note div_mult_mod_eq [of n 64] div_mult_mod_eq [of "n div 64" 64]
    div_mult_mod_eq [of "n div 4096" 64]
  ultimately show "n div 64 * 64 + n mod 64 = n"
    "n div 4096 * 4096 + n div 64 mod 64 * 64 + n mod 64 = n"
    "n div 262144 * 262144 + n div 4096 mod 64 * 4096 + n div 64 mod 64 * 64 + n mod 64 = n"
    by linarith+
qed

lemma tag:
  assumes "(x :: nat) < m"
  shows "(k * m + x) div m = k" "(k * m + x) mod m = x"
  using assms by simp_all

lemma tags:
  "(128 + r mod 64) div 64 = (2 :: nat)" "(128 + r mod 64) mod 64 = (r mod 64 :: nat)"
  "q < 32 \<Longrightarrow> (192 + q) div 32 = (6 :: nat)" "q < 32 \<Longrightarrow> (192 + q) mod 32 = q"
  "q < 16 \<Longrightarrow> (224 + q) div 16 = (14 :: nat)" "q < 16 \<Longrightarrow> (224 + q) mod 16 = q"
  "q < 8 \<Longrightarrow> (240 + q) div 8 = (30 :: nat)" "q < 8 \<Longrightarrow> (240 + q) mod 8 = q"
  subgoal using tag(1) [of "r mod 64" 64 2] by simp
  subgoal using tag(2) [of "r mod 64" 64 2] by simp
  subgoal using tag(1) [of q 32 6] by simp
  subgoal using tag(2) [of q 32 6] by simp
  subgoal using tag(1) [of q 16 14] by simp
  subgoal using tag(2) [of q 16 14] by simp
  subgoal using tag(1) [of q 8 30] by simp
  subgoal using tag(2) [of q 8 30] by simp
  done

lemma tags_up:
  "q < 16 \<Longrightarrow> (224 + q) div 32 = (7 :: nat)"
  "q < 8 \<Longrightarrow> (240 + q) div 32 = (7 :: nat)" "q < 8 \<Longrightarrow> (240 + q) div 16 = (15 :: nat)"
  by (rule div_nat_eqI; simp)+

lemma lead_lengths:
  "q < 32 \<Longrightarrow> unat c = 192 + q \<Longrightarrow> sequence_length c = 2"
  "q < 16 \<Longrightarrow> unat c = 224 + q \<Longrightarrow> sequence_length c = 3"
  "q < 8 \<Longrightarrow> unat c = 240 + q \<Longrightarrow> sequence_length c = 4"
  by (simp_all add: sequence_length_unat tags tags_up)

lemma decode_octets:
  assumes v: "is_code_point_valid cp"
  shows "validate_next (octets cp @ rest) x = (UTF8_OK, rest, cp)"
proof -
  consider "unat cp < 128" | "128 \<le> unat cp" "unat cp < 2048" | "2048 \<le> unat cp" "unat cp < 65536"
    | "65536 \<le> unat cp" "unat cp < 2097152"
    using valid_bound [OF v] by linarith
  then show ?thesis
  proof cases
    case 1
    from octets_1 [OF this] obtain c0 where o: "octets cp = [c0]" and c: "unat c0 = unat cp" by blast
    have "ucast c0 = cp" by (simp add: word_unat_eq_iff u8_to_u32 c)
    then show ?thesis using 1 v
      by (simp add: o validate_next_def get_sequences sequence_length_unat overlong_unat c)
  next
    case 2
    from octets_2 [OF this] obtain c0 c1 where o: "octets cp = [c0, c1]"
      and c: "unat c0 = 192 + unat cp div 64" "unat c1 = 128 + unat cp mod 64" by blast
    have "(push_bit 6 (ucast c0) AND 0x7ff) + (ucast c1 AND 0x3f) = cp"
      using 2 by (simp add: word_unat_eq_iff cp2 c tags digits less_mult_imp_div_less)
    moreover have "sequence_length c0 = 2" "is_trail c1"
      using 2 lead_lengths(1) [OF _ c(1)] by (simp_all add: is_trail_unat c tags less_mult_imp_div_less)
    ultimately show ?thesis using 2 v
      by (simp add: o validate_next_def get_sequences overlong_unat)
  next
    case 3
    from octets_3 [OF this] obtain c0 c1 c2 where o: "octets cp = [c0, c1, c2]"
      and c: "unat c0 = 224 + unat cp div 4096" "unat c1 = 128 + unat cp div 64 mod 64"
        "unat c2 = 128 + unat cp mod 64" by blast
    have "(push_bit 12 (ucast c0) AND 0xffff) + (push_bit 6 (ucast c1) AND 0xfff) + (ucast c2 AND 0x3f) = cp"
      using 3 by (simp add: word_unat_eq_iff cp3 c tags digits less_mult_imp_div_less)
    moreover have "sequence_length c0 = 3" "is_trail c1" "is_trail c2"
      using 3 lead_lengths(2) [OF _ c(1)] by (simp_all add: is_trail_unat c tags less_mult_imp_div_less)
    ultimately show ?thesis using 3 v
      by (simp add: o validate_next_def get_sequences overlong_unat)
  next
    case 4
    from octets_4 [OF this] obtain c0 c1 c2 c3 where o: "octets cp = [c0, c1, c2, c3]"
      and c: "unat c0 = 240 + unat cp div 262144" "unat c1 = 128 + unat cp div 4096 mod 64"
        "unat c2 = 128 + unat cp div 64 mod 64" "unat c3 = 128 + unat cp mod 64" by blast
    have "(push_bit 18 (ucast c0) AND 0x1fffff) + (push_bit 12 (ucast c1) AND 0x3ffff)
        + (push_bit 6 (ucast c2) AND 0xfff) + (ucast c3 AND 0x3f) = cp"
      using 4 by (simp add: word_unat_eq_iff cp4 c tags digits less_mult_imp_div_less)
    moreover have "sequence_length c0 = 4" "is_trail c1" "is_trail c2" "is_trail c3"
      using 4 lead_lengths(3) [OF _ c(1)] by (simp_all add: is_trail_unat c tags less_mult_imp_div_less)
    ultimately show ?thesis using 4 v
      by (simp add: o validate_next_def get_sequences overlong_unat)
  qed
qed

lemma lead_values:
  "sequence_length c = 1 \<Longrightarrow> unat c < 128"
  "sequence_length c = 2 \<Longrightarrow> unat c = 192 + unat c mod 32"
  "sequence_length c = 3 \<Longrightarrow> unat c = 224 + unat c mod 16"
  "sequence_length c = 4 \<Longrightarrow> unat c = 240 + unat c mod 8"
  "is_trail c \<Longrightarrow> unat c = 128 + unat c mod 64"
proof -
  have h: "(n :: nat) div k = q \<Longrightarrow> n = q * k + n mod k" for n k q
    using div_mult_mod_eq [of n k] by simp
  show "sequence_length c = 1 \<Longrightarrow> unat c < 128"
    "sequence_length c = 2 \<Longrightarrow> unat c = 192 + unat c mod 32"
    "sequence_length c = 3 \<Longrightarrow> unat c = 224 + unat c mod 16"
    "sequence_length c = 4 \<Longrightarrow> unat c = 240 + unat c mod 8"
    "is_trail c \<Longrightarrow> unat c = 128 + unat c mod 64"
    using h [of "unat c" 32 6] h [of "unat c" 16 14] h [of "unat c" 8 30] h [of "unat c" 64 2]
    by (simp_all add: sequence_length_unat is_trail_unat split: if_splits)
qed

lemma digit_values:
  assumes "(b :: nat) < 64"
  shows "(a * 64 + b) div 64 = a" "(a * 64 + b) mod 64 = b"
    "a < 64 \<Longrightarrow> (q * 4096 + a * 64 + b) div 64 mod 64 = a" "a < 64 \<Longrightarrow> (q * 4096 + a * 64 + b) div 4096 = q"
    "(q * 4096 + a * 64 + b) mod 64 = b"
proof -
  show "(a * 64 + b) div 64 = a" "(a * 64 + b) mod 64 = b" using assms by (rule tag)+
  have e: "q * 4096 + a * 64 + b = (q * 64 + a) * 64 + b" by simp
  show "(q * 4096 + a * 64 + b) mod 64 = b" unfolding e using assms by (rule tag)
  have d: "(q * 4096 + a * 64 + b) div 64 = q * 64 + a" unfolding e using assms by (rule tag)
  show "a < 64 \<Longrightarrow> (q * 4096 + a * 64 + b) div 64 mod 64 = a" unfolding d by (rule tag)
  have "(q * 4096 + a * 64 + b) div 4096 = (q * 4096 + a * 64 + b) div 64 div 64"
    by (simp only: div_mult2_eq [symmetric]) simp
  then show "a < 64 \<Longrightarrow> (q * 4096 + a * 64 + b) div 4096 = q" unfolding d using tag(1) by simp
qed

lemma same_octets:
  assumes "octets cp = ds" "map unat ds = map unat cs"
  shows "octets cp = cs"
  using assms inj_map_eq_map [of unat ds cs] by (simp add: inj_def word_unat_eq_iff)

lemma encode_sequence:
  "unat c0 < 128 \<Longrightarrow> unat cp = unat c0 \<Longrightarrow> octets cp = [c0]"
  "sequence_length c0 = 2 \<Longrightarrow> is_trail c1 \<Longrightarrow> 128 \<le> unat cp \<Longrightarrow>
    unat cp = (unat c0 mod 32) * 64 + unat c1 mod 64 \<Longrightarrow> octets cp = [c0, c1]"
  "sequence_length c0 = 3 \<Longrightarrow> is_trail c1 \<Longrightarrow> is_trail c2 \<Longrightarrow> 2048 \<le> unat cp \<Longrightarrow>
    unat cp = (unat c0 mod 16) * 4096 + (unat c1 mod 64) * 64 + unat c2 mod 64 \<Longrightarrow> octets cp = [c0, c1, c2]"
  "sequence_length c0 = 4 \<Longrightarrow> is_trail c1 \<Longrightarrow> is_trail c2 \<Longrightarrow> is_trail c3 \<Longrightarrow> 65536 \<le> unat cp \<Longrightarrow>
    unat cp = (unat c0 mod 8) * 262144 + (unat c1 mod 64) * 4096 + (unat c2 mod 64) * 64 + unat c3 mod 64
    \<Longrightarrow> octets cp = [c0, c1, c2, c3]"
proof -
  assume "unat c0 < 128" "unat cp = unat c0"
  then show "octets cp = [c0]" using octets_1 [of cp] by (auto simp: word_unat_eq_iff)
next
  assume a: "sequence_length c0 = 2" "is_trail c1" "128 \<le> unat cp"
    "unat cp = (unat c0 mod 32) * 64 + unat c1 mod 64"
  have "unat c0 mod 32 < 32" "unat c1 mod 64 < 64" by simp_all
  with a(4) have "unat cp < 2048" by linarith
  from octets_2 [OF a(3) this] lead_values(2) [OF a(1)] lead_values(5) [OF a(2)]
  show "octets cp = [c0, c1]" by (auto simp: a(4) intro: same_octets)
next
  assume a: "sequence_length c0 = 3" "is_trail c1" "is_trail c2" "2048 \<le> unat cp"
    "unat cp = (unat c0 mod 16) * 4096 + (unat c1 mod 64) * 64 + unat c2 mod 64"
  have "unat c0 mod 16 < 16" "unat c1 mod 64 < 64" "unat c2 mod 64 < 64" by simp_all
  with a(5) have "unat cp < 65536" by linarith
  from octets_3 [OF a(4) this] lead_values(3) [OF a(1)] lead_values(5) [OF a(2)] lead_values(5) [OF a(3)]
  show "octets cp = [c0, c1, c2]" by (auto simp: a(5) digit_values intro: same_octets)
next
  assume a: "sequence_length c0 = 4" "is_trail c1" "is_trail c2" "is_trail c3" "65536 \<le> unat cp"
    "unat cp = (unat c0 mod 8) * 262144 + (unat c1 mod 64) * 4096 + (unat c2 mod 64) * 64 + unat c3 mod 64"
  have b: "unat c0 mod 8 < 8" "unat c1 mod 64 < 64" "unat c2 mod 64 < 64" "unat c3 mod 64 < 64" by simp_all
  with a(6) have "unat cp < 2097152" by linarith
  have e: "unat cp = ((unat c0 mod 8) * 64 + unat c1 mod 64) * 4096 + (unat c2 mod 64) * 64 + unat c3 mod 64"
    using a(6) by simp
  moreover have q: "unat cp div 4096 = (unat c0 mod 8) * 64 + unat c1 mod 64"
    unfolding e by (rule digit_values(4) [OF b(4,3)])
  have "unat cp div 262144 = unat cp div 4096 div 64" by (simp only: div_mult2_eq [symmetric]) simp
  then have "unat cp div 262144 = unat c0 mod 8" by (simp only: q digit_values(1) [OF b(2)])
  moreover have "unat cp div 4096 mod 64 = unat c1 mod 64" by (simp only: q digit_values(2) [OF b(2)])
  moreover have "unat cp div 64 mod 64 = unat c2 mod 64" unfolding e by (rule digit_values(3) [OF b(4,3)])
  moreover have "unat cp mod 64 = unat c3 mod 64" unfolding e by (rule digit_values(5) [OF b(4)])
  moreover from octets_4 [OF a(5) \<open>unat cp < 2097152\<close>] obtain d0 d1 d2 d3 where d: "octets cp = [d0, d1, d2, d3]"
    "unat d0 = 240 + unat cp div 262144" "unat d1 = 128 + unat cp div 4096 mod 64"
    "unat d2 = 128 + unat cp div 64 mod 64" "unat d3 = 128 + unat cp mod 64" by blast
  ultimately have "unat d0 = unat c0" "unat d1 = unat c1" "unat d2 = unat c2" "unat d3 = unat c3"
    using lead_values(4) [OF a(1)] lead_values(5) [OF a(2)] lead_values(5) [OF a(3)]
      lead_values(5) [OF a(4)] by presburger+
  then show "octets cp = [c0, c1, c2, c3]" using d(1) by (simp add: word_unat_eq_iff)
qed

lemma validate_next_ok:
  assumes v: "validate_next bs x = (UTF8_OK, rest, cp)"
  shows "is_code_point_valid cp \<and> bs = octets cp @ rest"
proof -
  obtain c0 r0 where bs: "bs = c0 # r0" using v by (cases bs) (auto simp: validate_next_def)
  have "sequence_length c0 \<in> {0, 1, 2, 3, 4}" by (simp add: sequence_length_def)
  moreover have "sequence_length c0 \<noteq> 0" using v by (intro notI) (simp add: bs validate_next_def)
  ultimately consider "sequence_length c0 = 1" | "sequence_length c0 = 2" | "sequence_length c0 = 3"
    | "sequence_length c0 = 4" by auto
  then show ?thesis
  proof cases
    case 1
    with v have "is_code_point_valid cp" "cp = ucast c0" "rest = r0"
      by (auto simp: bs validate_next_def get_sequences split: if_splits)
    then show ?thesis using encode_sequence(1) [of c0 cp] lead_values(1) [OF 1] by (simp add: bs u8_to_u32)
  next
    case 2
    with v obtain c1 r1 where r: "r0 = c1 # r1" by (cases r0) (auto simp: bs validate_next_def get_sequences)
    from v 2 have t: "is_trail c1" "is_code_point_valid cp" "rest = r1" "\<not> is_overlong_sequence cp 2"
      and c: "cp = (push_bit 6 (ucast c0) AND 0x7ff) + (ucast c1 AND 0x3f)"
      by (auto simp: bs r validate_next_def get_sequences split: if_splits)
    have "128 \<le> unat cp" using t(4) by (simp add: overlong_unat split: if_splits)
    from encode_sequence(2) [OF 2 t(1) this] t show ?thesis by (simp add: c cp2 bs r)
  next
    case 3
    with v obtain c1 r1 where r1: "r0 = c1 # r1" by (cases r0) (auto simp: bs validate_next_def get_sequences)
    with v 3 obtain c2 r2 where r2: "r1 = c2 # r2"
      by (cases r1) (auto simp: bs validate_next_def get_sequences split: if_splits)
    from v 3 have t: "is_trail c1" "is_trail c2" "is_code_point_valid cp" "rest = r2"
        "\<not> is_overlong_sequence cp 3"
      and c: "cp = (push_bit 12 (ucast c0) AND 0xffff) + (push_bit 6 (ucast c1) AND 0xfff) + (ucast c2 AND 0x3f)"
      by (auto simp: bs r1 r2 validate_next_def get_sequences split: if_splits)
    have "2048 \<le> unat cp" using t(5) by (simp add: overlong_unat split: if_splits)
    from encode_sequence(3) [OF 3 t(1,2) this] t show ?thesis by (simp add: c cp3 bs r1 r2)
  next
    case 4
    with v obtain c1 r1 where r1: "r0 = c1 # r1" by (cases r0) (auto simp: bs validate_next_def get_sequences)
    with v 4 obtain c2 r2 where r2: "r1 = c2 # r2"
      by (cases r1) (auto simp: bs validate_next_def get_sequences split: if_splits)
    with v 4 r1 obtain c3 r3 where r3: "r2 = c3 # r3"
      by (cases r2) (auto simp: bs validate_next_def get_sequences split: if_splits)
    from v 4 have t: "is_trail c1" "is_trail c2" "is_trail c3" "is_code_point_valid cp" "rest = r3"
        "\<not> is_overlong_sequence cp 4"
      and c: "cp = (push_bit 18 (ucast c0) AND 0x1fffff) + (push_bit 12 (ucast c1) AND 0x3ffff)
        + (push_bit 6 (ucast c2) AND 0xfff) + (ucast c3 AND 0x3f)"
      by (auto simp: bs r1 r2 r3 validate_next_def get_sequences split: if_splits)
    have "65536 \<le> unat cp" using t(6) by (simp add: overlong_unat split: if_splits)
    from encode_sequence(4) [OF 4 t(1,2,3) this] t show ?thesis by (simp add: c cp4 bs r1 r2 r3)
  qed
qed

lemma validate_next_iff:
  "validate_next bs x = (UTF8_OK, rest, cp) \<longleftrightarrow> is_code_point_valid cp \<and> bs = octets cp @ rest"
  using validate_next_ok decode_octets by blast

lemma octets_not_empty [simp]: "octets cp \<noteq> []"
  by (simp add: octets_def)

lemma validate_next_shorter:
  assumes "validate_next bs x = (UTF8_OK, rest, cp)"
  shows "length rest < length bs"
  using validate_next_ok [OF assms] by simp

lemma octets_prefix:
  assumes "is_code_point_valid c" "is_code_point_valid d" "octets c @ r = octets d @ s"
  shows "c = d \<and> r = s"
  using decode_octets [OF assms(1), of r 0] decode_octets [OF assms(2), of s 0] unfolding assms(3) by simp

end
