(* ===== verification/Unicode_Text.thy ===== *)
theory Unicode_Text
  imports Utf8_Codec
begin

text \<open>
  The checked interface of \<open>src/dep/utf8cpp/utf8/checked.h\<close>, the conversions of
  \<open>src/common/Utilities/Util.cpp\<close> and what \<open>ObjectMgr.cpp\<close> does with player names, with
  the lemmas that describe the loops on whole strings.
\<close>

section \<open>The checked interface\<close>

datatype utf8_exception = invalid_code_point u32 | invalid_utf8 u8 | invalid_utf16 u16 | not_enough_room

text \<open>\<open>find_invalid\<close>: the iterator at the first sequence that is not valid.\<close>

function find_invalid :: "bytes \<Rightarrow> bytes" where
  "find_invalid it =
     (if it = [] then it
      else case validate_next it 0 of
        (err, it', _) \<Rightarrow> if err \<noteq> UTF8_OK then it' else find_invalid it')"
  by pat_completeness auto
termination find_invalid
  by (relation "measure length") (auto dest: validate_next_shorter [OF sym])

definition is_valid :: "bytes \<Rightarrow> bool" where
  "is_valid s \<longleftrightarrow> find_invalid s = []"

definition utf8_append :: "u32 \<Rightarrow> bytes \<Rightarrow> utf8_exception + bytes" where
  "utf8_append cp result =
     (if \<not> is_code_point_valid cp then Inl (invalid_code_point cp) else Inr (result @ octets cp))"

definition utf8_next :: "bytes \<Rightarrow> utf8_exception + (u32 \<times> bytes)" where
  "utf8_next it =
     (case validate_next it 0 of (err, it', cp) \<Rightarrow>
        (case err of
           UTF8_OK \<Rightarrow> Inr (cp, it')
         | NOT_ENOUGH_ROOM \<Rightarrow> Inl not_enough_room
         | INVALID_CODE_POINT \<Rightarrow> Inl (invalid_code_point cp)
         | _ \<Rightarrow> Inl (invalid_utf8 (hd it'))))"

lemma utf8_next_iff: "utf8_next it = Inr (cp, rest) \<longleftrightarrow> is_code_point_valid cp \<and> it = octets cp @ rest"
  unfolding validate_next_iff [of it 0, symmetric]
  by (auto simp: utf8_next_def split: prod.splits utf_error.splits)

lemma utf8_next_shorter: "utf8_next it = Inr (cp, rest) \<Longrightarrow> length rest < length it"
  by (auto simp: utf8_next_iff)

function utf8_distance :: "bytes \<Rightarrow> nat \<Rightarrow> utf8_exception + nat" where
  "utf8_distance it dist =
     (if it = [] then Inr dist
      else case utf8_next it of Inl e \<Rightarrow> Inl e | Inr (_, it') \<Rightarrow> utf8_distance it' (Suc dist))"
  by pat_completeness auto
termination utf8_distance
  by (relation "measure (length \<circ> fst)") (auto dest: utf8_next_shorter)

text \<open>The code units of a code point, each as wide as the \<open>wchar_t\<close> they are stored in.\<close>

definition utf16_units :: "u32 \<Rightarrow> wstring" where
  "utf16_units cp =
     (if 0xffff < cp then
        [ucast (ucast (drop_bit 10 cp + LEAD_OFFSET) :: u16),
         ucast (ucast ((cp AND 0x3ff) + TRAIL_SURROGATE_MIN) :: u16)]
      else [ucast (ucast cp :: u16)])"

function utf8to16 :: "bytes \<Rightarrow> wstring \<Rightarrow> utf8_exception + wstring" where
  "utf8to16 it result =
     (if it = [] then Inr result
      else case utf8_next it of
        Inl e \<Rightarrow> Inl e
      | Inr (cp, it') \<Rightarrow> utf8to16 it' (result @ utf16_units cp))"
  by pat_completeness auto
termination utf8to16
  by (relation "measure (length \<circ> fst)") (auto dest: utf8_next_shorter)

definition mask16 :: "u32 \<Rightarrow> u32" where
  "mask16 w = ucast (ucast (0xffff AND w) :: u16)"

fun utf16to8 :: "wstring \<Rightarrow> bytes \<Rightarrow> utf8_exception + bytes" where
  "utf16to8 [] result = Inr result"
| "utf16to8 (w # it) result =
     (let cp = mask16 w in
      if is_lead_surrogate cp then
        (case it of
           [] \<Rightarrow> Inl (invalid_utf16 (ucast cp))
         | w' # it' \<Rightarrow>
             let trail_surrogate = mask16 w' in
             if is_trail_surrogate trail_surrogate then
               (case utf8_append (push_bit 10 cp + trail_surrogate + SURROGATE_OFFSET) result of
                  Inl e \<Rightarrow> Inl e | Inr result' \<Rightarrow> utf16to8 it' result')
             else Inl (invalid_utf16 (ucast trail_surrogate)))
      else if is_trail_surrogate cp then Inl (invalid_utf16 (ucast cp))
      else (case utf8_append cp result of Inl e \<Rightarrow> Inl e | Inr result' \<Rightarrow> utf16to8 it result'))"

section \<open>The conversions of the server\<close>

text \<open>
  The functions that return a flag and assign a string by reference return both; the
  string is cleared where an exception is caught.
\<close>

definition Utf8toWStr :: "bytes \<Rightarrow> bool \<times> wstring" where
  "Utf8toWStr utf8str = (case utf8to16 utf8str [] of Inl _ \<Rightarrow> (False, []) | Inr wstr \<Rightarrow> (True, wstr))"

definition WStrToUtf8 :: "wstring \<Rightarrow> bool \<times> bytes" where
  "WStrToUtf8 wstr = (case utf16to8 wstr [] of Inl _ \<Rightarrow> (False, []) | Inr s \<Rightarrow> (True, s))"

definition utf8length :: "bytes \<Rightarrow> nat \<times> bytes" where
  "utf8length utf8str =
     (case utf8_distance utf8str 0 of Inl _ \<Rightarrow> (0, []) | Inr n \<Rightarrow> (n, utf8str))"

text \<open>
  \<open>utf8truncate\<close> converts into the buffer of a \<open>std::wstring\<close> of \<open>wlen\<close> elements, then back
  into the string itself, through plain pointers: \<open>None\<close> is a write behind the end of one
  of these buffers.
\<close>

definition utf8truncate :: "bytes \<Rightarrow> nat \<Rightarrow> bytes option" where
  "utf8truncate utf8str len =
     (case utf8_distance utf8str 0 of
        Inl _ \<Rightarrow> Some []
      | Inr wlen \<Rightarrow>
          if wlen \<le> len then Some utf8str
          else
            (case utf8to16 utf8str [] of
               Inl _ \<Rightarrow> Some []
             | Inr units \<Rightarrow>
                 if wlen < length units then None
                 else
                   let wstr = units @ replicate (wlen - length units) 0 in
                   (case utf16to8 (take len wstr) [] of
                      Inl _ \<Rightarrow> Some []
                    | Inr out \<Rightarrow> if length utf8str < length out then None else Some out)))"

text \<open>\<open>chars_in lo hi\<close> are the range tests of \<open>Util.h\<close>.\<close>

definition chars_in :: "u32 \<Rightarrow> u32 \<Rightarrow> u32 \<Rightarrow> bool" where
  "chars_in lo hi c \<longleftrightarrow> lo \<le> c \<and> c \<le> hi"

definition isBasicLatinCharacter :: "u32 \<Rightarrow> bool" where
  "isBasicLatinCharacter c \<longleftrightarrow> chars_in 0x61 0x7A c \<or> chars_in 0x41 0x5A c"

definition isExtendedLatinCharacter :: "u32 \<Rightarrow> bool" where
  "isExtendedLatinCharacter c \<longleftrightarrow>
     isBasicLatinCharacter c \<or> chars_in 0x00C0 0x00D6 c \<or> chars_in 0x00D8 0x00DE c \<or> c = 0x00DF \<or>
     chars_in 0x00E0 0x00F6 c \<or> chars_in 0x00F8 0x00FE c \<or> chars_in 0x0100 0x012F c \<or> c = 0x1E9E"

definition isCyrillicCharacter :: "u32 \<Rightarrow> bool" where
  "isCyrillicCharacter c \<longleftrightarrow> chars_in 0x0410 0x044F c \<or> c = 0x0401 \<or> c = 0x0451"

definition isEastAsianCharacter :: "u32 \<Rightarrow> bool" where
  "isEastAsianCharacter c \<longleftrightarrow>
     chars_in 0x1100 0x11F9 c \<or> chars_in 0x3041 0x30FF c \<or> chars_in 0x3131 0x318E c \<or>
     chars_in 0x31F0 0x31FF c \<or> chars_in 0x3400 0x4DB5 c \<or> chars_in 0x4E00 0x9FC3 c \<or>
     chars_in 0xAC00 0xD7A3 c \<or> chars_in 0xFF01 0xFFEE c"

definition isNumeric :: "u32 \<Rightarrow> bool" where
  "isNumeric c \<longleftrightarrow> chars_in 0x30 0x39 c"

definition isNumericOrSpace :: "u32 \<Rightarrow> bool" where
  "isNumericOrSpace c \<longleftrightarrow> isNumeric c \<or> c = 0x20"

text \<open>The four string tests are one loop, over the character test it is written with.\<close>

definition is_string_of :: "(u32 \<Rightarrow> bool) \<Rightarrow> wstring \<Rightarrow> bool \<Rightarrow> bool" where
  "is_string_of is_char wstr numericOrSpace \<longleftrightarrow>
     list_all (\<lambda>c. is_char c \<or> (numericOrSpace \<and> isNumericOrSpace c)) wstr"

definition isBasicLatinString :: "wstring \<Rightarrow> bool \<Rightarrow> bool" where
  "isBasicLatinString = is_string_of isBasicLatinCharacter"

definition isExtendedLatinString :: "wstring \<Rightarrow> bool \<Rightarrow> bool" where
  "isExtendedLatinString = is_string_of isExtendedLatinCharacter"

definition isCyrillicString :: "wstring \<Rightarrow> bool \<Rightarrow> bool" where
  "isCyrillicString = is_string_of isCyrillicCharacter"

definition isEastAsianString :: "wstring \<Rightarrow> bool \<Rightarrow> bool" where
  "isEastAsianString = is_string_of isEastAsianCharacter"

text \<open>\<open>uint16(wchar)\<close>, promoted to \<open>int\<close> for the arithmetic and cast back to \<open>wchar_t\<close>.\<close>

definition uint16_of :: "u32 \<Rightarrow> u32" where
  "uint16_of c = ucast (ucast c :: u16)"

definition wcharToUpper :: "u32 \<Rightarrow> u32" where
  "wcharToUpper c =
     (if chars_in 0x61 0x7A c then uint16_of c - 0x20
      else if c = 0x00DF then 0x1E9E
      else if chars_in 0x00E0 0x00F6 c then uint16_of c - 0x20
      else if chars_in 0x00F8 0x00FE c then uint16_of c - 0x20
      else if chars_in 0x0101 0x012F c \<and> c mod 2 = 1 then uint16_of c - 1
      else if chars_in 0x0430 0x044F c then uint16_of c - 0x20
      else if c = 0x0451 then 0x0401
      else c)"

definition wcharToLower :: "u32 \<Rightarrow> u32" where
  "wcharToLower c =
     (if chars_in 0x41 0x5A c then uint16_of c + 0x20
      else if chars_in 0x00C0 0x00D6 c then uint16_of c + 0x20
      else if chars_in 0x00D8 0x00DE c then uint16_of c + 0x20
      else if chars_in 0x0100 0x012E c \<and> c mod 2 = 0 then uint16_of c + 1
      else if c = 0x1E9E then 0x00DF
      else if c = 0x0401 then 0x0451
      else if chars_in 0x0410 0x042F c then uint16_of c + 0x20
      else c)"

definition wstrToLower :: "wstring \<Rightarrow> wstring" where
  "wstrToLower str = map wcharToLower str"

section \<open>Player names\<close>

text \<open>\<open>normalizePlayerName\<close>: the flag it returns and the name it leaves behind.\<close>

definition normalizePlayerName :: "bytes \<Rightarrow> bool \<times> bytes" where
  "normalizePlayerName name =
     (if name = [] then (False, name)
      else case Utf8toWStr name of
        (False, _) \<Rightarrow> (False, name)
      | (True, tmp) \<Rightarrow>
          let tmp = wstrToLower tmp;
              tmp = (if tmp \<noteq> [] then tmp[0 := wcharToUpper (tmp ! 0)] else tmp)
          in WStrToUtf8 tmp)"

text \<open>
  What \<open>CheckPlayerName\<close> asks of the world: three configuration values and the compiled
  regular expressions of the \<open>NamesProfane\<close> and \<open>NamesReserved\<close> stores, each given by what
  it matches.
\<close>

record name_config =
  CONFIG_REALM_ZONE :: nat
  CONFIG_MIN_PLAYER_NAME :: nat
  CONFIG_STRICT_PLAYER_NAMES :: u32
  NamesProfaneValidators :: "nat \<Rightarrow> (wstring \<Rightarrow> bool) list"
  NamesReservedValidators :: "nat \<Rightarrow> (wstring \<Rightarrow> bool) list"

definition TOTAL_LOCALES :: nat where "TOTAL_LOCALES = 9"
definition MAX_PLAYER_NAME :: nat where "MAX_PLAYER_NAME = 12"

datatype response_code = RESPONSE_FAILURE | CHAR_NAME_SUCCESS | CHAR_NAME_INVALID_CHARACTER
  | CHAR_NAME_TOO_LONG | CHAR_NAME_TOO_SHORT | CHAR_NAME_MIXED_LANGUAGES
  | CHAR_NAME_THREE_CONSECUTIVE | CHAR_NAME_PROFANE | CHAR_NAME_RESERVED

definition LT_BASIC_LATIN :: u32 where "LT_BASIC_LATIN = 0x0000"
definition LT_EXTENDEN_LATIN :: u32 where "LT_EXTENDEN_LATIN = 0x0001"
definition LT_CYRILLIC :: u32 where "LT_CYRILLIC = 0x0002"
definition LT_EAST_ASIA :: u32 where "LT_EAST_ASIA = 0x0004"
definition LT_ANY :: u32 where "LT_ANY = 0xFFFF"

definition GetRealmLanguageType :: "name_config \<Rightarrow> bool \<Rightarrow> u32" where
  "GetRealmLanguageType cfg create =
     (let zone = CONFIG_REALM_ZONE cfg in
      if zone \<in> set [0, 1, 26, 28] then LT_ANY
      else if zone \<in> set [2, 3, 4, 8, 9, 10, 11] then LT_EXTENDEN_LATIN
      else if zone \<in> set [6, 14, 16] then LT_EAST_ASIA
      else if zone = 12 then LT_CYRILLIC
      else if create then LT_BASIC_LATIN else LT_ANY)"

definition isValidString :: "name_config \<Rightarrow> wstring \<Rightarrow> u32 \<Rightarrow> bool \<Rightarrow> bool \<Rightarrow> bool" where
  "isValidString cfg wstr strictMask numericOrSpace create =
     (if strictMask = 0 then
        isExtendedLatinString wstr numericOrSpace \<or> isCyrillicString wstr numericOrSpace
        \<or> isEastAsianString wstr numericOrSpace
      else
        strictMask AND 2 \<noteq> 0 \<and>
          (let lt = GetRealmLanguageType cfg create in
           lt AND LT_EXTENDEN_LATIN \<noteq> 0 \<and> isExtendedLatinString wstr numericOrSpace \<or>
           lt AND LT_CYRILLIC \<noteq> 0 \<and> isCyrillicString wstr numericOrSpace \<or>
           lt AND LT_EAST_ASIA \<noteq> 0 \<and> isEastAsianString wstr numericOrSpace)
        \<or> strictMask AND 1 \<noteq> 0 \<and> isBasicLatinString wstr numericOrSpace)"

fun three_consecutive :: "wstring \<Rightarrow> bool" where
  "three_consecutive (a # b # c # cs) \<longleftrightarrow> c = b \<and> c = a \<or> three_consecutive (b # c # cs)"
| "three_consecutive _ \<longleftrightarrow> False"

definition ValidateName :: "name_config \<Rightarrow> wstring \<Rightarrow> nat \<Rightarrow> response_code" where
  "ValidateName cfg name locale =
     (if TOTAL_LOCALES \<le> locale then RESPONSE_FAILURE
      else if list_ex (\<lambda>regex. regex name) (NamesProfaneValidators cfg locale) then CHAR_NAME_PROFANE
      else if list_ex (\<lambda>regex. regex name) (NamesReservedValidators cfg locale) then CHAR_NAME_RESERVED
      else CHAR_NAME_SUCCESS)"

definition CheckPlayerName :: "name_config \<Rightarrow> bytes \<Rightarrow> nat \<Rightarrow> bool \<Rightarrow> response_code" where
  "CheckPlayerName cfg name locale create =
     (case Utf8toWStr name of
        (False, _) \<Rightarrow> CHAR_NAME_INVALID_CHARACTER
      | (True, wname) \<Rightarrow>
          if MAX_PLAYER_NAME < length wname then CHAR_NAME_TOO_LONG
          else if length wname < CONFIG_MIN_PLAYER_NAME cfg then CHAR_NAME_TOO_SHORT
          else if \<not> isValidString cfg wname (CONFIG_STRICT_PLAYER_NAMES cfg) False create
            then CHAR_NAME_MIXED_LANGUAGES
          else if three_consecutive (wstrToLower wname) then CHAR_NAME_THREE_CONSECUTIVE
          else ValidateName cfg (wstrToLower wname) locale)"

definition IsReservedName :: "(wstring \<Rightarrow> bool) \<Rightarrow> bytes \<Rightarrow> bool" where
  "IsReservedName reservedNamesStore name =
     (case Utf8toWStr name of (False, _) \<Rightarrow> False | (True, wstr) \<Rightarrow> reservedNamesStore (wstrToLower wstr))"

section \<open>Whole strings\<close>

definition encode_utf8 :: "u32 list \<Rightarrow> bytes" where
  "encode_utf8 cps = concat (map octets cps)"

definition encode_utf16 :: "u32 list \<Rightarrow> wstring" where
  "encode_utf16 cps = concat (map utf16_units cps)"

lemma encode_simps [simp]:
  "encode_utf8 [] = []" "encode_utf8 (cp # cps) = octets cp @ encode_utf8 cps"
  "encode_utf16 [] = []" "encode_utf16 (cp # cps) = utf16_units cp @ encode_utf16 cps"
  by (simp_all add: encode_utf8_def encode_utf16_def)

lemma encode_utf8_append [simp]: "encode_utf8 (a @ b) = encode_utf8 a @ encode_utf8 b"
  by (simp add: encode_utf8_def)

lemma encode_empty [simp]: "encode_utf8 cps = [] \<longleftrightarrow> cps = []"
  by (cases cps) simp_all

abbreviation valid_cps :: "u32 list \<Rightarrow> bool" where
  "valid_cps \<equiv> list_all is_code_point_valid"

declare find_invalid.simps [simp del] utf8_distance.simps [simp del] utf8to16.simps [simp del]

lemma scan_empty [simp]:
  "find_invalid [] = []" "utf8_distance [] n = Inr n" "utf8to16 [] r = Inr r"
  by (simp_all add: find_invalid.simps utf8_distance.simps utf8to16.simps)

lemma scan_step [simp]:
  assumes "is_code_point_valid cp"
  shows "find_invalid (octets cp @ s) = find_invalid s"
    "utf8_distance (octets cp @ s) n = utf8_distance s (Suc n)"
    "utf8to16 (octets cp @ s) r = utf8to16 s (r @ utf16_units cp)"
proof -
  have "utf8_next (octets cp @ s) = Inr (cp, s)" using assms by (simp add: utf8_next_iff)
  then show "utf8_distance (octets cp @ s) n = utf8_distance s (Suc n)"
    "utf8to16 (octets cp @ s) r = utf8to16 s (r @ utf16_units cp)"
    by (simp_all add: utf8_distance.simps [of "octets cp @ s"] utf8to16.simps [of "octets cp @ s"])
  show "find_invalid (octets cp @ s) = find_invalid s"
    by (simp add: find_invalid.simps [of "octets cp @ s"] decode_octets [OF assms])
qed

lemma scan_prefix [simp]:
  assumes "valid_cps cps"
  shows "find_invalid (encode_utf8 cps @ s) = find_invalid s"
    "utf8_distance (encode_utf8 cps @ s) n = utf8_distance s (n + length cps)"
    "utf8to16 (encode_utf8 cps @ s) r = utf8to16 s (r @ encode_utf16 cps)"
  using assms by (induction cps arbitrary: n r) simp_all

lemma scan_valid [simp]:
  assumes "valid_cps cps"
  shows "find_invalid (encode_utf8 cps) = []" "utf8_distance (encode_utf8 cps) n = Inr (n + length cps)"
    "utf8to16 (encode_utf8 cps) r = Inr (r @ encode_utf16 cps)"
  using scan_prefix [OF assms, of "[]"] by simp_all

text \<open>Every string is a valid one, or a valid one in front of a sequence that is not.\<close>

lemma string_cases:
  obtains (valid) cps where "valid_cps cps" "s = encode_utf8 cps"
  | (broken) cps rest e where "valid_cps cps" "s = encode_utf8 cps @ rest" "rest \<noteq> []" "utf8_next rest = Inl e"
proof -
  have "(\<exists>cps. valid_cps cps \<and> s = encode_utf8 cps) \<or>
    (\<exists>cps rest e. valid_cps cps \<and> s = encode_utf8 cps @ rest \<and> rest \<noteq> [] \<and> utf8_next rest = Inl e)"
  proof (induction s rule: length_induct)
    case (1 s)
    show ?case
    proof (cases "utf8_next s")
      case (Inl e)
      then show ?thesis by (cases "s = []") (auto intro: exI [of _ "[]"])
    next
      case (Inr p)
      then obtain cp s' where n: "utf8_next s = Inr (cp, s')" by (cases p) auto
      then have s: "is_code_point_valid cp" "s = octets cp @ s'" by (simp_all add: utf8_next_iff)
      from 1 utf8_next_shorter [OF n] consider
          cps where "valid_cps cps" "s' = encode_utf8 cps"
        | cps rest e where "valid_cps cps" "s' = encode_utf8 cps @ rest" "rest \<noteq> []" "utf8_next rest = Inl e"
        by blast
      then show ?thesis
      proof cases
        case (1 cps)
        then show ?thesis using s by (intro disjI1 exI [of _ "cp # cps"]) simp
      next
        case (2 cps rest e)
        then show ?thesis using s by (intro disjI2 exI [of _ "cp # cps"] exI [of _ rest] exI [of _ e]) simp
      qed
    qed
  qed
  then show ?thesis using that by blast
qed

lemma scan_broken [simp]:
  assumes "rest \<noteq> []" "utf8_next rest = Inl e"
  shows "utf8_distance rest n = Inl e" "utf8to16 rest r = Inl e" "find_invalid rest \<noteq> []"
proof -
  show "utf8_distance rest n = Inl e" "utf8to16 rest r = Inl e"
    using assms by (simp_all add: utf8_distance.simps [of rest] utf8to16.simps [of rest])
  obtain err it' cp where v: "validate_next rest 0 = (err, it', cp)" by (cases "validate_next rest 0")
  with assms(2) have "err \<noteq> UTF8_OK" by (auto simp: utf8_next_def)
  moreover from this v have "it' = rest"
    by (auto simp: validate_next_def Let_def split: list.splits if_splits prod.splits)
  ultimately show "find_invalid rest \<noteq> []" using v assms(1) by (simp add: find_invalid.simps [of rest])
qed

lemma valid_string_iff: "is_valid s \<longleftrightarrow> (\<exists>cps. valid_cps cps \<and> s = encode_utf8 cps)"
proof (cases s rule: string_cases)
  case (broken cps rest e)
  then have "\<not> is_valid s" by (simp add: is_valid_def)
  then show ?thesis by (auto simp: is_valid_def)
qed (auto simp: is_valid_def)

lemma decoded:
  "utf8_distance s n = Inr k \<Longrightarrow> \<exists>cps. valid_cps cps \<and> s = encode_utf8 cps \<and> k = n + length cps"
  "utf8to16 s r = Inr w \<Longrightarrow> \<exists>cps. valid_cps cps \<and> s = encode_utf8 cps \<and> w = r @ encode_utf16 cps"
  by (cases s rule: string_cases; force)+

section \<open>UTF-16\<close>

lemma u16_take: "(ucast (ucast w :: u16) :: u32) = take_bit 16 w"
  by (rule bit_word_eqI) (auto simp: bit_simps)

lemma mask16_take: "mask16 w = take_bit 16 w"
  by (rule bit_word_eqI) (auto simp: mask16_def masks(4) bit_simps)

lemma wide_units:
  assumes "0xffff < cp" "is_code_point_valid cp"
  obtains hi lo where "utf16_units cp = [hi, lo]" "mask16 hi = hi" "mask16 lo = lo"
    "is_lead_surrogate hi" "is_trail_surrogate lo" "push_bit 10 hi + lo + SURROGATE_OFFSET = cp"
proof -
  let ?hi = "drop_bit 10 cp + LEAD_OFFSET" and ?lo = "(cp AND 0x3ff) + TRAIL_SURROGATE_MIN"
  have b: "65536 \<le> unat cp" "unat cp \<le> 1114111"
    using assms by (simp_all add: is_code_point_valid_def word_le_nat_alt word_less_nat_alt)
  have d: "unat (drop_bit 10 cp) = unat cp div 1024" by (simp only: unat_drop) simp
  have q: "64 \<le> unat cp div 1024" "unat cp div 1024 \<le> 1087" using b by linarith+
  have h: "unat ?hi = unat cp div 1024 + 55232"
    using q by (simp add: unat_word_ariths LEAD_OFFSET_def d)
  have l: "unat ?lo = unat cp mod 1024 + 56320"
    by (simp add: unat_word_ariths TRAIL_SURROGATE_MIN_def masks unat_and_mask)
  have t: "take_bit 16 ?hi = ?hi" "take_bit 16 ?lo = ?lo"
    by (rule take_bit_small; use h l q in simp)+
  have "push_bit 10 (drop_bit 10 cp) + take_bit 10 cp = cp"
    using bits_ident [of 10 cp] by simp
  moreover have wrap: "(a :: u32) + (b + 4294967296) = a + b" for a b
    by (simp add: word_unat_eq_iff unat_word_ariths mod_simps)
  ultimately have "push_bit 10 ?hi + ?lo + SURROGATE_OFFSET = cp"
    by (simp add: wrap push_bit_eq_mult LEAD_OFFSET_def TRAIL_SURROGATE_MIN_def SURROGATE_OFFSET_def
        take_bit_eq_mask masks algebra_simps)
  moreover have "is_lead_surrogate ?hi" "is_trail_surrogate ?lo"
    using h l q by (simp_all add: is_lead_surrogate_def is_trail_surrogate_def word_le_nat_alt)
  ultimately show ?thesis
    using that [of ?hi ?lo] assms t by (simp add: utf16_units_def u16_take mask16_take)
qed

lemma narrow_unit:
  assumes "\<not> 0xffff < cp" "is_code_point_valid cp"
  shows "utf16_units cp = [cp]" "mask16 cp = cp" "\<not> is_lead_surrogate cp" "\<not> is_trail_surrogate cp"
proof -
  have "unat cp \<le> 65535" using assms(1) by (simp add: word_le_nat_alt word_less_nat_alt)
  then have "take_bit 16 cp = cp" by (intro take_bit_small) simp
  then show "utf16_units cp = [cp]" "mask16 cp = cp"
    using assms(1) by (simp_all add: utf16_units_def u16_take mask16_take)
  show "\<not> is_lead_surrogate cp" "\<not> is_trail_surrogate cp"
    using assms(2) by (auto simp: is_code_point_valid_def is_surrogate_def is_lead_surrogate_def
      is_trail_surrogate_def word_le_nat_alt)
qed

lemma utf16to8_step [simp]:
  assumes "is_code_point_valid cp"
  shows "utf16to8 (utf16_units cp @ w) r = utf16to8 w (r @ octets cp)"
proof (cases "0xffff < cp")
  case True
  obtain hi lo where "utf16_units cp = [hi, lo]" "mask16 hi = hi" "mask16 lo = lo"
    "is_lead_surrogate hi" "is_trail_surrogate lo" and cp: "push_bit 10 hi + lo + SURROGATE_OFFSET = cp"
    by (rule wide_units [OF True assms])
  then show ?thesis using assms by (simp add: Let_def cp utf8_append_def)
next
  case False
  from narrow_unit [OF this assms] assms show ?thesis by (simp add: utf8_append_def)
qed

lemma utf16to8_encode [simp]: "valid_cps cps \<Longrightarrow> utf16to8 (encode_utf16 cps) r = Inr (r @ encode_utf8 cps)"
  by (induction cps arbitrary: r) simp_all

lemma encode_utf16_append [simp]: "encode_utf16 (a @ b) = encode_utf16 a @ encode_utf16 b"
  by (simp add: encode_utf16_def)

lemma utf16_narrow:
  assumes "valid_cps cps" "list_all (\<lambda>cp. \<not> 0xffff < cp) cps"
  shows "encode_utf16 cps = cps"
  using assms by (induction cps) (simp_all add: narrow_unit)

lemma utf16_length:
  "valid_cps cps \<Longrightarrow> length cps \<le> length (encode_utf16 cps)"
  "valid_cps cps \<Longrightarrow> \<not> list_all (\<lambda>cp. \<not> 0xffff < cp) cps \<Longrightarrow> length cps < length (encode_utf16 cps)"
proof -
  have u: "1 \<le> length (utf16_units cp)" "0xffff < cp \<Longrightarrow> length (utf16_units cp) = 2" for cp
    by (simp_all add: utf16_units_def)
  show "length cps \<le> length (encode_utf16 cps)" for cps
  proof (induction cps)
    case (Cons cp cps)
    with u(1) [of cp] show ?case by (simp del: One_nat_def)
  qed simp
  note le = this
  show "\<not> list_all (\<lambda>cp. \<not> 0xffff < cp) cps \<Longrightarrow> length cps < length (encode_utf16 cps)"
  proof (induction cps)
    case (Cons cp cps)
    show ?case
    proof (cases "0xffff < cp")
      case True
      then show ?thesis using u(2) [OF True] le [of cps] by simp
    next
      case False
      then have "length cps < length (encode_utf16 cps)" using Cons by simp
      then show ?thesis using u(1) [of cp] by simp
    qed
  qed simp
qed

end
