(* ===== verification/Byte_Buffer.thy ===== *)
theory Byte_Buffer
  imports Unicode_Text
begin

text \<open>
  \<open>ByteBuffer\<close> (\<open>src/server/shared/Packets/ByteBuffer.h\<close> and \<open>.cpp\<close>), the buffer all packets
  are written into and read from, on a little-endian host, where \<open>EndianConvert\<close> is the
  identity. The positions are \<open>size_t\<close>, 64-bit words that wrap around, and every access
  behind the end of the vector the code does not check for is the error \<open>OutOfBounds\<close>. The
  capacity of the vector is not modelled.
\<close>

section \<open>State and errors\<close>

record bytebuf =
  b_rpos :: u64
  b_wpos :: u64
  b_storage :: bytes

text \<open>
  The exceptions, with the arguments their constructors are called with, in the order of
  the constructors' parameters; \<open>AssertionFailed\<close> is a failed \<open>ASSERT\<close>.
\<close>

datatype bb_error =
    PositionException (pe_add: bool) (pe_pos: u64) (pe_size: u64) (pe_valueSize: u64)
  | InvalidValueException string string
  | BaseException
  | AssertionFailed
  | OutOfBounds

text \<open>
  The numbers in the text of a position exception: the size of the value, the position and
  the size of the buffer it reports.
\<close>

definition PositionException_message :: "bb_error \<Rightarrow> (u64 \<times> u64 \<times> u64) option" where
  "PositionException_message e =
     (case e of PositionException add pos sz valueSize \<Rightarrow> Some (valueSize, pos, sz) | _ \<Rightarrow> None)"

type_synonym 'a result = "bb_error + 'a"

definition bind_result :: "'a result \<Rightarrow> ('a \<Rightarrow> 'b result) \<Rightarrow> 'b result" where
  "bind_result r f = (case r of Inl e \<Rightarrow> Inl e | Inr x \<Rightarrow> f x)"

lemma bind_result_simps [simp]:
  "bind_result (Inl e) f = Inl e" "bind_result (Inr x) f = f x"
  by (simp_all add: bind_result_def)

lemma bind_result_ok: "bind_result r f = Inr y \<longleftrightarrow> (\<exists>x. r = Inr x \<and> f x = Inr y)"
  by (cases r) simp_all

text \<open>A reader takes a value off the buffer.\<close>

type_synonym 'a reader = "bytebuf \<Rightarrow> ('a \<times> bytebuf) result"
type_synonym writer = "bytebuf \<Rightarrow> bytebuf result"

definition read_then :: "'a reader \<Rightarrow> ('a \<Rightarrow> 'b reader) \<Rightarrow> 'b reader" where
  "read_then r f buf = bind_result (r buf) (\<lambda>(x, buf'). f x buf')"

definition read_map :: "('a \<Rightarrow> 'b) \<Rightarrow> 'a reader \<Rightarrow> 'b reader" where
  "read_map f r buf = bind_result (r buf) (\<lambda>(x, buf'). Inr (f x, buf'))"

definition write_then :: "writer \<Rightarrow> writer \<Rightarrow> writer" where
  "write_then w v buf = bind_result (w buf) v"

definition new_ByteBuffer :: bytebuf where
  "new_ByteBuffer = \<lparr>b_rpos = 0, b_wpos = 0, b_storage = []\<rparr>"

definition bb_size :: "bytebuf \<Rightarrow> u64" where
  "bb_size buf = of_nat (length (b_storage buf))"

section \<open>Positions\<close>

definition set_rpos :: "u64 \<Rightarrow> bytebuf \<Rightarrow> bytebuf" where
  "set_rpos p buf = buf\<lparr>b_rpos := p\<rparr>"

definition set_wpos :: "u64 \<Rightarrow> bytebuf \<Rightarrow> bytebuf" where
  "set_wpos p buf = buf\<lparr>b_wpos := p\<rparr>"

definition rfinish :: "bytebuf \<Rightarrow> bytebuf" where
  "rfinish buf = buf\<lparr>b_rpos := b_wpos buf\<rparr>"

definition bb_clear :: "bytebuf \<Rightarrow> bytebuf" where
  "bb_clear buf = buf\<lparr>b_rpos := 0, b_wpos := 0, b_storage := []\<rparr>"

definition resized :: "nat \<Rightarrow> bytes \<Rightarrow> bytes" where
  "resized n st = take n st @ replicate (n - length st) 0"

definition bb_resize :: "u64 \<Rightarrow> bytebuf \<Rightarrow> bytebuf" where
  "bb_resize newsize buf =
     (let st = resized (unat newsize) (b_storage buf) in
      buf\<lparr>b_storage := st, b_rpos := 0, b_wpos := of_nat (length st)\<rparr>)"

definition read_skip :: "u64 \<Rightarrow> bytebuf \<Rightarrow> bytebuf result" where
  "read_skip skip buf =
     (if b_rpos buf + skip > bb_size buf
      then Inl (PositionException False (b_rpos buf) skip (bb_size buf))
      else Inr (buf\<lparr>b_rpos := b_rpos buf + skip\<rparr>))"

definition bb_index :: "u64 \<Rightarrow> bytebuf \<Rightarrow> u8 result" where
  "bb_index pos buf =
     (if pos \<ge> bb_size buf then Inl (PositionException False pos 1 (bb_size buf))
      else Inr (b_storage buf ! unat pos))"

definition bb_contents :: "bytebuf \<Rightarrow> bytes result" where
  "bb_contents buf = (if b_storage buf = [] then Inl BaseException else Inr (b_storage buf))"

section \<open>Raw access\<close>

definition splice :: "nat \<Rightarrow> bytes \<Rightarrow> bytes \<Rightarrow> bytes" where
  "splice pos src st = take pos st @ src @ drop (pos + length src) st"

text \<open>\<open>std::memcpy\<close> to and from the storage.\<close>

definition copy_in :: "u64 \<Rightarrow> bytes \<Rightarrow> bytes \<Rightarrow> bytes result" where
  "copy_in pos src st =
     (if unat pos + length src \<le> length st then Inr (splice (unat pos) src st) else Inl OutOfBounds)"

definition copy_out :: "u64 \<Rightarrow> nat \<Rightarrow> bytes \<Rightarrow> bytes result" where
  "copy_out pos n st =
     (if unat pos + n \<le> length st then Inr (take n (drop (unat pos) st)) else Inl OutOfBounds)"

definition bb_append :: "bytes \<Rightarrow> writer" where
  "bb_append src buf =
     (if src = [] then Inl AssertionFailed
      else if \<not> bb_size buf < 10000000 then Inl AssertionFailed
      else
        let newSize = b_wpos buf + of_nat (length src);
            st = (if bb_size buf < newSize then resized (unat newSize) (b_storage buf) else b_storage buf)
        in bind_result (copy_in (b_wpos buf) src st) (\<lambda>st'. Inr (buf\<lparr>b_storage := st', b_wpos := newSize\<rparr>)))"

definition bb_put :: "u64 \<Rightarrow> bytes \<Rightarrow> writer" where
  "bb_put pos src buf =
     (if \<not> pos + of_nat (length src) \<le> bb_size buf then Inl AssertionFailed
      else if src = [] then Inl AssertionFailed
      else bind_result (copy_in pos src (b_storage buf)) (\<lambda>st'. Inr (buf\<lparr>b_storage := st'\<rparr>)))"

definition append_buffer :: "bytebuf \<Rightarrow> writer" where
  "append_buffer src buf =
     (if b_wpos src \<noteq> 0
      then bind_result (bb_contents src) (\<lambda>c.
             if unat (b_wpos src) \<le> length c then bb_append (take (unat (b_wpos src)) c) buf
             else Inl OutOfBounds)
      else Inr buf)"

text \<open>\<open>read<T>(pos)\<close> for a \<open>T\<close> of \<open>n\<close> bytes, \<open>read<T>()\<close>, and \<open>read(dest, len)\<close>.\<close>

definition read_at :: "nat \<Rightarrow> u64 \<Rightarrow> bytebuf \<Rightarrow> bytes result" where
  "read_at n pos buf =
     (if pos + of_nat n > bb_size buf
      then Inl (PositionException False pos (of_nat n) (bb_size buf))
      else copy_out pos n (b_storage buf))"

definition bb_read :: "nat \<Rightarrow> bytes reader" where
  "bb_read n buf =
     bind_result (read_at n (b_rpos buf) buf) (\<lambda>r. Inr (r, buf\<lparr>b_rpos := b_rpos buf + of_nat n\<rparr>))"

definition read_raw :: "u64 \<Rightarrow> bytes reader" where
  "read_raw len buf =
     (if b_rpos buf + len > bb_size buf
      then Inl (PositionException False (b_rpos buf) len (bb_size buf))
      else bind_result (copy_out (b_rpos buf) (unat len) (b_storage buf)) (\<lambda>r.
             Inr (r, buf\<lparr>b_rpos := b_rpos buf + len\<rparr>)))"

section \<open>Values\<close>

text \<open>The bytes of a fundamental type in memory, least significant first.\<close>

definition to_bytes :: "'a::len word \<Rightarrow> bytes" where
  "to_bytes v = map (\<lambda>i. ucast (drop_bit (8 * i) v)) [0..<LENGTH('a) div 8]"

fun of_bytes :: "bytes \<Rightarrow> 'a::len word" where
  "of_bytes [] = 0"
| "of_bytes (b # bs) = ucast b OR push_bit 8 (of_bytes bs)"

text \<open>
  \<open>operator<<\<close> and \<open>operator>>\<close> for the unsigned and signed integers of 8, 16, 32 and 64 bits
  (a signed one is the word of its two's complement).
\<close>

definition put_word :: "'a::len word \<Rightarrow> writer" where
  "put_word v = bb_append (to_bytes v)"

definition get_word :: "('a::len word) reader" where
  "get_word = read_map of_bytes (bb_read (LENGTH('a) div 8))"

definition put_bool :: "bool \<Rightarrow> writer" where
  "put_bool value = put_word (if value then 1 else 0 :: u8)"

definition get_bool :: "bool reader" where
  "get_bool = read_map (\<lambda>c :: u8. 0 < sint c) get_word"

text \<open>Floating point values by their bit patterns; infinities and NaNs have all exponent bits set.\<close>

definition float_isfinite :: "u32 \<Rightarrow> bool" where
  "float_isfinite v \<longleftrightarrow> drop_bit 23 v AND 0xff \<noteq> 0xff"

definition double_isfinite :: "u64 \<Rightarrow> bool" where
  "double_isfinite v \<longleftrightarrow> drop_bit 52 v AND 0x7ff \<noteq> 0x7ff"

definition get_float :: "u32 reader" where
  "get_float = read_then get_word (\<lambda>value buf.
     if \<not> float_isfinite value then Inl (InvalidValueException ''float'' ''infinity'') else Inr (value, buf))"

definition get_double :: "u64 reader" where
  "get_double = read_then get_word (\<lambda>value buf.
     if \<not> double_isfinite value then Inl (InvalidValueException ''double'' ''infinity'') else Inr (value, buf))"

definition put_cstring :: "bytes \<Rightarrow> writer" where
  "put_cstring s = write_then (\<lambda>buf. if s \<noteq> [] then bb_append s buf else Inr buf) (put_word (0 :: u8))"

text \<open>
  The loop of \<open>ReadCString\<close> reads at most to the end of the buffer; its fuel is the number
  of bytes of the storage, which bounds its rounds.
\<close>

fun cstring_loop :: "nat \<Rightarrow> bytes \<Rightarrow> bytes reader" where
  "cstring_loop 0 v buf = Inr (v, buf)"
| "cstring_loop (Suc n) v buf =
     (if b_rpos buf < bb_size buf then
        bind_result (get_word buf) (\<lambda>(c :: u8, buf').
          if c = 0 then Inr (v, buf') else cstring_loop n (v @ [c]) buf')
      else Inr (v, buf))"

definition ReadCString :: "bool \<Rightarrow> bytes reader" where
  "ReadCString requireValidUtf8 buf =
     bind_result (cstring_loop (Suc (length (b_storage buf))) [] buf) (\<lambda>(v, buf').
       if requireValidUtf8 \<and> \<not> is_valid v
       then Inl (InvalidValueException ''string'' (map (\<lambda>c. char_of (unat c)) v))
       else Inr (v, buf'))"

definition get_cstring :: "bytes reader" where
  "get_cstring = ReadCString True"

section \<open>Packed guids\<close>

function pack_loop :: "nat \<Rightarrow> u64 \<Rightarrow> u8 \<Rightarrow> bytes \<Rightarrow> u8 \<times> bytes" where
  "pack_loop i guid mark out =
     (if guid = 0 then (mark, out)
      else
        let (mark', out') =
              (if guid AND 0xFF \<noteq> 0 then (mark OR push_bit i 1, out @ [ucast (guid AND 0xFF)]) else (mark, out))
        in pack_loop (i + 1) (drop_bit 8 guid) mark' out')"
  by pat_completeness auto

lemma drop_smaller: "(guid :: u64) \<noteq> 0 \<Longrightarrow> unat (drop_bit 8 guid) < unat guid"
  by (simp only: unat_drop) (simp add: unat_gt_0)

termination pack_loop
  by (relation "measure (\<lambda>(i, guid, _). unat guid)") (use drop_smaller in auto)

definition appendPackGUID :: "u64 \<Rightarrow> writer" where
  "appendPackGUID guid = (case pack_loop 0 guid 0 [] of (mark, out) \<Rightarrow> bb_append (mark # out))"

fun unpack_loop :: "nat list \<Rightarrow> u8 \<Rightarrow> u64 \<Rightarrow> u64 reader" where
  "unpack_loop [] guidmark guid buf = Inr (guid, buf)"
| "unpack_loop (i # is) guidmark guid buf =
     (if guidmark AND push_bit i 1 \<noteq> 0 then
        if b_rpos buf + 1 > bb_size buf then Inl (PositionException False (b_rpos buf) 1 (bb_size buf))
        else bind_result (get_word buf) (\<lambda>(bit :: u8, buf').
               unpack_loop is guidmark (guid OR push_bit (i * 8) (ucast bit)) buf')
      else unpack_loop is guidmark guid buf)"

definition readPackGUID :: "u64 reader" where
  "readPackGUID buf =
     (if b_rpos buf + 1 > bb_size buf then Inl (PositionException False (b_rpos buf) 1 (bb_size buf))
      else bind_result (get_word buf) (\<lambda>(guidmark :: u8, buf'). unpack_loop [0..<8] guidmark 0 buf'))"

text \<open>
  The class \<open>PackedGuid\<close> of \<open>ObjectGuid.h\<close>, which keeps the packed form: its size and an array
  of 9 bytes, zeroed by the default constructor.
\<close>

record packed_guid =
  pg_packedSize :: u8
  pg_packedGuid :: bytes

definition new_PackedGuid :: packed_guid where
  "new_PackedGuid = \<lparr>pg_packedSize = 1, pg_packedGuid = replicate 9 0\<rparr>"

fun Set_loop :: "nat list \<Rightarrow> u64 \<Rightarrow> packed_guid \<Rightarrow> packed_guid result" where
  "Set_loop [] raw p = Inr p"
| "Set_loop (i # is) raw p =
     (let b = ucast (drop_bit (i * 8) raw AND 0xFF) :: u8;
          n = unat (pg_packedSize p)
      in if \<not> n < length (pg_packedGuid p) then Inl OutOfBounds
         else
           let p = p\<lparr>pg_packedGuid := (pg_packedGuid p)[n := b]\<rparr>;
               p = (if b \<noteq> 0
                    then p\<lparr>pg_packedGuid := (pg_packedGuid p)[0 := pg_packedGuid p ! 0 OR push_bit i 1],
                           pg_packedSize := pg_packedSize p + 1\<rparr>
                    else p)
           in Set_loop is raw p)"

definition PackedGuid_Set :: "u64 \<Rightarrow> packed_guid \<Rightarrow> packed_guid result" where
  "PackedGuid_Set guid p = Set_loop [0..<8] guid (p\<lparr>pg_packedSize := 1\<rparr>)"

definition put_PackedGuid :: "packed_guid \<Rightarrow> writer" where
  "put_PackedGuid p = bb_append (take (unat (pg_packedSize p)) (pg_packedGuid p))"

end
