(* ===== verification/Byte_Buffer_Codec.thy ===== *)
theory Byte_Buffer_Codec
  imports Byte_Buffer
begin

text \<open>
  The buffer as a queue of bytes, and its operators as codecs: the locale \<open>codec\<close> states what
  \<open>operator<<\<close> and \<open>operator>>\<close> of a type owe each other, is interpreted on every type the
  packets use, on lists of them and on packed guids, and gives the round trip of packets.
\<close>

section \<open>A byte queue\<close>

text \<open>
  The positions of a buffer that is written at its end: \<open>wpos\<close> is the size, and what is
  ahead of \<open>rpos\<close> is the queue of the bytes written and not read yet.
\<close>

definition buf_ok :: "bytebuf \<Rightarrow> bool" where
  "buf_ok buf \<longleftrightarrow> unat (b_wpos buf) = length (b_storage buf) \<and> unat (b_rpos buf) \<le> length (b_storage buf) \<and>
     length (b_storage buf) < 2 ^ 63"

definition unread :: "bytebuf \<Rightarrow> bytes" where
  "unread buf = drop (unat (b_rpos buf)) (b_storage buf)"

lemma unat_nat: "n < 2 ^ 64 \<Longrightarrow> unat (of_nat n :: u64) = n"
  by (simp add: unat_of_nat)

lemma unat_size [simp]: "buf_ok buf \<Longrightarrow> unat (bb_size buf) = length (b_storage buf)"
  by (simp add: buf_ok_def bb_size_def unat_nat)

lemma unat_plus64: "unat (a :: u64) + unat b < 2 ^ 64 \<Longrightarrow> unat (a + b) = unat a + unat b"
  by (simp add: unat_word_ariths)

lemma rpos_plus:
  "buf_ok buf \<Longrightarrow> n < 2 ^ 62 \<Longrightarrow> unat (b_rpos buf + of_nat n) = unat (b_rpos buf) + n"
  by (subst unat_plus64) (simp_all add: buf_ok_def unat_nat)

lemma bb_read_eq:
  assumes "buf_ok buf" "n < 2 ^ 62"
  shows "bb_read n buf =
     (if n \<le> length (unread buf) then Inr (take n (unread buf), buf\<lparr>b_rpos := b_rpos buf + of_nat n\<rparr>)
      else Inl (PositionException False (b_rpos buf) (of_nat n) (bb_size buf)))"
proof -
  have "b_rpos buf + of_nat n > bb_size buf \<longleftrightarrow> \<not> n \<le> length (unread buf)"
    using assms by (simp add: word_less_nat_alt rpos_plus unread_def buf_ok_def) linarith
  moreover have "unat (b_rpos buf) + n \<le> length (b_storage buf) \<longleftrightarrow> n \<le> length (unread buf)"
    using assms(1) by (auto simp: unread_def buf_ok_def)
  ultimately show ?thesis
    by (simp add: bb_read_def read_at_def copy_out_def unread_def)
qed

lemma advance:
  assumes "buf_ok buf" "n \<le> length (unread buf)" "n < 2 ^ 62"
  shows "buf_ok (buf\<lparr>b_rpos := b_rpos buf + of_nat n\<rparr>)"
    "unread (buf\<lparr>b_rpos := b_rpos buf + of_nat n\<rparr>) = drop n (unread buf)"
  using assms rpos_plus [OF assms(1,3)] by (auto simp: buf_ok_def unread_def add.commute)

lemma bb_append_eq:
  assumes "buf_ok buf" "src \<noteq> []" "length src < 2 ^ 62" "length (b_storage buf) < 10000000"
  shows "bb_append src buf =
    Inr (buf\<lparr>b_storage := b_storage buf @ src, b_wpos := b_wpos buf + of_nat (length src)\<rparr>)"
proof -
  let ?n = "b_wpos buf + of_nat (length src)"
  have n: "unat ?n = length (b_storage buf) + length src"
    using assms by (subst unat_plus64) (simp_all add: buf_ok_def unat_nat)
  have "bb_size buf < ?n" "bb_size buf < 10000000"
    using assms n by (simp_all add: word_less_nat_alt)
  then show ?thesis using assms n
    by (simp add: bb_append_def Let_def copy_in_def resized_def splice_def buf_ok_def)
qed

lemma append_ok:
  assumes "buf_ok buf" "length src < 2 ^ 62" "length (b_storage buf) < 10000000"
  shows "buf_ok (buf\<lparr>b_storage := b_storage buf @ src, b_wpos := b_wpos buf + of_nat (length src)\<rparr>)"
    "unread (buf\<lparr>b_storage := b_storage buf @ src, b_wpos := b_wpos buf + of_nat (length src)\<rparr>) = unread buf @ src"
proof -
  have n: "unat (b_wpos buf + of_nat (length src)) = length (b_storage buf) + length src"
    using assms by (subst unat_plus64) (simp_all add: buf_ok_def unat_nat)
  show "buf_ok (buf\<lparr>b_storage := b_storage buf @ src, b_wpos := b_wpos buf + of_nat (length src)\<rparr>)"
    using assms n by (simp add: buf_ok_def)
  show "unread (buf\<lparr>b_storage := b_storage buf @ src, b_wpos := b_wpos buf + of_nat (length src)\<rparr>) = unread buf @ src"
    using assms by (simp add: buf_ok_def unread_def)
qed

section \<open>Encodings\<close>

text \<open>
  \<open>writes w bs\<close>: the writer puts the bytes \<open>bs\<close> behind what is in the queue;
  \<open>reads r bs x\<close>: the reader takes exactly \<open>bs\<close> off its front and answers \<open>x\<close>.
\<close>

definition writes :: "writer \<Rightarrow> bytes \<Rightarrow> bool" where
  "writes w bs \<longleftrightarrow> (\<forall>buf. buf_ok buf \<and> length (b_storage buf) + length bs < 10000000 \<longrightarrow>
     (\<exists>buf'. w buf = Inr buf' \<and> buf_ok buf' \<and> b_storage buf' = b_storage buf @ bs \<and> b_rpos buf' = b_rpos buf))"

definition reads :: "'a reader \<Rightarrow> bytes \<Rightarrow> 'a \<Rightarrow> bool" where
  "reads r bs x \<longleftrightarrow> (\<forall>buf rest. buf_ok buf \<and> unread buf = bs @ rest \<longrightarrow>
     (\<exists>buf'. r buf = Inr (x, buf') \<and> buf_ok buf' \<and> b_storage buf' = b_storage buf \<and> unread buf' = rest))"

lemma writes_append: "src \<noteq> [] \<Longrightarrow> writes (bb_append src) src"
  unfolding writes_def
proof (intro allI impI)
  fix buf assume "src \<noteq> []" "buf_ok buf \<and> length (b_storage buf) + length src < 10000000"
  then show "\<exists>buf'. bb_append src buf = Inr buf' \<and> buf_ok buf' \<and> b_storage buf' = b_storage buf @ src
      \<and> b_rpos buf' = b_rpos buf"
    using append_ok(1) [of buf src] by (simp add: bb_append_eq)
qed

lemma writes_then: 
  assumes "writes w a" "writes v b"
  shows "writes (write_then w v) (a @ b)"
  unfolding writes_def
proof (intro allI impI)
  fix buf assume b: "buf_ok buf \<and> length (b_storage buf) + length (a @ b) < 10000000"
  with assms(1) obtain b1 where 1: "w buf = Inr b1" "buf_ok b1" "b_storage b1 = b_storage buf @ a"
    "b_rpos b1 = b_rpos buf" unfolding writes_def by fastforce
  with b have "buf_ok b1 \<and> length (b_storage b1) + length b < 10000000" by simp
  with assms(2) 1 show "\<exists>buf'. write_then w v buf = Inr buf' \<and> buf_ok buf' \<and>
      b_storage buf' = b_storage buf @ a @ b \<and> b_rpos buf' = b_rpos buf"
    unfolding writes_def write_then_def by fastforce
qed

lemma writes_none: "writes Inr []"
  by (simp add: writes_def)

lemma reads_raw:
  assumes "length bs < 2 ^ 62"
  shows "reads (bb_read (length bs)) bs bs"
  unfolding reads_def
proof (intro allI impI)
  fix buf rest assume b: "buf_ok buf \<and> unread buf = bs @ rest"
  then show "\<exists>buf'. bb_read (length bs) buf = Inr (bs, buf') \<and> buf_ok buf' \<and> b_storage buf' = b_storage buf
      \<and> unread buf' = rest"
    using advance [of buf "length bs"] assms by (simp add: bb_read_eq)
qed

lemma reads_map: "reads r bs x \<Longrightarrow> reads (read_map f r) bs (f x)"
  unfolding reads_def read_map_def by fastforce

lemma reads_then:
  assumes "reads r a x" "reads (f x) b y"
  shows "reads (read_then r f) (a @ b) y"
  unfolding reads_def
proof (intro allI impI)
  fix buf rest assume b: "buf_ok buf \<and> unread buf = (a @ b) @ rest"
  then have "buf_ok buf \<and> unread buf = a @ (b @ rest)" by simp
  with assms(1) obtain b1 where 1: "r buf = Inr (x, b1)" "buf_ok b1" "b_storage b1 = b_storage buf"
    "unread b1 = b @ rest" unfolding reads_def by blast
  with assms(2) show "\<exists>buf'. read_then r f buf = Inr (y, buf') \<and> buf_ok buf' \<and> b_storage buf' = b_storage buf
      \<and> unread buf' = rest"
    unfolding reads_def read_then_def by fastforce
qed

text \<open>
  The interface of a pair of operators: \<open>enc x\<close> are the bytes \<open>operator<<\<close> writes for a
  value, and \<open>operator>>\<close> reads every value with \<open>ok x\<close> back from them.
\<close>

locale codec =
  fixes put :: "'a \<Rightarrow> writer" and get :: "'a reader" and enc :: "'a \<Rightarrow> bytes" and ok :: "'a \<Rightarrow> bool"
  assumes put_writes: "writes (put x) (enc x)"
    and get_reads: "ok x \<Longrightarrow> reads get (enc x) x"
begin

lemma write_read:
  assumes "ok x" "buf_ok buf" "unread buf = []" "length (b_storage buf) + length (enc x) < 10000000"
  shows "\<exists>buf' buf''. put x buf = Inr buf' \<and> get buf' = Inr (x, buf'') \<and> unread buf'' = []"
proof -
  from put_writes [of x] assms obtain buf' where p: "put x buf = Inr buf'" "buf_ok buf'"
    "b_storage buf' = b_storage buf @ enc x" "b_rpos buf' = b_rpos buf" unfolding writes_def by blast
  have "unread buf' = enc x @ []" using p assms(2,3) by (simp add: unread_def buf_ok_def)
  with get_reads [OF assms(1)] p(2) have "\<exists>buf''. get buf' = Inr (x, buf'') \<and> unread buf'' = []"
    unfolding reads_def by blast
  with p show ?thesis by blast
qed

end

lemma bit_of_bytes: "bit (of_bytes bs :: 'a::len word) n \<longleftrightarrow>
   n < LENGTH('a) \<and> n div 8 < length bs \<and> bit (bs ! (n div 8)) (n mod 8)"
proof (induction bs arbitrary: n)
  case (Cons b bs)
  show ?case
  proof (cases "n < 8")
    case True
    then show ?thesis by (auto simp: bit_simps)
  next
    case False
    have "\<not> bit b n" using False bit_imp_le_length [of b n] by auto
    moreover have "n div 8 = Suc ((n - 8) div 8)" "(n - 8) mod 8 = n mod 8"
      using False by (simp_all add: le_div_geq le_mod_geq)
    ultimately show ?thesis using False Cons.IH [of "n - 8"] by (auto simp: bit_simps)
  qed
qed simp

lemma length_to_bytes [simp]: "length (to_bytes (v :: 'a::len word)) = LENGTH('a) div 8"
  by (simp add: to_bytes_def)

lemma of_to_bytes:
  assumes "8 dvd LENGTH('a::len)"
  shows "of_bytes (to_bytes v) = (v :: 'a word)"
proof (rule bit_word_eqI)
  fix n assume "n < LENGTH('a)"
  moreover from this assms have "n div 8 < LENGTH('a) div 8" by (auto elim!: dvdE)
  moreover have "8 * (n div 8) + n mod 8 = n" by simp
  ultimately show "bit (of_bytes (to_bytes v) :: 'a word) n = bit v n"
    by (simp add: bit_of_bytes to_bytes_def bit_simps del: mult_div_mod_eq)
qed

lemma word_codec:
  assumes "8 dvd LENGTH('a::len)" "LENGTH('a) < 2 ^ 60"
  shows "codec (put_word :: 'a word \<Rightarrow> writer) get_word to_bytes (\<lambda>_. True)"
proof
  fix v :: "'a word"
  have l: "0 < LENGTH('a) div 8" using assms(1) len_gt_0 [where 'a = 'a] by (auto elim!: dvdE intro: gr0I)
  then have "to_bytes v \<noteq> []" using length_to_bytes [of v] by (metis length_0_conv less_numeral_extra(3))
  then show "writes (put_word v) (to_bytes v)" unfolding put_word_def by (rule writes_append)
  have "reads (bb_read (length (to_bytes v))) (to_bytes v) (to_bytes v)"
    using assms(2) by (intro reads_raw) simp
  from reads_map [OF this, of "of_bytes :: bytes \<Rightarrow> 'a word"] show "reads get_word (to_bytes v) v"
    by (simp add: get_word_def of_to_bytes [OF assms(1)])
qed

interpretation u8c: codec "put_word :: u8 \<Rightarrow> writer" get_word to_bytes "\<lambda>_. True"
  by (rule word_codec) simp_all

interpretation u16c: codec "put_word :: u16 \<Rightarrow> writer" get_word to_bytes "\<lambda>_. True"
  by (rule word_codec) simp_all

interpretation u32c: codec "put_word :: u32 \<Rightarrow> writer" get_word to_bytes "\<lambda>_. True"
  by (rule word_codec) simp_all

interpretation u64c: codec "put_word :: u64 \<Rightarrow> writer" get_word to_bytes "\<lambda>_. True"
  by (rule word_codec) simp_all


text \<open>The other operators, on top of the integers.\<close>

interpretation boolc: codec put_bool get_bool "\<lambda>b. to_bytes (if b then 1 else 0 :: u8)" "\<lambda>_. True"
proof
  fix x :: bool
  show "writes (put_bool x) (to_bytes (if x then 1 else 0 :: u8))"
    using u8c.put_writes by (simp add: put_bool_def)
  have "reads get_bool (to_bytes (if x then 1 else 0 :: u8)) (0 < sint (if x then 1 else 0 :: u8))"
    unfolding get_bool_def by (rule reads_map [OF u8c.get_reads]) simp
  then show "reads get_bool (to_bytes (if x then 1 else 0 :: u8)) x"
    by (cases x) simp_all
qed

lemma reads_return:
  assumes "reads r bs x" "P x"
  shows "reads (read_then r (\<lambda>v buf. if \<not> P v then Inl e else Inr (v, buf))) bs x"
proof -
  have "reads (\<lambda>buf. if \<not> P x then Inl e else Inr (x, buf)) [] x"
    using assms(2) by (simp add: reads_def)
  with reads_then [of r bs x "\<lambda>v buf. if \<not> P v then Inl e else Inr (v, buf)" "[]" x] assms(1)
  show ?thesis by simp
qed

interpretation floatc: codec "put_word :: u32 \<Rightarrow> writer" get_float to_bytes float_isfinite
  by unfold_locales (use u32c.put_writes in \<open>auto simp: get_float_def intro: reads_return u32c.get_reads\<close>)

interpretation doublec: codec "put_word :: u64 \<Rightarrow> writer" get_double to_bytes double_isfinite
  by unfold_locales (use u64c.put_writes in \<open>auto simp: get_double_def intro: reads_return u64c.get_reads\<close>)

text \<open>Strings: no zero byte inside, and valid UTF-8.\<close>

definition string_ok :: "bytes \<Rightarrow> bool" where
  "string_ok s \<longleftrightarrow> 0 \<notin> set s \<and> is_valid s"

lemma byte_u8: "to_bytes (c :: u8) = [c]"
  by (simp add: to_bytes_def)

lemma unread_available:
  assumes "buf_ok buf"
  shows "b_rpos buf < bb_size buf \<longleftrightarrow> unread buf \<noteq> []"
  using assms by (auto simp: word_less_nat_alt unread_def buf_ok_def)

lemma read_u8:
  assumes "buf_ok buf" "unread buf = c # rest"
  obtains buf' where "get_word buf = Inr (c, buf')" "buf_ok buf'" "b_storage buf' = b_storage buf" "unread buf' = rest"
  using u8c.get_reads [of c] assms unfolding reads_def byte_u8 by fastforce

lemma cstring_reads:
  "0 \<notin> set s \<Longrightarrow> buf_ok buf \<Longrightarrow> unread buf = s @ 0 # rest \<Longrightarrow> length s < n \<Longrightarrow>
   \<exists>buf'. cstring_loop n v buf = Inr (v @ s, buf') \<and> buf_ok buf' \<and> b_storage buf' = b_storage buf \<and> unread buf' = rest"
proof (induction s arbitrary: n v buf)
  case Nil
  then obtain k where n: "n = Suc k" by (cases n) auto
  from read_u8 [OF Nil(2), of 0 rest] Nil(3) obtain buf' where
    "get_word buf = Inr (0 :: u8, buf')" "buf_ok buf'" "b_storage buf' = b_storage buf" "unread buf' = rest" by auto
  then show ?case using Nil(2,3) by (simp add: n unread_available)
next
  case (Cons c s)
  then obtain k where n: "n = Suc k" by (cases n) auto
  from read_u8 [OF Cons.prems(2), of c "s @ 0 # rest"] Cons.prems(3) obtain b1 where
    b1: "get_word buf = Inr (c, b1)" "buf_ok b1" "b_storage b1 = b_storage buf" "unread b1 = s @ 0 # rest" by auto
  with Cons.IH [of b1 k "v @ [c]"] Cons.prems show ?case
    by (simp add: n unread_available)
qed

interpretation strc: codec put_cstring get_cstring "\<lambda>s. s @ [0]" string_ok
proof
  fix s :: bytes
  have "writes (\<lambda>buf. if s \<noteq> [] then bb_append s buf else Inr buf) s"
    using writes_append [of s] writes_none by (cases "s = []") simp_all
  from writes_then [OF this u8c.put_writes [of 0]] show "writes (put_cstring s) (s @ [0])"
    by (simp add: put_cstring_def byte_u8)
  assume ok: "string_ok s"
  show "reads get_cstring (s @ [0]) s"
    unfolding reads_def
  proof (intro allI impI)
    fix buf rest assume b: "buf_ok buf \<and> unread buf = (s @ [0]) @ rest"
    then have "length (unread buf) = length s + 1 + length rest" by simp
    then have "length s < Suc (length (b_storage buf))" by (simp add: unread_def)
    with b ok cstring_reads [of s buf rest "Suc (length (b_storage buf))" "[]"]
    obtain buf' where "cstring_loop (Suc (length (b_storage buf))) [] buf = Inr (s, buf')" "buf_ok buf'"
      "b_storage buf' = b_storage buf" "unread buf' = rest" by (auto simp: string_ok_def simp del: cstring_loop.simps)
    with ok show "\<exists>buf'. get_cstring buf = Inr (s, buf') \<and> buf_ok buf' \<and> b_storage buf' = b_storage buf \<and> unread buf' = rest"
      by (simp add: get_cstring_def ReadCString_def string_ok_def del: cstring_loop.simps)
  qed
qed


section \<open>Packed guids\<close>

definition guid_byte :: "u64 \<Rightarrow> nat \<Rightarrow> u8" where
  "guid_byte g i = ucast (drop_bit (8 * i) g)"

definition set_bytes :: "nat list \<Rightarrow> u64 \<Rightarrow> bytes" where
  "set_bytes is g = map (guid_byte g) (filter (\<lambda>i. guid_byte g i \<noteq> 0) is)"

fun mark_of :: "nat list \<Rightarrow> u64 \<Rightarrow> u8" where
  "mark_of [] g = 0"
| "mark_of (i # is) g = (if guid_byte g i \<noteq> 0 then push_bit i 1 else 0) OR mark_of is g"

lemma bit_mark_of: "bit (mark_of is g) n \<longleftrightarrow> n < 8 \<and> n \<in> set is \<and> guid_byte g n \<noteq> 0"
  by (induction "is") (auto simp: bit_simps)

lemma mask8: "(0xFF :: u64) = mask 8"
  by (simp add: mask_eq_exp_minus_1)

lemma low_byte: "(ucast ((w :: u64) AND 0xFF) :: u8) = ucast w"
  unfolding mask8 by (intro bit_word_eqI) (auto simp: bit_simps)

lemma low_byte_zero: "(w :: u64) AND 0xFF = 0 \<longleftrightarrow> (ucast w :: u8) = 0"
proof -
  have "w AND 0xFF = ucast (ucast w :: u8)"
    unfolding mask8 by (intro bit_word_eqI) (auto simp: bit_simps)
  then show ?thesis by (metis low_byte ucast_0)
qed

declare pack_loop.simps [simp del]

lemma pack_loop_eq:
  "i \<le> 8 \<Longrightarrow> pack_loop i (drop_bit (8 * i) g) m out = (m OR mark_of [i..<8] g, out @ set_bytes [i..<8] g)"
proof (induction "8 - i" arbitrary: i m out)
  case 0
  then have "i = 8" by simp
  moreover have "drop_bit 64 g = 0" by (intro bit_word_eqI) (auto simp: bit_simps dest: bit_imp_le_length)
  ultimately show ?case by (simp add: pack_loop.simps set_bytes_def)
next
  case (Suc k)
  then have i: "i < 8" "[i..<8] = i # [Suc i..<8]" by (simp_all add: upt_conv_Cons)
  let ?d = "drop_bit (8 * i) g"
  have d: "drop_bit 8 ?d = drop_bit (8 * Suc i) g" by (simp add: add.commute)
  show ?case
  proof (cases "?d = 0")
    case True
    have "guid_byte g j = 0" if "i \<le> j" for j
    proof -
      have "8 * j = 8 * (j - i) + 8 * i" using that by simp
      then have "drop_bit (8 * j) g = drop_bit (8 * (j - i)) ?d" by (simp only: drop_bit_drop_bit)
      then show ?thesis using True by (simp add: guid_byte_def)
    qed
    then have "set_bytes [i..<8] g = []" "mark_of [i..<8] g = 0"
      by (simp_all add: set_bytes_def) (intro bit_word_eqI; simp add: bit_mark_of)
    then show ?thesis using True by (simp add: pack_loop.simps)
  next
    case False
    show ?thesis using Suc.hyps(1) [of "Suc i"] Suc.hyps(2) i(1) False
      by (subst pack_loop.simps)
        (simp add: i(2) d low_byte low_byte_zero guid_byte_def set_bytes_def or.assoc del: upt_Suc)
  qed
qed

lemma packed: "pack_loop 0 g 0 [] = (mark_of [0..<8] g, set_bytes [0..<8] g)"
  using pack_loop_eq [of 0 g 0 "[]"] by simp

definition packed_bytes :: "u64 \<Rightarrow> bytes" where
  "packed_bytes g = mark_of [0..<8] g # set_bytes [0..<8] g"

lemma appendPackGUID_eq: "appendPackGUID g = bb_append (packed_bytes g)"
  by (simp add: fun_eq_iff appendPackGUID_def packed packed_bytes_def)

fun joined :: "nat list \<Rightarrow> u64 \<Rightarrow> u64" where
  "joined [] g = 0"
| "joined (i # is) g = push_bit (i * 8) (ucast (guid_byte g i)) OR joined is g"

lemma bit_joined: "bit (joined is g) n \<longleftrightarrow> n < 64 \<and> n div 8 \<in> set is \<and> bit g n"
proof (induction "is")
  case (Cons i "is")
  have "i * 8 \<le> n \<and> n - i * 8 < 8 \<and> bit g (8 * i + (n - i * 8)) \<longleftrightarrow> n div 8 = i \<and> bit g n"
  proof (cases "n div 8 = i")
    case True
    then have "i * 8 \<le> n" "n - i * 8 < 8" by auto
    with True show ?thesis by (simp add: mult.commute)
  qed (auto simp: le_div_geq div_nat_eqI)
  then have "bit (push_bit (i * 8) (ucast (guid_byte g i)) :: u64) n \<longleftrightarrow> n < 64 \<and> n div 8 = i \<and> bit g n"
    by (auto simp: guid_byte_def bit_simps)
  with Cons show ?case by (auto simp: bit_simps)
qed simp

lemma joined_all: "joined [0..<8] g = g"
  by (rule bit_word_eqI) (auto simp: bit_joined simp del: joined.simps)

lemma unpack_reads:
  "buf_ok buf \<Longrightarrow> unread buf = set_bytes is g @ rest \<Longrightarrow> (\<And>i. i \<in> set is \<Longrightarrow> bit m i \<longleftrightarrow> guid_byte g i \<noteq> 0) \<Longrightarrow>
   \<exists>buf'. unpack_loop is m acc buf = Inr (acc OR joined is g, buf') \<and> buf_ok buf' \<and>
     b_storage buf' = b_storage buf \<and> unread buf' = rest"
proof (induction "is" arbitrary: buf acc)
  case (Cons i "is")
  have m: "m AND push_bit i 1 \<noteq> 0 \<longleftrightarrow> guid_byte g i \<noteq> 0"
    using Cons.prems(3) [of i] by (simp add: bit_iff_and_push_bit_not_eq_0)
  show ?case
  proof (cases "guid_byte g i = 0")
    case True
    with Cons.prems Cons.IH [of buf acc] m show ?thesis by (simp add: set_bytes_def)
  next
    case False
    then have u: "unread buf = guid_byte g i # (set_bytes is g @ rest)"
      using Cons.prems(2) by (simp add: set_bytes_def)
    have "\<not> b_rpos buf + 1 > bb_size buf"
      using u Cons.prems(1) rpos_plus [OF Cons.prems(1), of 1]
      by (cases "unat (b_rpos buf) = length (b_storage buf)")
        (auto simp: word_less_nat_alt unread_def buf_ok_def)
    moreover from read_u8 [OF Cons.prems(1) u] obtain b1 where
      "get_word buf = Inr (guid_byte g i, b1)" "buf_ok b1" "b_storage b1 = b_storage buf"
      "unread b1 = set_bytes is g @ rest" by blast
    moreover from this Cons.IH [of b1 "acc OR push_bit (i * 8) (ucast (guid_byte g i))"] Cons.prems(3)
    obtain b2 where "unpack_loop is m (acc OR push_bit (i * 8) (ucast (guid_byte g i))) b1 =
        Inr ((acc OR push_bit (i * 8) (ucast (guid_byte g i))) OR joined is g, b2)"
      "buf_ok b2" "b_storage b2 = b_storage b1" "unread b2 = rest" by auto
    ultimately show ?thesis using m False by (simp add: or.assoc)
  qed
qed (simp add: set_bytes_def)

interpretation packc: codec appendPackGUID readPackGUID packed_bytes "\<lambda>_. True"
proof
  fix g :: u64
  show "writes (appendPackGUID g) (packed_bytes g)"
    unfolding appendPackGUID_eq by (rule writes_append) (simp add: packed_bytes_def)
  show "reads readPackGUID (packed_bytes g) g"
    unfolding reads_def
  proof (intro allI impI)
    fix buf rest assume b: "buf_ok buf \<and> unread buf = packed_bytes g @ rest"
    then have u: "unread buf = mark_of [0..<8] g # (set_bytes [0..<8] g @ rest)" by (simp add: packed_bytes_def)
    have "\<not> b_rpos buf + 1 > bb_size buf"
      using u b rpos_plus [of buf 1]
      by (cases "unat (b_rpos buf) = length (b_storage buf)")
        (auto simp: word_less_nat_alt unread_def buf_ok_def)
    moreover from b read_u8 [OF _ u] obtain b1 where
      b1: "get_word buf = Inr (mark_of [0..<8] g, b1)" "buf_ok b1" "b_storage b1 = b_storage buf"
      "unread b1 = set_bytes [0..<8] g @ rest" by blast
    moreover from unpack_reads [OF b1(2,4), of "mark_of [0..<8] g" 0] obtain b2 where
      "unpack_loop [0..<8] (mark_of [0..<8] g) 0 b1 = Inr (g, b2)" "buf_ok b2" "b_storage b2 = b_storage b1"
      "unread b2 = rest"
      by (auto simp: bit_mark_of joined_all simp del: unpack_loop.simps joined.simps mark_of.simps)
    ultimately show "\<exists>buf'. readPackGUID buf = Inr (g, buf') \<and> buf_ok buf' \<and> b_storage buf' = b_storage buf
        \<and> unread buf' = rest"
      by (simp add: readPackGUID_def del: unpack_loop.simps mark_of.simps upt_Suc)
  qed
qed


lemma Set_loop_eq:
  "length (pg_packedGuid p) = 9 \<Longrightarrow> unat (pg_packedSize p) = 1 + length S \<Longrightarrow> length S + length is \<le> 8 \<Longrightarrow>
   take (length S) (tl (pg_packedGuid p)) = S \<Longrightarrow>
   \<exists>q. Set_loop is g p = Inr q \<and> length (pg_packedGuid q) = 9 \<and>
     take (unat (pg_packedSize q)) (pg_packedGuid q) = (pg_packedGuid p ! 0 OR mark_of is g) # S @ set_bytes is g"
proof (induction "is" arbitrary: p S)
  case Nil
  then obtain m t where "pg_packedGuid p = m # t" by (cases "pg_packedGuid p") auto
  with Nil show ?case by (simp add: set_bytes_def)
next
  case (Cons i "is")
  let ?b = "guid_byte g i"
  have b: "(ucast (drop_bit (i * 8) g AND 0xFF) :: u8) = ?b"
    by (simp add: low_byte guid_byte_def mult.commute)
  obtain m t where B: "pg_packedGuid p = m # t" using Cons.prems(1) by (cases "pg_packedGuid p") auto
  define n where "n = length S"
  have n: "unat (pg_packedSize p) = Suc n" "Suc n < 9" "length t = 8" "take n t = S"
    using Cons.prems B by (simp_all add: n_def)
  have t: "take n (t[n := ?b]) = S" "take (Suc n) (t[n := ?b]) = S @ [?b]"
    using n by (simp_all add: take_Suc_conv_app_nth)
  show ?case
  proof (cases "?b = 0")
    case True
    have "\<exists>q. Set_loop is g (p\<lparr>pg_packedGuid := m # t[n := ?b]\<rparr>) = Inr q \<and> length (pg_packedGuid q) = 9 \<and>
     take (unat (pg_packedSize q)) (pg_packedGuid q) =
       (pg_packedGuid (p\<lparr>pg_packedGuid := m # t[n := ?b]\<rparr>) ! 0 OR mark_of is g) # S @ set_bytes is g"
      by (rule Cons.IH) (use n t Cons.prems in \<open>simp_all add: n_def\<close>)
    then show ?thesis using True n by (simp add: b B set_bytes_def)
  next
    case False
    let ?p = "p\<lparr>pg_packedGuid := (m OR push_bit i 1) # t[n := ?b], pg_packedSize := pg_packedSize p + 1\<rparr>"
    have sz: "unat (pg_packedSize p + 1) = Suc (Suc n)"
      using n(1,2) by (simp add: unat_word_ariths)
    have "\<exists>q. Set_loop is g ?p = Inr q \<and> length (pg_packedGuid q) = 9 \<and>
     take (unat (pg_packedSize q)) (pg_packedGuid q) =
       (pg_packedGuid ?p ! 0 OR mark_of is g) # (S @ [?b]) @ set_bytes is g"
      by (rule Cons.IH) (use n t sz Cons.prems in \<open>simp_all add: n_def\<close>)
    then show ?thesis using False n by (simp add: b B set_bytes_def or.assoc)
  qed
qed

lemma PackedGuid_Set_eq:
  assumes "length (pg_packedGuid p) = 9"
  shows "\<exists>q. PackedGuid_Set g p = Inr q \<and> length (pg_packedGuid q) = 9 \<and>
    put_PackedGuid q = bb_append ((pg_packedGuid p ! 0 OR mark_of [0..<8] g) # set_bytes [0..<8] g) \<and>
    pg_packedGuid q ! 0 = pg_packedGuid p ! 0 OR mark_of [0..<8] g"
proof -
  have "\<exists>q. Set_loop [0..<8] g (p\<lparr>pg_packedSize := 1\<rparr>) = Inr q \<and> length (pg_packedGuid q) = 9 \<and>
     take (unat (pg_packedSize q)) (pg_packedGuid q) =
       (pg_packedGuid (p\<lparr>pg_packedSize := 1\<rparr>) ! 0 OR mark_of [0..<8] g) # [] @ set_bytes [0..<8] g"
    by (rule Set_loop_eq) (use assms in simp_all)
  then obtain q where q: "PackedGuid_Set g p = Inr q" "length (pg_packedGuid q) = 9"
    "take (unat (pg_packedSize q)) (pg_packedGuid q) =
       (pg_packedGuid p ! 0 OR mark_of [0..<8] g) # set_bytes [0..<8] g"
    by (auto simp: PackedGuid_Set_def simp del: Set_loop.simps mark_of.simps upt_Suc)
  then show ?thesis
    by (cases "pg_packedGuid q"; cases "unat (pg_packedSize q)")
      (auto simp: put_PackedGuid_def simp del: mark_of.simps)
qed


lemma same_append:
  assumes "bb_append (a # as) = bb_append (b # bs)" "length as \<le> 8" "length bs \<le> 8"
  shows "a # as = b # bs"
proof -
  have n: "buf_ok new_ByteBuffer" "b_storage new_ByteBuffer = []" by (simp_all add: buf_ok_def new_ByteBuffer_def)
  from fun_cong [OF assms(1), of new_ByteBuffer]
  show ?thesis using bb_append_eq [OF n(1), of "a # as"] bb_append_eq [OF n(1), of "b # bs"] assms(2,3) n(2)
    by (auto dest: arg_cong [of _ _ b_storage])
qed

lemma set_bytes_short: "length (set_bytes [0..<8] g) \<le> 8"
  unfolding set_bytes_def by (metis length_filter_le length_map length_upt diff_zero)

text \<open>
  The two ways to write a packed guid agree. What a fresh \<open>PackedGuid\<close> holds after
  \<open>Set\<close> goes into the buffer exactly as \<open>appendPackGUID\<close> writes it, without an access behind
  the array of nine bytes. A \<open>PackedGuid\<close> set a second time, which does not clear the mask
  byte, writes the packed form of the new guid only when the new guid has a nonzero byte
  wherever the old one had.
\<close>

theorem packed_guid_writers_agree:
  "\<exists>p q. PackedGuid_Set g new_PackedGuid = Inr p \<and> put_PackedGuid p = appendPackGUID g \<and>
     PackedGuid_Set h p = Inr q \<and>
     (put_PackedGuid q = appendPackGUID h \<longleftrightarrow> (\<forall>i<8. guid_byte g i \<noteq> 0 \<longrightarrow> guid_byte h i \<noteq> 0))"
proof -
  have n: "length (pg_packedGuid new_PackedGuid) = 9" "pg_packedGuid new_PackedGuid ! 0 = 0"
    by (simp_all add: new_PackedGuid_def)
  from PackedGuid_Set_eq [OF n(1), of g] obtain p where p: "PackedGuid_Set g new_PackedGuid = Inr p"
    "length (pg_packedGuid p) = 9" "put_PackedGuid p = appendPackGUID g" "pg_packedGuid p ! 0 = mark_of [0..<8] g"
    by (auto simp: n(2) appendPackGUID_eq packed_bytes_def simp del: mark_of.simps upt_Suc)
  from PackedGuid_Set_eq [OF p(2), of h] obtain q where q: "PackedGuid_Set h p = Inr q"
    "put_PackedGuid q = bb_append ((mark_of [0..<8] g OR mark_of [0..<8] h) # set_bytes [0..<8] h)"
    by (auto simp: p(4) simp del: mark_of.simps upt_Suc)
  have "put_PackedGuid q = appendPackGUID h \<longleftrightarrow> mark_of [0..<8] g OR mark_of [0..<8] h = mark_of [0..<8] h"
    using same_append [OF _ set_bytes_short set_bytes_short]
    by (auto simp: q(2) appendPackGUID_eq packed_bytes_def simp del: mark_of.simps upt_Suc)
  also have "\<dots> \<longleftrightarrow> (\<forall>i<8. guid_byte g i \<noteq> 0 \<longrightarrow> guid_byte h i \<noteq> 0)"
    by (auto simp: bit_eq_iff bit_or_iff bit_mark_of simp del: mark_of.simps)
  finally show ?thesis using p q by blast
qed

text \<open>
  C30: a buffer is a queue of bytes. Appending puts the bytes behind those not read yet, and
  reading takes them off in order; reading more than there is throws and takes nothing.
  Both keep the positions within the storage, so neither touches memory outside it. The
  text of the exception, though, reports the size of the buffer as the size of the value
  and the size of the value as that of the buffer.
\<close>

theorem byte_buffer_is_queue:
  assumes "buf_ok buf"
  shows "(\<forall>src. src \<noteq> [] \<and> length (b_storage buf) + length src < 10000000 \<longrightarrow>
      (\<exists>buf'. bb_append src buf = Inr buf' \<and> buf_ok buf' \<and> unread buf' = unread buf @ src)) \<and>
    (\<forall>n < 2 ^ 62.
      if n \<le> length (unread buf)
      then \<exists>buf'. bb_read n buf = Inr (take n (unread buf), buf') \<and> buf_ok buf' \<and> unread buf' = drop n (unread buf)
      else \<exists>e. bb_read n buf = Inl e \<and> PositionException_message e = Some (bb_size buf, b_rpos buf, of_nat n))"
proof (intro conjI allI impI)
  fix src :: bytes assume s: "src \<noteq> [] \<and> length (b_storage buf) + length src < 10000000"
  then show "\<exists>buf'. bb_append src buf = Inr buf' \<and> buf_ok buf' \<and> unread buf' = unread buf @ src"
    using bb_append_eq [OF assms, of src] append_ok [OF assms, of src] by simp
next
  fix n :: nat assume "n < 2 ^ 62"
  then show "if n \<le> length (unread buf)
      then \<exists>buf'. bb_read n buf = Inr (take n (unread buf), buf') \<and> buf_ok buf' \<and> unread buf' = drop n (unread buf)
      else \<exists>e. bb_read n buf = Inl e \<and> PositionException_message e = Some (bb_size buf, b_rpos buf, of_nat n)"
    using advance [OF assms, of n] bb_read_eq [OF assms, of n]
    by (auto simp: PositionException_message_def)
qed

theorem byte_buffer_is_queue_witness:
  "(\<exists>buf'. bb_append [4] \<lparr>b_rpos = 1, b_wpos = 3, b_storage = [1, 2, 3]\<rparr> = Inr buf' \<and> unread buf' = [2, 3, 4]) \<and>
   (\<exists>e. bb_read 4 \<lparr>b_rpos = 1, b_wpos = 3, b_storage = [1, 2, 3]\<rparr> = Inl e \<and>
      PositionException_message e = Some (3, 1, 4))"
proof -
  let ?buf = "\<lparr>b_rpos = 1, b_wpos = 3, b_storage = [1, 2, 3]\<rparr>"
  have b: "buf_ok ?buf" and u: "unread ?buf = [2, 3]" "bb_size ?buf = 3"
    by (simp_all add: buf_ok_def unread_def bb_size_def)
  note q = byte_buffer_is_queue [OF b]
  show ?thesis
    using q [THEN conjunct1, THEN spec, of "[4]"] q [THEN conjunct2, THEN spec, of 4] by (auto simp: u)
qed

theorem packed_guid_writers_agree_witness:
  "\<exists>p q. PackedGuid_Set 0x100 new_PackedGuid = Inr p \<and> PackedGuid_Set 1 p = Inr q \<and>
     put_PackedGuid q \<noteq> appendPackGUID 1"
proof -
  have "guid_byte 0x100 1 \<noteq> 0" "guid_byte 1 1 = 0" by (simp_all add: guid_byte_def)
  moreover have "(1 :: nat) < 8" by simp
  ultimately show ?thesis using packed_guid_writers_agree [of "0x100" 1] by blast
qed

section \<open>Packets\<close>

text \<open>
  The values the operators write and read, and packets as sequences of them. A guid in its
  plain form is a 64-bit integer (\<open>operator<<\<close> of \<open>ObjectGuid.cpp\<close>).
\<close>

datatype packet_value = V_u8 u8 | V_u16 u16 | V_u32 u32 | V_u64 u64 | V_bool bool | V_float u32
  | V_double u64 | V_string bytes | V_guid u64 | V_packed_guid u64

datatype value_type = T_u8 | T_u16 | T_u32 | T_u64 | T_bool | T_float | T_double | T_string | T_guid
  | T_packed_guid

fun type_of :: "packet_value \<Rightarrow> value_type" where
  "type_of (V_u8 _) = T_u8" | "type_of (V_u16 _) = T_u16" | "type_of (V_u32 _) = T_u32"
| "type_of (V_u64 _) = T_u64" | "type_of (V_bool _) = T_bool" | "type_of (V_float _) = T_float"
| "type_of (V_double _) = T_double" | "type_of (V_string _) = T_string" | "type_of (V_guid _) = T_guid"
| "type_of (V_packed_guid _) = T_packed_guid"

fun put_value :: "packet_value \<Rightarrow> writer" where
  "put_value (V_u8 v) = put_word v" | "put_value (V_u16 v) = put_word v" | "put_value (V_u32 v) = put_word v"
| "put_value (V_u64 v) = put_word v" | "put_value (V_bool b) = put_bool b" | "put_value (V_float v) = put_word v"
| "put_value (V_double v) = put_word v" | "put_value (V_string s) = put_cstring s"
| "put_value (V_guid g) = put_word g" | "put_value (V_packed_guid g) = appendPackGUID g"

fun get_value :: "value_type \<Rightarrow> packet_value reader" where
  "get_value T_u8 = read_map V_u8 get_word" | "get_value T_u16 = read_map V_u16 get_word"
| "get_value T_u32 = read_map V_u32 get_word" | "get_value T_u64 = read_map V_u64 get_word"
| "get_value T_bool = read_map V_bool get_bool" | "get_value T_float = read_map V_float get_float"
| "get_value T_double = read_map V_double get_double" | "get_value T_string = read_map V_string get_cstring"
| "get_value T_guid = read_map V_guid get_word" | "get_value T_packed_guid = read_map V_packed_guid readPackGUID"

fun value_bytes :: "packet_value \<Rightarrow> bytes" where
  "value_bytes (V_u8 v) = to_bytes v" | "value_bytes (V_u16 v) = to_bytes v" | "value_bytes (V_u32 v) = to_bytes v"
| "value_bytes (V_u64 v) = to_bytes v" | "value_bytes (V_bool b) = to_bytes (if b then 1 else 0 :: u8)"
| "value_bytes (V_float v) = to_bytes v" | "value_bytes (V_double v) = to_bytes v"
| "value_bytes (V_string s) = s @ [0]" | "value_bytes (V_guid g) = to_bytes g"
| "value_bytes (V_packed_guid g) = packed_bytes g"

fun sendable :: "packet_value \<Rightarrow> bool" where
  "sendable (V_float v) \<longleftrightarrow> float_isfinite v" | "sendable (V_double v) \<longleftrightarrow> double_isfinite v"
| "sendable (V_string s) \<longleftrightarrow> 0 \<notin> set s \<and> is_valid s" | "sendable _ \<longleftrightarrow> True"

fun put_values :: "packet_value list \<Rightarrow> writer" where
  "put_values [] = Inr"
| "put_values (v # vs) = write_then (put_value v) (put_values vs)"

fun get_values :: "value_type list \<Rightarrow> packet_value list reader" where
  "get_values [] = (\<lambda>buf. Inr ([], buf))"
| "get_values (t # ts) = read_then (get_value t) (\<lambda>v. read_map ((#) v) (get_values ts))"

interpretation pv: codec put_value "get_value t" value_bytes "\<lambda>v. type_of v = t \<and> sendable v"
proof
  show "writes (put_value v) (value_bytes v)" for v
    by (cases v) (simp_all only: put_value.simps value_bytes.simps u8c.put_writes u16c.put_writes u32c.put_writes
        u64c.put_writes boolc.put_writes strc.put_writes packc.put_writes)
  show "reads (get_value t) (value_bytes v) v" if "type_of v = t \<and> sendable v" for v
    using that
    by (cases v) (auto intro!: reads_map u8c.get_reads u16c.get_reads u32c.get_reads u64c.get_reads
        boolc.get_reads [of True, simplified] boolc.get_reads [of False, simplified] floatc.get_reads doublec.get_reads strc.get_reads packc.get_reads simp: string_ok_def)
qed

lemma writes_values: "writes (put_values vs) (concat (map value_bytes vs))"
  by (induction vs) (simp_all add: writes_none writes_then pv.put_writes)

lemma reads_values: "list_all sendable vs \<Longrightarrow> reads (get_values (map type_of vs)) (concat (map value_bytes vs)) vs"
proof (induction vs)
  case (Cons v vs)
  then have "reads (get_value (type_of v)) (value_bytes v) v" by (intro pv.get_reads) simp
  moreover have "reads (read_map ((#) v) (get_values (map type_of vs))) (concat (map value_bytes vs)) (v # vs)"
    using Cons by (intro reads_map) simp
  ultimately show ?case
    by (simp add: reads_then [of _ _ _ "\<lambda>v. read_map ((#) v) (get_values (map type_of vs))"])
qed (simp add: reads_def)

interpretation packet: codec put_values "get_values ts" "\<lambda>vs. concat (map value_bytes vs)"
    "\<lambda>vs. map type_of vs = ts \<and> list_all sendable vs"
  by unfold_locales (use writes_values reads_values in auto)

text \<open>
  C29: a packet reads back as it was written. Whatever sequence of integers, booleans, finite
  floating point numbers, strings (valid UTF-8 without a zero byte), guids and packed guids
  is written into an empty buffer, reading the same types in the same order succeeds,
  delivers the same values and leaves nothing over.
\<close>

theorem packet_reads_back:
  assumes "list_all sendable vs" "length (concat (map value_bytes vs)) < 10000000"
  shows "\<exists>buf buf'. put_values vs new_ByteBuffer = Inr buf \<and>
    get_values (map type_of vs) buf = Inr (vs, buf') \<and> unread buf' = []"
proof -
  have "buf_ok new_ByteBuffer" "unread new_ByteBuffer = []" "b_storage new_ByteBuffer = []"
    by (simp_all add: buf_ok_def unread_def new_ByteBuffer_def)
  then show ?thesis
    using packet.write_read [of vs "map type_of vs" new_ByteBuffer] assms by simp
qed

theorem packet_reads_back_witness:
  "\<exists>buf buf'. put_values [V_u8 0x0B, V_string [0x41, 0xc3, 0xa9], V_packed_guid 0xF130000000000100, V_bool True] new_ByteBuffer = Inr buf
     \<and> get_values [T_u8, T_string, T_packed_guid, T_bool] buf
       = Inr ([V_u8 0x0B, V_string [0x41, 0xc3, 0xa9], V_packed_guid 0xF130000000000100, V_bool True], buf')
     \<and> unread buf' = []"
proof -
  let ?vs = "[V_u8 0x0B, V_string [0x41, 0xc3, 0xa9], V_packed_guid 0xF130000000000100, V_bool True]"
  have "list_all sendable ?vs" by code_simp
  moreover have "length (packed_bytes 0xF130000000000100) \<le> 9"
    using set_bytes_short by (simp add: packed_bytes_def)
  then have "length (concat (map value_bytes ?vs)) < 10000000" by simp
  ultimately show ?thesis using packet_reads_back [of ?vs] by simp
qed

end
