(* ===== verification/Object_Guid.thy ===== *)
theory Object_Guid
  imports Byte_Buffer
begin

text \<open>
  \<open>ObjectGuid\<close> (\<open>src/server/game/Entities/Object/ObjectGuid.h\<close> and \<open>.cpp\<close>), the 64-bit names of
  everything in the world: 16 bits that say what it is, then a 32-bit counter or, for what
  has a template, a 24-bit entry and a 24-bit counter; and the generators of the counters.
  A guid is its raw value, \<open>HighGuid\<close> the 16-bit word of the enum.
\<close>

type_synonym guid = u64
type_synonym high_guid = u16

section \<open>What a guid names\<close>

definition HighGuid_Item :: high_guid where "HighGuid_Item = 0x4000"
definition HighGuid_Player :: high_guid where "HighGuid_Player = 0x0000"
definition HighGuid_GameObject :: high_guid where "HighGuid_GameObject = 0xF110"
definition HighGuid_Transport :: high_guid where "HighGuid_Transport = 0xF120"
definition HighGuid_Unit :: high_guid where "HighGuid_Unit = 0xF130"
definition HighGuid_Pet :: high_guid where "HighGuid_Pet = 0xF140"
definition HighGuid_Vehicle :: high_guid where "HighGuid_Vehicle = 0xF150"
definition HighGuid_DynamicObject :: high_guid where "HighGuid_DynamicObject = 0xF100"
definition HighGuid_Corpse :: high_guid where "HighGuid_Corpse = 0xF101"
definition HighGuid_Mo_Transport :: high_guid where "HighGuid_Mo_Transport = 0x1FC0"
definition HighGuid_Instance :: high_guid where "HighGuid_Instance = 0x1F40"
definition HighGuid_Group :: high_guid where "HighGuid_Group = 0x1F50"

lemmas high_guids = HighGuid_Item_def HighGuid_Player_def HighGuid_GameObject_def HighGuid_Transport_def
  HighGuid_Unit_def HighGuid_Pet_def HighGuid_Vehicle_def HighGuid_DynamicObject_def HighGuid_Corpse_def
  HighGuid_Mo_Transport_def HighGuid_Instance_def HighGuid_Group_def

datatype type_id = TYPEID_OBJECT | TYPEID_ITEM | TYPEID_CONTAINER | TYPEID_UNIT | TYPEID_PLAYER
  | TYPEID_GAMEOBJECT | TYPEID_DYNAMICOBJECT | TYPEID_CORPSE

datatype guid_format = OnlyCounter | CounterAndEntry

text \<open>The trait \<open>Format\<close>; the generic template is \<open>OnlyCounter\<close>.\<close>

definition Format :: "high_guid \<Rightarrow> guid_format" where
  "Format high =
     (if high \<in> set [HighGuid_GameObject, HighGuid_Unit, HighGuid_Pet, HighGuid_Vehicle] then CounterAndEntry
      else OnlyCounter)"

definition HasEntry_of :: "high_guid \<Rightarrow> bool" where
  "HasEntry_of high \<longleftrightarrow>
     high \<notin> set [HighGuid_Item, HighGuid_Player, HighGuid_DynamicObject, HighGuid_Corpse,
       HighGuid_Mo_Transport, HighGuid_Instance, HighGuid_Group]"

definition GetTypeId_of :: "high_guid \<Rightarrow> type_id" where
  "GetTypeId_of high =
     (if high = HighGuid_Item then TYPEID_ITEM
      else if high = HighGuid_Unit then TYPEID_UNIT
      else if high = HighGuid_Pet then TYPEID_UNIT
      else if high = HighGuid_Player then TYPEID_PLAYER
      else if high = HighGuid_GameObject then TYPEID_GAMEOBJECT
      else if high = HighGuid_DynamicObject then TYPEID_DYNAMICOBJECT
      else if high = HighGuid_Corpse then TYPEID_CORPSE
      else if high = HighGuid_Mo_Transport then TYPEID_GAMEOBJECT
      else if high = HighGuid_Vehicle then TYPEID_UNIT
      else TYPEID_OBJECT)"

definition GetTypeName_of :: "high_guid \<Rightarrow> string" where
  "GetTypeName_of high =
     (if high = HighGuid_Item then ''Item''
      else if high = HighGuid_Player then ''Player''
      else if high = HighGuid_GameObject then ''Gameobject''
      else if high = HighGuid_Transport then ''Transport''
      else if high = HighGuid_Unit then ''Creature''
      else if high = HighGuid_Pet then ''Pet''
      else if high = HighGuid_Vehicle then ''Vehicle''
      else if high = HighGuid_DynamicObject then ''DynObject''
      else if high = HighGuid_Corpse then ''Corpse''
      else if high = HighGuid_Mo_Transport then ''MoTransport''
      else if high = HighGuid_Instance then ''InstanceID''
      else if high = HighGuid_Group then ''Group''
      else ''<unknown>'')"

definition GetMaxCounter_of :: "high_guid \<Rightarrow> u32" where
  "GetMaxCounter_of high = (if HasEntry_of high then 0x00FFFFFF else 0xFFFFFFFF)"

section \<open>Taking a guid apart\<close>

definition GetHigh :: "guid \<Rightarrow> high_guid" where
  "GetHigh g = ucast (drop_bit 48 g AND 0x0000FFFF)"

definition HasEntry :: "guid \<Rightarrow> bool" where
  "HasEntry g \<longleftrightarrow> HasEntry_of (GetHigh g)"

definition GetEntry :: "guid \<Rightarrow> u32" where
  "GetEntry g = (if HasEntry g then ucast (drop_bit 24 g AND 0x0000000000FFFFFF) else 0)"

definition GetCounter :: "guid \<Rightarrow> u32" where
  "GetCounter g =
     (if HasEntry g then ucast (g AND 0x0000000000FFFFFF) else ucast (g AND 0x00000000FFFFFFFF))"

definition GetMaxCounter :: "guid \<Rightarrow> u32" where
  "GetMaxCounter g = GetMaxCounter_of (GetHigh g)"

definition guid_IsEmpty :: "guid \<Rightarrow> bool" where
  "guid_IsEmpty g \<longleftrightarrow> g = 0"

definition guid_IsPlayer :: "guid \<Rightarrow> bool" where
  "guid_IsPlayer g \<longleftrightarrow> \<not> guid_IsEmpty g \<and> GetHigh g = HighGuid_Player"

definition guid_IsAnyTypeCreature :: "guid \<Rightarrow> bool" where
  "guid_IsAnyTypeCreature g \<longleftrightarrow>
     GetHigh g = HighGuid_Unit \<or> GetHigh g = HighGuid_Pet \<or> GetHigh g = HighGuid_Vehicle"

definition guid_IsUnit :: "guid \<Rightarrow> bool" where
  "guid_IsUnit g \<longleftrightarrow> guid_IsAnyTypeCreature g \<or> guid_IsPlayer g"

definition guid_IsAnyTypeGameObject :: "guid \<Rightarrow> bool" where
  "guid_IsAnyTypeGameObject g \<longleftrightarrow>
     GetHigh g = HighGuid_GameObject \<or> GetHigh g = HighGuid_Transport \<or> GetHigh g = HighGuid_Mo_Transport"

definition GetTypeId :: "guid \<Rightarrow> type_id" where
  "GetTypeId g = GetTypeId_of (GetHigh g)"

definition GetTypeName :: "guid \<Rightarrow> string" where
  "GetTypeName g = (if \<not> guid_IsEmpty g then GetTypeName_of (GetHigh g) else ''None'')"

section \<open>Making one\<close>

text \<open>The two templates \<open>Create\<close>, for the types of the format \<open>OnlyCounter\<close> and \<open>CounterAndEntry\<close>.\<close>

definition Create_counter :: "high_guid \<Rightarrow> u32 \<Rightarrow> guid" where
  "Create_counter type counter =
     (if counter \<noteq> 0 then ucast counter OR push_bit 48 (ucast type) else 0)"

definition Create_entry :: "high_guid \<Rightarrow> u32 \<Rightarrow> u32 \<Rightarrow> guid" where
  "Create_entry type entry counter =
     (if counter \<noteq> 0 then ucast counter OR push_bit 24 (ucast entry) OR push_bit 48 (ucast type) else 0)"

section \<open>The generators\<close>

text \<open>The part of the world the generator acts on: its two alarm flags and whether it was told to stop.\<close>

record guid_world =
  gw_alert :: bool
  gw_warning :: bool
  gw_alert_level :: u32
  gw_warn_level :: u32
  gw_stopped :: bool

record guid_generator =
  gen_high :: high_guid
  gen_nextGuid :: u32

definition HandleCounterOverflow :: "guid_world \<Rightarrow> guid_world" where
  "HandleCounterOverflow w = w\<lparr>gw_stopped := True\<rparr>"

definition CheckGuidTrigger :: "guid_generator \<Rightarrow> guid_world \<Rightarrow> guid_world" where
  "CheckGuidTrigger gen w =
     (if \<not> gw_alert w \<and> gen_nextGuid gen > gw_alert_level w then w\<lparr>gw_alert := True\<rparr>
      else if \<not> gw_warning w \<and> gen_nextGuid gen > gw_warn_level w then w\<lparr>gw_warning := True\<rparr>
      else w)"

definition Generate :: "guid_generator \<Rightarrow> guid_world \<Rightarrow> u32 \<times> guid_generator \<times> guid_world" where
  "Generate gen w =
     (let w1 = (if gen_nextGuid gen \<ge> GetMaxCounter_of (gen_high gen) - 1 then HandleCounterOverflow w else w);
          w2 = (if gen_high gen \<in> set [HighGuid_Unit, HighGuid_Vehicle, HighGuid_GameObject, HighGuid_Transport]
                then CheckGuidTrigger gen w1 else w1)
      in (gen_nextGuid gen, gen\<lparr>gen_nextGuid := gen_nextGuid gen + 1\<rparr>, w2))"

fun generate_many :: "nat \<Rightarrow> guid_generator \<Rightarrow> guid_world \<Rightarrow> u32 list \<times> guid_generator \<times> guid_world" where
  "generate_many 0 gen w = ([], gen, w)"
| "generate_many (Suc n) gen w =
     (case Generate gen w of (c, gen', w') \<Rightarrow>
        case generate_many n gen' w' of (cs, gen'', w'') \<Rightarrow> (c # cs, gen'', w''))"

section \<open>Properties\<close>

lemma bits_of_masks:
  "(0xFFFF :: u64) = mask 16" "(0xFFFFFF :: u64) = mask 24" "(0xFFFFFFFF :: u64) = mask 32"
  by (simp_all add: mask_eq_exp_minus_1)

lemma small_bits:
  assumes "(c :: u32) \<le> 0x00FFFFFF" "bit c n"
  shows "n < 24"
proof -
  have "unat c < 2 ^ 24" using assms(1) by (simp add: word_le_nat_alt)
  from take_bit_small [OF this] assms(2) show ?thesis by (metis bit_take_bit_iff)
qed

lemma high_created:
  "counter \<noteq> 0 \<Longrightarrow> GetHigh (Create_counter high counter) = high"
  unfolding GetHigh_def Create_counter_def bits_of_masks
  by (intro bit_word_eqI) (auto simp: bit_simps dest: bit_imp_le_length)

lemma high_created_entry:
  assumes "counter \<noteq> 0" "entry \<le> 0x00FFFFFF"
  shows "GetHigh (Create_entry high entry counter) = high"
proof (rule bit_word_eqI)
  fix n assume "n < LENGTH(16)"
  then show "bit (GetHigh (Create_entry high entry counter)) n = bit high n"
    using assms(1) small_bits [OF assms(2), of "24 + n"]
    unfolding GetHigh_def Create_entry_def bits_of_masks
    by (auto simp: bit_simps dest: bit_imp_le_length)
qed

lemma counter_bits:
  assumes "counter \<le> GetMaxCounter_of high" "HasEntry_of high" "bit counter n"
  shows "n < 24"
  by (rule small_bits [OF _ assms(3)]) (use assms(1,2) in \<open>simp add: GetMaxCounter_of_def\<close>)

lemma counter_created:
  assumes c: "counter \<noteq> 0" "counter \<le> GetMaxCounter_of high"
  shows "GetCounter (Create_counter high counter) = counter" "GetEntry (Create_counter high counter) = 0"
proof -
  note b = counter_bits [OF c(2)]
  have m: "bit counter n \<Longrightarrow> n < 32" for n using bit_imp_le_length [of counter n] by simp
  have h: "HasEntry (Create_counter high counter) = HasEntry_of high"
    using c(1) by (simp add: HasEntry_def high_created)
  show "GetCounter (Create_counter high counter) = counter"
  proof (rule bit_word_eqI)
    fix n assume "n < LENGTH(32)"
    then show "bit (GetCounter (Create_counter high counter)) n = bit counter n"
      unfolding GetCounter_def h
      using c b m by (auto simp: bits_of_masks Create_counter_def bit_simps)
  qed
  show "GetEntry (Create_counter high counter) = 0"
  proof (rule bit_word_eqI)
    fix n assume "n < LENGTH(32)"
    then show "bit (GetEntry (Create_counter high counter)) n = bit 0 n"
      unfolding GetEntry_def h
      using c b [of "24 + n"] by (auto simp: bits_of_masks Create_counter_def bit_simps)
  qed
qed

lemma entry_created:
  assumes c: "counter \<noteq> 0" "counter \<le> GetMaxCounter_of high" and e: "entry \<le> 0x00FFFFFF"
    and h: "HasEntry_of high"
  shows "GetCounter (Create_entry high entry counter) = counter" "GetEntry (Create_entry high entry counter) = entry"
proof -
  note b = counter_bits [OF c(2) h] and hi = high_created_entry [OF c(1) e]
  have g: "HasEntry (Create_entry high entry counter)" by (simp add: HasEntry_def hi h)
  show "GetCounter (Create_entry high entry counter) = counter"
  proof (rule bit_word_eqI)
    fix n assume "n < LENGTH(32)"
    then show "bit (GetCounter (Create_entry high entry counter)) n = bit counter n"
      using c b [of n] by (auto simp: GetCounter_def g bits_of_masks) (auto simp: Create_entry_def bit_simps)
  qed
  show "GetEntry (Create_entry high entry counter) = entry"
  proof (rule bit_word_eqI)
    fix n assume "n < LENGTH(32)"
    then show "bit (GetEntry (Create_entry high entry counter)) n = bit entry n"
      using c b [of "24 + n"] small_bits [OF e, of n]
      by (auto simp: GetEntry_def g bits_of_masks) (auto simp: Create_entry_def bit_simps)
  qed
qed

lemma entry_formats:
  "Format high = CounterAndEntry \<Longrightarrow> HasEntry_of high \<and> GetTypeId_of high \<in> {TYPEID_UNIT, TYPEID_GAMEOBJECT}"
  by (auto simp: Format_def HasEntry_of_def GetTypeId_of_def high_guids split: if_splits)

text \<open>
  C39: a guid says what it was made of. For each kind of objects, with the format its trait
  gives it, a nonzero counter up to the largest of the kind and an entry of 24 bits,
  \<open>GetHigh\<close>, \<open>GetCounter\<close> and \<open>GetEntry\<close> return the parts and the type is that of the kind; a
  guid with an entry is that of a unit or of a game object; a guid of counter 0 is the
  empty one.
\<close>

theorem guid_components:
  assumes "counter \<noteq> 0 \<and> counter \<le> GetMaxCounter_of high \<and> entry \<le> 0x00FFFFFF"
  shows "(Format high = OnlyCounter \<longrightarrow>
       (let g = Create_counter high counter in
        GetHigh g = high \<and> GetCounter g = counter \<and> GetEntry g = 0 \<and> \<not> guid_IsEmpty g \<and>
        GetTypeId g = GetTypeId_of high)) \<and>
     (Format high = CounterAndEntry \<longrightarrow>
       (let g = Create_entry high entry counter in
        GetHigh g = high \<and> GetCounter g = counter \<and> GetEntry g = entry \<and> \<not> guid_IsEmpty g \<and>
        GetTypeId g = GetTypeId_of high \<and> GetTypeId g \<in> {TYPEID_UNIT, TYPEID_GAMEOBJECT})) \<and>
     guid_IsEmpty (Create_counter high 0) \<and> guid_IsEmpty (Create_entry high entry 0)"
proof -
  have empty: "GetCounter 0 = 0" by (simp add: GetCounter_def)
  have c: "counter \<noteq> 0" "counter \<le> GetMaxCounter_of high" "entry \<le> 0x00FFFFFF" using assms by simp_all
  have "guid_IsEmpty (Create_counter high 0)" "guid_IsEmpty (Create_entry high entry 0)"
    by (simp_all add: guid_IsEmpty_def Create_counter_def Create_entry_def)
  moreover have "\<not> guid_IsEmpty (Create_counter high counter)"
    using counter_created(1) [OF c(1,2)] c(1) empty by (auto simp: guid_IsEmpty_def)
  moreover have "\<not> guid_IsEmpty (Create_entry high entry counter)" if "HasEntry_of high"
    using entry_created(1) [OF c that] c(1) empty by (auto simp: guid_IsEmpty_def)
  ultimately show ?thesis
    using counter_created [OF c(1,2)] entry_created [OF c] high_created [OF c(1)] high_created_entry [OF c(1,3)]
      entry_formats [of high] by (auto simp: Let_def GetTypeId_def)
qed

theorem guid_components_witness:
  "GetCounter 0xF130001234000007 = 7 \<and> GetEntry 0xF130001234000007 = 0x1234 \<and> GetTypeId 0xF130001234000007 = TYPEID_UNIT"
proof -
  have "(7 :: u32) \<noteq> 0 \<and> 7 \<le> GetMaxCounter_of HighGuid_Unit \<and> (0x1234 :: u32) \<le> 0x00FFFFFF"
    "Format HighGuid_Unit = CounterAndEntry" "Create_entry HighGuid_Unit 0x1234 7 = 0xF130001234000007"
    "GetTypeId_of HighGuid_Unit = TYPEID_UNIT"
    by code_simp+
  with guid_components [of 7 HighGuid_Unit "0x1234"] show ?thesis by (simp add: Let_def)
qed

text \<open>
  The counters a generator hands out are consecutive, so they differ as long as they do not
  wrap around, and the world is told to stop before they could.
\<close>

lemma generate_many_eq:
  "fst (generate_many n gen w) = map (\<lambda>i. gen_nextGuid gen + of_nat i) [0..<n]"
proof (induction n arbitrary: gen w)
  case (Suc n)
  obtain gen' w' where g: "Generate gen w = (gen_nextGuid gen, gen', w')" "gen_nextGuid gen' = gen_nextGuid gen + 1"
    by (simp add: Generate_def Let_def)
  have u: "[0..<Suc n] = 0 # map Suc [0..<n]" by (simp add: map_Suc_upt upt_conv_Cons del: upt_Suc)
  have "fst (generate_many (Suc n) gen w) = gen_nextGuid gen # fst (generate_many n gen' w')"
    using g(1) by (simp split: prod.split)
  also have "\<dots> = map (\<lambda>i. gen_nextGuid gen + of_nat i) [0..<Suc n]"
    unfolding u Suc.IH [of gen' w'] g(2) by (simp add: add.assoc)
  finally show ?case .
qed simp

lemma generated_distinct:
  assumes "unat (gen_nextGuid gen) + n \<le> 2 ^ 32"
  shows "distinct (fst (generate_many n gen w))"
proof -
  have "inj_on (\<lambda>i. gen_nextGuid gen + of_nat i) {0..<n}"
  proof (rule inj_onI)
    fix i j assume i: "i \<in> {0..<n}" "j \<in> {0..<n}" "gen_nextGuid gen + of_nat i = gen_nextGuid gen + of_nat j"
    have "i < 4294967296" "j < 4294967296" using assms i(1,2) by simp_all
    then have "unat (of_nat i :: u32) = i" "unat (of_nat j :: u32) = j"
      by (simp_all only: unat_of_nat) simp_all
    with i(3) show "i = j" by (metis add_left_cancel)
  qed
  then show ?thesis by (simp add: generate_many_eq distinct_map)
qed

end
