(* ===== verification/Unicode_Theorems.thy ===== *)
theory Unicode_Theorems
  imports Unicode_Text
begin

text \<open>
  Case mapping and scripts, the way back from UTF-16, and the properties of the text
  functions and of player names.
\<close>

section \<open>Case mapping\<close>

lemma chars_in_unat: "chars_in lo hi c \<longleftrightarrow> unat lo \<le> unat c \<and> unat c \<le> unat hi"
  by (simp add: chars_in_def word_le_nat_alt)

lemma uint16_of_small: "unat c < 65536 \<Longrightarrow> uint16_of c = c"
  by (simp add: uint16_of_def u16_take take_bit_small)

lemma unat_sub: "unat k \<le> unat (c :: u32) \<Longrightarrow> unat (c - k) = unat c - unat k"
  by (simp add: unat_sub word_le_nat_alt)

lemma unat_mod2: "unat ((c :: u32) mod 2) = unat c mod 2"
  by (simp add: unat_mod_distrib)

lemma even_word: "(c :: u32) mod 2 = 0 \<longleftrightarrow> even (unat c)" "(c :: u32) mod 2 = 1 \<longleftrightarrow> odd (unat c)"
  by (simp_all only: word_unat_eq_iff unat_mod2) (simp_all, presburger+)

definition lower_nat :: "nat \<Rightarrow> nat" where
  "lower_nat n =
     (if 65 \<le> n \<and> n \<le> 90 \<or> 192 \<le> n \<and> n \<le> 214 \<or> 216 \<le> n \<and> n \<le> 222 then n + 32
      else if 256 \<le> n \<and> n \<le> 302 \<and> even n then n + 1
      else if n = 7838 then 223 else if n = 1025 then 1105
      else if 1040 \<le> n \<and> n \<le> 1071 then n + 32 else n)"

definition upper_nat :: "nat \<Rightarrow> nat" where
  "upper_nat n =
     (if 97 \<le> n \<and> n \<le> 122 then n - 32 else if n = 223 then 7838
      else if 224 \<le> n \<and> n \<le> 246 \<or> 248 \<le> n \<and> n \<le> 254 then n - 32
      else if 257 \<le> n \<and> n \<le> 303 \<and> odd n then n - 1
      else if 1072 \<le> n \<and> n \<le> 1103 then n - 32
      else if n = 1105 then 1025 else n)"

lemma unat_plus_small: "unat (c :: u32) + unat k < 2 ^ 32 \<Longrightarrow> unat (c + k) = unat c + unat k"
  by (simp add: unat_word_ariths)

lemma unat_lower: "unat (wcharToLower c) = lower_nat (unat c)"
proof -
  have e: "c = 0x1E9E \<longleftrightarrow> unat c = 7838" "c = 0x0401 \<longleftrightarrow> unat c = 1025"
    by (simp_all add: word_unat_eq_iff)
  show ?thesis
    by (simp add: wcharToLower_def lower_nat_def chars_in_unat e even_word uint16_of_small unat_plus_small)
qed

lemma unat_upper: "unat (wcharToUpper c) = upper_nat (unat c)"
proof -
  have e: "c = 0x00DF \<longleftrightarrow> unat c = 223" "c = 0x0451 \<longleftrightarrow> unat c = 1105"
    by (simp_all add: word_unat_eq_iff)
  show ?thesis
    by (simp add: wcharToUpper_def upper_nat_def chars_in_unat e even_word uint16_of_small unat_sub)
qed


lemma lower_idem_nat: "lower_nat (lower_nat n) = lower_nat n"
  by (simp add: lower_nat_def)

lemma lower_upper_nat: "lower_nat (upper_nat n) = lower_nat n"
proof -
  consider "97 \<le> n" "n \<le> 122" | "n = 223" | "224 \<le> n" "n \<le> 246" | "248 \<le> n" "n \<le> 254"
   | "257 \<le> n" "n \<le> 303" "odd n" | "1072 \<le> n" "n \<le> 1103" | "n = 1105" | "upper_nat n = n"
    unfolding upper_nat_def by presburger
  then show ?thesis by cases (auto simp: upper_nat_def lower_nat_def)
qed


lemma lower_upper: "wcharToLower (wcharToUpper c) = wcharToLower c"
  by (simp add: word_unat_eq_iff unat_lower unat_upper lower_upper_nat)

lemma lower_lower: "wcharToLower (wcharToLower c) = wcharToLower c"
  by (simp add: word_unat_eq_iff unat_lower lower_idem_nat)

text \<open>Changing the case of a character leaves it in its script.\<close>

lemma lower_cases:
  obtains "65 \<le> n" "n \<le> 90" | "192 \<le> n" "n \<le> 214" | "216 \<le> n" "n \<le> 222"
    | "256 \<le> n" "n \<le> 302" "even n" | "n = 7838" | "n = 1025" | "1040 \<le> n" "n \<le> 1071" | "lower_nat n = n"
  unfolding lower_nat_def by presburger

lemma upper_cases:
  obtains "97 \<le> n" "n \<le> 122" | "n = 223" | "224 \<le> n" "n \<le> 246" | "248 \<le> n" "n \<le> 254"
   | "257 \<le> n" "n \<le> 303" "odd n" | "1072 \<le> n" "n \<le> 1103" | "n = 1105" | "upper_nat n = n"
    unfolding upper_nat_def by presburger

definition same_script :: "nat \<Rightarrow> nat \<Rightarrow> bool" where
  "same_script m n \<longleftrightarrow>
     ((97 \<le> m \<and> m \<le> 122 \<or> 65 \<le> m \<and> m \<le> 90) \<longleftrightarrow> (97 \<le> n \<and> n \<le> 122 \<or> 65 \<le> n \<and> n \<le> 90)) \<and>
     ((192 \<le> m \<and> m \<le> 214 \<or> 216 \<le> m \<and> m \<le> 222 \<or> m = 223 \<or> 224 \<le> m \<and> m \<le> 246 \<or> 248 \<le> m \<and> m \<le> 254
        \<or> 256 \<le> m \<and> m \<le> 303 \<or> m = 7838)
      \<longleftrightarrow> (192 \<le> n \<and> n \<le> 214 \<or> 216 \<le> n \<and> n \<le> 222 \<or> n = 223 \<or> 224 \<le> n \<and> n \<le> 246 \<or> 248 \<le> n \<and> n \<le> 254
        \<or> 256 \<le> n \<and> n \<le> 303 \<or> n = 7838)) \<and>
     ((1040 \<le> m \<and> m \<le> 1103 \<or> m = 1025 \<or> m = 1105) \<longleftrightarrow> (1040 \<le> n \<and> n \<le> 1103 \<or> n = 1025 \<or> n = 1105)) \<and>
     (m = n \<or> m < 4352 \<and> n < 4352 \<and> 65 \<le> m \<and> 65 \<le> n \<or> m \<in> {223, 7838} \<and> n \<in> {223, 7838})"

lemma lower_script: "same_script (lower_nat n) n"
  by (cases n rule: lower_cases) (simp_all add: lower_nat_def same_script_def)

lemma upper_script: "same_script (upper_nat n) n"
  by (cases n rule: upper_cases) (simp_all add: upper_nat_def same_script_def, presburger+)

lemma same_script_tests:
  assumes "same_script (unat d) (unat c)"
  shows "isBasicLatinCharacter d = isBasicLatinCharacter c"
    "isExtendedLatinCharacter d = isExtendedLatinCharacter c"
    "isCyrillicCharacter d = isCyrillicCharacter c"
    "isEastAsianCharacter d = isEastAsianCharacter c"
    "isNumericOrSpace d = isNumericOrSpace c"
proof -
  note a = assms [unfolded same_script_def]
  show basic: "isBasicLatinCharacter d = isBasicLatinCharacter c"
    using a [THEN conjunct1] by (simp add: isBasicLatinCharacter_def chars_in_unat)
  show "isExtendedLatinCharacter d = isExtendedLatinCharacter c"
    using a [THEN conjunct2, THEN conjunct1]
    by (simp add: isExtendedLatinCharacter_def chars_in_unat basic word_unat_eq_iff)
  show "isCyrillicCharacter d = isCyrillicCharacter c"
    using a [THEN conjunct2, THEN conjunct2, THEN conjunct1]
    by (simp add: isCyrillicCharacter_def chars_in_unat word_unat_eq_iff)
  from a [THEN conjunct2, THEN conjunct2, THEN conjunct2]
  have "d = c \<or> \<not> isEastAsianCharacter d \<and> \<not> isEastAsianCharacter c \<and> \<not> isNumericOrSpace d \<and> \<not> isNumericOrSpace c"
    by (auto simp: isEastAsianCharacter_def isNumericOrSpace_def isNumeric_def chars_in_unat word_unat_eq_iff)
  then show "isEastAsianCharacter d = isEastAsianCharacter c" "isNumericOrSpace d = isNumericOrSpace c" by auto
qed

section \<open>Back from UTF-16\<close>

text \<open>\<open>narrow w\<close>: the elements of a \<open>std::wstring\<close> that hold 16-bit code units.\<close>

definition narrow :: "wstring \<Rightarrow> bool" where
  "narrow w \<longleftrightarrow> list_all (\<lambda>u. unat u < 65536) w"

lemma narrow_mask: "unat u < 65536 \<Longrightarrow> mask16 u = u"
  by (simp add: mask16_take take_bit_small)

lemma unat_u16: "unat (ucast (ucast (w :: u32) :: u16) :: u32) = unat w mod 65536"
  by (simp only: u16_take unsigned_take_bit_eq take_bit_eq_mod [of 16 "unat w"]) simp

lemma narrow_units: "narrow (utf16_units cp)"
  by (simp add: narrow_def utf16_units_def unat_u16)

lemma narrow_encode: "valid_cps cps \<Longrightarrow> narrow (encode_utf16 cps)"
  by (induction cps) (use narrow_units in \<open>simp_all add: narrow_def\<close>)

lemma pair_units:
  assumes "is_lead_surrogate hi" "is_trail_surrogate lo"
    and cp: "cp = push_bit 10 hi + lo + SURROGATE_OFFSET"
  shows "utf16_units cp = [hi, lo]"
proof -
  have h: "55296 \<le> unat hi" "unat hi \<le> 56319" and l: "56320 \<le> unat lo" "unat lo \<le> 57343"
    using assms(1,2) by (simp_all add: is_lead_surrogate_def is_trail_surrogate_def word_le_nat_alt)
  have "unat (push_bit 10 hi) = unat hi * 1024" using h by (simp add: unat_push)
  then have "unat cp = (unat hi * 1024 + unat lo + 4238353408) mod 4294967296"
    by (simp add: cp unat_word_ariths SURROGATE_OFFSET_def mod_simps)
  moreover obtain a where a: "unat hi = 55296 + a" "a \<le> 1023" using h by (rule_tac that [of "unat hi - 55296"]) linarith+
  moreover obtain b where b: "unat lo = 56320 + b" "b \<le> 1023" using l by (rule_tac that [of "unat lo - 56320"]) linarith+
  ultimately have "unat cp = (a * 1024 + b + 65536 + 4294967296) mod 4294967296" by simp
  then have n: "unat cp = a * 1024 + b + 65536" using a b by (simp only: mod_add_self2) simp
  have q: "unat (drop_bit 10 cp) = a + 64" unfolding unat_drop using n b by simp
  have m: "unat (cp AND 0x3ff) = b"
    using n b tag(2) [of b 1024 "a + 64"] by (simp add: masks unat_and_mask algebra_simps)
  have "drop_bit 10 cp + LEAD_OFFSET = hi"
    using a(2) by (simp add: word_unat_eq_iff unat_word_ariths q a(1) LEAD_OFFSET_def)
  moreover have "(cp AND 0x3ff) + TRAIL_SURROGATE_MIN = lo"
    using b(2) by (simp add: word_unat_eq_iff unat_word_ariths m b(1) TRAIL_SURROGATE_MIN_def)
  moreover have "0xffff < cp" using n by (simp add: word_less_nat_alt)
  ultimately show ?thesis using h l
    by (simp add: utf16_units_def u16_take take_bit_small)
qed

lemma utf16to8_decoded:
  "utf16to8 w r = Inr out \<Longrightarrow> narrow w \<Longrightarrow> \<exists>cps. valid_cps cps \<and> w = encode_utf16 cps \<and> out = r @ encode_utf8 cps"
proof (induction w r rule: utf16to8.induct)
  case (1 r)
  then show ?case by (intro exI [of _ "[]"]) simp
next
  case (2 u it r)
  then have u: "mask16 u = u" "narrow it" by (simp_all add: narrow_def narrow_mask)
  show ?case
  proof (cases "is_lead_surrogate u")
    case True
    with "2.prems"(1) u obtain u' it' where it: "it = u' # it'" by (cases it) auto
    with u have u': "mask16 u' = u'" "narrow it'" by (simp_all add: narrow_def narrow_mask)
    define cp where "cp = push_bit 10 u + u' + SURROGATE_OFFSET"
    from "2.prems"(1) True u(1) u'(1) it have t: "is_trail_surrogate u'" by (auto simp: Let_def split: if_splits)
    with "2.prems"(1) True u(1) u'(1) it have v: "is_code_point_valid cp"
      and rec: "utf16to8 it' (r @ octets cp) = Inr out"
      by (auto simp: Let_def cp_def utf8_append_def split: if_splits)
    have "\<exists>cps. valid_cps cps \<and> it' = encode_utf16 cps \<and> out = (r @ octets cp) @ encode_utf8 cps"
      by (rule "2.IH"(1) [OF refl _ it refl _ _ rec])
        (use True u(1) u'(1,2) t v in \<open>simp_all add: cp_def utf8_append_def\<close>)
    then obtain cps where "valid_cps cps" "it' = encode_utf16 cps" "out = (r @ octets cp) @ encode_utf8 cps" by blast
    then show ?thesis using v it pair_units [OF True t cp_def] by (intro exI [of _ "cp # cps"]) simp
  next
    case False
    with "2.prems"(1) u(1) have t: "\<not> is_trail_surrogate u" and v: "is_code_point_valid u"
      and rec: "utf16to8 it (r @ octets u) = Inr out"
      by (auto simp: Let_def utf8_append_def split: if_splits)
    have "\<exists>cps. valid_cps cps \<and> it = encode_utf16 cps \<and> out = (r @ octets u) @ encode_utf8 cps"
      using "2.IH"(2) [OF refl] False t u v rec by (simp add: utf8_append_def)
    then obtain cps where "valid_cps cps" "it = encode_utf16 cps" "out = (r @ octets u) @ encode_utf8 cps" by blast
    moreover have "\<not> 0xffff < u" using "2.prems"(2) by (simp add: narrow_def word_less_nat_alt)
    ultimately show ?thesis using v narrow_unit(1) [of u] by (intro exI [of _ "u # cps"]) simp
  qed
qed


section \<open>The normal form of a name\<close>

fun normal :: "wstring \<Rightarrow> wstring" where
  "normal [] = []"
| "normal (c # cs) = wcharToUpper (wcharToLower c) # map wcharToLower cs"

lemma normalizePlayerName_eq:
  "normalizePlayerName name = (if name = [] then (False, name)
     else case Utf8toWStr name of (False, _) \<Rightarrow> (False, name) | (True, w) \<Rightarrow> WStrToUtf8 (normal w))"
proof -
  have "(if wstrToLower w \<noteq> [] then (wstrToLower w)[0 := wcharToUpper (wstrToLower w ! 0)] else wstrToLower w)
      = normal w" for w
    by (cases w) (simp_all add: wstrToLower_def)
  then show ?thesis by (simp only: normalizePlayerName_def Let_def)
qed

lemma normal_idem: "normal (normal w) = normal w"
  by (cases w) (simp_all add: lower_upper lower_lower)

lemma lower_normal: "wstrToLower (normal w) = wstrToLower w"
  by (cases w) (simp_all add: lower_upper lower_lower wstrToLower_def)

lemma case_small: "n < 65536 \<Longrightarrow> lower_nat n < 65536" "n < 65536 \<Longrightarrow> upper_nat n < 65536"
  by (auto simp: lower_nat_def upper_nat_def)

lemma narrow_normal: "narrow w \<Longrightarrow> narrow (normal w)"
  by (cases w) (auto simp: narrow_def list_all_iff unat_lower unat_upper intro!: case_small)

lemma script_normal:
  assumes "\<And>c d. same_script (unat d) (unat c) \<Longrightarrow> P d = P c"
  shows "is_string_of P (normal w) b = is_string_of P w b"
proof -
  have l: "P (wcharToLower c) = P c" "isNumericOrSpace (wcharToLower c) = isNumericOrSpace c" for c
    using assms [of "wcharToLower c" c] same_script_tests(5) [of "wcharToLower c" c]
    by (simp_all add: unat_lower lower_script)
  have "P (wcharToUpper c) = P c" "isNumericOrSpace (wcharToUpper c) = isNumericOrSpace c" for c
    using assms [of "wcharToUpper c" c] same_script_tests(5) [of "wcharToUpper c" c]
    by (simp_all add: unat_upper upper_script)
  then show ?thesis by (cases w) (simp_all add: is_string_of_def list_all_iff l)
qed

lemma valid_normal: "isValidString cfg (normal w) m b create = isValidString cfg w m b create"
  unfolding isValidString_def isBasicLatinString_def isExtendedLatinString_def isCyrillicString_def
    isEastAsianString_def
  by (simp only: script_normal [OF same_script_tests(1)] script_normal [OF same_script_tests(2)]
      script_normal [OF same_script_tests(3)] script_normal [OF same_script_tests(4)])

lemma length_normal [simp]: "length (normal w) = length w"
  by (cases w) simp_all

lemma Utf8toWStr_narrow: "Utf8toWStr s = (True, w) \<Longrightarrow> narrow w"
  by (auto simp: Utf8toWStr_def narrow_encode dest!: decoded(2) split: sum.splits)

section \<open>Properties\<close>

text \<open>
  C32: the UTF-8 validator and the converter to UTF-16 accept exactly the strings that are
  the concatenated encodings of Unicode scalar values (code points up to 10FFFF that are
  not surrogates), so no overlong form, no surrogate, no truncated and no five-byte
  sequence passes; the converter delivers their UTF-16 code units, and the number of
  characters counted is that of the scalar values.
\<close>

theorem utf8_accepts_exactly:
  "(is_valid s \<longleftrightarrow> (\<exists>cps. list_all is_code_point_valid cps \<and> s = concat (map octets cps))) \<and>
   (Utf8toWStr s = (True, w) \<longleftrightarrow>
     (\<exists>cps. list_all is_code_point_valid cps \<and> s = concat (map octets cps) \<and> w = concat (map utf16_units cps))) \<and>
   (utf8length s = (Suc n, s) \<longleftrightarrow>
     (\<exists>cps. list_all is_code_point_valid cps \<and> s = concat (map octets cps) \<and> Suc n = length cps))"
  unfolding encode_utf8_def [symmetric] encode_utf16_def [symmetric]
proof (intro conjI)
  show "is_valid s \<longleftrightarrow> (\<exists>cps. valid_cps cps \<and> s = encode_utf8 cps)" by (rule valid_string_iff)
  show "Utf8toWStr s = (True, w) \<longleftrightarrow> (\<exists>cps. valid_cps cps \<and> s = encode_utf8 cps \<and> w = encode_utf16 cps)"
    by (auto simp: Utf8toWStr_def dest: decoded(2) split: sum.splits)
  show "utf8length s = (Suc n, s) \<longleftrightarrow> (\<exists>cps. valid_cps cps \<and> s = encode_utf8 cps \<and> Suc n = length cps)"
    using decoded(1) [of s 0] by (auto simp: utf8length_def split: sum.splits)
qed

text \<open>
  C33: a string that converts to UTF-16 converts back to itself, byte for byte, and a
  string of UTF-16 code units that converts to UTF-8 converts back to itself.
\<close>

theorem utf_conversions_roundtrip:
  "(Utf8toWStr s = (True, w) \<longrightarrow> WStrToUtf8 w = (True, s)) \<and>
   (list_all (\<lambda>u. u \<le> 0xffff) v \<and> WStrToUtf8 v = (True, t) \<longrightarrow> Utf8toWStr t = (True, v))"
proof (intro conjI impI)
  show "Utf8toWStr s = (True, w) \<Longrightarrow> WStrToUtf8 w = (True, s)"
    by (auto simp: Utf8toWStr_def WStrToUtf8_def dest!: decoded(2) split: sum.splits)
  assume v: "list_all (\<lambda>u. u \<le> 0xffff) v \<and> WStrToUtf8 v = (True, t)"
  then have "narrow v" unfolding narrow_def by (auto simp: list_all_iff word_le_nat_alt)
  with v show "Utf8toWStr t = (True, v)"
    by (auto simp: Utf8toWStr_def WStrToUtf8_def dest!: utf16to8_decoded split: sum.splits)
qed

theorem utf_conversions_roundtrip_witness:
  "WStrToUtf8 [0x41, 0xd83d, 0xde00] = (True, [0x41, 0xf0, 0x9f, 0x98, 0x80]) \<and>
   Utf8toWStr [0x41, 0xf0, 0x9f, 0x98, 0x80] = (True, [0x41, 0xd83d, 0xde00])"
proof -
  have "Utf8toWStr [0x41, 0xf0, 0x9f, 0x98, 0x80] = (True, [0x41, 0xd83d, 0xde00])" by code_simp
  then have "WStrToUtf8 [0x41, 0xd83d, 0xde00] = (True, [0x41, 0xf0, 0x9f, 0x98, 0x80])"
    using utf_conversions_roundtrip by blast
  moreover have "list_all (\<lambda>u. u \<le> 0xffff) [0x41, 0xd83d, 0xde00 :: u32]" by code_simp
  ultimately show ?thesis using utf_conversions_roundtrip by blast
qed

lemma length_octets: "length (octets cp) \<le> 4" "0 < length (octets cp)"
  by (simp_all add: octets_def)

text \<open>
  C34: what \<open>utf8truncate\<close> does to every string. It clears a string that is not valid
  UTF-8, leaves one that is short enough, and cuts one that is too long to its first
  \<open>len\<close> characters - unless the string has a character outside the basic multilingual
  plane, where the function writes behind the end of its UTF-16 buffer, which has one
  element for a character that needs two.
\<close>

theorem utf8truncate_cuts_or_overruns:
  "(\<not> is_valid s \<longrightarrow> utf8truncate s len = Some []) \<and>
   (list_all is_code_point_valid cps \<and> s = concat (map octets cps) \<longrightarrow>
      utf8truncate s len =
        (if length cps \<le> len then Some s
         else if list_all (\<lambda>cp. \<not> 0xffff < cp) cps then Some (concat (map octets (take len cps)))
         else None))"
  unfolding encode_utf8_def [symmetric]
proof (intro conjI impI)
  assume i: "\<not> is_valid s"
  then show "utf8truncate s len = Some []"
    by (cases s rule: string_cases) (auto simp: utf8truncate_def is_valid_def)
next
  assume "valid_cps cps \<and> s = encode_utf8 cps"
  then have v: "valid_cps cps" and s: "s = encode_utf8 cps" by simp_all
  let ?n = "list_all (\<lambda>cp. \<not> 0xffff < cp) cps"
  have short: "length (encode_utf8 (take len cps)) \<le> length (encode_utf8 cps)"
    using encode_utf8_append [of "take len cps" "drop len cps"] by (metis append_take_drop_id le_add1 length_append)
  have t: "valid_cps (take len cps)" using v by (auto simp: list_all_iff dest: in_set_takeD)
  have u: "encode_utf16 (take len cps) = take len cps" if ?n
    using that t by (intro utf16_narrow) (auto simp: list_all_iff dest: in_set_takeD)
  show "utf8truncate s len = (if length cps \<le> len then Some s
     else if ?n then Some (encode_utf8 (take len cps)) else None)"
  proof (cases "length cps \<le> len")
    case False
    show ?thesis
    proof (cases ?n)
      case True
      then show ?thesis
        using v False short utf16to8_encode [OF t, of "[]"]
        by (simp add: s utf8truncate_def Let_def utf16_narrow u)
    next
      case n: False
      then show ?thesis using v False utf16_length(2) [OF v n]
        by (simp only: s utf8truncate_def) simp
    qed
  qed (use v in \<open>simp add: s utf8truncate_def\<close>)
qed

theorem utf8truncate_cuts_or_overruns_witness:
  "utf8truncate [0xff] 3 = Some [] \<and> utf8truncate [0x61, 0x62, 0xc3, 0xa9, 0x64] 3 = Some [0x61, 0x62, 0xc3, 0xa9] \<and>
   utf8truncate [0x61, 0xf0, 0x9f, 0x98, 0x80] 1 = None"
proof -
  have "\<not> is_valid [0xff]" by code_simp
  then have "utf8truncate [0xff] 3 = Some []" using utf8truncate_cuts_or_overruns by blast
  moreover have "list_all is_code_point_valid [0x61, 0x62, 0xe9, 0x64] \<and>
      [0x61, 0x62, 0xc3, 0xa9, 0x64] = concat (map octets [0x61, 0x62, 0xe9, 0x64])"
    "list_all (\<lambda>cp. \<not> 0xffff < cp) [0x61, 0x62, 0xe9, 0x64 :: u32]"
    "concat (map octets (take 3 [0x61, 0x62, 0xe9, 0x64])) = [0x61, 0x62, 0xc3, 0xa9]"
    "list_all is_code_point_valid [0x61, 0x1f600] \<and>
      [0x61, 0xf0, 0x9f, 0x98, 0x80] = concat (map octets [0x61, 0x1f600])"
    "\<not> list_all (\<lambda>cp. \<not> 0xffff < cp) [0x61, 0x1f600 :: u32]"
    by code_simp+
  ultimately show ?thesis
    using utf8truncate_cuts_or_overruns [of "[0x61, 0x62, 0xc3, 0xa9, 0x64]" 3 "[0x61, 0x62, 0xe9, 0x64]"]
      utf8truncate_cuts_or_overruns [of "[0x61, 0xf0, 0x9f, 0x98, 0x80]" 1 "[0x61, 0x1f600]"]
    by simp
qed


text \<open>
  C35: normalising a player name is done once and for all: the normalised name normalises
  to itself, it is the one all spellings that differ in case share, and the checks on new
  names (length, script, three equal letters, profane and reserved names) answer the same
  for it as for the name typed in.
\<close>

theorem normalized_name_canonical:
  assumes n: "normalizePlayerName name = (True, n)"
  shows "normalizePlayerName n = (True, n) \<and>
    CheckPlayerName cfg n locale create = CheckPlayerName cfg name locale create \<and>
    (\<forall>w v. Utf8toWStr name = (True, w) \<and> Utf8toWStr name' = (True, v) \<and> wstrToLower v = wstrToLower w
       \<longrightarrow> normalizePlayerName name' = (True, n))"
proof -
  from n obtain w where w: "name \<noteq> []" "Utf8toWStr name = (True, w)" "WStrToUtf8 (normal w) = (True, n)"
    by (auto simp: normalizePlayerName_eq split: if_splits prod.splits bool.splits)
  then have "narrow (normal w)" using Utf8toWStr_narrow narrow_normal by blast
  with w(3) have b: "Utf8toWStr n = (True, normal w)"
    by (auto simp: Utf8toWStr_def WStrToUtf8_def dest!: utf16to8_decoded split: sum.splits)
  have ne: "s \<noteq> [] \<longleftrightarrow> v \<noteq> []" if "Utf8toWStr s = (True, v)" for s v
  proof -
    from that obtain cps where "valid_cps cps" "s = encode_utf8 cps" "v = encode_utf16 cps"
      by (auto simp: Utf8toWStr_def dest!: decoded(2) split: sum.splits)
    then show ?thesis by (cases cps) (auto simp: utf16_units_def)
  qed
  have "normal w \<noteq> []" using ne [OF w(2)] w(1) by (cases w) simp_all
  with ne [OF b] have "normalizePlayerName n = (True, n)"
    using w(3) by (simp add: normalizePlayerName_eq b normal_idem)
  moreover have "CheckPlayerName cfg n locale create = CheckPlayerName cfg name locale create"
    by (simp add: CheckPlayerName_def b w(2) valid_normal lower_normal)
  moreover have "normalizePlayerName name' = (True, n)"
    if v: "Utf8toWStr name' = (True, v)" "wstrToLower v = wstrToLower w" for v
  proof -
    have "normal v = normal w"
      using v(2) by (cases v; cases w) (auto simp: wstrToLower_def)
    moreover have "v \<noteq> []" using v(2) ne [OF w(2)] w(1) by (auto simp: wstrToLower_def)
    ultimately show ?thesis using v(1) ne [OF v(1)] w(3) by (simp add: normalizePlayerName_eq)
  qed
  ultimately show ?thesis using w(2) by auto
qed

definition demo_names :: name_config where
  "demo_names = \<lparr>CONFIG_REALM_ZONE = 2, CONFIG_MIN_PLAYER_NAME = 2, CONFIG_STRICT_PLAYER_NAMES = 2,
     NamesProfaneValidators = (\<lambda>_. []), NamesReservedValidators = (\<lambda>_. [])\<rparr>"

theorem normalized_name_canonical_witness:
  "normalizePlayerName [0x41, 0x6e, 0x6e, 0xc3, 0xa9] = (True, [0x41, 0x6e, 0x6e, 0xc3, 0xa9]) \<and>
   CheckPlayerName demo_names [0x41, 0x6e, 0x6e, 0xc3, 0xa9] 0 True = CHAR_NAME_SUCCESS \<and>
   CheckPlayerName demo_names [0x61, 0x4e, 0x6e, 0xc3, 0x89] 0 True = CHAR_NAME_SUCCESS \<and>
   normalizePlayerName [0x61, 0x6e, 0x6e, 0xc3, 0x89] = (True, [0x41, 0x6e, 0x6e, 0xc3, 0xa9])"
proof -
  have n: "normalizePlayerName [0x61, 0x4e, 0x6e, 0xc3, 0x89] = (True, [0x41, 0x6e, 0x6e, 0xc3, 0xa9])" by code_simp
  have "Utf8toWStr [0x61, 0x4e, 0x6e, 0xc3, 0x89] = (True, [0x61, 0x4e, 0x6e, 0xc9])"
    "Utf8toWStr [0x61, 0x6e, 0x6e, 0xc3, 0x89] = (True, [0x61, 0x6e, 0x6e, 0xc9])"
    "wstrToLower [0x61, 0x6e, 0x6e, 0xc9] = wstrToLower [0x61, 0x4e, 0x6e, 0xc9]"
    "CheckPlayerName demo_names [0x61, 0x4e, 0x6e, 0xc3, 0x89] 0 True = CHAR_NAME_SUCCESS"
    by code_simp+
  then show ?thesis
    using normalized_name_canonical [OF n, of demo_names 0 True "[0x61, 0x6e, 0x6e, 0xc3, 0x89]"] by auto
qed

end
