(* ===== verification/Channel_Packets.thy ===== *)
theory Channel_Packets
  imports Byte_Buffer_Codec Object_Guid
begin

text \<open>
  The packets of the chat channels: the notices of \<open>Chat/Channels/ChannelAppenders.h\<close> and what
  \<open>Server/Packets/ChannelPackets.cpp\<close> writes and reads. Each appender is the notice it makes of
  its arguments; the name of the channel, in the language of each recipient, is filled in by
  the builder.
\<close>

section \<open>Notices\<close>

definition CHAT_JOINED_NOTICE :: u8 where "CHAT_JOINED_NOTICE = 0x00"
definition CHAT_LEFT_NOTICE :: u8 where "CHAT_LEFT_NOTICE = 0x01"
definition CHAT_YOU_JOINED_NOTICE :: u8 where "CHAT_YOU_JOINED_NOTICE = 0x02"
definition CHAT_YOU_LEFT_NOTICE :: u8 where "CHAT_YOU_LEFT_NOTICE = 0x03"
definition CHAT_WRONG_PASSWORD_NOTICE :: u8 where "CHAT_WRONG_PASSWORD_NOTICE = 0x04"
definition CHAT_NOT_MEMBER_NOTICE :: u8 where "CHAT_NOT_MEMBER_NOTICE = 0x05"
definition CHAT_NOT_MODERATOR_NOTICE :: u8 where "CHAT_NOT_MODERATOR_NOTICE = 0x06"
definition CHAT_PASSWORD_CHANGED_NOTICE :: u8 where "CHAT_PASSWORD_CHANGED_NOTICE = 0x07"
definition CHAT_OWNER_CHANGED_NOTICE :: u8 where "CHAT_OWNER_CHANGED_NOTICE = 0x08"
definition CHAT_PLAYER_NOT_FOUND_NOTICE :: u8 where "CHAT_PLAYER_NOT_FOUND_NOTICE = 0x09"
definition CHAT_NOT_OWNER_NOTICE :: u8 where "CHAT_NOT_OWNER_NOTICE = 0x0A"
definition CHAT_CHANNEL_OWNER_NOTICE :: u8 where "CHAT_CHANNEL_OWNER_NOTICE = 0x0B"
definition CHAT_MODE_CHANGE_NOTICE :: u8 where "CHAT_MODE_CHANGE_NOTICE = 0x0C"
definition CHAT_ANNOUNCEMENTS_ON_NOTICE :: u8 where "CHAT_ANNOUNCEMENTS_ON_NOTICE = 0x0D"
definition CHAT_ANNOUNCEMENTS_OFF_NOTICE :: u8 where "CHAT_ANNOUNCEMENTS_OFF_NOTICE = 0x0E"
definition CHAT_MODERATION_ON_NOTICE :: u8 where "CHAT_MODERATION_ON_NOTICE = 0x0F"
definition CHAT_MODERATION_OFF_NOTICE :: u8 where "CHAT_MODERATION_OFF_NOTICE = 0x10"
definition CHAT_MUTED_NOTICE :: u8 where "CHAT_MUTED_NOTICE = 0x11"
definition CHAT_PLAYER_KICKED_NOTICE :: u8 where "CHAT_PLAYER_KICKED_NOTICE = 0x12"
definition CHAT_BANNED_NOTICE :: u8 where "CHAT_BANNED_NOTICE = 0x13"
definition CHAT_PLAYER_BANNED_NOTICE :: u8 where "CHAT_PLAYER_BANNED_NOTICE = 0x14"
definition CHAT_PLAYER_UNBANNED_NOTICE :: u8 where "CHAT_PLAYER_UNBANNED_NOTICE = 0x15"
definition CHAT_PLAYER_NOT_BANNED_NOTICE :: u8 where "CHAT_PLAYER_NOT_BANNED_NOTICE = 0x16"
definition CHAT_PLAYER_ALREADY_MEMBER_NOTICE :: u8 where "CHAT_PLAYER_ALREADY_MEMBER_NOTICE = 0x17"
definition CHAT_INVITE_NOTICE :: u8 where "CHAT_INVITE_NOTICE = 0x18"
definition CHAT_INVITE_WRONG_FACTION_NOTICE :: u8 where "CHAT_INVITE_WRONG_FACTION_NOTICE = 0x19"
definition CHAT_WRONG_FACTION_NOTICE :: u8 where "CHAT_WRONG_FACTION_NOTICE = 0x1A"
definition CHAT_INVALID_NAME_NOTICE :: u8 where "CHAT_INVALID_NAME_NOTICE = 0x1B"
definition CHAT_NOT_MODERATED_NOTICE :: u8 where "CHAT_NOT_MODERATED_NOTICE = 0x1C"
definition CHAT_PLAYER_INVITED_NOTICE :: u8 where "CHAT_PLAYER_INVITED_NOTICE = 0x1D"
definition CHAT_PLAYER_INVITE_BANNED_NOTICE :: u8 where "CHAT_PLAYER_INVITE_BANNED_NOTICE = 0x1E"
definition CHAT_THROTTLED_NOTICE :: u8 where "CHAT_THROTTLED_NOTICE = 0x1F"
definition CHAT_NOT_IN_AREA_NOTICE :: u8 where "CHAT_NOT_IN_AREA_NOTICE = 0x20"
definition CHAT_NOT_IN_LFG_NOTICE :: u8 where "CHAT_NOT_IN_LFG_NOTICE = 0x21"
definition CHAT_VOICE_ON_NOTICE :: u8 where "CHAT_VOICE_ON_NOTICE = 0x22"
definition CHAT_VOICE_OFF_NOTICE :: u8 where "CHAT_VOICE_OFF_NOTICE = 0x23"

record channel_notify =
  cn_Sender :: bytes
  cn_SenderGuid :: guid
  cn_Type :: u8
  cn_OldFlags :: u8
  cn_NewFlags :: u8
  cn_Channel :: bytes
  cn_TargetGuid :: guid
  cn_ChatChannelID :: u32
  cn_InstanceID :: u32
  cn_Suspended :: bool

definition notify :: "u8 \<Rightarrow> channel_notify" where
  "notify type =
     \<lparr>cn_Sender = [], cn_SenderGuid = 0, cn_Type = type, cn_OldFlags = 0, cn_NewFlags = 0, cn_Channel = [],
      cn_TargetGuid = 0, cn_ChatChannelID = 0, cn_InstanceID = 0, cn_Suspended = False\<rparr>"

text \<open>The bytes of \<open>"Nobody"\<close>.\<close>

definition nobody :: bytes where
  "nobody = [0x4E, 0x6F, 0x62, 0x6F, 0x64, 0x79]"

definition JoinedAppend :: "guid \<Rightarrow> channel_notify" where
  "JoinedAppend guid = notify CHAT_JOINED_NOTICE\<lparr>cn_SenderGuid := guid\<rparr>"

definition LeftAppend :: "guid \<Rightarrow> channel_notify" where
  "LeftAppend guid = notify CHAT_LEFT_NOTICE\<lparr>cn_SenderGuid := guid\<rparr>"

definition YouJoinedAppend :: "u8 \<Rightarrow> u32 \<Rightarrow> channel_notify" where
  "YouJoinedAppend flags channelId =
     notify CHAT_YOU_JOINED_NOTICE\<lparr>cn_NewFlags := flags, cn_ChatChannelID := channelId, cn_InstanceID := 0\<rparr>"

definition YouLeftAppend :: "u32 \<Rightarrow> bool \<Rightarrow> channel_notify" where
  "YouLeftAppend channelId suspend =
     notify CHAT_YOU_LEFT_NOTICE\<lparr>cn_ChatChannelID := channelId, cn_Suspended := suspend\<rparr>"

definition WrongPasswordAppend :: channel_notify where
  "WrongPasswordAppend = notify CHAT_WRONG_PASSWORD_NOTICE"

definition NotMemberAppend :: channel_notify where
  "NotMemberAppend = notify CHAT_NOT_MEMBER_NOTICE"

definition NotModeratorAppend :: channel_notify where
  "NotModeratorAppend = notify CHAT_NOT_MODERATOR_NOTICE"

definition PasswordChangedAppend :: "guid \<Rightarrow> channel_notify" where
  "PasswordChangedAppend guid =
     notify CHAT_PASSWORD_CHANGED_NOTICE\<lparr>cn_SenderGuid := guid\<rparr>"

definition OwnerChangedAppend :: "guid \<Rightarrow> channel_notify" where
  "OwnerChangedAppend guid = notify CHAT_OWNER_CHANGED_NOTICE\<lparr>cn_SenderGuid := guid\<rparr>"

definition PlayerNotFoundAppend :: "bytes \<Rightarrow> channel_notify" where
  "PlayerNotFoundAppend playerName =
     notify CHAT_PLAYER_NOT_FOUND_NOTICE\<lparr>cn_Sender := playerName\<rparr>"

definition NotOwnerAppend :: channel_notify where
  "NotOwnerAppend = notify CHAT_NOT_OWNER_NOTICE"

definition ChannelOwnerAppend :: "bool \<Rightarrow> guid \<Rightarrow> bytes option \<Rightarrow> channel_notify" where
  "ChannelOwnerAppend isConstant ownerGuid cachedName =
     (let ownerName = (case cachedName of Some n \<Rightarrow> n | None \<Rightarrow> []) in
      notify CHAT_CHANNEL_OWNER_NOTICE\<lparr>cn_Sender := (if isConstant \<or> ownerGuid = 0 then nobody else ownerName)\<rparr>)"

definition ModeChangeAppend :: "guid \<Rightarrow> u8 \<Rightarrow> u8 \<Rightarrow> channel_notify" where
  "ModeChangeAppend guid oldFlags newFlags =
     notify CHAT_MODE_CHANGE_NOTICE\<lparr>cn_SenderGuid := guid, cn_OldFlags := oldFlags, cn_NewFlags := newFlags\<rparr>"

definition AnnouncementsOnAppend :: "guid \<Rightarrow> channel_notify" where
  "AnnouncementsOnAppend guid =
     notify CHAT_ANNOUNCEMENTS_ON_NOTICE\<lparr>cn_SenderGuid := guid\<rparr>"

definition AnnouncementsOffAppend :: "guid \<Rightarrow> channel_notify" where
  "AnnouncementsOffAppend guid =
     notify CHAT_ANNOUNCEMENTS_OFF_NOTICE\<lparr>cn_SenderGuid := guid\<rparr>"

definition MutedAppend :: channel_notify where
  "MutedAppend = notify CHAT_MUTED_NOTICE"

definition PlayerKickedAppend :: "guid \<Rightarrow> guid \<Rightarrow> channel_notify" where
  "PlayerKickedAppend kicker kickee =
     notify CHAT_PLAYER_KICKED_NOTICE\<lparr>cn_SenderGuid := kicker, cn_TargetGuid := kickee\<rparr>"

definition BannedAppend :: channel_notify where
  "BannedAppend = notify CHAT_BANNED_NOTICE"

definition PlayerBannedAppend :: "guid \<Rightarrow> guid \<Rightarrow> channel_notify" where
  "PlayerBannedAppend moderator banned =
     notify CHAT_PLAYER_BANNED_NOTICE\<lparr>cn_SenderGuid := moderator, cn_TargetGuid := banned\<rparr>"

definition PlayerUnbannedAppend :: "guid \<Rightarrow> guid \<Rightarrow> channel_notify" where
  "PlayerUnbannedAppend moderator unbanned =
     notify CHAT_PLAYER_UNBANNED_NOTICE\<lparr>cn_SenderGuid := moderator, cn_TargetGuid := unbanned\<rparr>"

definition PlayerNotBannedAppend :: "bytes \<Rightarrow> channel_notify" where
  "PlayerNotBannedAppend playerName =
     notify CHAT_PLAYER_NOT_BANNED_NOTICE\<lparr>cn_Sender := playerName\<rparr>"

definition PlayerAlreadyMemberAppend :: "guid \<Rightarrow> channel_notify" where
  "PlayerAlreadyMemberAppend guid =
     notify CHAT_PLAYER_ALREADY_MEMBER_NOTICE\<lparr>cn_SenderGuid := guid\<rparr>"

definition InviteAppend :: "guid \<Rightarrow> channel_notify" where
  "InviteAppend guid = notify CHAT_INVITE_NOTICE\<lparr>cn_SenderGuid := guid\<rparr>"

definition InviteWrongFactionAppend :: channel_notify where
  "InviteWrongFactionAppend = notify CHAT_INVITE_WRONG_FACTION_NOTICE"

definition WrongFactionAppend :: channel_notify where
  "WrongFactionAppend = notify CHAT_WRONG_FACTION_NOTICE"

definition InvalidNameAppend :: channel_notify where
  "InvalidNameAppend = notify CHAT_INVALID_NAME_NOTICE"

definition NotModeratedAppend :: channel_notify where
  "NotModeratedAppend = notify CHAT_NOT_MODERATED_NOTICE"

definition PlayerInvitedAppend :: "bytes \<Rightarrow> channel_notify" where
  "PlayerInvitedAppend playerName =
     notify CHAT_PLAYER_INVITED_NOTICE\<lparr>cn_Sender := playerName\<rparr>"

definition PlayerInviteBannedAppend :: "bytes \<Rightarrow> channel_notify" where
  "PlayerInviteBannedAppend playerName =
     notify CHAT_PLAYER_INVITE_BANNED_NOTICE\<lparr>cn_Sender := playerName\<rparr>"

definition ThrottledAppend :: channel_notify where
  "ThrottledAppend = notify CHAT_THROTTLED_NOTICE"

definition NotInAreaAppend :: channel_notify where
  "NotInAreaAppend = notify CHAT_NOT_IN_AREA_NOTICE"

definition NotInLFGAppend :: channel_notify where
  "NotInLFGAppend = notify CHAT_NOT_IN_LFG_NOTICE"

definition VoiceOnAppend :: "guid \<Rightarrow> channel_notify" where
  "VoiceOnAppend guid = notify CHAT_VOICE_ON_NOTICE\<lparr>cn_SenderGuid := guid\<rparr>"

definition VoiceOffAppend :: "guid \<Rightarrow> channel_notify" where
  "VoiceOffAppend guid = notify CHAT_VOICE_OFF_NOTICE\<lparr>cn_SenderGuid := guid\<rparr>"

text \<open>The builder fills in the name of the channel in the language of the recipient.\<close>

definition ChannelNameBuilder :: "bytes \<Rightarrow> channel_notify \<Rightarrow> channel_notify" where
  "ChannelNameBuilder name modifier = modifier\<lparr>cn_Channel := name\<rparr>"

section \<open>Writing\<close>

text \<open>What \<open>ChannelNotify::Write\<close> puts into the packet: type, channel, and what the type calls for.\<close>

definition ChannelNotify_tail :: "channel_notify \<Rightarrow> packet_value list" where
  "ChannelNotify_tail n =
     (let t = cn_Type n in
      if t \<in> set [CHAT_JOINED_NOTICE, CHAT_LEFT_NOTICE, CHAT_PASSWORD_CHANGED_NOTICE, CHAT_OWNER_CHANGED_NOTICE,
           CHAT_ANNOUNCEMENTS_ON_NOTICE, CHAT_ANNOUNCEMENTS_OFF_NOTICE, CHAT_MODERATION_ON_NOTICE,
           CHAT_MODERATION_OFF_NOTICE, CHAT_PLAYER_ALREADY_MEMBER_NOTICE, CHAT_INVITE_NOTICE,
           CHAT_VOICE_ON_NOTICE, CHAT_VOICE_OFF_NOTICE]
        then [V_guid (cn_SenderGuid n)]
      else if t = CHAT_YOU_JOINED_NOTICE
        then [V_u8 (cn_NewFlags n), V_u32 (cn_ChatChannelID n), V_u32 (cn_InstanceID n)]
      else if t = CHAT_YOU_LEFT_NOTICE
        then [V_u32 (cn_ChatChannelID n), V_u8 (if cn_Suspended n then 1 else 0)]
      else if t \<in> set [CHAT_PLAYER_NOT_FOUND_NOTICE, CHAT_CHANNEL_OWNER_NOTICE, CHAT_PLAYER_NOT_BANNED_NOTICE,
           CHAT_PLAYER_INVITED_NOTICE, CHAT_PLAYER_INVITE_BANNED_NOTICE]
        then [V_string (cn_Sender n)]
      else if t = CHAT_MODE_CHANGE_NOTICE
        then [V_guid (cn_SenderGuid n), V_u8 (cn_OldFlags n), V_u8 (cn_NewFlags n)]
      else if t \<in> set [CHAT_PLAYER_KICKED_NOTICE, CHAT_PLAYER_BANNED_NOTICE, CHAT_PLAYER_UNBANNED_NOTICE]
        then [V_guid (cn_TargetGuid n), V_guid (cn_SenderGuid n)]
      else [])"

definition ChannelNotify_Write :: "channel_notify \<Rightarrow> writer" where
  "ChannelNotify_Write n = put_values (V_u8 (cn_Type n) # V_string (cn_Channel n) # ChannelNotify_tail n)"

record channel_list_response =
  cl_Members :: "(guid \<times> u8) list"
  cl_Channel :: bytes
  cl_ChannelFlags :: u8
  cl_Display :: bool

definition ChannelListResponse_Write :: "channel_list_response \<Rightarrow> writer" where
  "ChannelListResponse_Write l =
     put_values ([V_u8 (if cl_Display l then 1 else 0), V_string (cl_Channel l), V_u8 (cl_ChannelFlags l),
        V_u32 (of_nat (length (cl_Members l)))]
       @ concat (map (\<lambda>(guid, flags). [V_guid guid, V_u8 flags]) (cl_Members l)))"

definition ChannelMemberCount_Write :: "bytes \<Rightarrow> u8 \<Rightarrow> u32 \<Rightarrow> writer" where
  "ChannelMemberCount_Write channelName flags memberCount =
     put_values [V_string channelName, V_u8 flags, V_u32 memberCount]"

section \<open>Reading\<close>

record join_channel_packet =
  jc_ChatChannelId :: u32
  jc_CreateVoiceSession :: bool
  jc_Internal :: bool
  jc_ChannelName :: bytes
  jc_Password :: bytes

definition JoinChannel_Read :: "join_channel_packet reader" where
  "JoinChannel_Read =
     read_then get_word (\<lambda>i. read_then get_bool (\<lambda>v. read_then get_bool (\<lambda>n.
     read_then get_cstring (\<lambda>name. read_map (\<lambda>pass.
       \<lparr>jc_ChatChannelId = i, jc_CreateVoiceSession = v, jc_Internal = n, jc_ChannelName = name,
        jc_Password = pass\<rparr>) get_cstring))))"

definition LeaveChannel_Read :: "(u32 \<times> bytes) reader" where
  "LeaveChannel_Read = read_then get_word (\<lambda>i. read_map (\<lambda>name. (i, name)) get_cstring)"

definition ChannelCommand_Read :: "bytes reader" where
  "ChannelCommand_Read = get_cstring"

definition ChannelPlayerCommand_Read :: "(bytes \<times> bytes) reader" where
  "ChannelPlayerCommand_Read = read_then get_cstring (\<lambda>channel. read_map (Pair channel) get_cstring)"

definition ChannelPassword_Read :: "(bytes \<times> bytes) reader" where
  "ChannelPassword_Read = read_then get_cstring (\<lambda>channel. read_map (Pair channel) get_cstring)"

text \<open>A notice is no longer than its name and text and 40 bytes, so it always fits the buffer.\<close>

lemma notice_length:
  "length (concat (map value_bytes (V_u8 (cn_Type n) # V_string (cn_Channel n) # ChannelNotify_tail n)))
     \<le> length (cn_Channel n) + length (cn_Sender n) + 40"
  by (simp add: ChannelNotify_tail_def Let_def)

end
