(* ===== verification/Channel.thy ===== *)
theory Channel
  imports Channel_Packets
begin

text \<open>
  Chat channels (\<open>src/server/game/Chat/Channels/Channel.h\<close> and \<open>Channel.cpp\<close>): who is in, who
  owns, moderates, is muted or banned, and who is told what. Each operation takes the state
  of the channel and returns it with the list of what it did outside: notices and packets,
  entries and departures in the players' own channel lists, and database statements. What
  the rest of the server answers is the record \<open>chan_env\<close>.
\<close>

section \<open>Members\<close>

definition MEMBER_FLAG_NONE :: u8 where "MEMBER_FLAG_NONE = 0x00"
definition MEMBER_FLAG_OWNER :: u8 where "MEMBER_FLAG_OWNER = 0x01"
definition MEMBER_FLAG_MODERATOR :: u8 where "MEMBER_FLAG_MODERATOR = 0x02"
definition MEMBER_FLAG_MUTED :: u8 where "MEMBER_FLAG_MUTED = 0x08"

lemmas member_flags = MEMBER_FLAG_NONE_def MEMBER_FLAG_OWNER_def MEMBER_FLAG_MODERATOR_def MEMBER_FLAG_MUTED_def

record player_info =
  pi_flags :: u8
  pi_invisible :: bool

definition new_PlayerInfo :: player_info where
  "new_PlayerInfo = \<lparr>pi_flags = MEMBER_FLAG_NONE, pi_invisible = False\<rparr>"

definition pi_HasFlag :: "u8 \<Rightarrow> player_info \<Rightarrow> bool" where
  "pi_HasFlag flag i \<longleftrightarrow> pi_flags i AND flag \<noteq> 0"

definition pi_SetFlag :: "u8 \<Rightarrow> player_info \<Rightarrow> player_info" where
  "pi_SetFlag flag i = i\<lparr>pi_flags := pi_flags i OR flag\<rparr>"

definition pi_RemoveFlag :: "u8 \<Rightarrow> player_info \<Rightarrow> player_info" where
  "pi_RemoveFlag flag i = i\<lparr>pi_flags := pi_flags i AND NOT flag\<rparr>"

definition pi_IsOwner :: "player_info \<Rightarrow> bool" where
  "pi_IsOwner = pi_HasFlag MEMBER_FLAG_OWNER"

definition pi_SetOwner :: "bool \<Rightarrow> player_info \<Rightarrow> player_info" where
  "pi_SetOwner state i = (if state then pi_SetFlag MEMBER_FLAG_OWNER i else pi_RemoveFlag MEMBER_FLAG_OWNER i)"

definition pi_IsModerator :: "player_info \<Rightarrow> bool" where
  "pi_IsModerator = pi_HasFlag MEMBER_FLAG_MODERATOR"

definition pi_SetModerator :: "bool \<Rightarrow> player_info \<Rightarrow> player_info" where
  "pi_SetModerator state i =
     (if state then pi_SetFlag MEMBER_FLAG_MODERATOR i else pi_RemoveFlag MEMBER_FLAG_MODERATOR i)"

definition pi_IsMuted :: "player_info \<Rightarrow> bool" where
  "pi_IsMuted = pi_HasFlag MEMBER_FLAG_MUTED"

definition pi_SetMuted :: "bool \<Rightarrow> player_info \<Rightarrow> player_info" where
  "pi_SetMuted state i = (if state then pi_SetFlag MEMBER_FLAG_MUTED i else pi_RemoveFlag MEMBER_FLAG_MUTED i)"

definition pi_SetInvisible :: "bool \<Rightarrow> player_info \<Rightarrow> player_info" where
  "pi_SetInvisible on i = i\<lparr>pi_invisible := on\<rparr>"

section \<open>The channel\<close>

definition CHANNEL_FLAG_CUSTOM :: u8 where "CHANNEL_FLAG_CUSTOM = 0x01"
definition CHANNEL_FLAG_TRADE :: u8 where "CHANNEL_FLAG_TRADE = 0x04"
definition CHANNEL_FLAG_NOT_LFG :: u8 where "CHANNEL_FLAG_NOT_LFG = 0x08"
definition CHANNEL_FLAG_GENERAL :: u8 where "CHANNEL_FLAG_GENERAL = 0x10"
definition CHANNEL_FLAG_CITY :: u8 where "CHANNEL_FLAG_CITY = 0x20"
definition CHANNEL_FLAG_LFG :: u8 where "CHANNEL_FLAG_LFG = 0x40"

definition CHANNEL_DBC_FLAG_GLOBAL :: u32 where "CHANNEL_DBC_FLAG_GLOBAL = 0x00004"
definition CHANNEL_DBC_FLAG_TRADE :: u32 where "CHANNEL_DBC_FLAG_TRADE = 0x00008"
definition CHANNEL_DBC_FLAG_CITY_ONLY :: u32 where "CHANNEL_DBC_FLAG_CITY_ONLY = 0x00010"
definition CHANNEL_DBC_FLAG_CITY_ONLY2 :: u32 where "CHANNEL_DBC_FLAG_CITY_ONLY2 = 0x00020"
definition CHANNEL_DBC_FLAG_LFG :: u32 where "CHANNEL_DBC_FLAG_LFG = 0x40000"

text \<open>The two client stores a channel reads: its own entry and its zone's.\<close>

record chat_channels_entry =
  cc_Flags :: u32
  cc_Name :: "nat \<Rightarrow> bytes"

record area_table_entry =
  area_ID :: u32
  area_Flags :: u32
  area_AreaName :: "nat \<Rightarrow> bytes"

text \<open>
  The members of the class. \<open>_playersStore\<close> is a \<open>std::map\<close>, kept sorted by guid; \<open>_bannedStore\<close>
  an unordered set, kept as the list of its elements in their iteration order.
\<close>

record channel =
  ch_isDirty :: bool
  ch_nextActivityUpdateTime :: int
  ch_announceEnabled :: bool
  ch_ownershipEnabled :: bool
  ch_isOwnerInvisible :: bool
  ch_channelFlags :: u8
  ch_channelId :: u32
  ch_channelTeam :: u32
  ch_ownerGuid :: guid
  ch_channelName :: bytes
  ch_channelPassword :: bytes
  ch_playersStore :: "(guid \<times> player_info) list"
  ch_bannedStore :: "guid list"
  ch_zoneEntry :: "area_table_entry option"

text \<open>What a channel asks of a connected player and of the rest of the server.\<close>

record client =
  cl_guid :: guid
  cl_name :: bytes
  cl_isGMVisible :: bool
  cl_team :: u32
  cl_security :: nat
  cl_hasGroup :: bool
  cl_guildId :: u32
  cl_locale :: nat
  cl_HasPermission :: "u32 \<Rightarrow> bool"
  cl_HasIgnore :: "guid \<Rightarrow> bool"

definition RBAC_PERM_TWO_SIDE_INTERACTION_CHANNEL :: u32 where "RBAC_PERM_TWO_SIDE_INTERACTION_CHANNEL = 26"
definition RBAC_PERM_WHO_SEE_ALL_SEC_LEVELS :: u32 where "RBAC_PERM_WHO_SEE_ALL_SEC_LEVELS = 35"
definition RBAC_PERM_SILENTLY_JOIN_CHANNEL :: u32 where "RBAC_PERM_SILENTLY_JOIN_CHANNEL = 45"
definition RBAC_PERM_CHANGE_CHANNEL_NOT_MODERATOR :: u32 where "RBAC_PERM_CHANGE_CHANNEL_NOT_MODERATOR = 46"

record chan_env =
  FindConnectedPlayer :: "guid \<Rightarrow> client option"
  FindConnectedPlayerByName :: "bytes \<Rightarrow> client option"
  CachedName :: "guid \<Rightarrow> bytes option"
  ChatChannelsStore :: "u32 \<Rightarrow> chat_channels_entry option"
  IsVisibleGloballyFor :: "client \<Rightarrow> client \<Rightarrow> bool"
  CityName :: "nat \<Rightarrow> bytes"
  PGetParseString :: "bytes \<Rightarrow> bytes \<Rightarrow> bytes"
  GetAvailableDbcLocale :: "nat \<Rightarrow> nat"
  CONFIG_RESTRICTED_LFG_CHANNEL :: bool
  CONFIG_ALLOW_TWO_SIDE_INTERACTION_CHANNEL :: bool
  CONFIG_GM_LEVEL_IN_WHO_LIST :: nat
  CONFIG_PRESERVE_CUSTOM_CHANNEL_INTERVAL :: u32
  GameTime :: int
  urand_minutes :: u32
  ZoneOf :: "client \<Rightarrow> area_table_entry option"
  DisallowHyperlinksAndMaybeKick :: "bytes \<Rightarrow> bool"
  CONFIG_PRESERVE_CUSTOM_CHANNELS :: bool
  CONFIG_PRESERVE_CUSTOM_CHANNEL_DURATION :: u32
  NumChatChannels :: nat

text \<open>What an operation does outside of the channel, in order.\<close>

datatype chan_effect =
    Notice guid channel_notify
  | UserlistAdd guid guid u8 u8 u32
  | UserlistUpdate guid guid u8 u8 u32
  | UserlistRemove guid guid u8 u32
  | ChatMessage guid "client option" guid bytes u32
  | ListResponse guid "bytes option" u8 "(guid \<times> u8) list"
  | MemberCount guid "bytes option" u8 u32
  | PlayerJoined guid
  | PlayerLeft guid
  | CHAR_UPD_CHANNEL bytes u32 bool bool bytes bytes
  | CHAR_UPD_CHANNEL_USAGE bytes u32
  | CHAR_DEL_OLD_CHANNELS u32
  | CHAR_DEL_CHANNEL bytes u32

type_synonym chan_result = "channel \<times> chan_effect list"

section \<open>Queries\<close>

definition IsConstant :: "channel \<Rightarrow> bool" where
  "IsConstant ch \<longleftrightarrow> ch_channelId ch \<noteq> 0"

definition CheckPassword :: "bytes \<Rightarrow> channel \<Rightarrow> bool" where
  "CheckPassword password ch \<longleftrightarrow> ch_channelPassword ch = [] \<or> ch_channelPassword ch = password"

definition GetNumPlayers :: "channel \<Rightarrow> u32" where
  "GetNumPlayers ch = of_nat (length (ch_playersStore ch))"

definition ch_HasFlag :: "u8 \<Rightarrow> channel \<Rightarrow> bool" where
  "ch_HasFlag flag ch \<longleftrightarrow> ch_channelFlags ch AND flag \<noteq> 0"

definition find_info :: "guid \<Rightarrow> channel \<Rightarrow> player_info option" where
  "find_info g ch = map_of (ch_playersStore ch) g"

definition IsOn :: "guid \<Rightarrow> channel \<Rightarrow> bool" where
  "IsOn who ch \<longleftrightarrow> find_info who ch \<noteq> None"

definition IsBanned :: "guid \<Rightarrow> channel \<Rightarrow> bool" where
  "IsBanned g ch \<longleftrightarrow> g \<in> set (ch_bannedStore ch)"

definition GetPlayerFlags :: "guid \<Rightarrow> channel \<Rightarrow> u8" where
  "GetPlayerFlags g ch = (case find_info g ch of Some i \<Rightarrow> pi_flags i | None \<Rightarrow> 0)"

text \<open>
  \<open>GetChannelName\<close> sets the name of a built-in channel; \<open>None\<close> is a failed assertion, on the
  entry of the channel or on the zone.
\<close>

definition GetChannelName ::
    "chan_env \<Rightarrow> bytes \<Rightarrow> u32 \<Rightarrow> nat \<Rightarrow> area_table_entry option \<Rightarrow> bytes option" where
  "GetChannelName env channelName channelId locale zoneEntry =
     (if channelId \<noteq> 0 then
        Option.bind (ChatChannelsStore env channelId) (\<lambda>entry.
          if cc_Flags entry AND CHANNEL_DBC_FLAG_GLOBAL = 0 then
            if cc_Flags entry AND CHANNEL_DBC_FLAG_CITY_ONLY \<noteq> 0 then
              Some (PGetParseString env (cc_Name entry locale) (CityName env locale))
            else map_option (\<lambda>z. PGetParseString env (cc_Name entry locale) (area_AreaName z locale)) zoneEntry
          else Some (cc_Name entry locale))
      else Some channelName)"

definition GetName :: "chan_env \<Rightarrow> nat \<Rightarrow> channel \<Rightarrow> bytes option" where
  "GetName env locale ch = GetChannelName env (ch_channelName ch) (ch_channelId ch) locale (ch_zoneEntry ch)"

text \<open>The packet of a notice for one recipient: the builder fills in the name in its language.\<close>

definition notice_packet :: "chan_env \<Rightarrow> channel \<Rightarrow> client \<Rightarrow> channel_notify \<Rightarrow> channel_notify option" where
  "notice_packet env ch to n =
     map_option (\<lambda>name. ChannelNameBuilder name n) (GetName env (GetAvailableDbcLocale env (cl_locale to)) ch)"

section \<open>Sending\<close>

text \<open>
  The three templates deliver a packet, built by a function of its recipient: to all members
  that are connected and do not ignore the guid given (an empty guid is ignored by nobody),
  to all but one, and to one.
\<close>

definition SendToAll :: "chan_env \<Rightarrow> (guid \<Rightarrow> chan_effect) \<Rightarrow> guid \<Rightarrow> channel \<Rightarrow> chan_effect list" where
  "SendToAll env builder g ch =
     concat (map (\<lambda>(i, _). case FindConnectedPlayer env i of
         None \<Rightarrow> []
       | Some player \<Rightarrow> if g = 0 \<or> \<not> cl_HasIgnore player g then [builder i] else [])
     (ch_playersStore ch))"

definition SendToAllButOne :: "chan_env \<Rightarrow> (guid \<Rightarrow> chan_effect) \<Rightarrow> guid \<Rightarrow> channel \<Rightarrow> chan_effect list" where
  "SendToAllButOne env builder who ch =
     concat (map (\<lambda>(i, _). if i \<noteq> who then (case FindConnectedPlayer env i of None \<Rightarrow> [] | Some _ \<Rightarrow> [builder i]) else [])
     (ch_playersStore ch))"

definition SendToOne :: "chan_env \<Rightarrow> (guid \<Rightarrow> chan_effect) \<Rightarrow> guid \<Rightarrow> chan_effect list" where
  "SendToOne env builder who = (case FindConnectedPlayer env who of None \<Rightarrow> [] | Some _ \<Rightarrow> [builder who])"

text \<open>Notices, with the builders \<open>ChannelNameBuilder\<close>.\<close>

definition notify_all :: "chan_env \<Rightarrow> channel_notify \<Rightarrow> channel \<Rightarrow> chan_effect list" where
  "notify_all env n ch = SendToAll env (\<lambda>i. Notice i n) 0 ch"

definition notify_one :: "chan_env \<Rightarrow> channel_notify \<Rightarrow> guid \<Rightarrow> chan_effect list" where
  "notify_one env n who = SendToOne env (\<lambda>i. Notice i n) who"

definition JoinNotify :: "chan_env \<Rightarrow> guid \<Rightarrow> channel \<Rightarrow> chan_effect list" where
  "JoinNotify env g ch =
     (if IsConstant ch
      then SendToAllButOne env (\<lambda>i. UserlistAdd i g (GetPlayerFlags g ch) (ch_channelFlags ch) (GetNumPlayers ch)) g ch
      else SendToAll env (\<lambda>i. UserlistUpdate i g (GetPlayerFlags g ch) (ch_channelFlags ch) (GetNumPlayers ch)) 0 ch)"

definition LeaveNotify :: "chan_env \<Rightarrow> guid \<Rightarrow> channel \<Rightarrow> chan_effect list" where
  "LeaveNotify env g ch =
     (if IsConstant ch
      then SendToAllButOne env (\<lambda>i. UserlistRemove i g (ch_channelFlags ch) (GetNumPlayers ch)) g ch
      else SendToAll env (\<lambda>i. UserlistRemove i g (ch_channelFlags ch) (GetNumPlayers ch)) 0 ch)"

end
