(* ===== verification/Channel_Ops.thy ===== *)
theory Channel_Ops
  imports Channel
begin

text \<open>
  The operations of \<open>Channel.cpp\<close>. Every handler checks its guards in the order of the code and
  returns at the first that fails with a notice to the player who gave the command.
\<close>

section \<open>Construction and saving\<close>

definition new_builtin_channel ::
    "chan_env \<Rightarrow> u32 \<Rightarrow> u32 \<Rightarrow> area_table_entry option \<Rightarrow> channel option" where
  "new_builtin_channel env channelId team zoneEntry =
     map_option (\<lambda>entry.
       let f = CHANNEL_FLAG_GENERAL;
           f = (if cc_Flags entry AND CHANNEL_DBC_FLAG_TRADE \<noteq> 0 then f OR CHANNEL_FLAG_TRADE else f);
           f = (if cc_Flags entry AND CHANNEL_DBC_FLAG_CITY_ONLY2 \<noteq> 0 then f OR CHANNEL_FLAG_CITY else f);
           f = (if cc_Flags entry AND CHANNEL_DBC_FLAG_LFG \<noteq> 0 then f OR CHANNEL_FLAG_LFG
                else f OR CHANNEL_FLAG_NOT_LFG)
       in \<lparr>ch_isDirty = False, ch_nextActivityUpdateTime = 0, ch_announceEnabled = False,
           ch_ownershipEnabled = False, ch_isOwnerInvisible = False, ch_channelFlags = f,
           ch_channelId = channelId, ch_channelTeam = team, ch_ownerGuid = 0, ch_channelName = [],
           ch_channelPassword = [], ch_playersStore = [], ch_bannedStore = [], ch_zoneEntry = zoneEntry\<rparr>)
     (ChatChannelsStore env channelId)"

text \<open>
  \<open>Trinity::Tokenize\<close> without empty tokens, \<open>Trinity::StringTo<uint64>\<close> (\<open>std::from_chars\<close> to the
  base 10 on the whole string) and the decimal text \<open>operator<<\<close> of a stream writes.
\<close>

function Tokenize :: "bytes \<Rightarrow> u8 \<Rightarrow> bytes list" where
  "Tokenize str sep =
     (let token = takeWhile (\<lambda>c. c \<noteq> sep) str; rest = drop (length token) str in
      (if token \<noteq> [] then [token] else []) @ (if rest = [] then [] else Tokenize (tl rest) sep))"
  by pat_completeness auto
termination Tokenize
  by (relation "measure (length \<circ> fst)") (auto simp: Let_def)

definition is_digit :: "u8 \<Rightarrow> bool" where
  "is_digit c \<longleftrightarrow> 0x30 \<le> c \<and> c \<le> 0x39"

definition digits_value :: "bytes \<Rightarrow> nat" where
  "digits_value ds = foldl (\<lambda>n c. n * 10 + (unat c - 48)) 0 ds"

definition StringTo_u64 :: "bytes \<Rightarrow> u64 option" where
  "StringTo_u64 str =
     (if str \<noteq> [] \<and> list_all is_digit str \<and> digits_value str < 2 ^ 64 then Some (of_nat (digits_value str))
      else None)"

fun decimal :: "nat \<Rightarrow> bytes" where
  "decimal n = (if n < 10 then [of_nat (48 + n)] else decimal (n div 10) @ [of_nat (48 + n mod 10)])"

fun load_bans :: "bytes list \<Rightarrow> guid list \<Rightarrow> guid list" where
  "load_bans [] store = store"
| "load_bans (tok # toks) store =
     (let banned = (case StringTo_u64 tok of Some g \<Rightarrow> g | None \<Rightarrow> 0) in
      load_bans toks (if banned = 0 then store else List.insert banned store))"

definition new_custom_channel :: "bytes \<Rightarrow> u32 \<Rightarrow> bytes \<Rightarrow> channel" where
  "new_custom_channel name team banList =
     \<lparr>ch_isDirty = False, ch_nextActivityUpdateTime = 0, ch_announceEnabled = True,
      ch_ownershipEnabled = True, ch_isOwnerInvisible = False, ch_channelFlags = CHANNEL_FLAG_CUSTOM,
      ch_channelId = 0, ch_channelTeam = team, ch_ownerGuid = 0, ch_channelName = name,
      ch_channelPassword = [], ch_playersStore = [],
      ch_bannedStore = load_bans (Tokenize banList 0x20) [], ch_zoneEntry = None\<rparr>"

definition banlist :: "channel \<Rightarrow> bytes" where
  "banlist ch = concat (map (\<lambda>guid. decimal (unat guid) @ [0x20]) (ch_bannedStore ch))"

definition UpdateChannelInDB :: "chan_env \<Rightarrow> channel \<Rightarrow> chan_result" where
  "UpdateChannelInDB env ch =
     (let now = GameTime env;
          done = ch\<lparr>ch_isDirty := False,
            ch_nextActivityUpdateTime :=
              now + uint (urand_minutes env * max 1 (CONFIG_PRESERVE_CUSTOM_CHANNEL_INTERVAL env))\<rparr>
      in if ch_isDirty ch then
           (done, [CHAR_UPD_CHANNEL (ch_channelName ch) (ch_channelTeam ch) (ch_announceEnabled ch)
              (ch_ownershipEnabled ch) (ch_channelPassword ch) (banlist ch)])
         else if ch_nextActivityUpdateTime ch \<le> now then
           (done, if ch_playersStore ch \<noteq> []
                  then [CHAR_UPD_CHANNEL_USAGE (ch_channelName ch) (ch_channelTeam ch)] else [])
         else (ch, []))"

section \<open>Flags and the owner\<close>

text \<open>\<open>update_info g f\<close>: what a method called on the reference to a member's info does to the map.\<close>

definition update_info :: "guid \<Rightarrow> (player_info \<Rightarrow> player_info) \<Rightarrow> channel \<Rightarrow> channel" where
  "update_info g f ch =
     ch\<lparr>ch_playersStore := map (\<lambda>(k, i). if k = g then (k, f i) else (k, i)) (ch_playersStore ch)\<rparr>"

definition SetOwner :: "chan_env \<Rightarrow> guid \<Rightarrow> bool \<Rightarrow> channel \<Rightarrow> chan_result" where
  "SetOwner env g exclaim ch =
     (let ch1 = (if ch_ownerGuid ch \<noteq> 0 then update_info (ch_ownerGuid ch) (pi_SetOwner False) ch else ch);
          ch2 = ch1\<lparr>ch_ownerGuid := g\<rparr>
      in if g \<noteq> 0 then
           (case find_info g ch2 of
              None \<Rightarrow> (ch2, [])
            | Some i \<Rightarrow>
                let oldFlag = pi_flags i;
                    ch3 = update_info g (pi_SetOwner True \<circ> pi_SetModerator True) ch2;
                    log = notify_all env (ModeChangeAppend g oldFlag (GetPlayerFlags g ch3)) ch3;
                    log' = (if exclaim then notify_all env (OwnerChangedAppend g) ch3 else [])
                in (ch3\<lparr>ch_isDirty := True\<rparr>, log @ log'))
         else (ch2, []))"

definition SetModerator_guid :: "chan_env \<Rightarrow> guid \<Rightarrow> bool \<Rightarrow> channel \<Rightarrow> chan_result" where
  "SetModerator_guid env g state ch =
     (case find_info g ch of
        None \<Rightarrow> (ch, [])
      | Some i \<Rightarrow>
          if pi_IsModerator i \<noteq> state then
            let ch1 = update_info g (pi_SetModerator state) ch
            in (ch1, notify_all env (ModeChangeAppend g (pi_flags i) (GetPlayerFlags g ch1)) ch1)
          else (ch, []))"

definition SetMute_guid :: "chan_env \<Rightarrow> guid \<Rightarrow> bool \<Rightarrow> channel \<Rightarrow> chan_result" where
  "SetMute_guid env g state ch =
     (case find_info g ch of
        None \<Rightarrow> (ch, [])
      | Some i \<Rightarrow>
          if pi_IsMuted i \<noteq> state then
            let ch1 = update_info g (pi_SetMuted state) ch
            in (ch1, notify_all env (ModeChangeAppend g (pi_flags i) (GetPlayerFlags g ch1)) ch1)
          else (ch, []))"

definition SetInvisible :: "client \<Rightarrow> bool \<Rightarrow> channel \<Rightarrow> channel" where
  "SetInvisible player on ch =
     (case find_info (cl_guid player) ch of
        None \<Rightarrow> ch
      | Some _ \<Rightarrow>
          let ch1 = update_info (cl_guid player) (pi_SetInvisible on) ch
          in if ch_ownerGuid ch1 = cl_guid player then ch1\<lparr>ch_isOwnerInvisible := on\<rparr> else ch1)"

section \<open>Coming and going\<close>

definition JoinChannel :: "chan_env \<Rightarrow> client \<Rightarrow> bytes \<Rightarrow> channel \<Rightarrow> chan_result" where
  "JoinChannel env player pass ch =
     (let guid = cl_guid player in
      if IsOn guid ch then
        (ch, if \<not> IsConstant ch then notify_one env (PlayerAlreadyMemberAppend guid) guid else [])
      else if IsBanned guid ch then (ch, notify_one env BannedAppend guid)
      else if \<not> CheckPassword pass ch then (ch, notify_one env WrongPasswordAppend guid)
      else if ch_HasFlag CHANNEL_FLAG_LFG ch \<and> CONFIG_RESTRICTED_LFG_CHANNEL env \<and> cl_security player = 0
          \<and> cl_hasGroup player
        then (ch, notify_one env NotInLFGAppend guid)
      else
        let joined = (if ch_announceEnabled ch \<and> \<not> cl_HasPermission player RBAC_PERM_SILENTLY_JOIN_CHANNEL
              then notify_all env (JoinedAppend guid) ch else []);
            newChannel = (ch_playersStore ch = []);
            ch1 = (if newChannel then ch\<lparr>ch_nextActivityUpdateTime := 0\<rparr> else ch);
            playerInfo = pi_SetInvisible (\<not> cl_isGMVisible player)
              (case find_info guid ch1 of Some i \<Rightarrow> i | None \<Rightarrow> new_PlayerInfo);
            ch2 = ch1\<lparr>ch_playersStore := sm_put guid playerInfo (ch_playersStore ch1)\<rparr>;
            log = PlayerJoined guid # joined
              @ notify_one env (YouJoinedAppend (ch_channelFlags ch2) (ch_channelId ch2)) guid
              @ JoinNotify env guid ch2
        in if \<not> IsConstant ch2 \<and> ch_ownershipEnabled ch2 \<and> (newChannel \<or> \<not> pi_invisible playerInfo)
             \<and> (ch_ownerGuid ch2 = 0 \<or> ch_isOwnerInvisible ch2)
           then
             let ch3 = ch2\<lparr>ch_isOwnerInvisible := pi_invisible playerInfo\<rparr> in
             (case SetOwner env guid (\<not> newChannel \<and> \<not> ch_isOwnerInvisible ch3) ch3 of
                (ch4, log') \<Rightarrow> (update_info guid (pi_SetModerator True) ch4, log @ log'))
           else (ch2, log))"

text \<open>The new owner: the first member that is visible, or the first of all.\<close>

definition pick_owner :: "(guid \<times> player_info) list \<Rightarrow> guid \<times> player_info" where
  "pick_owner store = (case find (\<lambda>(_, i). \<not> pi_invisible i) store of Some p \<Rightarrow> p | None \<Rightarrow> hd store)"

definition LeaveChannel :: "chan_env \<Rightarrow> client \<Rightarrow> bool \<Rightarrow> bool \<Rightarrow> channel \<Rightarrow> chan_result" where
  "LeaveChannel env player send suspend ch =
     (let guid = cl_guid player in
      case find_info guid ch of
        None \<Rightarrow> (ch, if send then notify_one env NotMemberAppend guid else [])
      | Some info \<Rightarrow>
          let log1 = (if send then notify_one env (YouLeftAppend (ch_channelId ch) suspend) guid @ [PlayerLeft guid]
                else []);
              ch1 = ch\<lparr>ch_playersStore := sm_erase guid (ch_playersStore ch)\<rparr>;
              changeowner = pi_IsOwner info;
              log2 = (if ch_announceEnabled ch1 \<and> \<not> cl_HasPermission player RBAC_PERM_SILENTLY_JOIN_CHANNEL
                then notify_all env (LeftAppend guid) ch1 else []);
              log = log1 @ log2 @ LeaveNotify env guid ch1
          in if \<not> IsConstant ch1 \<and> changeowner \<and> ch_ownershipEnabled ch1 \<and> ch_playersStore ch1 \<noteq> [] then
               (case pick_owner (ch_playersStore ch1) of
                  (newOwner, i) \<Rightarrow>
                    let ch2 = update_info newOwner (pi_SetModerator True) ch1 in
                    (case SetOwner env newOwner True ch2 of
                       (ch3, log') \<Rightarrow>
                         (if pi_invisible i then ch3\<lparr>ch_isOwnerInvisible := True\<rparr> else ch3, log @ log')))
             else (ch1, log))"

section \<open>Commands\<close>

text \<open>
  The two guards most commands begin with: \<open>if_moderator\<close> runs the command for a member that
  is a moderator or has the permission to act as one.
\<close>

definition if_member :: "chan_env \<Rightarrow> client \<Rightarrow> channel \<Rightarrow> (player_info \<Rightarrow> chan_result) \<Rightarrow> chan_result" where
  "if_member env player ch run =
     (case find_info (cl_guid player) ch of
        None \<Rightarrow> (ch, notify_one env NotMemberAppend (cl_guid player))
      | Some info \<Rightarrow> run info)"

definition if_moderator :: "chan_env \<Rightarrow> client \<Rightarrow> channel \<Rightarrow> chan_result \<Rightarrow> chan_result" where
  "if_moderator env player ch run =
     if_member env player ch (\<lambda>info.
       if \<not> pi_IsModerator info \<and> \<not> cl_HasPermission player RBAC_PERM_CHANGE_CHANNEL_NOT_MODERATOR
       then (ch, notify_one env NotModeratorAppend (cl_guid player))
       else run)"

text \<open>\<open>bad ? bad->GetGUID() : ObjectGuid::Empty\<close>.\<close>

definition guid_of :: "client option \<Rightarrow> guid" where
  "guid_of c = (case c of Some p \<Rightarrow> cl_guid p | None \<Rightarrow> 0)"

text \<open>
  The last step of \<open>KickOrBan\<close> uses the reference \<open>info\<close> to the info of the player who kicks; the
  map has freed it if that player is the one kicked, which is the error \<open>UseAfterFree\<close>.
\<close>

datatype chan_error = UseAfterFree

definition KickOrBan :: "chan_env \<Rightarrow> client \<Rightarrow> bytes \<Rightarrow> bool \<Rightarrow> channel \<Rightarrow> chan_error + chan_result" where
  "KickOrBan env player badname ban ch =
     (let good = cl_guid player in
      case find_info good ch of
        None \<Rightarrow> Inr (ch, notify_one env NotMemberAppend good)
      | Some info \<Rightarrow>
          if \<not> pi_IsModerator info \<and> \<not> cl_HasPermission player RBAC_PERM_CHANGE_CHANNEL_NOT_MODERATOR
          then Inr (ch, notify_one env NotModeratorAppend good)
          else
            let bad = FindConnectedPlayerByName env badname;
                victim = guid_of bad
            in if bad = None \<or> victim = 0 \<or> \<not> IsOn victim ch
               then Inr (ch, notify_one env (PlayerNotFoundAppend badname) good)
               else
                 let changeowner = (ch_ownerGuid ch = victim) in
                 if \<not> cl_HasPermission player RBAC_PERM_CHANGE_CHANNEL_NOT_MODERATOR \<and> changeowner
                     \<and> good \<noteq> ch_ownerGuid ch
                 then Inr (ch, notify_one env NotOwnerAppend good)
                 else
                   let silent = cl_HasPermission player RBAC_PERM_SILENTLY_JOIN_CHANNEL;
                       (ch1, log) =
                         (if ban \<and> \<not> IsBanned victim ch then
                            let c = ch\<lparr>ch_bannedStore := List.insert victim (ch_bannedStore ch), ch_isDirty := True\<rparr>
                            in (c, if \<not> silent then notify_all env (PlayerBannedAppend good victim) c else [])
                          else (ch, if \<not> silent then notify_all env (PlayerKickedAppend good victim) ch else []));
                       ch2 = ch1\<lparr>ch_playersStore := sm_erase victim (ch_playersStore ch1)\<rparr>;
                       log' = log @ [PlayerLeft victim]
                   in if changeowner \<and> ch_ownershipEnabled ch2 \<and> ch_playersStore ch2 \<noteq> [] then
                        if good = victim then Inl UseAfterFree
                        else
                          (case SetOwner env good True (update_info good (pi_SetModerator True) ch2) of
                             (ch3, log'') \<Rightarrow> Inr (ch3, log' @ log''))
                      else Inr (ch2, log'))"

definition UnBan :: "chan_env \<Rightarrow> client \<Rightarrow> bytes \<Rightarrow> channel \<Rightarrow> chan_result" where
  "UnBan env player badname ch =
     if_moderator env player ch
       (let victim = guid_of (FindConnectedPlayerByName env badname) in
        if victim = 0 \<or> \<not> IsBanned victim ch
        then (ch, notify_one env (PlayerNotFoundAppend badname) (cl_guid player))
        else
          let ch1 = ch\<lparr>ch_bannedStore := removeAll victim (ch_bannedStore ch)\<rparr>
          in (ch1\<lparr>ch_isDirty := True\<rparr>, notify_all env (PlayerUnbannedAppend (cl_guid player) victim) ch1))"

definition Password :: "chan_env \<Rightarrow> client \<Rightarrow> bytes \<Rightarrow> channel \<Rightarrow> chan_result" where
  "Password env player pass ch =
     if_moderator env player ch
       (let ch1 = ch\<lparr>ch_channelPassword := pass\<rparr>
        in (ch1\<lparr>ch_isDirty := True\<rparr>, notify_all env (PasswordChangedAppend (cl_guid player)) ch1))"

text \<open>Members of different teams see each other where both may talk across.\<close>

definition cross_team :: "client \<Rightarrow> client \<Rightarrow> bool" where
  "cross_team player newp \<longleftrightarrow>
     cl_team player \<noteq> cl_team newp \<and>
     (\<not> cl_HasPermission player RBAC_PERM_TWO_SIDE_INTERACTION_CHANNEL
      \<or> \<not> cl_HasPermission newp RBAC_PERM_TWO_SIDE_INTERACTION_CHANNEL)"

definition no_target :: "client \<Rightarrow> client option \<Rightarrow> channel \<Rightarrow> bool" where
  "no_target player target ch \<longleftrightarrow>
     (case target of None \<Rightarrow> True
      | Some newp \<Rightarrow> cl_guid newp = 0 \<or> \<not> IsOn (cl_guid newp) ch \<or> cross_team player newp)"

definition SetMode :: "chan_env \<Rightarrow> client \<Rightarrow> bytes \<Rightarrow> bool \<Rightarrow> bool \<Rightarrow> channel \<Rightarrow> chan_result" where
  "SetMode env player p2n moderator state ch =
     if_moderator env player ch
       (let guid = cl_guid player in
        if guid = ch_ownerGuid ch \<and> p2n = cl_name player \<and> moderator then (ch, [])
        else
          let newp = FindConnectedPlayerByName env p2n;
              victim = guid_of newp
          in if no_target player newp ch then (ch, notify_one env (PlayerNotFoundAppend p2n) guid)
             else if ch_ownerGuid ch = victim \<and> ch_ownerGuid ch \<noteq> guid then (ch, notify_one env NotOwnerAppend guid)
             else if moderator then SetModerator_guid env victim state ch
             else SetMute_guid env victim state ch)"

definition SetOwner_command :: "chan_env \<Rightarrow> client \<Rightarrow> bytes \<Rightarrow> channel \<Rightarrow> chan_result" where
  "SetOwner_command env player newname ch =
     if_member env player ch (\<lambda>_.
       let guid = cl_guid player in
       if \<not> cl_HasPermission player RBAC_PERM_CHANGE_CHANNEL_NOT_MODERATOR \<and> guid \<noteq> ch_ownerGuid ch
       then (ch, notify_one env NotOwnerAppend guid)
       else
         let newp = FindConnectedPlayerByName env newname;
             victim = guid_of newp
         in if no_target player newp ch then (ch, notify_one env (PlayerNotFoundAppend newname) guid)
            else SetOwner env victim True (update_info victim (pi_SetModerator True) ch))"

definition SendWhoOwner :: "chan_env \<Rightarrow> client \<Rightarrow> channel \<Rightarrow> chan_result" where
  "SendWhoOwner env player ch =
     if_member env player ch (\<lambda>_.
       (ch, notify_one env (ChannelOwnerAppend (IsConstant ch) (ch_ownerGuid ch) (CachedName env (ch_ownerGuid ch)))
              (cl_guid player)))"

definition List_command :: "chan_env \<Rightarrow> client \<Rightarrow> channel \<Rightarrow> chan_result" where
  "List_command env player ch =
     if_member env player ch (\<lambda>_.
       (ch, [ListResponse (cl_guid player) (GetName env (cl_locale player) ch) (ch_channelFlags ch)
               (concat (map (\<lambda>(g, i). case FindConnectedPlayer env g of
                    None \<Rightarrow> []
                  | Some member \<Rightarrow>
                      if (cl_HasPermission player RBAC_PERM_WHO_SEE_ALL_SEC_LEVELS
                          \<or> cl_security member \<le> CONFIG_GM_LEVEL_IN_WHO_LIST env)
                         \<and> IsVisibleGloballyFor env member player
                      then [(g, pi_flags i)] else [])
                (ch_playersStore ch)))]))"

definition Announce :: "chan_env \<Rightarrow> client \<Rightarrow> channel \<Rightarrow> chan_result" where
  "Announce env player ch =
     if_moderator env player ch
       (let ch1 = ch\<lparr>ch_announceEnabled := \<not> ch_announceEnabled ch\<rparr> in
        (ch1\<lparr>ch_isDirty := True\<rparr>,
         if ch_announceEnabled ch1 then notify_all env (AnnouncementsOnAppend (cl_guid player)) ch1
         else notify_all env (AnnouncementsOffAppend (cl_guid player)) ch1))"

definition LANG_UNIVERSAL :: u32 where "LANG_UNIVERSAL = 0"

definition Say :: "chan_env \<Rightarrow> guid \<Rightarrow> bytes \<Rightarrow> u32 \<Rightarrow> channel \<Rightarrow> chan_result" where
  "Say env guid what lang0 ch =
     (if what = [] then (ch, [])
      else
        let lang = (if CONFIG_ALLOW_TWO_SIDE_INTERACTION_CHANNEL env then LANG_UNIVERSAL else lang0) in
        case find_info guid ch of
          None \<Rightarrow> (ch, notify_one env NotMemberAppend guid)
        | Some playerInfo \<Rightarrow>
            if pi_IsMuted playerInfo then (ch, notify_one env MutedAppend guid)
            else
              (ch, SendToAll env (\<lambda>i. ChatMessage i (FindConnectedPlayer env guid) guid what lang)
                     (if \<not> pi_IsModerator playerInfo then guid else 0) ch))"

definition Invite :: "chan_env \<Rightarrow> client \<Rightarrow> bytes \<Rightarrow> channel \<Rightarrow> chan_result" where
  "Invite env player newname ch =
     if_member env player ch (\<lambda>_.
       let guid = cl_guid player in
       (ch,
        case FindConnectedPlayerByName env newname of
          None \<Rightarrow> notify_one env (PlayerNotFoundAppend newname) guid
        | Some newp \<Rightarrow>
            if \<not> cl_isGMVisible newp then notify_one env (PlayerNotFoundAppend newname) guid
            else if IsBanned (cl_guid newp) ch then notify_one env (PlayerInviteBannedAppend newname) guid
            else if cross_team player newp then notify_one env InviteWrongFactionAppend guid
            else if IsOn (cl_guid newp) ch then notify_one env (PlayerAlreadyMemberAppend (cl_guid newp)) guid
            else
              (if \<not> cl_HasIgnore newp guid then notify_one env (InviteAppend guid) (cl_guid newp) else [])
              @ notify_one env (PlayerInvitedAppend (cl_name newp)) guid))"

definition SendMemberCount :: "chan_env \<Rightarrow> client \<Rightarrow> channel \<Rightarrow> chan_result" where
  "SendMemberCount env player ch =
     (ch, [MemberCount (cl_guid player) (GetName env (cl_locale player) ch) (ch_channelFlags ch) (GetNumPlayers ch)])"

end
