(* ===== verification/Channel_Invariant.thy ===== *)
theory Channel_Invariant
  imports Channel_Ops
begin

text \<open>
  What every operation of a channel keeps: the store is a map, the owner flag is only where
  the channel's owner is, and nobody is both banned and in. The last part is a channel as a
  machine whose steps are its operations, each with whatever the rest of the server answers
  at the time.
\<close>

section \<open>Flags\<close>

lemma flag_bits:
  "pi_IsOwner i \<longleftrightarrow> bit (pi_flags i) 0" "pi_IsModerator i \<longleftrightarrow> bit (pi_flags i) 1" "pi_IsMuted i \<longleftrightarrow> bit (pi_flags i) 3"
  by (simp_all add: pi_IsOwner_def pi_IsModerator_def pi_IsMuted_def pi_HasFlag_def member_flags
      bit_iff_and_push_bit_not_eq_0)

lemma set_flag_bit:
  "bit (pi_flags (pi_SetFlag (push_bit k 1) i)) n \<longleftrightarrow> bit (pi_flags i) n \<or> (n = k \<and> k < 8)"
  "bit (pi_flags (pi_RemoveFlag (push_bit k 1) i)) n \<longleftrightarrow> bit (pi_flags i) n \<and> \<not> (n = k \<and> k < 8)"
  using bit_imp_le_length [of "pi_flags i" n] by (auto simp: pi_SetFlag_def pi_RemoveFlag_def bit_simps)

lemma member_flag_bits:
  "bit (pi_flags (pi_SetOwner b i)) n \<longleftrightarrow> (if n = 0 then b else bit (pi_flags i) n)"
  "bit (pi_flags (pi_SetModerator b i)) n \<longleftrightarrow> (if n = 1 then b else bit (pi_flags i) n)"
  "bit (pi_flags (pi_SetMuted b i)) n \<longleftrightarrow> (if n = 3 then b else bit (pi_flags i) n)"
proof -
  note s = set_flag_bit [where k = 0 and i = i, simplified] set_flag_bit [where k = 1 and i = i, simplified]
    set_flag_bit [where k = 3 and i = i, simplified]
  show "bit (pi_flags (pi_SetOwner b i)) n \<longleftrightarrow> (if n = 0 then b else bit (pi_flags i) n)"
    "bit (pi_flags (pi_SetModerator b i)) n \<longleftrightarrow> (if n = 1 then b else bit (pi_flags i) n)"
    "bit (pi_flags (pi_SetMuted b i)) n \<longleftrightarrow> (if n = 3 then b else bit (pi_flags i) n)"
    by (simp_all add: pi_SetOwner_def pi_SetModerator_def pi_SetMuted_def member_flags s)
qed

lemma flags_simps [simp]:
  "pi_IsOwner (pi_SetOwner b i) = b" "pi_IsOwner (pi_SetModerator b i) = pi_IsOwner i"
  "pi_IsOwner (pi_SetMuted b i) = pi_IsOwner i" "pi_IsOwner (pi_SetInvisible b i) = pi_IsOwner i"
  "pi_IsModerator (pi_SetOwner b i) = pi_IsModerator i" "pi_IsModerator (pi_SetModerator b i) = b"
  "pi_IsModerator (pi_SetMuted b i) = pi_IsModerator i" "pi_IsModerator (pi_SetInvisible b i) = pi_IsModerator i"
  "pi_IsMuted (pi_SetOwner b i) = pi_IsMuted i" "pi_IsMuted (pi_SetModerator b i) = pi_IsMuted i"
  "pi_IsMuted (pi_SetMuted b i) = b" "pi_IsMuted (pi_SetInvisible b i) = pi_IsMuted i"
  "pi_IsOwner new_PlayerInfo = False" "pi_IsModerator new_PlayerInfo = False"
  "pi_invisible (pi_SetOwner b i) = pi_invisible i" "pi_invisible (pi_SetModerator b i) = pi_invisible i"
  "pi_invisible (pi_SetMuted b i) = pi_invisible i" "pi_invisible (pi_SetInvisible b i) = b"
  unfolding flag_bits
  by (simp_all add: member_flag_bits)
    (simp_all add: pi_SetOwner_def pi_SetModerator_def pi_SetMuted_def pi_SetInvisible_def new_PlayerInfo_def
      MEMBER_FLAG_NONE_def pi_SetFlag_def pi_RemoveFlag_def)

section \<open>The store\<close>

lemma keys_update [simp]: "map fst (ch_playersStore (update_info g f ch)) = map fst (ch_playersStore ch)"
  by (simp add: update_info_def split_def comp_def if_distrib)

lemma find_update [simp]:
  "find_info k (update_info g f ch) = (if k = g then map_option f (find_info k ch) else find_info k ch)"
proof -
  have "map_of (map (\<lambda>(k, i). if k = g then (k, f i) else (k, i)) m) k =
      (if k = g then map_option f (map_of m k) else map_of m k)" for m
    by (induction m) auto
  then show ?thesis by (simp add: find_info_def update_info_def)
qed

lemma update_info_others [simp]:
  "ch_ownerGuid (update_info g f ch) = ch_ownerGuid ch" "ch_bannedStore (update_info g f ch) = ch_bannedStore ch"
  "ch_channelId (update_info g f ch) = ch_channelId ch" "ch_isOwnerInvisible (update_info g f ch) = ch_isOwnerInvisible ch"
  "ch_ownershipEnabled (update_info g f ch) = ch_ownershipEnabled ch"
  "ch_playersStore (update_info g f ch) = [] \<longleftrightarrow> ch_playersStore ch = []"
  by (simp_all add: update_info_def)

definition members :: "channel \<Rightarrow> guid set" where
  "members ch = dom (\<lambda>g. find_info g ch)"

lemma IsOn_members: "IsOn g ch \<longleftrightarrow> g \<in> members ch"
  by (auto simp: IsOn_def members_def)

lemma members_keys: "members ch = fst ` set (ch_playersStore ch)"
  by (simp add: members_def find_info_def dom_map_of_conv_image_fst)

lemma members_update [simp]: "members (update_info g f ch) = members ch"
  unfolding members_keys set_map [symmetric] keys_update ..

definition chan_ok :: "channel \<Rightarrow> bool" where
  "chan_ok ch \<longleftrightarrow> sm_ok (ch_playersStore ch) \<and> 0 \<notin> members ch \<and> distinct (ch_bannedStore ch) \<and>
     0 \<notin> set (ch_bannedStore ch) \<and>
     (\<forall>g i. find_info g ch = Some i \<longrightarrow> pi_IsOwner i \<longrightarrow> g = ch_ownerGuid ch) \<and>
     (\<forall>g \<in> members ch. g \<notin> set (ch_bannedStore ch))"

lemma sm_ok_update [simp]: "sm_ok (ch_playersStore (update_info g f ch)) = sm_ok (ch_playersStore ch)"
  by (simp only: sm_ok_def keys_update)

lemma members_fields: "ch_playersStore ch' = ch_playersStore ch \<Longrightarrow> members ch' = members ch"
  by (simp add: members_def find_info_def)

text \<open>Fields the invariant does not read.\<close>

lemma chan_ok_fields:
  assumes "ch_playersStore ch' = ch_playersStore ch" "ch_ownerGuid ch' = ch_ownerGuid ch"
    "ch_bannedStore ch' = ch_bannedStore ch"
  shows "chan_ok ch' = chan_ok ch"
  using assms by (simp add: chan_ok_def members_def find_info_def)

lemma chan_ok_update:
  "chan_ok ch \<Longrightarrow> (\<And>i. pi_IsOwner (f i) = pi_IsOwner i) \<Longrightarrow> chan_ok (update_info g f ch)"
  by (auto simp: chan_ok_def split: if_splits)

section \<open>Setting the owner\<close>

lemma SetOwner_state:
  assumes ok: "chan_ok ch" and ch'_def: "fst (SetOwner env g exclaim ch) = ch'"
  shows "chan_ok ch'" "ch_ownerGuid ch' = g" "members ch' = members ch"
    "find_info k ch' = map_option (\<lambda>i. if k = g \<and> g \<noteq> 0 then pi_SetOwner True (pi_SetModerator True
        (if ch_ownerGuid ch = k then pi_SetOwner False i else i))
      else if k = ch_ownerGuid ch then pi_SetOwner False i else i) (find_info k ch)"
    "ch_isOwnerInvisible ch' = ch_isOwnerInvisible ch" "ch_channelId ch' = ch_channelId ch"
    "ch_bannedStore ch' = ch_bannedStore ch"  "ch_ownershipEnabled ch' = ch_ownershipEnabled ch"
proof -
  define o1 where "o1 = ch_ownerGuid ch"
  define c1 where "c1 = (if o1 \<noteq> 0 then update_info o1 (pi_SetOwner False) ch else ch)"
  define c2 where "c2 = c1\<lparr>ch_ownerGuid := g\<rparr>"
  have f0: "find_info 0 ch = None" using ok by (auto simp: chan_ok_def members_def)
  have f2: "find_info k c2 = map_option (\<lambda>i. if k = o1 then pi_SetOwner False i else i) (find_info k ch)" for k
    using f0 by (auto simp: c2_def c1_def find_info_def [of _ "_\<lparr>ch_ownerGuid := _\<rparr>"] find_info_def [symmetric]
        option.map_comp comp_def option.map_ident)
  have "members c2 = members c1" by (rule members_fields) (simp add: c2_def)
  then have rest: "ch_playersStore c2 = ch_playersStore c1" "members c2 = members ch" "ch_bannedStore c2 = ch_bannedStore ch"
    "ch_isOwnerInvisible c2 = ch_isOwnerInvisible ch" "ch_channelId c2 = ch_channelId ch" "ch_ownerGuid c2 = g"
    "ch_ownershipEnabled c2 = ch_ownershipEnabled ch"
    by (simp_all add: c2_def c1_def)
  have no_owner: "\<not> pi_IsOwner j" if "find_info k c2 = Some j" for k j
  proof -
    from that obtain i where i: "find_info k ch = Some i" "j = (if k = o1 then pi_SetOwner False i else i)"
      by (auto simp: f2)
    then show ?thesis using ok by (cases "k = o1") (auto simp: o1_def chan_ok_def)
  qed
  have ok2: "chan_ok c2"
    using ok no_owner rest by (auto simp: chan_ok_def c1_def)
  have e: "SetOwner env g exclaim ch =
      (if g \<noteq> 0 then case find_info g c2 of None \<Rightarrow> (c2, []) | Some i \<Rightarrow>
         let c3 = update_info g (pi_SetOwner True \<circ> pi_SetModerator True) c2 in
         (c3\<lparr>ch_isDirty := True\<rparr>, notify_all env (ModeChangeAppend g (pi_flags i) (GetPlayerFlags g c3)) c3
            @ (if exclaim then notify_all env (OwnerChangedAppend g) c3 else []))
       else (c2, []))"
    by (simp add: SetOwner_def c2_def c1_def o1_def Let_def split: option.splits)
  define c3 where "c3 = (if g \<noteq> 0 \<and> find_info g c2 \<noteq> None
      then (update_info g (pi_SetOwner True \<circ> pi_SetModerator True) c2)\<lparr>ch_isDirty := True\<rparr> else c2)"
  have ch': "ch' = c3" unfolding ch'_def [symmetric] by (simp add: e c3_def Let_def split: option.splits)
  have dirty: "find_info k (c\<lparr>ch_isDirty := True\<rparr>) = find_info k c" "members (c\<lparr>ch_isDirty := True\<rparr>) = members c"
    "chan_ok (c\<lparr>ch_isDirty := True\<rparr>) = chan_ok c" for c k
    by (simp_all add: find_info_def members_def chan_ok_def)
  have "chan_ok (update_info g (pi_SetOwner True \<circ> pi_SetModerator True) c2)"
    using ok2 no_owner rest by (auto simp: chan_ok_def split: if_splits)
  then show "chan_ok ch'" using ok2 by (simp add: ch' c3_def dirty)
  show "ch_ownerGuid ch' = g" "members ch' = members ch" "ch_isOwnerInvisible ch' = ch_isOwnerInvisible ch"
    "ch_channelId ch' = ch_channelId ch" "ch_bannedStore ch' = ch_bannedStore ch"
    "ch_ownershipEnabled ch' = ch_ownershipEnabled ch"
    using rest by (simp_all add: ch' c3_def dirty)
  show "find_info k ch' = map_option (\<lambda>i. if k = g \<and> g \<noteq> 0 then pi_SetOwner True (pi_SetModerator True
        (if ch_ownerGuid ch = k then pi_SetOwner False i else i))
      else if k = ch_ownerGuid ch then pi_SetOwner False i else i) (find_info k ch)"
    by (cases "find_info k ch") (auto simp: ch' c3_def dirty f2 o1_def)
qed

section \<open>Every operation keeps the invariant\<close>

lemma chan_ok_SetOwner: "chan_ok ch \<Longrightarrow> chan_ok (fst (SetOwner env g e ch))"
  using SetOwner_state(1) [OF _ refl] by blast

lemma find_erase [simp]:
  "find_info k (ch\<lparr>ch_playersStore := sm_erase g (ch_playersStore ch)\<rparr>) = (if k = g then None else find_info k ch)"
  by (simp add: find_info_def)

lemma members_erase [simp]: "members (ch\<lparr>ch_playersStore := sm_erase g (ch_playersStore ch)\<rparr>) = members ch - {g}"
  by (simp add: members_keys)

lemma chan_ok_erase: "chan_ok ch \<Longrightarrow> chan_ok (ch\<lparr>ch_playersStore := sm_erase g (ch_playersStore ch)\<rparr>)"
  by (auto simp: chan_ok_def split: if_splits)

lemma JoinChannel_ok:
  assumes ok: "chan_ok ch" and g: "cl_guid player \<noteq> 0"
  shows "chan_ok (fst (JoinChannel env player pass ch))"
proof (cases "IsOn (cl_guid player) ch \<or> IsBanned (cl_guid player) ch \<or> \<not> CheckPassword pass ch \<or>
    (ch_HasFlag CHANNEL_FLAG_LFG ch \<and> CONFIG_RESTRICTED_LFG_CHANNEL env \<and> cl_security player = 0 \<and> cl_hasGroup player)")
  case True
  then show ?thesis using ok by (auto simp: JoinChannel_def Let_def)
next
  case False
  then have n: "find_info (cl_guid player) ch = None" "cl_guid player \<notin> set (ch_bannedStore ch)"
    by (simp_all add: IsOn_def IsBanned_def)
  define c1 where "c1 = (if ch_playersStore ch = [] then ch\<lparr>ch_nextActivityUpdateTime := 0\<rparr> else ch)"
  define i where "i = pi_SetInvisible (\<not> cl_isGMVisible player) new_PlayerInfo"
  define c2 where "c2 = c1\<lparr>ch_playersStore := sm_put (cl_guid player) i (ch_playersStore c1)\<rparr>"
  have c1: "ch_playersStore c1 = ch_playersStore ch" "ch_ownerGuid c1 = ch_ownerGuid ch"
    "ch_bannedStore c1 = ch_bannedStore ch" by (simp_all add: c1_def)
  have f: "find_info k c2 = (if k = cl_guid player then Some i else find_info k ch)" for k
    using ok by (simp add: find_info_def c2_def c1 chan_ok_def)
  have m: "members c2 = insert (cl_guid player) (members ch)" by (simp add: members_keys c2_def c1)
  have ok2: "chan_ok c2"
    using ok n g by (auto simp: chan_ok_def f m) (simp_all add: c2_def c1 i_def)
  have c3: "chan_ok (c2\<lparr>ch_isOwnerInvisible := b\<rparr>)" for b
    by (subst chan_ok_fields [of _ c2]) (simp_all add: ok2)
  have e: "find_info (cl_guid player) c1 = None" using n by (simp add: find_info_def c1)
  have "fst (JoinChannel env player pass ch) = c2 \<or>
    (\<exists>b x. fst (JoinChannel env player pass ch) =
       update_info (cl_guid player) (pi_SetModerator True) (fst (SetOwner env (cl_guid player) x (c2\<lparr>ch_isOwnerInvisible := b\<rparr>))))"
    using False unfolding JoinChannel_def Let_def c1_def [symmetric]
    by (auto simp: e i_def [symmetric] c2_def [symmetric] split_def)
  then show ?thesis using ok2 chan_ok_SetOwner [OF c3] by (auto intro!: chan_ok_update)
qed

lemma LeaveChannel_ok:
  assumes ok: "chan_ok ch"
  shows "chan_ok (fst (LeaveChannel env player send suspend ch))"
proof (cases "find_info (cl_guid player) ch")
  case None
  then show ?thesis using ok by (simp add: LeaveChannel_def Let_def)
next
  case (Some info)
  define c1 where "c1 = ch\<lparr>ch_playersStore := sm_erase (cl_guid player) (ch_playersStore ch)\<rparr>"
  have ok1: "chan_ok c1" unfolding c1_def by (rule chan_ok_erase [OF ok])
  obtain w i where p: "pick_owner (ch_playersStore c1) = (w, i)" by fastforce
  have ok3: "chan_ok (fst (SetOwner env w True (update_info w (pi_SetModerator True) c1)))"
    by (rule chan_ok_SetOwner) (rule chan_ok_update [OF ok1], simp)
  have e: "chan_ok (c\<lparr>ch_isOwnerInvisible := b\<rparr>) = chan_ok c" for c b by (rule chan_ok_fields) simp_all
  have "fst (LeaveChannel env player send suspend ch) = c1 \<or>
    fst (LeaveChannel env player send suspend ch) = fst (SetOwner env w True (update_info w (pi_SetModerator True) c1)) \<or>
    fst (LeaveChannel env player send suspend ch) =
      (fst (SetOwner env w True (update_info w (pi_SetModerator True) c1)))\<lparr>ch_isOwnerInvisible := True\<rparr>"
    using Some p by (simp add: LeaveChannel_def Let_def c1_def [symmetric] split_def)
  then show ?thesis using ok1 ok3 by (auto simp: e)
qed

lemma KickOrBan_result:
  assumes "KickOrBan env player badname ban ch = Inr (ch', log)"
    and "v = guid_of (FindConnectedPlayerByName env badname)"
    and "c = (if ban \<and> \<not> IsBanned v ch then ch\<lparr>ch_bannedStore := List.insert v (ch_bannedStore ch), ch_isDirty := True\<rparr> else ch)"
    and "e = c\<lparr>ch_playersStore := sm_erase v (ch_playersStore c)\<rparr>"
  obtains (refused) n where "ch' = ch" "log = notify_one env n (cl_guid player)"
  | (kicked) n b where "IsOn v ch" "v \<noteq> 0" "ch' = e" "log = (if b then notify_all env n c else []) @ [PlayerLeft v]"
  | (owner) n b where "IsOn v ch" "v \<noteq> 0" "cl_guid player \<noteq> v"
      "ch' = fst (SetOwner env (cl_guid player) True (update_info (cl_guid player) (pi_SetModerator True) e))"
      "log = (if b then notify_all env n c else []) @ [PlayerLeft v]
         @ snd (SetOwner env (cl_guid player) True (update_info (cl_guid player) (pi_SetModerator True) e))"
proof (cases "find_info (cl_guid player) ch")
  case None
  with assms(1) show ?thesis by (intro refused) (auto simp: KickOrBan_def)
next
  case (Some info)
  let ?good = "cl_guid player" and ?silent = "cl_HasPermission player RBAC_PERM_SILENTLY_JOIN_CHANNEL"
    and ?bad = "FindConnectedPlayerByName env badname"
  let ?so = "SetOwner env ?good True (update_info ?good (pi_SetModerator True) e)"
  define n where "n = (if ban \<and> \<not> IsBanned v ch then PlayerBannedAppend ?good v else PlayerKickedAppend ?good v)"
  define log' where "log' = (if \<not> ?silent then notify_all env n c else []) @ [PlayerLeft v]"
  have eq: "KickOrBan env player badname ban ch =
      (if \<not> pi_IsModerator info \<and> \<not> cl_HasPermission player RBAC_PERM_CHANGE_CHANNEL_NOT_MODERATOR
       then Inr (ch, notify_one env NotModeratorAppend ?good)
       else if ?bad = None \<or> v = 0 \<or> \<not> IsOn v ch then Inr (ch, notify_one env (PlayerNotFoundAppend badname) ?good)
       else if \<not> cl_HasPermission player RBAC_PERM_CHANGE_CHANNEL_NOT_MODERATOR \<and> ch_ownerGuid ch = v \<and> ?good \<noteq> ch_ownerGuid ch
       then Inr (ch, notify_one env NotOwnerAppend ?good)
       else if ch_ownerGuid ch = v \<and> ch_ownershipEnabled e \<and> ch_playersStore e \<noteq> []
       then (if ?good = v then Inl UseAfterFree else Inr (fst ?so, log' @ snd ?so))
       else Inr (e, log'))"
    unfolding KickOrBan_def Let_def Some option.case assms(2) [symmetric] log'_def n_def assms(3) assms(4)
    by (cases "ban \<and> \<not> IsBanned v ch") (simp_all only: if_True if_False split_def fst_conv snd_conv append_assoc simp_thms)
  show ?thesis
    using assms(1) refused kicked [of "\<not> ?silent" n] owner [of "\<not> ?silent" n] unfolding eq log'_def [symmetric]
    by (auto split: if_splits simp: log'_def)
qed

lemma KickOrBan_ok:
  assumes ok: "chan_ok ch" and k: "KickOrBan env player badname ban ch = Inr (ch', log)"
  shows "chan_ok ch'"
proof -
  define v where "v = guid_of (FindConnectedPlayerByName env badname)"
  define c where "c = (if ban \<and> \<not> IsBanned v ch then ch\<lparr>ch_bannedStore := List.insert v (ch_bannedStore ch), ch_isDirty := True\<rparr> else ch)"
  define e where "e = c\<lparr>ch_playersStore := sm_erase v (ch_playersStore c)\<rparr>"
  have e: "chan_ok e" if "v \<noteq> 0"
    using ok that by (auto simp: chan_ok_def e_def c_def members_keys find_info_def split: if_splits)
  show ?thesis
    by (cases rule: KickOrBan_result [OF k v_def c_def e_def]) (simp_all add: ok e chan_ok_SetOwner chan_ok_update)
qed

lemma chan_ok_flags:
  assumes "chan_ok ch"
  shows "chan_ok (fst (SetModerator_guid env g b ch))" "chan_ok (fst (SetMute_guid env g b ch))"
    "chan_ok (SetInvisible player b ch)"
proof -
  show "chan_ok (fst (SetModerator_guid env g b ch))" "chan_ok (fst (SetMute_guid env g b ch))"
    using assms by (auto simp: SetModerator_guid_def SetMute_guid_def Let_def intro: chan_ok_update split: option.splits)
  have e: "chan_ok (c\<lparr>ch_isOwnerInvisible := b\<rparr>) = chan_ok c" for c b by (rule chan_ok_fields) simp_all
  have "chan_ok (update_info (cl_guid player) (pi_SetInvisible b) ch)" by (rule chan_ok_update [OF assms]) simp
  with assms show "chan_ok (SetInvisible player b ch)" by (auto simp: SetInvisible_def Let_def e split: option.splits)
qed

lemma commands_ok:
  assumes ok: "chan_ok ch"
  shows "chan_ok (fst (UnBan env player name ch))" "chan_ok (fst (Password env player pass ch))"
    "chan_ok (fst (SetMode env player name moderator state ch))" "chan_ok (fst (SetOwner_command env player name ch))"
    "chan_ok (fst (Announce env player ch))" "chan_ok (fst (UpdateChannelInDB env ch))"
proof -
  have b: "chan_ok (ch\<lparr>ch_bannedStore := removeAll v (ch_bannedStore ch), ch_isDirty := True\<rparr>)" for v
    using ok by (auto simp: chan_ok_def members_def find_info_def distinct_removeAll)
  show "chan_ok (fst (UnBan env player name ch))"
    using ok b by (auto simp: UnBan_def if_moderator_def if_member_def Let_def split: option.splits)
  have p: "chan_ok (ch\<lparr>ch_channelPassword := pass, ch_isDirty := True\<rparr>)"
    using ok by (subst chan_ok_fields [of _ ch]) simp_all
  show "chan_ok (fst (Password env player pass ch))"
    using ok p by (auto simp: Password_def if_moderator_def if_member_def Let_def split: option.splits)
  have a: "chan_ok (ch\<lparr>ch_announceEnabled := x, ch_isDirty := True\<rparr>)" for x
    using ok by (subst chan_ok_fields [of _ ch]) simp_all
  show "chan_ok (fst (Announce env player ch))"
    using ok a by (auto simp: Announce_def if_moderator_def if_member_def Let_def split: option.splits)
  show "chan_ok (fst (SetMode env player name moderator state ch))"
    using ok by (auto simp: SetMode_def if_moderator_def if_member_def Let_def intro: chan_ok_flags split: option.splits)
  have u: "chan_ok (fst (SetOwner env g True (update_info g (pi_SetModerator True) ch)))" for g
    by (rule chan_ok_SetOwner) (rule chan_ok_update [OF ok], simp)
  show "chan_ok (fst (SetOwner_command env player name ch))"
    using ok u by (auto simp: SetOwner_command_def if_member_def Let_def split: option.splits)
  have d: "chan_ok (ch\<lparr>ch_isDirty := False, ch_nextActivityUpdateTime := t\<rparr>)" for t
    using ok by (subst chan_ok_fields [of _ ch]) simp_all
  then show "chan_ok (fst (UpdateChannelInDB env ch))"
    using ok by (simp add: UpdateChannelInDB_def Let_def)
qed

section \<open>The machine\<close>

definition chan_start :: "channel \<Rightarrow> bool" where
  "chan_start ch \<longleftrightarrow>
     (\<exists>env i team zone. new_builtin_channel env i team zone = Some ch) \<or>
     (\<exists>name team bans. ch = new_custom_channel name team bans)"

text \<open>
  The setters are those the manager uses on a channel it loads or creates; the commands that
  only answer (\<open>List\<close>, \<open>Say\<close>, \<open>Invite\<close>, \<open>SendWhoOwner\<close>, \<open>SendMemberCount\<close>) leave the channel as it is.
\<close>

inductive chan_step :: "channel \<Rightarrow> channel \<Rightarrow> bool" where
  join: "cl_guid player \<noteq> 0 \<Longrightarrow> chan_step ch (fst (JoinChannel env player pass ch))"
| leave: "chan_step ch (fst (LeaveChannel env player send suspend ch))"
| kick_or_ban: "KickOrBan env player badname ban ch = Inr (ch', log) \<Longrightarrow> chan_step ch ch'"
| unban: "chan_step ch (fst (UnBan env player badname ch))"
| password: "chan_step ch (fst (Password env player pass ch))"
| set_mode: "chan_step ch (fst (SetMode env player p2n moderator state ch))"
| set_owner: "chan_step ch (fst (SetOwner_command env player newname ch))"
| announce: "chan_step ch (fst (Announce env player ch))"
| set_invisible: "chan_step ch (SetInvisible player on ch)"
| save: "chan_step ch (fst (UpdateChannelInDB env ch))"
| set_announce: "chan_step ch (ch\<lparr>ch_announceEnabled := a\<rparr>)"
| set_ownership: "chan_step ch (ch\<lparr>ch_ownershipEnabled := b\<rparr>)"
| set_password: "chan_step ch (ch\<lparr>ch_channelPassword := p\<rparr>)"
| set_dirty: "chan_step ch (ch\<lparr>ch_isDirty := True\<rparr>)"

lemma load_bans_distinct:
  "distinct store \<Longrightarrow> distinct (load_bans toks store)" "0 \<notin> set store \<Longrightarrow> 0 \<notin> set (load_bans toks store)"
  by (induction toks store rule: load_bans.induct) (auto simp: Let_def)

lemma start_chan_ok:
  assumes "chan_start ch"
  shows "chan_ok ch"
proof -
  have "ch_playersStore ch = []" "distinct (ch_bannedStore ch)" "0 \<notin> set (ch_bannedStore ch)"
    using assms load_bans_distinct
    by (auto simp: chan_start_def new_builtin_channel_def new_custom_channel_def Let_def)
  then show ?thesis by (simp add: chan_ok_def members_def find_info_def)
qed

lemma step_chan_ok: "chan_step ch ch' \<Longrightarrow> chan_ok ch \<Longrightarrow> chan_ok ch'"
proof (induction rule: chan_step.induct)
  case (set_announce ch a)
  then show ?case by (subst chan_ok_fields [of _ ch]) simp_all
next
  case (set_ownership ch b)
  then show ?case by (subst chan_ok_fields [of _ ch]) simp_all
next
  case (set_password ch p)
  then show ?case by (subst chan_ok_fields [of _ ch]) simp_all
next
  case (set_dirty ch)
  then show ?case by (subst chan_ok_fields [of _ ch]) simp_all
qed (simp_all add: JoinChannel_ok LeaveChannel_ok KickOrBan_ok commands_ok chan_ok_flags)

abbreviation channel_reachable :: "channel \<Rightarrow> bool" where
  "channel_reachable \<equiv> reach chan_start chan_step"

interpretation channel: invariant_system chan_start chan_step chan_ok
  by unfold_locales (auto intro: start_chan_ok step_chan_ok)

end
