(* ===== verification/Channel_Membership.thy ===== *)
theory Channel_Membership
  imports Channel_Invariant
begin

text \<open>
  Who an operation of a channel lets in or removes, and what it tells the players' own lists
  of channels about that.
\<close>

text \<open>
  Who enters and who leaves the channel, according to a log: the entries and departures in
  the players' own lists of channels (\<open>Player::JoinedChannel\<close>, \<open>Player::LeftChannel\<close>).
\<close>

definition tells :: "chan_effect list \<Rightarrow> channel \<Rightarrow> channel \<Rightarrow> bool" where
  "tells log ch ch' \<longleftrightarrow>
     {g. PlayerJoined g \<in> set log} = members ch' - members ch \<and> {g. PlayerLeft g \<in> set log} = members ch - members ch'"

definition list_effects :: "chan_effect list \<Rightarrow> chan_effect list" where
  "list_effects log = filter (\<lambda>e. case e of PlayerJoined _ \<Rightarrow> True | PlayerLeft _ \<Rightarrow> True | _ \<Rightarrow> False) log"

lemma list_effects_simps [simp]:
  "list_effects [] = []" "list_effects (xs @ ys) = list_effects xs @ list_effects ys"
  "list_effects (PlayerJoined g # xs) = PlayerJoined g # list_effects xs"
  "list_effects (PlayerLeft g # xs) = PlayerLeft g # list_effects xs"
  by (simp_all add: list_effects_def)

lemma list_effects_concat: "list_effects (concat xss) = concat (map list_effects xss)"
  by (induction xss) simp_all

lemma list_effects_sends:
  assumes "\<And>i. list_effects [b i] = []"
  shows "list_effects (SendToAll env b g ch) = []" "list_effects (SendToAllButOne env b g ch) = []"
    "list_effects (SendToOne env b g) = []"
  using assms
  by (auto simp: SendToAll_def SendToAllButOne_def SendToOne_def list_effects_concat comp_def split_def split: option.splits)

lemma list_effects_none [simp]:
  "list_effects (notify_all env n ch) = []" "list_effects (notify_one env n g) = []"
  "list_effects (JoinNotify env g ch) = []" "list_effects (LeaveNotify env g ch) = []"
  by (simp_all add: notify_all_def notify_one_def JoinNotify_def LeaveNotify_def list_effects_sends
      list_effects_def [of "[Notice i n]" for i n] list_effects_def [of "[UserlistAdd i a b c d]" for i a b c d]
      list_effects_def [of "[UserlistUpdate i a b c d]" for i a b c d] list_effects_def [of "[UserlistRemove i a b c]" for i a b c])

lemma list_effects_SetOwner [simp]: "list_effects (snd (SetOwner env g e ch)) = []"
  by (simp add: SetOwner_def Let_def split: option.splits)

lemma tells_list_effects:
  "tells log ch ch' \<longleftrightarrow> {g. PlayerJoined g \<in> set (list_effects log)} = members ch' - members ch \<and>
     {g. PlayerLeft g \<in> set (list_effects log)} = members ch - members ch'"
  by (simp add: tells_def list_effects_def)

lemma members_put [simp]: "members (ch\<lparr>ch_playersStore := sm_put g i m\<rparr>) = insert g (fst ` set m)"
  by (simp add: members_keys)

lemma members_field_updates [simp]:
  "members (ch\<lparr>ch_nextActivityUpdateTime := t\<rparr>) = members ch" "members (ch\<lparr>ch_isOwnerInvisible := b\<rparr>) = members ch"
  "members (ch\<lparr>ch_ownerGuid := g\<rparr>) = members ch" "members (ch\<lparr>ch_bannedStore := bs\<rparr>) = members ch" "members (ch\<lparr>ch_isDirty := b\<rparr>) = members ch"
  by (simp_all add: members_def find_info_def)

lemma members_SetOwner [simp]: "members (fst (SetOwner env g e ch)) = members ch"
  by (simp add: SetOwner_def Let_def split: option.splits)

text \<open>Who \<open>JoinChannel\<close> lets in.\<close>

definition admits :: "chan_env \<Rightarrow> client \<Rightarrow> bytes \<Rightarrow> channel \<Rightarrow> bool" where
  "admits env player pass ch \<longleftrightarrow>
     \<not> IsOn (cl_guid player) ch \<and> \<not> IsBanned (cl_guid player) ch \<and> CheckPassword pass ch \<and>
     \<not> (ch_HasFlag CHANNEL_FLAG_LFG ch \<and> CONFIG_RESTRICTED_LFG_CHANNEL env \<and> cl_security player = 0
        \<and> cl_hasGroup player)"

lemma JoinChannel_members:
  "members (fst (JoinChannel env player pass ch)) =
     (if admits env player pass ch then insert (cl_guid player) (members ch) else members ch)"
  by (simp add: JoinChannel_def admits_def Let_def split_def members_keys [of ch])

lemma JoinChannel_list_effects:
  "list_effects (snd (JoinChannel env player pass ch)) =
     (if admits env player pass ch then [PlayerJoined (cl_guid player)] else [])"
  by (simp add: JoinChannel_def admits_def Let_def split_def)

lemma LeaveChannel_members: "members (fst (LeaveChannel env player send suspend ch)) = members ch - {cl_guid player}"
  by (auto simp: LeaveChannel_def Let_def split_def members_def [of ch] split: option.splits)

lemma LeaveChannel_list_effects:
  "list_effects (snd (LeaveChannel env player send suspend ch)) =
     (if send \<and> IsOn (cl_guid player) ch then [PlayerLeft (cl_guid player)] else [])"
  by (simp add: LeaveChannel_def Let_def split_def IsOn_def split: option.splits)

end
