(* ===== verification/Channel_Mgr.thy ===== *)
theory Channel_Mgr
  imports Channel_Membership Unicode_Text
begin

text \<open>
  The channel managers (\<open>ChannelMgr.h\<close>, \<open>ChannelMgr.cpp\<close>), the players' lists of joined channels
  (\<open>Player.cpp\<close>) and the handlers of the channel packets (\<open>ChannelHandler.cpp\<close>). Channels are
  objects on a heap that the maps of the managers and the lists of the players point to; what
  would go through a dangling pointer, a failed assertion or a freed entry is an error, and
  an operation returns it or the new state.
\<close>

section \<open>The state\<close>

type_synonym chan_ptr = nat

record chan_mgr =
  cm_customChannels :: "(wstring \<times> chan_ptr) list"
  cm_channels :: "((u32 \<times> u32) \<times> chan_ptr) list"

datatype faction_mgr = allianceChannelMgr | hordeChannelMgr

datatype chan_sys_error = DanglingChannel | FailedAssert | FreedPlayerInfo

text \<open>\<open>cs_joined g\<close> is \<open>m_channels\<close> of the player with the guid \<open>g\<close>.\<close>

record chan_sys =
  cs_heap :: "chan_ptr \<Rightarrow> channel option"
  cs_next :: chan_ptr
  cs_mgr :: "faction_mgr \<Rightarrow> chan_mgr"
  cs_joined :: "guid \<Rightarrow> chan_ptr list"
  cs_log :: "chan_effect list"

type_synonym 'a sys_result = "chan_sys_error + 'a"

definition and_then :: "'a sys_result \<Rightarrow> ('a \<Rightarrow> 'b sys_result) \<Rightarrow> 'b sys_result" where
  "and_then r f = (case r of Inl e \<Rightarrow> Inl e | Inr x \<Rightarrow> f x)"

text \<open>An operation on the channel at an address: \<open>channel->f(...)\<close>, and what it does to the players' lists.\<close>

definition JoinedChannel :: "chan_ptr \<Rightarrow> guid \<Rightarrow> (guid \<Rightarrow> chan_ptr list) \<Rightarrow> guid \<Rightarrow> chan_ptr list" where
  "JoinedChannel c g js = js(g := js g @ [c])"

definition LeftChannel :: "chan_ptr \<Rightarrow> guid \<Rightarrow> (guid \<Rightarrow> chan_ptr list) \<Rightarrow> guid \<Rightarrow> chan_ptr list" where
  "LeftChannel c g js = js(g := removeAll c (js g))"

fun to_lists :: "chan_ptr \<Rightarrow> chan_effect list \<Rightarrow> (guid \<Rightarrow> chan_ptr list) \<Rightarrow> guid \<Rightarrow> chan_ptr list" where
  "to_lists p [] js = js"
| "to_lists p (PlayerJoined g # log) js = to_lists p log (JoinedChannel p g js)"
| "to_lists p (PlayerLeft g # log) js = to_lists p log (LeftChannel p g js)"
| "to_lists p (_ # log) js = to_lists p log js"

definition put_channel :: "chan_ptr \<Rightarrow> chan_result \<Rightarrow> chan_sys \<Rightarrow> chan_sys" where
  "put_channel p r w = w\<lparr>cs_heap := (cs_heap w)(p \<mapsto> fst r), cs_joined := to_lists p (snd r) (cs_joined w),
     cs_log := cs_log w @ snd r\<rparr>"

definition deref :: "chan_ptr \<Rightarrow> chan_sys \<Rightarrow> channel sys_result" where
  "deref p w = (case cs_heap w p of None \<Rightarrow> Inl DanglingChannel | Some ch \<Rightarrow> Inr ch)"

definition call :: "chan_ptr \<Rightarrow> (channel \<Rightarrow> chan_result) \<Rightarrow> chan_sys \<Rightarrow> chan_sys sys_result" where
  "call p f w = and_then (deref p w) (\<lambda>ch. Inr (put_channel p (f ch) w))"

definition send_log :: "chan_effect \<Rightarrow> chan_sys \<Rightarrow> chan_sys" where
  "send_log e w = w\<lparr>cs_log := cs_log w @ [e]\<rparr>"

section \<open>The managers\<close>

definition ALLIANCE :: u32 where "ALLIANCE = 469"
definition HORDE :: u32 where "HORDE = 67"

definition mgr_team :: "faction_mgr \<Rightarrow> u32" where
  "mgr_team m = (case m of allianceChannelMgr \<Rightarrow> ALLIANCE | hordeChannelMgr \<Rightarrow> HORDE)"

definition ForTeam :: "chan_env \<Rightarrow> u32 \<Rightarrow> faction_mgr option" where
  "ForTeam env team =
     (if CONFIG_ALLOW_TWO_SIDE_INTERACTION_CHANNEL env then Some allianceChannelMgr
      else if team = ALLIANCE then Some allianceChannelMgr
      else if team = HORDE then Some hordeChannelMgr
      else None)"

definition new_channel :: "channel \<Rightarrow> chan_sys \<Rightarrow> chan_ptr \<times> chan_sys" where
  "new_channel ch w = (cs_next w, w\<lparr>cs_heap := (cs_heap w)(cs_next w \<mapsto> ch), cs_next := Suc (cs_next w)\<rparr>)"

definition put_custom :: "faction_mgr \<Rightarrow> wstring \<Rightarrow> chan_ptr \<Rightarrow> chan_sys \<Rightarrow> chan_sys" where
  "put_custom m name p w = w\<lparr>cs_mgr := (cs_mgr w)(m := (cs_mgr w m)\<lparr>cm_customChannels :=
     (name, p) # cm_customChannels (cs_mgr w m)\<rparr>)\<rparr>"

definition zone_id :: "chat_channels_entry \<Rightarrow> area_table_entry option \<Rightarrow> u32" where
  "zone_id channelEntry zoneEntry =
     (if cc_Flags channelEntry AND (CHANNEL_DBC_FLAG_GLOBAL OR CHANNEL_DBC_FLAG_CITY_ONLY) \<noteq> 0 then 0
      else case zoneEntry of Some z \<Rightarrow> area_ID z | None \<Rightarrow> 0)"

definition GetSystemChannel ::
    "chan_env \<Rightarrow> faction_mgr \<Rightarrow> u32 \<Rightarrow> area_table_entry option \<Rightarrow> chan_sys \<Rightarrow> (chan_ptr \<times> chan_sys) sys_result" where
  "GetSystemChannel env m channelId zoneEntry w =
     (case ChatChannelsStore env channelId of
        None \<Rightarrow> Inl FailedAssert
      | Some channelEntry \<Rightarrow>
          let key = (channelId, zone_id channelEntry zoneEntry) in
          (case map_of (cm_channels (cs_mgr w m)) key of
             Some p \<Rightarrow> Inr (p, w)
           | None \<Rightarrow>
               (case new_builtin_channel env channelId (mgr_team m) zoneEntry of
                  None \<Rightarrow> Inl FailedAssert
                | Some ch \<Rightarrow>
                    let (p, w1) = new_channel ch w in
                    Inr (p, w1\<lparr>cs_mgr := (cs_mgr w1)(m := (cs_mgr w1 m)\<lparr>cm_channels :=
                      (key, p) # cm_channels (cs_mgr w1 m)\<rparr>)\<rparr>))))"

definition CreateCustomChannel :: "faction_mgr \<Rightarrow> bytes \<Rightarrow> chan_sys \<Rightarrow> chan_ptr option \<times> chan_sys" where
  "CreateCustomChannel m name w =
     (case Utf8toWStr name of
        (False, _) \<Rightarrow> (None, w)
      | (True, wname) \<Rightarrow>
          let channelName = wstrToLower wname in
          (case map_of (cm_customChannels (cs_mgr w m)) channelName of
             Some _ \<Rightarrow> (None, w)
           | None \<Rightarrow>
               let (p, w1) = new_channel (new_custom_channel name (mgr_team m) []\<lparr>ch_isDirty := True\<rparr>) w
               in (Some p, put_custom m channelName p w1)))"

definition GetCustomChannel :: "faction_mgr \<Rightarrow> bytes \<Rightarrow> chan_sys \<Rightarrow> chan_ptr option" where
  "GetCustomChannel m name w =
     (case Utf8toWStr name of
        (False, _) \<Rightarrow> None
      | (True, wname) \<Rightarrow> map_of (cm_customChannels (cs_mgr w m)) (wstrToLower wname))"

definition SendNotOnChannelNotify :: "client \<Rightarrow> bytes \<Rightarrow> chan_sys \<Rightarrow> chan_sys" where
  "SendNotOnChannelNotify player name = send_log (Notice (cl_guid player) ((notify CHAT_NOT_MEMBER_NOTICE)\<lparr>cn_Channel := name\<rparr>))"

definition GetChannel ::
    "chan_env \<Rightarrow> faction_mgr \<Rightarrow> u32 \<Rightarrow> bytes \<Rightarrow> client \<Rightarrow> bool \<Rightarrow> area_table_entry option \<Rightarrow> chan_sys
     \<Rightarrow> (chan_ptr option \<times> chan_sys) sys_result" where
  "GetChannel env m channelId name player pkt zoneEntry w =
     (let not_on = (if pkt then
            (case GetChannelName env name channelId (cl_locale player) zoneEntry of
               None \<Rightarrow> Inl FailedAssert
             | Some channelName \<Rightarrow> Inr (None, SendNotOnChannelNotify player channelName w))
          else Inr (None, w))
      in if channelId \<noteq> 0 then
           (case ChatChannelsStore env channelId of
              None \<Rightarrow> Inl FailedAssert
            | Some channelEntry \<Rightarrow>
                (case map_of (cm_channels (cs_mgr w m)) (channelId, zone_id channelEntry zoneEntry) of
                   Some p \<Rightarrow> Inr (Some p, w)
                 | None \<Rightarrow> not_on))
         else
           (case Utf8toWStr name of
              (False, _) \<Rightarrow> Inr (None, w)
            | (True, wname) \<Rightarrow>
                (case map_of (cm_customChannels (cs_mgr w m)) (wstrToLower wname) of
                   Some p \<Rightarrow> Inr (Some p, w)
                 | None \<Rightarrow> not_on)))"

definition mgr_LeftChannel ::
    "chan_env \<Rightarrow> faction_mgr \<Rightarrow> u32 \<Rightarrow> area_table_entry option \<Rightarrow> chan_sys \<Rightarrow> chan_sys sys_result" where
  "mgr_LeftChannel env m channelId zoneEntry w =
     (case ChatChannelsStore env channelId of
        None \<Rightarrow> Inl FailedAssert
      | Some channelEntry \<Rightarrow>
          let key = (channelId, zone_id channelEntry zoneEntry) in
          (case map_of (cm_channels (cs_mgr w m)) key of
             None \<Rightarrow> Inr w
           | Some p \<Rightarrow>
               and_then (deref p w) (\<lambda>ch.
                 if GetNumPlayers ch = 0 then
                   Inr (w\<lparr>cs_mgr := (cs_mgr w)(m := (cs_mgr w m)\<lparr>cm_channels :=
                            sm_erase key (cm_channels (cs_mgr w m))\<rparr>),
                          cs_heap := (cs_heap w)(p := None)\<rparr>)
                 else Inr w)))"

text \<open>
  \<open>GetChannelForPlayerByNamePart\<close>: the first channel in the player's list whose name, in lower
  case, starts with the part given.
\<close>

fun find_by_name_part :: "chan_env \<Rightarrow> client \<Rightarrow> wstring \<Rightarrow> chan_ptr list \<Rightarrow> chan_sys \<Rightarrow> chan_ptr option sys_result" where
  "find_by_name_part env player part [] w = Inr None"
| "find_by_name_part env player part (p # ps) w =
     and_then (deref p w) (\<lambda>ch.
       case GetName env (cl_locale player) ch of
         None \<Rightarrow> Inl FailedAssert
       | Some chanName \<Rightarrow>
           (case Utf8toWStr chanName of
              (False, _) \<Rightarrow> find_by_name_part env player part ps w
            | (True, channelNameW) \<Rightarrow>
                if take (length part) (wstrToLower channelNameW) = part then Inr (Some p)
                else find_by_name_part env player part ps w))"

definition GetChannelForPlayerByNamePart :: "chan_env \<Rightarrow> bytes \<Rightarrow> client \<Rightarrow> chan_sys \<Rightarrow> chan_ptr option sys_result" where
  "GetChannelForPlayerByNamePart env namePart player w =
     (case Utf8toWStr namePart of
        (False, _) \<Rightarrow> Inr None
      | (True, part) \<Rightarrow> find_by_name_part env player (wstrToLower part) (cs_joined w (cl_guid player)) w)"

fun save_loop :: "chan_env \<Rightarrow> chan_ptr list \<Rightarrow> chan_sys \<Rightarrow> chan_sys sys_result" where
  "save_loop env [] w = Inr w"
| "save_loop env (p # ps) w = and_then (call p (UpdateChannelInDB env) w) (save_loop env ps)"

definition SaveToDB :: "chan_env \<Rightarrow> faction_mgr \<Rightarrow> chan_sys \<Rightarrow> chan_sys sys_result" where
  "SaveToDB env m w = save_loop env (map snd (cm_customChannels (cs_mgr w m))) w"

text \<open>A row of the table \<open>channels\<close>, and the loop over the rows with the list \<open>toDelete\<close>.\<close>

record channel_row =
  row_name :: bytes
  row_team :: u32
  row_announce :: bool
  row_ownership :: bool
  row_password :: bytes
  row_bannedList :: bytes

fun load_loop :: "chan_env \<Rightarrow> channel_row list \<Rightarrow> (bytes \<times> u32) list \<Rightarrow> chan_sys \<Rightarrow> (bytes \<times> u32) list \<times> chan_sys" where
  "load_loop env [] toDelete w = (toDelete, w)"
| "load_loop env (row # rows) toDelete w =
     (case Utf8toWStr (row_name row) of
        (False, _) \<Rightarrow> load_loop env rows (toDelete @ [(row_name row, row_team row)]) w
      | (True, channelName) \<Rightarrow>
          (case ForTeam env (row_team row) of
             None \<Rightarrow> load_loop env rows (toDelete @ [(row_name row, row_team row)]) w
           | Some m \<Rightarrow>
               (case map_of (cm_customChannels (cs_mgr w m)) channelName of
                  Some _ \<Rightarrow> load_loop env rows toDelete w
                | None \<Rightarrow>
                    let (p, w1) = new_channel
                          ((new_custom_channel (row_name row) (row_team row) (row_bannedList row))
                             \<lparr>ch_announceEnabled := row_announce row, ch_ownershipEnabled := row_ownership row,
                              ch_channelPassword := row_password row\<rparr>) w
                    in load_loop env rows toDelete (put_custom m channelName p w1))))"

definition DAY :: u32 where "DAY = 86400"

definition LoadFromDB :: "chan_env \<Rightarrow> channel_row list \<Rightarrow> chan_sys \<Rightarrow> chan_sys" where
  "LoadFromDB env rows w =
     (if \<not> CONFIG_PRESERVE_CUSTOM_CHANNELS env then w
      else
        let days = CONFIG_PRESERVE_CUSTOM_CHANNEL_DURATION env;
            w1 = (if days \<noteq> 0 then send_log (CHAR_DEL_OLD_CHANNELS (days * DAY)) w else w);
            (toDelete, w2) = load_loop env rows [] w1
        in foldl (\<lambda>w (dbName, team). send_log (CHAR_DEL_CHANNEL dbName team) w) w2 toDelete)"

end
