(* ===== verification/Channel_Handlers.thy ===== *)
theory Channel_Handlers
  imports Channel_Mgr
begin

text \<open>
  The handlers of the client's channel packets (\<open>ChannelHandler.cpp\<close>) and what a player does to
  its channels when it logs out, changes its zone, leaves the group finder or becomes visible
  or invisible as a game master (\<open>Player.cpp\<close>).
\<close>

section \<open>Zones\<close>

definition AREA_FLAG_SLAVE_CAPITAL :: u32 where "AREA_FLAG_SLAVE_CAPITAL = 0x00000008"
definition AREA_FLAG_ARENA_INSTANCE :: u32 where "AREA_FLAG_ARENA_INSTANCE = 0x00010000"
definition CHANNEL_DBC_FLAG_ZONE_DEP :: u32 where "CHANNEL_DBC_FLAG_ZONE_DEP = 0x00002"
definition CHANNEL_DBC_FLAG_GUILD_REQ :: u32 where "CHANNEL_DBC_FLAG_GUILD_REQ = 0x20000"

definition CanJoinConstantChannelInZone :: "client \<Rightarrow> chat_channels_entry \<Rightarrow> area_table_entry \<Rightarrow> bool" where
  "CanJoinConstantChannelInZone player channel zone =
     (if cc_Flags channel AND CHANNEL_DBC_FLAG_ZONE_DEP \<noteq> 0 \<and> area_Flags zone AND AREA_FLAG_ARENA_INSTANCE \<noteq> 0
      then False
      else if cc_Flags channel AND CHANNEL_DBC_FLAG_CITY_ONLY \<noteq> 0 \<and> \<not> (area_Flags zone AND AREA_FLAG_SLAVE_CAPITAL \<noteq> 0)
      then False
      else if cc_Flags channel AND CHANNEL_DBC_FLAG_GUILD_REQ \<noteq> 0 \<and> cl_guildId player \<noteq> 0
      then False
      else True)"

text \<open>
  The check two handlers make of a built-in channel: it exists, and the player is in a zone
  where it may be in it.
\<close>

definition in_channel_zone :: "chan_env \<Rightarrow> client \<Rightarrow> u32 \<Rightarrow> bool" where
  "in_channel_zone env player channelId =
     (case ChatChannelsStore env channelId of
        None \<Rightarrow> False
      | Some channel \<Rightarrow>
          (case ZoneOf env player of None \<Rightarrow> False | Some zone \<Rightarrow> CanJoinConstantChannelInZone player channel zone))"

section \<open>Packets\<close>

definition MAX_CHANNEL_PASS_STR :: nat where "MAX_CHANNEL_PASS_STR = 31"
definition MAX_CHANNEL_NAME_STR :: nat where "MAX_CHANNEL_NAME_STR = 31"

definition invalid_name :: "client \<Rightarrow> bytes \<Rightarrow> chan_sys \<Rightarrow> chan_sys" where
  "invalid_name player name =
     send_log (Notice (cl_guid player) ((notify CHAT_INVALID_NAME_NOTICE)\<lparr>cn_Channel := name\<rparr>))"

definition HandleJoinChannel :: "chan_env \<Rightarrow> client \<Rightarrow> join_channel_packet \<Rightarrow> chan_sys \<Rightarrow> chan_sys sys_result" where
  "HandleJoinChannel env player packet w =
     (let channelId = jc_ChatChannelId packet in
      if channelId \<noteq> 0 \<and> \<not> in_channel_zone env player channelId then Inr w
      else
        case ForTeam env (cl_team player) of
          None \<Rightarrow> Inr w
        | Some cMgr \<Rightarrow>
            if channelId \<noteq> 0 then
              and_then (GetSystemChannel env cMgr channelId (ZoneOf env player) w) (\<lambda>(p, w1).
                call p (JoinChannel env player []) w1)
            else if jc_ChannelName packet = [] \<or> is_digit (hd (jc_ChannelName packet)) then
              Inr (invalid_name player (jc_ChannelName packet) w)
            else
              let (n, name) = utf8length (jc_ChannelName packet) in
              if MAX_CHANNEL_NAME_STR < n then Inr (invalid_name player name w)
              else if MAX_CHANNEL_PASS_STR < length (jc_Password packet) then Inr w
              else if \<not> DisallowHyperlinksAndMaybeKick env name then Inr w
              else
                (case GetCustomChannel cMgr name w of
                   Some p \<Rightarrow> call p (JoinChannel env player (jc_Password packet)) w
                 | None \<Rightarrow>
                     (case CreateCustomChannel cMgr name w of
                        (None, w1) \<Rightarrow> Inr w1
                      | (Some p, w1) \<Rightarrow>
                          and_then (call p (\<lambda>ch. (ch\<lparr>ch_channelPassword := jc_Password packet\<rparr>, [])) w1)
                            (call p (JoinChannel env player (jc_Password packet))))))"

definition HandleLeaveChannel :: "chan_env \<Rightarrow> client \<Rightarrow> u32 \<times> bytes \<Rightarrow> chan_sys \<Rightarrow> chan_sys sys_result" where
  "HandleLeaveChannel env player packet w =
     (case packet of (channelId, name) \<Rightarrow>
       if name = [] \<and> channelId = 0 then Inr w
       else if channelId \<noteq> 0 \<and> \<not> in_channel_zone env player channelId then Inr w
       else
         case ForTeam env (cl_team player) of
           None \<Rightarrow> Inr w
         | Some cMgr \<Rightarrow>
             and_then (GetChannel env cMgr channelId name player True (ZoneOf env player) w) (\<lambda>(p, w1).
             and_then (case p of None \<Rightarrow> Inr w1 | Some p \<Rightarrow> call p (LeaveChannel env player True False) w1) (\<lambda>w2.
               if channelId \<noteq> 0 then mgr_LeftChannel env cMgr channelId (ZoneOf env player) w2 else Inr w2)))"

datatype channel_opcode =
    CMSG_CHANNEL_ANNOUNCEMENTS | CMSG_DECLINE_CHANNEL_INVITE | CMSG_CHANNEL_DISPLAY_LIST | CMSG_CHANNEL_LIST
  | CMSG_CHANNEL_OWNER | CMSG_GET_CHANNEL_MEMBER_COUNT | CMSG_CHANNEL_VOICE_ON | CMSG_CHANNEL_VOICE_OFF
  | CMSG_SET_CHANNEL_WATCH

datatype channel_player_opcode =
    CMSG_CHANNEL_BAN | CMSG_CHANNEL_INVITE | CMSG_CHANNEL_KICK | CMSG_CHANNEL_MODERATOR | CMSG_CHANNEL_MUTE
  | CMSG_CHANNEL_SET_OWNER | CMSG_CHANNEL_SILENCE_ALL | CMSG_CHANNEL_UNBAN | CMSG_CHANNEL_UNMODERATOR
  | CMSG_CHANNEL_UNMUTE | CMSG_CHANNEL_UNSILENCE_ALL

definition HandleChannelCommand :: "chan_env \<Rightarrow> client \<Rightarrow> channel_opcode \<Rightarrow> bytes \<Rightarrow> chan_sys \<Rightarrow> chan_sys sys_result" where
  "HandleChannelCommand env player opcode name w =
     and_then (GetChannelForPlayerByNamePart env name player w) (\<lambda>channel.
       case channel of
         None \<Rightarrow> Inr w
       | Some p \<Rightarrow>
           (case opcode of
              CMSG_CHANNEL_ANNOUNCEMENTS \<Rightarrow> call p (Announce env player) w
            | CMSG_CHANNEL_DISPLAY_LIST \<Rightarrow> call p (List_command env player) w
            | CMSG_CHANNEL_LIST \<Rightarrow> call p (List_command env player) w
            | CMSG_CHANNEL_OWNER \<Rightarrow> call p (SendWhoOwner env player) w
            | CMSG_GET_CHANNEL_MEMBER_COUNT \<Rightarrow> call p (SendMemberCount env player) w
            | _ \<Rightarrow> Inr w))"

text \<open>The result of \<open>KickOrBan\<close> on the channel at an address.\<close>

definition call_kick :: "chan_ptr \<Rightarrow> (channel \<Rightarrow> chan_error + chan_result) \<Rightarrow> chan_sys \<Rightarrow> chan_sys sys_result" where
  "call_kick p f w =
     and_then (deref p w) (\<lambda>ch.
       case f ch of Inl UseAfterFree \<Rightarrow> Inl FreedPlayerInfo | Inr r \<Rightarrow> Inr (put_channel p r w))"

definition HandleChannelPlayerCommand ::
    "chan_env \<Rightarrow> client \<Rightarrow> channel_player_opcode \<Rightarrow> bytes \<times> bytes \<Rightarrow> chan_sys \<Rightarrow> chan_sys sys_result" where
  "HandleChannelPlayerCommand env player opcode packet w =
     (if MAX_CHANNEL_NAME_STR \<le> length (snd packet) then Inr w
      else
        case normalizePlayerName (snd packet) of
          (False, _) \<Rightarrow> Inr w
        | (True, name) \<Rightarrow>
            and_then (GetChannelForPlayerByNamePart env (fst packet) player w) (\<lambda>channel.
              case channel of
                None \<Rightarrow> Inr w
              | Some p \<Rightarrow>
                  (case opcode of
                     CMSG_CHANNEL_BAN \<Rightarrow> call_kick p (KickOrBan env player name True) w
                   | CMSG_CHANNEL_INVITE \<Rightarrow> call p (Invite env player name) w
                   | CMSG_CHANNEL_KICK \<Rightarrow> call_kick p (KickOrBan env player name False) w
                   | CMSG_CHANNEL_MODERATOR \<Rightarrow> call p (SetMode env player name True True) w
                   | CMSG_CHANNEL_MUTE \<Rightarrow> call p (SetMode env player name False True) w
                   | CMSG_CHANNEL_SET_OWNER \<Rightarrow> call p (SetOwner_command env player name) w
                   | CMSG_CHANNEL_UNBAN \<Rightarrow> call p (UnBan env player name) w
                   | CMSG_CHANNEL_UNMODERATOR \<Rightarrow> call p (SetMode env player name True False) w
                   | CMSG_CHANNEL_UNMUTE \<Rightarrow> call p (SetMode env player name False False) w
                   | _ \<Rightarrow> Inr w)))"

definition HandleChannelPassword :: "chan_env \<Rightarrow> client \<Rightarrow> bytes \<times> bytes \<Rightarrow> chan_sys \<Rightarrow> chan_sys sys_result" where
  "HandleChannelPassword env player packet w =
     (if MAX_CHANNEL_PASS_STR < length (snd packet) then Inr w
      else
        and_then (GetChannelForPlayerByNamePart env (fst packet) player w) (\<lambda>channel.
          case channel of None \<Rightarrow> Inr w | Some p \<Rightarrow> call p (Password env player (snd packet)) w))"

section \<open>The player\<close>

text \<open>
  One round of the loop of \<open>CleanupChannels\<close>, with the first channel \<open>p\<close> of the list taken off.
\<close>

definition cleanup_step :: "chan_env \<Rightarrow> client \<Rightarrow> chan_ptr \<Rightarrow> chan_sys \<Rightarrow> chan_sys sys_result" where
  "cleanup_step env player p w =
     and_then (call p (LeaveChannel env player False False) w) (\<lambda>w1.
       case ForTeam env (cl_team player) of
         None \<Rightarrow> Inr w1
       | Some cMgr \<Rightarrow>
           and_then (deref p w1) (\<lambda>ch.
             if IsConstant ch then mgr_LeftChannel env cMgr (ch_channelId ch) (ch_zoneEntry ch) w1 else Inr w1))"

lemma to_lists_effects: "to_lists p log js = to_lists p (list_effects log) js"
  by (induction p log js rule: to_lists.induct) (simp_all add: list_effects_def)

lemma mgr_LeftChannel_joined: "mgr_LeftChannel env m i z w = Inr w' \<Longrightarrow> cs_joined w' = cs_joined w"
  by (auto simp: mgr_LeftChannel_def and_then_def Let_def split: option.splits sum.splits if_splits)

lemma cleanup_step_joined:
  assumes "cleanup_step env player p w = Inr w'"
  shows "cs_joined w' = cs_joined w"
proof -
  have "list_effects (snd (LeaveChannel env player False False ch)) = []" for ch
    by (simp add: LeaveChannel_list_effects)
  then have "to_lists p (snd (LeaveChannel env player False False ch)) js = js" for ch js
    by (simp add: to_lists_effects [of p "snd (LeaveChannel env player False False ch)"])
  then show ?thesis
    using assms
    by (auto simp: cleanup_step_def call_def and_then_def put_channel_def dest: mgr_LeftChannel_joined
        split: sum.splits option.splits if_splits)
qed

text \<open>
  The loop takes the first channel off the list and leaves it, until the list is empty; it
  ends because leaving a channel this way does not put anything back on the list.
\<close>

function CleanupChannels :: "chan_env \<Rightarrow> client \<Rightarrow> chan_sys \<Rightarrow> chan_sys sys_result" where
  "CleanupChannels env player w =
     (case cs_joined w (cl_guid player) of
        [] \<Rightarrow> Inr w
      | p # ps \<Rightarrow>
          (case cleanup_step env player p (w\<lparr>cs_joined := (cs_joined w)(cl_guid player := ps)\<rparr>) of
             Inl e \<Rightarrow> Inl e
           | Inr w1 \<Rightarrow> CleanupChannels env player w1))"
  by pat_completeness auto
termination CleanupChannels
  by (relation "measure (\<lambda>(_, player, w). length (cs_joined w (cl_guid player)))") (auto dest!: cleanup_step_joined)

text \<open>The first channel of a list whose state has a property.\<close>

fun find_channel :: "(channel \<Rightarrow> bool) \<Rightarrow> chan_ptr list \<Rightarrow> chan_sys \<Rightarrow> chan_ptr option sys_result" where
  "find_channel P [] w = Inr None"
| "find_channel P (p # ps) w =
     and_then (deref p w) (\<lambda>ch. if P ch then Inr (Some p) else find_channel P ps w)"

text \<open>
  One round of the loop of \<open>UpdateLocalChannels\<close>, for the row \<open>i\<close> of the store, which is the
  entry with the id \<open>i\<close>: what is to be joined, and what is to be left with or without a packet.
\<close>

definition local_step ::
    "chan_env \<Rightarrow> client \<Rightarrow> faction_mgr \<Rightarrow> area_table_entry \<Rightarrow> u32 \<Rightarrow> chan_sys \<Rightarrow> chan_sys sys_result" where
  "local_step env player cMgr current_zone i w =
     (case ChatChannelsStore env i of
        None \<Rightarrow> Inr w
      | Some channelEntry \<Rightarrow>
          and_then (find_channel (\<lambda>ch. ch_channelId ch = i) (cs_joined w (cl_guid player)) w) (\<lambda>usedChannel.
          if CanJoinConstantChannelInZone player channelEntry current_zone
             \<and> cc_Flags channelEntry AND CHANNEL_DBC_FLAG_GLOBAL = 0
             \<and> cc_Flags channelEntry AND CHANNEL_DBC_FLAG_CITY_ONLY \<noteq> 0 \<and> usedChannel \<noteq> None
          then Inr w
          else
          and_then
            (if CanJoinConstantChannelInZone player channelEntry current_zone then
               if cc_Flags channelEntry AND CHANNEL_DBC_FLAG_GLOBAL = 0 then
                 and_then (GetSystemChannel env cMgr i (Some current_zone) w) (\<lambda>(p, w1).
                   if usedChannel = None then Inr (Some p, None, True, w1)
                   else if usedChannel \<noteq> Some p then Inr (Some p, usedChannel, False, w1)
                   else Inr (None, None, True, w1))
               else and_then (GetSystemChannel env cMgr i None w) (\<lambda>(p, w1). Inr (Some p, None, True, w1))
             else Inr (None, usedChannel, True, w))
          (\<lambda>(joinChannel, removeChannel, sendRemove, w1).
          and_then (case joinChannel of None \<Rightarrow> Inr w1 | Some p \<Rightarrow> call p (JoinChannel env player []) w1) (\<lambda>w2.
          case removeChannel of
            None \<Rightarrow> Inr w2
          | Some p \<Rightarrow>
              and_then (call p (LeaveChannel env player sendRemove True) w2) (\<lambda>w3.
              let w4 = w3\<lparr>cs_joined := LeftChannel p (cl_guid player) (cs_joined w3)\<rparr> in
              and_then (deref p w4) (\<lambda>ch. mgr_LeftChannel env cMgr (ch_channelId ch) (ch_zoneEntry ch) w4))))))"

fun local_loop ::
    "chan_env \<Rightarrow> client \<Rightarrow> faction_mgr \<Rightarrow> area_table_entry \<Rightarrow> nat list \<Rightarrow> chan_sys \<Rightarrow> chan_sys sys_result" where
  "local_loop env player cMgr zone [] w = Inr w"
| "local_loop env player cMgr zone (i # is) w =
     and_then (local_step env player cMgr zone (of_nat i) w) (local_loop env player cMgr zone is)"

definition UpdateLocalChannels ::
    "chan_env \<Rightarrow> client \<Rightarrow> bool \<Rightarrow> bool \<Rightarrow> area_table_entry option \<Rightarrow> chan_sys \<Rightarrow> chan_sys sys_result" where
  "UpdateLocalChannels env player playerLoading teleportedFar newZone w =
     (if playerLoading \<and> \<not> teleportedFar then Inr w
      else
        case newZone of
          None \<Rightarrow> Inr w
        | Some current_zone \<Rightarrow>
            (case ForTeam env (cl_team player) of
               None \<Rightarrow> Inr w
             | Some cMgr \<Rightarrow> local_loop env player cMgr current_zone [0..<NumChatChannels env] w))"

definition IsLFG :: "channel \<Rightarrow> bool" where
  "IsLFG ch \<longleftrightarrow> ch_channelFlags ch AND CHANNEL_FLAG_LFG \<noteq> 0"

definition LeaveLFGChannel :: "chan_env \<Rightarrow> client \<Rightarrow> chan_sys \<Rightarrow> chan_sys sys_result" where
  "LeaveLFGChannel env player w =
     and_then (find_channel IsLFG (cs_joined w (cl_guid player)) w) (\<lambda>i.
       case i of None \<Rightarrow> Inr w | Some p \<Rightarrow> call p (LeaveChannel env player True False) w)"

text \<open>The loop over the channels in \<open>SetGMVisible\<close>.\<close>

fun invisible_loop :: "client \<Rightarrow> bool \<Rightarrow> chan_ptr list \<Rightarrow> chan_sys \<Rightarrow> chan_sys sys_result" where
  "invisible_loop player on [] w = Inr w"
| "invisible_loop player on (p # ps) w =
     and_then (call p (\<lambda>ch. (SetInvisible player (\<not> on) ch, [])) w) (invisible_loop player on ps)"

definition SetGMVisible_channels :: "client \<Rightarrow> bool \<Rightarrow> chan_sys \<Rightarrow> chan_sys sys_result" where
  "SetGMVisible_channels player on w = invisible_loop player on (cs_joined w (cl_guid player)) w"

end
