(* ===== verification/Channel_Sys_Invariant.thy ===== *)
theory Channel_Sys_Invariant
  imports Channel_Handlers
begin

text \<open>
  What the handlers keep of the channels, the managers and the players' lists together: every
  pointer to a channel leads to one, and a player has a channel on its list exactly when the
  channel has the player among its members.
\<close>

section \<open>Operations on one channel\<close>

text \<open>The raw value of a player's guid: its high part is 0 and its counter has 32 bits.\<close>

definition player_guid :: "guid \<Rightarrow> bool" where
  "player_guid g \<longleftrightarrow> 0 < unat g \<and> unat g < 2 ^ 32"

lemma player_guid_not_0: "player_guid g \<Longrightarrow> g \<noteq> 0"
  by (auto simp: player_guid_def)

definition chan_static :: "channel \<Rightarrow> u32 \<times> u32 \<times> area_table_entry option" where
  "chan_static ch = (ch_channelId ch, ch_channelTeam ch, ch_zoneEntry ch)"

text \<open>An operation that keeps the channel well-formed, changes at most one membership and tells so.\<close>

definition op_ok :: "channel \<Rightarrow> chan_result \<Rightarrow> bool" where
  "op_ok ch r \<longleftrightarrow> chan_static (fst r) = chan_static ch \<and> chan_ok (fst r) \<and>
     (list_effects (snd r) = [] \<and> members (fst r) = members ch \<or>
      (\<exists>g. list_effects (snd r) = [PlayerJoined g] \<and> g \<notin> members ch \<and> player_guid g \<and> members (fst r) = insert g (members ch)) \<or>
      (\<exists>g \<in> members ch. list_effects (snd r) = [PlayerLeft g] \<and> members (fst r) = members ch - {g}))"

lemma chan_static_simps [simp]:
  "chan_static (update_info g f ch) = chan_static ch" "chan_static (ch\<lparr>ch_playersStore := m\<rparr>) = chan_static ch"
  "chan_static (ch\<lparr>ch_isOwnerInvisible := b\<rparr>) = chan_static ch" "chan_static (ch\<lparr>ch_isDirty := b\<rparr>) = chan_static ch"
  "chan_static (ch\<lparr>ch_ownerGuid := g\<rparr>) = chan_static ch" "chan_static (ch\<lparr>ch_bannedStore := bs\<rparr>) = chan_static ch"
  "chan_static (ch\<lparr>ch_nextActivityUpdateTime := t\<rparr>) = chan_static ch"
  "chan_static (ch\<lparr>ch_channelPassword := pass\<rparr>) = chan_static ch"
  "chan_static (ch\<lparr>ch_announceEnabled := b\<rparr>) = chan_static ch"
  by (simp_all add: chan_static_def update_info_def)

lemma members_more [simp]:
  "members (ch\<lparr>ch_channelPassword := pass\<rparr>) = members ch" "members (ch\<lparr>ch_announceEnabled := b\<rparr>) = members ch"
  by (simp_all add: members_def find_info_def)

lemma chan_static_SetOwner [simp]: "chan_static (fst (SetOwner env g e ch)) = chan_static ch"
  by (simp add: SetOwner_def Let_def split: option.splits)

lemma chan_static_moves:
  "chan_static (fst (JoinChannel env player pass ch)) = chan_static ch"
  "chan_static (fst (LeaveChannel env player send suspend ch)) = chan_static ch"
  by (simp_all add: JoinChannel_def LeaveChannel_def Let_def split_def split: option.splits)

lemma op_ok_JoinChannel:
  assumes "chan_ok ch" "player_guid (cl_guid player)"
  shows "op_ok ch (JoinChannel env player pass ch)"
  using assms JoinChannel_ok [OF assms(1) player_guid_not_0 [OF assms(2)]]
  by (auto simp: op_ok_def chan_static_moves JoinChannel_members JoinChannel_list_effects admits_def IsOn_members)

lemma op_ok_LeaveChannel:
  assumes "chan_ok ch"
  shows "op_ok ch (LeaveChannel env player True suspend ch)"
  using LeaveChannel_ok [OF assms]
  by (auto simp: op_ok_def chan_static_moves LeaveChannel_members LeaveChannel_list_effects IsOn_members)

lemma op_ok_KickOrBan:
  assumes "chan_ok ch" "KickOrBan env player badname ban ch = Inr r"
  shows "op_ok ch r"
proof -
  obtain ch' log where r: "r = (ch', log)" by fastforce
  note k = assms(2) [unfolded r]
  have "members (e\<lparr>ch_playersStore := sm_erase v (ch_playersStore e)\<rparr>) = members e - {v}" for e v by simp
  then show ?thesis
    unfolding r using KickOrBan_ok [OF assms(1) k]
    by (cases rule: KickOrBan_result [OF k refl refl refl]) (auto simp: op_ok_def IsOn_members split: if_splits)
qed

text \<open>Operations that change no membership.\<close>

lemma op_ok_quiet:
  "chan_ok ch' \<Longrightarrow> chan_static ch' = chan_static ch \<Longrightarrow> members ch' = members ch \<Longrightarrow> list_effects log = [] \<Longrightarrow> op_ok ch (ch', log)"
  by (simp add: op_ok_def)

lemma quiet_if_moderator:
  "op_ok ch run \<Longrightarrow> chan_ok ch \<Longrightarrow> op_ok ch (if_moderator env player ch run)"
  by (auto simp: if_moderator_def if_member_def op_ok_quiet split: option.splits)

lemma quiet_if_member:
  "(\<And>i. op_ok ch (run i)) \<Longrightarrow> chan_ok ch \<Longrightarrow> op_ok ch (if_member env player ch run)"
  by (auto simp: if_member_def op_ok_quiet split: option.splits)

lemma quiet_flags:
  assumes "chan_ok ch"
  shows "op_ok ch (SetModerator_guid env g b ch)" "op_ok ch (SetMute_guid env g b ch)"
    "op_ok ch (SetInvisible player b ch, [])"
  using chan_ok_flags [OF assms] assms
  by (auto simp: op_ok_def SetModerator_guid_def SetMute_guid_def SetInvisible_def Let_def split: option.splits)

lemma chan_ok_settings:
  assumes "chan_ok ch"
  shows "chan_ok (ch\<lparr>ch_channelPassword := pass\<rparr>)" "chan_ok (ch\<lparr>ch_announceEnabled := a\<rparr>)"
    "chan_ok (ch\<lparr>ch_isDirty := b\<rparr>)" "chan_ok (ch\<lparr>ch_isDirty := b, ch_nextActivityUpdateTime := t\<rparr>)"
    "chan_ok (ch\<lparr>ch_bannedStore := removeAll v (ch_bannedStore ch)\<rparr>)"
  using assms by (auto simp: chan_ok_def members_def find_info_def distinct_removeAll)

lemma quiet_commands:
  assumes ok: "chan_ok ch"
  shows "op_ok ch (UnBan env player name ch)" "op_ok ch (Password env player pass ch)"
    "op_ok ch (SetMode env player name moderator state ch)" "op_ok ch (SetOwner_command env player name ch)"
    "op_ok ch (Announce env player ch)" "op_ok ch (UpdateChannelInDB env ch)"
    "op_ok ch (List_command env player ch)" "op_ok ch (SendWhoOwner env player ch)"
    "op_ok ch (SendMemberCount env player ch)" "op_ok ch (Invite env player name ch)"
proof -
  note s = chan_ok_settings [OF ok] chan_ok_settings [OF chan_ok_settings(1) [OF ok]]
    chan_ok_settings [OF chan_ok_settings(2) [OF ok]] chan_ok_settings [OF chan_ok_settings(5) [OF ok]]
  show "op_ok ch (UnBan env player name ch)" "op_ok ch (Password env player pass ch)" "op_ok ch (Announce env player ch)"
    using ok s by (auto simp: UnBan_def Password_def Announce_def Let_def intro!: quiet_if_moderator op_ok_quiet)
  show "op_ok ch (SetMode env player name moderator state ch)"
    using ok quiet_flags [OF ok] by (auto simp: SetMode_def Let_def intro!: quiet_if_moderator op_ok_quiet)
  have "chan_ok (fst (SetOwner env v True (update_info v (pi_SetModerator True) ch)))" for v
    by (rule chan_ok_SetOwner) (rule chan_ok_update [OF ok], simp)
  then have "op_ok ch (SetOwner env v True (update_info v (pi_SetModerator True) ch))" for v
    by (simp add: op_ok_def)
  then show "op_ok ch (SetOwner_command env player name ch)"
    using ok by (auto simp: SetOwner_command_def Let_def intro!: quiet_if_member op_ok_quiet)
  show "op_ok ch (UpdateChannelInDB env ch)"
    using ok s by (auto simp: UpdateChannelInDB_def Let_def op_ok_def list_effects_def)
  show "op_ok ch (List_command env player ch)" "op_ok ch (SendWhoOwner env player ch)"
    "op_ok ch (SendMemberCount env player ch)" "op_ok ch (Invite env player name ch)"
    using ok
    by (auto simp: List_command_def SendWhoOwner_def SendMemberCount_def Invite_def Let_def list_effects_def [of "[_]"]
        intro!: quiet_if_member op_ok_quiet split: option.splits)
qed

section \<open>The invariant of the system\<close>

type_synonym channel_store = "u32 \<Rightarrow> chat_channels_entry option"

text \<open>A built-in channel has an entry in the store, and a zone wherever its name is made of one.\<close>

definition has_name :: "channel_store \<Rightarrow> u32 \<Rightarrow> area_table_entry option \<Rightarrow> bool" where
  "has_name store channelId zone \<longleftrightarrow>
     (\<exists>entry. store channelId = Some entry \<and>
       (cc_Flags entry AND CHANNEL_DBC_FLAG_GLOBAL = 0 \<and> cc_Flags entry AND CHANNEL_DBC_FLAG_CITY_ONLY = 0 \<longrightarrow> zone \<noteq> None))"

definition heap_chan_ok :: "channel_store \<Rightarrow> channel \<Rightarrow> bool" where
  "heap_chan_ok store ch \<longleftrightarrow> chan_ok ch \<and> (\<forall>g \<in> members ch. player_guid g) \<and>
     (ch_channelId ch \<noteq> 0 \<longrightarrow> has_name store (ch_channelId ch) (ch_zoneEntry ch))"

definition mgr_ok :: "channel_store \<Rightarrow> (chan_ptr \<Rightarrow> channel option) \<Rightarrow> faction_mgr \<Rightarrow> chan_mgr \<Rightarrow> bool" where
  "mgr_ok store heap m mgr \<longleftrightarrow>
     (\<forall>key p. map_of (cm_channels mgr) key = Some p \<longrightarrow>
       (\<exists>ch entry. heap p = Some ch \<and> ch_channelId ch \<noteq> 0 \<and> store (ch_channelId ch) = Some entry \<and>
          key = (ch_channelId ch, zone_id entry (ch_zoneEntry ch)) \<and> ch_channelTeam ch = mgr_team m)) \<and>
     (\<forall>(name, p) \<in> set (cm_customChannels mgr). \<exists>ch. heap p = Some ch \<and> ch_channelId ch = 0)"

definition lists_ok :: "(chan_ptr \<Rightarrow> channel option) \<Rightarrow> (guid \<Rightarrow> chan_ptr list) \<Rightarrow> bool" where
  "lists_ok heap js \<longleftrightarrow>
     (\<forall>g. distinct (js g) \<and> (\<forall>p. p \<in> set (js g) \<longleftrightarrow> (\<exists>ch. heap p = Some ch \<and> g \<in> members ch)))"

definition sys_ok :: "channel_store \<Rightarrow> chan_sys \<Rightarrow> bool" where
  "sys_ok store w \<longleftrightarrow>
     (\<forall>p ch. cs_heap w p = Some ch \<longrightarrow> p < cs_next w \<and> heap_chan_ok store ch) \<and>
     (\<forall>m. mgr_ok store (cs_heap w) m (cs_mgr w m)) \<and> lists_ok (cs_heap w) (cs_joined w)"

lemma sys_ok_log [simp]: "sys_ok store (w\<lparr>cs_log := l\<rparr>) = sys_ok store w" "sys_ok store (send_log e w) = sys_ok store w"
  by (simp_all add: sys_ok_def send_log_def)

lemma heap_chan_ok_static:
  "heap_chan_ok store ch \<Longrightarrow> chan_ok ch' \<Longrightarrow> chan_static ch' = chan_static ch \<Longrightarrow> \<forall>g \<in> members ch'. player_guid g
   \<Longrightarrow> heap_chan_ok store ch'"
  by (simp add: heap_chan_ok_def chan_static_def)

lemma mgr_ok_update:
  assumes "mgr_ok store heap m mgr" "heap p = Some ch" "chan_static ch' = chan_static ch"
  shows "mgr_ok store (heap(p \<mapsto> ch')) m mgr"
  unfolding mgr_ok_def
proof (intro conjI allI impI)
  fix key q
  assume "map_of (cm_channels mgr) key = Some q"
  then obtain c entry where "heap q = Some c" "ch_channelId c \<noteq> 0" "store (ch_channelId c) = Some entry"
    "key = (ch_channelId c, zone_id entry (ch_zoneEntry c))" "ch_channelTeam c = mgr_team m"
    using assms(1) unfolding mgr_ok_def by metis
  then show "\<exists>ch'' entry. (heap(p \<mapsto> ch')) q = Some ch'' \<and> ch_channelId ch'' \<noteq> 0 \<and> store (ch_channelId ch'') = Some entry \<and>
      key = (ch_channelId ch'', zone_id entry (ch_zoneEntry ch'')) \<and> ch_channelTeam ch'' = mgr_team m"
    using assms(2,3) by (cases "q = p") (auto simp: chan_static_def)
next
  show "\<forall>(name, q) \<in> set (cm_customChannels mgr). \<exists>ch''. (heap(p \<mapsto> ch')) q = Some ch'' \<and> ch_channelId ch'' = 0"
    using assms by (fastforce simp: mgr_ok_def chan_static_def)
qed

text \<open>
  A channel that changes together with the lists: \<open>ch'\<close> has the members whose lists have \<open>p\<close>
  now, and nothing else moves.
\<close>

lemma sys_ok_change:
  assumes ok: "sys_ok store w" and p: "cs_heap w p = Some ch" and ch': "heap_chan_ok store ch'" "chan_static ch' = chan_static ch"
    and heap: "cs_heap w' = (cs_heap w)(p \<mapsto> ch')" and rest: "cs_next w' = cs_next w" "cs_mgr w' = cs_mgr w"
    and d: "\<And>g. distinct (cs_joined w' g)"
    and j: "\<And>g q. q \<in> set (cs_joined w' g) \<longleftrightarrow> (if q = p then g \<in> members ch' else q \<in> set (cs_joined w g))"
  shows "sys_ok store w'"
proof -
  have "mgr_ok store (cs_heap w') m (cs_mgr w' m)" for m
    unfolding heap rest using ok by (intro mgr_ok_update [where ch = ch] p ch'(2)) (simp add: sys_ok_def)
  moreover have "lists_ok (cs_heap w') (cs_joined w')"
    using ok d by (auto simp: sys_ok_def lists_ok_def heap j)
  moreover have "\<forall>q c. cs_heap w' q = Some c \<longrightarrow> q < cs_next w' \<and> heap_chan_ok store c"
    using ok p ch'(1) by (auto simp: sys_ok_def heap rest)
  ultimately show ?thesis by (simp add: sys_ok_def)
qed

lemma sys_okD:
  assumes "sys_ok store w" "cs_heap w p = Some ch"
  shows "p < cs_next w" "heap_chan_ok store ch" "chan_ok ch"
  using assms by (auto simp: sys_ok_def heap_chan_ok_def)

lemma sys_ok_lists:
  assumes "sys_ok store w"
  shows "distinct (cs_joined w g)" "p \<in> set (cs_joined w g) \<longleftrightarrow> (\<exists>ch. cs_heap w p = Some ch \<and> g \<in> members ch)"
  using assms by (auto simp: sys_ok_def lists_ok_def)

lemma put_channel_ok:
  assumes ok: "sys_ok store w" and p: "cs_heap w p = Some ch" and r: "op_ok ch r"
  shows "sys_ok store (put_channel p r w)"
proof -
  note ch = sys_okD [OF ok p] and l = sys_ok_lists [OF ok]
  have "\<forall>g \<in> members (fst r). player_guid g"
    using r ch(2) by (auto simp: op_ok_def heap_chan_ok_def)
  with r ch(2) have ok': "heap_chan_ok store (fst r)" by (auto simp: op_ok_def intro: heap_chan_ok_static)
  have m: "p \<in> set (cs_joined w g) \<longleftrightarrow> g \<in> members ch" for g using l(2) p by simp
  have "distinct (cs_joined (put_channel p r w) g) \<and>
      (q \<in> set (cs_joined (put_channel p r w) g) \<longleftrightarrow> (if q = p then g \<in> members (fst r) else q \<in> set (cs_joined w g)))" for g q
  proof -
    have j: "cs_joined (put_channel p r w) = to_lists p (list_effects (snd r)) (cs_joined w)"
      by (simp add: put_channel_def to_lists_effects [of p "snd r"])
    from r show ?thesis
      unfolding op_ok_def j
      by (elim conjE disjE exE bexE) (auto simp: JoinedChannel_def LeftChannel_def l(1) m distinct_removeAll)
  qed
  then show ?thesis
    using r by (intro sys_ok_change [OF ok p ok']) (auto simp: op_ok_def put_channel_def)
qed

end
