(* ===== verification/Channel_Sys_Steps.thy ===== *)
theory Channel_Sys_Steps
  imports Channel_Sys_Invariant
begin

text \<open>
  What each step of the handlers does to the whole: none goes through a dangling pointer or
  fails an assertion, and the invariant holds afterwards.
\<close>

section \<open>Calls\<close>

text \<open>What every step keeps: the channels that are there, with the fields that never change.\<close>

definition keeps :: "chan_sys \<Rightarrow> chan_sys \<Rightarrow> bool" where
  "keeps w w' \<longleftrightarrow> (\<forall>p ch. cs_heap w p = Some ch \<longrightarrow> (\<exists>ch'. cs_heap w' p = Some ch' \<and> chan_static ch' = chan_static ch))"

lemma keeps_refl [simp]: "keeps w w"
  by (simp add: keeps_def)

lemma keeps_put: "cs_heap w p = Some ch \<Longrightarrow> chan_static (fst r) = chan_static ch \<Longrightarrow> keeps w (put_channel p r w)"
  by (simp add: keeps_def put_channel_def)

lemma call_ok:
  assumes "sys_ok store w" "cs_heap w p = Some ch" "op_ok ch (f ch)"
  shows "call p f w = Inr (put_channel p (f ch) w)" "sys_ok store (put_channel p (f ch) w)" "keeps w (put_channel p (f ch) w)"
  using assms put_channel_ok [OF assms] keeps_put
  by (auto simp: call_def deref_def and_then_def op_ok_def)

text \<open>
  Leaving a channel with the list of the player changed by other means: the channel goes off
  the list, whatever the call sends.
\<close>

lemma LeaveChannel_same_state: "fst (LeaveChannel env player send suspend ch) = fst (LeaveChannel env player True suspend' ch)"
  by (simp add: LeaveChannel_def Let_def split_def split: option.splits)

lemma leave_ok:
  assumes ok: "sys_ok store w" and p: "cs_heap w p = Some ch"
    and w': "cs_heap w' = (cs_heap w)(p \<mapsto> fst (LeaveChannel env player send suspend ch))" "cs_next w' = cs_next w"
      "cs_mgr w' = cs_mgr w" "cs_joined w' = (cs_joined w)(cl_guid player := removeAll p (cs_joined w (cl_guid player)))"
  shows "sys_ok store w'"
proof -
  note ch = sys_okD [OF ok p]
  have f: "fst (LeaveChannel env player send suspend ch) = fst (LeaveChannel env player True suspend ch)"
    by (rule LeaveChannel_same_state)
  note o = op_ok_LeaveChannel [OF ch(3), of env player suspend]
  have h: "heap_chan_ok store (fst (LeaveChannel env player send suspend ch))"
    using o ch(2) by (intro heap_chan_ok_static [OF ch(2)]) (auto simp: f op_ok_def LeaveChannel_members heap_chan_ok_def)
  show ?thesis
  proof (rule sys_ok_change [OF ok p h _ w'(1-3)])
    show "chan_static (fst (LeaveChannel env player send suspend ch)) = chan_static ch" by (simp add: chan_static_moves)
    show "distinct (cs_joined w' g)" for g using sys_ok_lists(1) [OF ok] by (simp add: w'(4) distinct_removeAll)
    show "q \<in> set (cs_joined w' g) \<longleftrightarrow>
        (if q = p then g \<in> members (fst (LeaveChannel env player send suspend ch)) else q \<in> set (cs_joined w g))" for g q
      using sys_ok_lists(2) [OF ok, of p g] p by (auto simp: w'(4) LeaveChannel_members)
  qed
qed

section \<open>The managers\<close>

lemma no_members: "members ch = {} \<longleftrightarrow> ch_playersStore ch = []"
  by (simp add: members_keys)

lemma GetNumPlayers_0:
  assumes "heap_chan_ok store ch"
  shows "GetNumPlayers ch = 0 \<longleftrightarrow> members ch = {}"
proof -
  let ?keys = "map fst (ch_playersStore ch)"
  have d: "distinct ?keys" using assms by (simp add: heap_chan_ok_def chan_ok_def sm_ok_def)
  have "unat ` set ?keys \<subseteq> {1..<2 ^ 32}"
    using assms by (auto simp: heap_chan_ok_def members_keys player_guid_def)
  then have "card (unat ` set ?keys) \<le> card {1..<(2::nat) ^ 32}" by (intro card_mono) auto
  moreover have "card (unat ` set ?keys) = length ?keys"
    using distinct_card [OF d] by (subst card_image) (simp_all add: inj_on_def word_eq_iff_unsigned [where 'a = nat])
  ultimately have "length (ch_playersStore ch) < 2 ^ 32" by simp
  then have "GetNumPlayers ch = 0 \<longleftrightarrow> length (ch_playersStore ch) = 0"
    using dvd_imp_le [of "2 ^ 32" "length (ch_playersStore ch)"]
    by (auto simp: GetNumPlayers_def word_of_nat_eq_0_iff)
  then show ?thesis by (simp add: no_members)
qed

lemma fresh: "sys_ok store w \<Longrightarrow> cs_heap w (cs_next w) = None"
  using sys_okD(1) by (cases "cs_heap w (cs_next w)") fastforce+

text \<open>A new channel nobody is in.\<close>

lemma new_channel_ok:
  assumes ok: "sys_ok store w" and n: "new_channel ch w = (p, w')" and ch: "heap_chan_ok store ch" "members ch = {}"
  shows "sys_ok store w'" "cs_heap w' p = Some ch" "keeps w w'" "cs_mgr w' = cs_mgr w" "cs_joined w' = cs_joined w"
    "cs_heap w p = None"
proof -
  have w': "p = cs_next w" "w' = w\<lparr>cs_heap := (cs_heap w)(p \<mapsto> ch), cs_next := Suc (cs_next w)\<rparr>"
    using n by (auto simp: new_channel_def)
  note f = fresh [OF ok]
  have m: "mgr_ok store (cs_heap w') m (cs_mgr w m)" for m
  proof -
    have "mgr_ok store (cs_heap w) m (cs_mgr w m)" using ok by (simp add: sys_ok_def)
    moreover have "cs_heap w q = Some c \<Longrightarrow> cs_heap w' q = Some c" for q c using f by (auto simp: w')
    ultimately show ?thesis unfolding mgr_ok_def by (smt (verit) case_prodD case_prodI2)
  qed
  have "lists_ok (cs_heap w') (cs_joined w')"
    using ok f ch(2) by (auto simp: sys_ok_def lists_ok_def w')
  moreover have "\<forall>q c. cs_heap w' q = Some c \<longrightarrow> q < cs_next w' \<and> heap_chan_ok store c"
    using ok ch(1) by (auto simp: sys_ok_def w' less_SucI)
  ultimately show "sys_ok store w'" using m by (simp add: sys_ok_def w')
  show "cs_heap w' p = Some ch" "keeps w w'" "cs_mgr w' = cs_mgr w" "cs_joined w' = cs_joined w" "cs_heap w p = None"
    using f by (auto simp: w' keeps_def)
qed

lemma new_builtin_heap_ok:
  assumes "store = ChatChannelsStore env" "has_name store i zone"
  obtains ch where "new_builtin_channel env i team zone = Some ch" "heap_chan_ok store ch" "members ch = {}"
    "ch_channelId ch = i" "ch_zoneEntry ch = zone" "ch_channelTeam ch = team"
proof -
  obtain ch where ch: "new_builtin_channel env i team zone = Some ch"
    using assms by (auto simp: has_name_def new_builtin_channel_def)
  then have "chan_start ch" unfolding chan_start_def by blast
  moreover have "ch_playersStore ch = []" "ch_channelId ch = i" "ch_zoneEntry ch = zone" "ch_channelTeam ch = team"
    using ch by (auto simp: new_builtin_channel_def Let_def)
  ultimately show ?thesis
    using that [OF ch] assms(2) start_chan_ok by (simp add: heap_chan_ok_def no_members)
qed

text \<open>An entry of a manager's map for a channel of its own.\<close>

lemma mgr_entry:
  assumes ok: "sys_ok store w" and e: "map_of (cm_channels (cs_mgr w m)) key = Some p"
  obtains ch entry where "cs_heap w p = Some ch" "ch_channelId ch \<noteq> 0" "store (ch_channelId ch) = Some entry"
    "key = (ch_channelId ch, zone_id entry (ch_zoneEntry ch))" "ch_channelTeam ch = mgr_team m"
proof -
  have "mgr_ok store (cs_heap w) m (cs_mgr w m)" using ok by (simp add: sys_ok_def)
  then have "\<forall>key p. map_of (cm_channels (cs_mgr w m)) key = Some p \<longrightarrow>
       (\<exists>ch entry. cs_heap w p = Some ch \<and> ch_channelId ch \<noteq> 0 \<and> store (ch_channelId ch) = Some entry \<and>
          key = (ch_channelId ch, zone_id entry (ch_zoneEntry ch)) \<and> ch_channelTeam ch = mgr_team m)"
    unfolding mgr_ok_def by (rule conjunct1)
  with e show ?thesis using that by blast
qed

lemma GetSystemChannel_ok:
  assumes ok: "sys_ok store w" and st: "store = ChatChannelsStore env" and i: "i \<noteq> 0" and n: "has_name store i zone"
  obtains p w' ch where "GetSystemChannel env m i zone w = Inr (p, w')" "sys_ok store w'" "cs_heap w' p = Some ch"
    "keeps w w'" "cs_joined w' = cs_joined w"
proof -
  obtain entry where entry: "ChatChannelsStore env i = Some entry" using n by (auto simp: has_name_def st)
  let ?key = "(i, zone_id entry zone)"
  show ?thesis
  proof (cases "map_of (cm_channels (cs_mgr w m)) ?key")
    case (Some p)
    obtain ch where "cs_heap w p = Some ch" using mgr_entry [OF ok Some] by blast
    moreover have "GetSystemChannel env m i zone w = Inr (p, w)" using Some entry by (simp add: GetSystemChannel_def)
    ultimately show ?thesis using that [of p w ch] ok by simp
  next
    case None
    obtain ch where ch: "new_builtin_channel env i (mgr_team m) zone = Some ch" "heap_chan_ok store ch" "members ch = {}"
      "ch_channelId ch = i" "ch_zoneEntry ch = zone" "ch_channelTeam ch = mgr_team m"
      by (rule new_builtin_heap_ok [OF st n, of "mgr_team m"])
    obtain p w1 where nc: "new_channel ch w = (p, w1)" by fastforce
    note w1 = new_channel_ok [OF ok nc ch(2,3)]
    define w2 where "w2 = w1\<lparr>cs_mgr := (cs_mgr w1)(m := (cs_mgr w1 m)\<lparr>cm_channels := (?key, p) # cm_channels (cs_mgr w1 m)\<rparr>)\<rparr>"
    have "mgr_ok store (cs_heap w2) m' (cs_mgr w2 m')" for m'
    proof -
      have old: "mgr_ok store (cs_heap w1) m' (cs_mgr w1 m')" using w1(1) by (simp add: sys_ok_def)
      show ?thesis
      proof (cases "m' = m")
        case True
        have "map_of (cm_channels (cs_mgr w2 m)) key = (if key = ?key then Some p else map_of (cm_channels (cs_mgr w1 m)) key)" for key
          by (simp add: w2_def)
        moreover have "cs_heap w2 = cs_heap w1" "cm_customChannels (cs_mgr w2 m) = cm_customChannels (cs_mgr w1 m)"
          by (simp_all add: w2_def)
        moreover have "\<exists>c en. cs_heap w1 p = Some c \<and> ch_channelId c \<noteq> 0 \<and> store (ch_channelId c) = Some en \<and>
            ?key = (ch_channelId c, zone_id en (ch_zoneEntry c)) \<and> ch_channelTeam c = mgr_team m"
          using w1(2) ch(4-6) entry st i by simp
        ultimately show ?thesis using old True unfolding mgr_ok_def by simp
      qed (use old in \<open>simp add: w2_def\<close>)
    qed
    then have "sys_ok store w2" using w1(1) by (simp add: sys_ok_def w2_def)
    moreover have "GetSystemChannel env m i zone w = Inr (p, w2)"
      using None entry ch(1) nc by (simp add: GetSystemChannel_def Let_def w2_def)
    ultimately show ?thesis using w1 by (intro that [of p w2 ch]) (simp_all add: w2_def keeps_def)
  qed
qed

lemma CreateCustomChannel_ok:
  assumes ok: "sys_ok store w" and c: "CreateCustomChannel m name w = (r, w')"
  shows "sys_ok store w'" "r = Some p \<Longrightarrow> \<exists>ch. cs_heap w' p = Some ch" "keeps w w'"
proof -
  let ?ch = "new_custom_channel name (mgr_team m) []\<lparr>ch_isDirty := True\<rparr>"
  have s: "chan_start (new_custom_channel name (mgr_team m) [])" unfolding chan_start_def by blast
  have "chan_ok ?ch" by (rule chan_ok_settings(3) [OF start_chan_ok [OF s]])
  moreover have e: "members ?ch = {}" by (simp add: no_members new_custom_channel_def)
  moreover have "ch_channelId ?ch = 0" by (simp add: new_custom_channel_def)
  ultimately have h: "heap_chan_ok store ?ch" unfolding heap_chan_ok_def by simp
  have "sys_ok store w' \<and> (\<forall>p. r = Some p \<longrightarrow> (\<exists>ch. cs_heap w' p = Some ch)) \<and> keeps w w'"
  proof (cases "r")
    case None
    with c have "w' = w" by (auto simp: CreateCustomChannel_def Let_def split: prod.splits bool.splits option.splits)
    with ok None show ?thesis by simp
  next
    case (Some p)
    then obtain cname w1 where n: "new_channel ?ch w = (p, w1)" "w' = put_custom m cname p w1"
      using c by (auto simp: CreateCustomChannel_def Let_def split: prod.splits bool.splits option.splits)
    note w1 = new_channel_ok [OF ok n(1) h e]
    have "mgr_ok store (cs_heap w') m' (cs_mgr w' m')" for m'
    proof -
      have "mgr_ok store (cs_heap w1) m' (cs_mgr w1 m')" using w1(1) by (simp add: sys_ok_def)
      then show ?thesis
        using w1(2) by (auto simp: n(2) put_custom_def mgr_ok_def new_custom_channel_def)
    qed
    then have "sys_ok store w'" using w1(1) by (simp add: sys_ok_def n(2) put_custom_def)
    then show ?thesis using w1(2,3) Some by (simp add: n(2) put_custom_def keeps_def)
  qed
  then show "sys_ok store w'" "r = Some p \<Longrightarrow> \<exists>ch. cs_heap w' p = Some ch" "keeps w w'" by auto
qed

lemma GetCustomChannel_ok:
  assumes "sys_ok store w" "GetCustomChannel m name w = Some p"
  shows "\<exists>ch. cs_heap w p = Some ch"
  using assms
  by (auto simp: GetCustomChannel_def sys_ok_def mgr_ok_def split: prod.splits bool.splits dest!: map_of_SomeD) blast

text \<open>Deleting a built-in channel that nobody is in any more.\<close>

lemma mgr_LeftChannel_ok:
  assumes ok: "sys_ok store w" and st: "store = ChatChannelsStore env" and i: "store i \<noteq> None"
  obtains w' where "mgr_LeftChannel env m i zone w = Inr w'" "sys_ok store w'"
proof -
  obtain entry where entry: "ChatChannelsStore env i = Some entry" using i st by auto
  let ?key = "(i, zone_id entry zone)"
  show ?thesis
  proof (cases "map_of (cm_channels (cs_mgr w m)) ?key")
    case None
    with entry ok show ?thesis by (intro that [of w]) (simp_all add: mgr_LeftChannel_def)
  next
    case (Some p)
    obtain ch entry' where ch: "cs_heap w p = Some ch" "ch_channelId ch \<noteq> 0" "store (ch_channelId ch) = Some entry'"
      "?key = (ch_channelId ch, zone_id entry' (ch_zoneEntry ch))" "ch_channelTeam ch = mgr_team m"
      by (rule mgr_entry [OF ok Some])
    define w1 where "w1 = w\<lparr>cs_mgr := (cs_mgr w)(m := (cs_mgr w m)\<lparr>cm_channels := sm_erase ?key (cm_channels (cs_mgr w m))\<rparr>),
        cs_heap := (cs_heap w)(p := None)\<rparr>"
    have e: "mgr_LeftChannel env m i zone w = (if GetNumPlayers ch = 0 then Inr w1 else Inr w)"
      using Some entry ch(1) by (simp add: mgr_LeftChannel_def and_then_def deref_def w1_def)
    show ?thesis
    proof (cases "GetNumPlayers ch = 0")
      case True
      then have none: "members ch = {}" using GetNumPlayers_0 sys_okD(2) [OF ok ch(1)] by blast
      have "mgr_ok store (cs_heap w1) m' (cs_mgr w1 m')" for m'
      proof -
        have old: "mgr_ok store (cs_heap w) m' (cs_mgr w m')" using ok by (simp add: sys_ok_def)
        have teams: "mgr_team a = mgr_team b \<Longrightarrow> a = b" for a b
          by (cases a; cases b) (simp_all add: mgr_team_def ALLIANCE_def HORDE_def)
        have "q \<noteq> p" if "map_of (cm_channels (cs_mgr w1 m')) key = Some q" for key q
        proof
          assume "q = p"
          with that have k: "map_of (cm_channels (cs_mgr w m')) key = Some p" "m' = m \<Longrightarrow> key \<noteq> ?key"
            by (auto simp: w1_def split: if_splits)
          obtain c en where "cs_heap w p = Some c" "store (ch_channelId c) = Some en"
            "key = (ch_channelId c, zone_id en (ch_zoneEntry c))" "ch_channelTeam c = mgr_team m'"
            by (rule mgr_entry [OF ok k(1)])
          with ch k(2) teams show False by auto
        qed
        moreover have "map_of (cm_channels (cs_mgr w m')) key = Some q" if "map_of (cm_channels (cs_mgr w1 m')) key = Some q" for key q
          using that by (auto simp: w1_def split: if_splits)
        moreover have "cm_customChannels (cs_mgr w1 m') = cm_customChannels (cs_mgr w m')" by (simp add: w1_def)
        moreover have "cs_heap w1 q = cs_heap w q" if "q \<noteq> p" for q using that by (simp add: w1_def)
        moreover have "q \<noteq> p" if "(name, q) \<in> set (cm_customChannels (cs_mgr w m'))" for name q
          using old that ch(1,2) by (auto simp: mgr_ok_def)
        ultimately show ?thesis
          using old unfolding mgr_ok_def by (smt (verit) case_prodD case_prodI2)
      qed
      moreover have "lists_ok (cs_heap w1) (cs_joined w1)"
        using ok ch(1) none by (auto simp: sys_ok_def lists_ok_def w1_def)
      moreover have "\<forall>q c. cs_heap w1 q = Some c \<longrightarrow> q < cs_next w1 \<and> heap_chan_ok store c"
        using ok by (auto simp: sys_ok_def w1_def)
      ultimately have "sys_ok store w1" by (simp add: sys_ok_def)
      with e True show ?thesis by (intro that) simp_all
    qed (use e ok in \<open>auto intro: that\<close>)
  qed
qed

end
