(* ===== verification/Channel_Theorems.thy ===== *)
theory Channel_Theorems
  imports Channel_Membership
begin

text \<open>
  The properties of the reachable states of a channel and of its operations.
\<close>

section \<open>Owners\<close>

lemma find_info_member: "chan_ok ch \<Longrightarrow> (g, i) \<in> set (ch_playersStore ch) \<longleftrightarrow> find_info g ch = Some i"
  by (simp add: chan_ok_def sm_ok_def find_info_def)

lemma chan_ok_owner: "chan_ok ch \<Longrightarrow> find_info g ch = Some i \<Longrightarrow> pi_IsOwner i \<Longrightarrow> g = ch_ownerGuid ch"
  unfolding chan_ok_def by blast

lemma find_pick_owner:
  assumes "store \<noteq> []" "pick_owner store = (w, i)"
  shows "(w, i) \<in> set store" "pi_invisible i \<longleftrightarrow> list_all (\<lambda>(_, j). pi_invisible j) store"
proof -
  have "(w, i) \<in> set store \<and> (pi_invisible i \<longleftrightarrow> list_all (\<lambda>(_, j). pi_invisible j) store)"
  proof (cases "find (\<lambda>(_, i). \<not> pi_invisible i) store")
    case None
    with assms have "hd store = (w, i)" "\<forall>p \<in> set store. pi_invisible (snd p)"
      by (auto simp: pick_owner_def find_None_iff)
    with hd_in_set [OF assms(1)] show ?thesis by (auto simp: list_all_iff)
  next
    case (Some p)
    with assms have "find (\<lambda>(_, i). \<not> pi_invisible i) store = Some (w, i)" by (simp add: pick_owner_def)
    then have "(w, i) \<in> set store" "\<not> pi_invisible i" by (auto simp: find_Some_iff in_set_conv_nth)
    then show ?thesis by (auto simp: list_all_iff)
  qed
  then show "(w, i) \<in> set store" "pi_invisible i \<longleftrightarrow> list_all (\<lambda>(_, j). pi_invisible j) store" by blast+
qed

text \<open>Who the moderator commands serve.\<close>

definition may_moderate :: "client \<Rightarrow> channel \<Rightarrow> bool" where
  "may_moderate player ch \<longleftrightarrow>
     (case find_info (cl_guid player) ch of None \<Rightarrow> False
      | Some info \<Rightarrow> pi_IsModerator info \<or> cl_HasPermission player RBAC_PERM_CHANGE_CHANNEL_NOT_MODERATOR)"

lemma SetOwner_empty: "ch_playersStore (fst (SetOwner env g e ch)) = [] \<longleftrightarrow> ch_playersStore ch = []"
  by (simp add: SetOwner_def Let_def update_info_def split: option.splits)

text \<open>A channel of an owner who is gone, while nobody in it has the owner flag.\<close>

definition ghost :: "guid \<Rightarrow> channel \<Rightarrow> bool" where
  "ghost g ch \<longleftrightarrow> ch_ownerGuid ch = g \<and> \<not> ch_isOwnerInvisible ch \<and> list_all (\<lambda>(_, i). \<not> pi_IsOwner i) (ch_playersStore ch)"

lemma ghost_join: "g \<noteq> 0 \<Longrightarrow> ghost g ch \<Longrightarrow> ghost g (fst (JoinChannel env player pass ch))"
proof -
  assume g: "g \<noteq> 0" "ghost g ch"
  define i where "i = pi_SetInvisible (\<not> cl_isGMVisible player) new_PlayerInfo"
  have "\<not> pi_IsOwner i" by (simp add: i_def)
  then have "list_all (\<lambda>(_, i). \<not> pi_IsOwner i) m \<Longrightarrow> list_all (\<lambda>(_, i). \<not> pi_IsOwner i) (sm_put k i m)" for k :: guid and m
    by (induction k i m rule: sm_put.induct) auto
  then show ?thesis
    using g by (auto simp: JoinChannel_def Let_def ghost_def IsOn_def find_info_def i_def split_def split: option.splits)
qed

lemma ghost_joins:
  "g \<noteq> 0 \<Longrightarrow> ghost g ch \<Longrightarrow> ghost g (foldl (\<lambda>c (e, p, pass). fst (JoinChannel e p pass c)) ch joins)"
  by (induction joins arbitrary: ch) (auto simp: ghost_join)

section \<open>Example\<close>

definition demo_client :: "guid \<Rightarrow> client" where
  "demo_client g = \<lparr>cl_guid = g, cl_name = [ucast g], cl_isGMVisible = True, cl_team = 67, cl_security = 0,
     cl_hasGroup = False, cl_guildId = 0, cl_locale = 0, cl_HasPermission = (\<lambda>_. False), cl_HasIgnore = (\<lambda>_. False)\<rparr>"

definition demo_env :: chan_env where
  "demo_env = \<lparr>FindConnectedPlayer = (\<lambda>g. Some (demo_client g)),
     FindConnectedPlayerByName = (\<lambda>n. case n of [c] \<Rightarrow> Some (demo_client (ucast c)) | _ \<Rightarrow> None),
     CachedName = (\<lambda>g. Some [ucast g]), ChatChannelsStore = (\<lambda>_. None), IsVisibleGloballyFor = (\<lambda>_ _. True),
     CityName = (\<lambda>_. []), PGetParseString = (\<lambda>f a. f @ a), GetAvailableDbcLocale = (\<lambda>l. l),
     CONFIG_RESTRICTED_LFG_CHANNEL = False, CONFIG_ALLOW_TWO_SIDE_INTERACTION_CHANNEL = False,
     CONFIG_GM_LEVEL_IN_WHO_LIST = 3, CONFIG_PRESERVE_CUSTOM_CHANNEL_INTERVAL = 14, GameTime = 0,
     urand_minutes = 60, ZoneOf = (\<lambda>_. None), DisallowHyperlinksAndMaybeKick = (\<lambda>_. True),
     CONFIG_PRESERVE_CUSTOM_CHANNELS = True, CONFIG_PRESERVE_CUSTOM_CHANNEL_DURATION = 14, NumChatChannels = 0\<rparr>"

definition demo_joined1 :: channel where
  "demo_joined1 = fst (JoinChannel demo_env (demo_client 1) [] (new_custom_channel [0x61] 67 []))"

definition demo_joined2 :: channel where
  "demo_joined2 = fst (JoinChannel demo_env (demo_client 2) [] demo_joined1)"

lemma reachable_join:
  "cl_guid player \<noteq> 0 \<Longrightarrow> channel_reachable ch \<Longrightarrow> channel_reachable (fst (JoinChannel env player pass ch))"
  by (blast intro: reach_step join)

lemma demo_reachable: "channel_reachable demo_joined1" "channel_reachable demo_joined2"
proof -
  have "channel_reachable (new_custom_channel [0x61] 67 [])"
    by (rule reach_start) (unfold chan_start_def, blast)
  then show j: "channel_reachable demo_joined1"
    unfolding demo_joined1_def by (intro reachable_join) (simp_all add: demo_client_def)
  then show "channel_reachable demo_joined2"
    unfolding demo_joined2_def by (intro reachable_join) (simp_all add: demo_client_def)
qed

lemma demo_channel_facts:
  "find_info 1 demo_joined1 = Some \<lparr>pi_flags = 3, pi_invisible = False\<rparr>"
  "find_info 1 demo_joined2 = Some \<lparr>pi_flags = 3, pi_invisible = False\<rparr>"
  "find_info 2 demo_joined2 = Some \<lparr>pi_flags = 0, pi_invisible = False\<rparr>"
  "\<not> IsConstant demo_joined1 \<and> ch_ownershipEnabled demo_joined1 \<and> \<not> ch_isOwnerInvisible demo_joined1"
  "\<not> IsConstant demo_joined2 \<and> ch_ownershipEnabled demo_joined2 \<and> ch_ownerGuid demo_joined2 = 1"
  by code_simp+

section \<open>Properties\<close>

text \<open>
  C36: the roles in a reachable channel. Its store is a map sorted by guid, only the channel's
  owner has the owner flag, so at most one member has it, and nobody in it is banned from it.
\<close>

theorem channel_roles:
  assumes "channel_reachable ch"
  shows "sm_ok (ch_playersStore ch) \<and> distinct (ch_bannedStore ch) \<and>
    list_all (\<lambda>(g, i). g \<noteq> 0 \<and> (pi_IsOwner i \<longrightarrow> g = ch_ownerGuid ch) \<and> \<not> IsBanned g ch) (ch_playersStore ch)"
proof -
  have ok: "chan_ok ch" using channel.reach_inv [OF assms] .
  have "g \<noteq> 0 \<and> (pi_IsOwner i \<longrightarrow> g = ch_ownerGuid ch) \<and> \<not> IsBanned g ch"
    if "(g, i) \<in> set (ch_playersStore ch)" for g i
  proof -
    have f: "find_info g ch = Some i" using that find_info_member [OF ok] by simp
    then have "g \<in> members ch" by (auto simp: members_def)
    with chan_ok_owner [OF ok f] ok show ?thesis by (auto simp: chan_ok_def IsBanned_def)
  qed
  with ok show ?thesis by (auto simp: chan_ok_def list_all_iff)
qed

theorem channel_roles_witness:
  "channel_reachable demo_joined2 \<and> sm_ok (ch_playersStore demo_joined2)"
  using channel_roles [OF demo_reachable(2)] demo_reachable(2) by blast

text \<open>
  C26: who owns a channel after its owner leaves. As long as somebody is left, the new owner is
  the first member, in guid order, that is not invisible, or the first of all if every one is;
  it gets the owner and moderator flags, and it alone has the owner flag.
\<close>

theorem owner_succession:
  assumes "channel_reachable ch" and "find_info (cl_guid player) ch = Some info" and "pi_IsOwner info"
    and "\<not> IsConstant ch" and "ch_ownershipEnabled ch"
    and "left = fst (LeaveChannel env player send suspend ch)" and "ch_playersStore left \<noteq> []"
  shows "members left = members ch - {cl_guid player} \<and>
    ch_ownerGuid left = fst (pick_owner (sm_erase (cl_guid player) (ch_playersStore ch))) \<and>
    (\<exists>i. find_info (ch_ownerGuid left) left = Some i \<and> pi_IsOwner i \<and> pi_IsModerator i \<and>
       (pi_invisible i \<longleftrightarrow> list_all (\<lambda>(_, j). pi_invisible j) (sm_erase (cl_guid player) (ch_playersStore ch)))) \<and>
    list_all (\<lambda>(g, i). pi_IsOwner i \<longleftrightarrow> g = ch_ownerGuid left) (ch_playersStore left)"
proof -
  have ok: "chan_ok ch" using channel.reach_inv [OF assms(1)] .
  define store where "store = sm_erase (cl_guid player) (ch_playersStore ch)"
  define c1 where "c1 = ch\<lparr>ch_playersStore := store\<rparr>"
  have ok1: "chan_ok c1" unfolding c1_def store_def by (rule chan_ok_erase [OF ok])
  obtain w i where p: "pick_owner store = (w, i)" by fastforce
  define c2 where "c2 = update_info w (pi_SetModerator True) c1"
  have ok2: "chan_ok c2" unfolding c2_def by (rule chan_ok_update [OF ok1]) simp
  define c3 where "c3 = fst (SetOwner env w True c2)"
  note so = SetOwner_state [OF ok2 c3_def [symmetric]]
  have left: "left = (if store = [] then c1 else if pi_invisible i then c3\<lparr>ch_isOwnerInvisible := True\<rparr> else c3)"
    using assms(2-5) p
    by (simp add: assms(6) LeaveChannel_def Let_def c1_def c2_def c3_def store_def IsConstant_def split_def)
  then have ne: "store \<noteq> []" using assms(7) by (auto simp: c1_def)
  note pick = find_pick_owner [OF ne p]
  have same: "find_info k left = find_info k c3" "ch_ownerGuid left = w" "ch_playersStore left = ch_playersStore c3" for k
    using so(2) ne by (simp_all add: left find_info_def)
  have m: "members left = members ch - {cl_guid player}"
    using so(3) by (simp add: members_fields [OF same(3)] c2_def c1_def store_def)
  have "find_info w c1 = Some i"
    using pick(1) find_info_member [OF ok1] by (simp add: c1_def)
  moreover have "w \<noteq> 0" using ok1 calculation by (auto simp: chan_ok_def members_def)
  ultimately have f: "find_info w left = Some (pi_SetOwner True (pi_SetModerator True
      (if ch_ownerGuid c2 = w then pi_SetOwner False (pi_SetModerator True i) else pi_SetModerator True i)))"
    by (simp add: same so(4) c2_def)
  have owners: "list_all (\<lambda>(g, i). pi_IsOwner i \<longleftrightarrow> g = w) (ch_playersStore left)"
  proof -
    have "pi_IsOwner j \<longleftrightarrow> g = w" if "(g, j) \<in> set (ch_playersStore left)" for g j
    proof -
      have j: "find_info g c3 = Some j"
        using that find_info_member [OF so(1)] by (simp add: same)
      moreover have "pi_IsOwner j" if "g = w"
        using f j that by (auto simp: same)
      ultimately show ?thesis using chan_ok_owner [OF so(1) j] so(2) by blast
    qed
    then show ?thesis by (auto simp: list_all_iff)
  qed
  show ?thesis
    using m p f pick(2) owners by (simp add: same(2) store_def [symmetric])
qed

theorem owner_succession_witness:
  "\<exists>left. left = fst (LeaveChannel demo_env (demo_client 1) True False demo_joined2) \<and> members left = members demo_joined2 - {1}"
proof -
  let ?left = "fst (LeaveChannel demo_env (demo_client 1) True False demo_joined2)"
  have g: "cl_guid (demo_client 1) = 1" by (simp add: demo_client_def)
  have ne: "ch_playersStore ?left \<noteq> []" by code_simp
  have o: "pi_IsOwner \<lparr>pi_flags = 3, pi_invisible = False\<rparr>" by code_simp
  show ?thesis
    using owner_succession [OF demo_reachable(2), of "demo_client 1", unfolded g, OF demo_channel_facts(2) o _ _ refl ne]
      demo_channel_facts(5) by blast
qed

text \<open>
  A channel whose owner leaves last stays his, unless he is an owner in hiding
  (\<open>_isOwnerInvisible\<close>, a game master), whom the next joiner replaces. Whoever joins later, in any order and with
  whatever the server answers, gets no ownership, and no member has the owner flag: the
  guid of the departed owner is never cleared.
\<close>

theorem departed_owner_remains:
  assumes "channel_reachable ch" and "find_info (cl_guid player) ch = Some info" and "pi_IsOwner info"
    and "\<not> ch_isOwnerInvisible ch"
    and "left = fst (LeaveChannel env player send suspend ch)" and "ch_playersStore left = []"
    and "ch' = foldl (\<lambda>c (e, p, pass). fst (JoinChannel e p pass c)) left joins"
  shows "ch_ownerGuid ch' = cl_guid player \<and> list_all (\<lambda>(_, i). \<not> pi_IsOwner i) (ch_playersStore ch')"
proof -
  have ok: "chan_ok ch" using channel.reach_inv [OF assms(1)] .
  have own: "ch_ownerGuid ch = cl_guid player" using chan_ok_owner [OF ok assms(2,3)] by simp
  have ne: "cl_guid player \<noteq> 0" using ok assms(2) by (auto simp: chan_ok_def members_def)
  have "left = ch\<lparr>ch_playersStore := sm_erase (cl_guid player) (ch_playersStore ch)\<rparr>"
    using assms(2,6) unfolding assms(5)
    by (auto simp: LeaveChannel_def Let_def split_def SetOwner_empty split: if_splits)
  then have "ghost (cl_guid player) left" using assms(4,6) own by (simp add: ghost_def)
  then have "ghost (cl_guid player) ch'" using ghost_joins [OF ne] assms(7) by simp
  then show ?thesis by (simp add: ghost_def)
qed

theorem departed_owner_remains_witness:
  "ch_ownerGuid (fst (JoinChannel demo_env (demo_client 2) [] (fst (LeaveChannel demo_env (demo_client 1) True False demo_joined1)))) = 1"
proof -
  let ?left = "fst (LeaveChannel demo_env (demo_client 1) True False demo_joined1)"
  have g: "cl_guid (demo_client 1) = 1" by (simp add: demo_client_def)
  have e: "ch_playersStore ?left = []" by code_simp
  have o: "pi_IsOwner \<lparr>pi_flags = 3, pi_invisible = False\<rparr>" by code_simp
  show ?thesis
    using departed_owner_remains [OF demo_reachable(1), of "demo_client 1", unfolded g, OF demo_channel_facts(1) o _ refl e,
        where joins = "[(demo_env, demo_client 2, [])]"] demo_channel_facts(4) by simp
qed

text \<open>
  C27: \<open>KickOrBan\<close> uses the freed info of the kicker exactly when the owner, being a moderator or
  permitted as one, kicks or bans himself from a channel with ownership while somebody else
  is in it.
\<close>

theorem kick_self_use_after_free:
  "KickOrBan env player badname ban ch = Inl UseAfterFree \<longleftrightarrow>
     may_moderate player ch \<and> guid_of (FindConnectedPlayerByName env badname) = cl_guid player \<and>
     cl_guid player \<noteq> 0 \<and> ch_ownerGuid ch = cl_guid player \<and> ch_ownershipEnabled ch \<and>
     sm_erase (cl_guid player) (ch_playersStore ch) \<noteq> []"
  by (auto simp: KickOrBan_def Let_def may_moderate_def IsOn_def guid_of_def split_def split: option.splits if_splits)

text \<open>
  C28: commands need rank. Who is not a member, or neither a moderator nor permitted as one,
  changes nothing by \<open>KickOrBan\<close>, \<open>UnBan\<close>, \<open>Password\<close>, \<open>SetMode\<close> and \<open>Announce\<close> and is told
  so; without that permission only the owner passes ownership on, and nobody else kicks, bans
  or changes the flags of the owner.
\<close>

theorem commands_need_rank:
  "(\<not> may_moderate player ch \<longrightarrow>
      (let refused = (ch, notify_one env (if IsOn (cl_guid player) ch then NotModeratorAppend else NotMemberAppend) (cl_guid player))
       in KickOrBan env player name ban ch = Inr refused \<and> UnBan env player name ch = refused \<and>
          Password env player pass ch = refused \<and> SetMode env player name moderator state ch = refused \<and>
          Announce env player ch = refused)) \<and>
   (\<not> cl_HasPermission player RBAC_PERM_CHANGE_CHANNEL_NOT_MODERATOR \<and> cl_guid player \<noteq> ch_ownerGuid ch \<longrightarrow>
      fst (SetOwner_command env player name ch) = ch \<and>
      (guid_of (FindConnectedPlayerByName env name) = ch_ownerGuid ch \<longrightarrow>
         map_sum id fst (KickOrBan env player name ban ch) = Inr ch \<and>
         fst (SetMode env player name moderator state ch) = ch))"
proof (intro conjI impI)
  assume n: "\<not> may_moderate player ch"
  have r: "if_moderator env player ch run =
      (ch, notify_one env (if IsOn (cl_guid player) ch then NotModeratorAppend else NotMemberAppend) (cl_guid player))" for run
    using n by (auto simp: if_moderator_def if_member_def may_moderate_def IsOn_def split: option.splits)
  have k: "KickOrBan env player name ban ch = Inr
      (ch, notify_one env (if IsOn (cl_guid player) ch then NotModeratorAppend else NotMemberAppend) (cl_guid player))"
    using n by (cases "find_info (cl_guid player) ch") (simp_all add: KickOrBan_def may_moderate_def IsOn_def Let_def)
  show "let refused = (ch, notify_one env (if IsOn (cl_guid player) ch then NotModeratorAppend else NotMemberAppend) (cl_guid player))
       in KickOrBan env player name ban ch = Inr refused \<and> UnBan env player name ch = refused \<and>
          Password env player pass ch = refused \<and> SetMode env player name moderator state ch = refused \<and>
          Announce env player ch = refused"
    by (simp add: UnBan_def Password_def SetMode_def Announce_def r k)
next
  assume n: "\<not> cl_HasPermission player RBAC_PERM_CHANGE_CHANNEL_NOT_MODERATOR \<and> cl_guid player \<noteq> ch_ownerGuid ch"
  then show "fst (SetOwner_command env player name ch) = ch"
    by (simp add: SetOwner_command_def if_member_def split: option.splits)
  assume "guid_of (FindConnectedPlayerByName env name) = ch_ownerGuid ch"
  with n show "map_sum id fst (KickOrBan env player name ban ch) = Inr ch"
    "fst (SetMode env player name moderator state ch) = ch"
    by (auto simp: KickOrBan_def SetMode_def if_moderator_def if_member_def Let_def split: option.splits)
qed

theorem commands_need_rank_witness:
  "UnBan demo_env (demo_client 2) [1] demo_joined2 = (demo_joined2, notify_one demo_env NotModeratorAppend 2) \<and>
   fst (SetOwner_command demo_env (demo_client 2) [2] demo_joined2) = demo_joined2"
proof -
  have f: "\<not> may_moderate (demo_client 2) demo_joined2" "IsOn 2 demo_joined2" "cl_guid (demo_client 2) = 2"
    "\<not> cl_HasPermission (demo_client 2) RBAC_PERM_CHANGE_CHANNEL_NOT_MODERATOR" "(2::guid) \<noteq> ch_ownerGuid demo_joined2"
    by (code_simp, code_simp, code_simp, code_simp, code_simp)
  show ?thesis
    using commands_need_rank [of "demo_client 2" demo_joined2 demo_env "[1]" False "[]" False False]
      commands_need_rank [of "demo_client 2" demo_joined2 demo_env "[2]" False "[]" False False] f
    by (simp add: Let_def)
qed

text \<open>
  Who is in a channel and what the players' own channel lists are told agree. \<open>JoinChannel\<close>
  adds exactly the player it admits, \<open>LeaveChannel\<close> removes exactly the player who leaves, and
  \<open>KickOrBan\<close> exactly a member it kicks; each tells the players' lists just that.
\<close>

theorem memberships_mirrored:
  "members (fst (JoinChannel env player pass ch)) =
     (if admits env player pass ch then insert (cl_guid player) (members ch) else members ch) \<and>
   tells (snd (JoinChannel env player pass ch)) ch (fst (JoinChannel env player pass ch)) \<and>
   members (fst (LeaveChannel env player send suspend ch)) = members ch - {cl_guid player} \<and>
   tells (snd (LeaveChannel env player True suspend ch)) ch (fst (LeaveChannel env player True suspend ch)) \<and>
   (case KickOrBan env player badname ban ch of Inl _ \<Rightarrow> True | Inr (ch', log) \<Rightarrow> tells log ch ch')"
proof (intro conjI)
  show "tells (snd (JoinChannel env player pass ch)) ch (fst (JoinChannel env player pass ch))"
    by (auto simp: tells_list_effects JoinChannel_members JoinChannel_list_effects admits_def IsOn_members)
  show "tells (snd (LeaveChannel env player True suspend ch)) ch (fst (LeaveChannel env player True suspend ch))"
    by (auto simp: tells_list_effects LeaveChannel_members LeaveChannel_list_effects IsOn_members)
  show "case KickOrBan env player badname ban ch of Inl _ \<Rightarrow> True | Inr (ch', log) \<Rightarrow> tells log ch ch'"
  proof (cases "KickOrBan env player badname ban ch")
    case (Inr r)
    obtain ch' log where r: "KickOrBan env player badname ban ch = Inr (ch', log)" using Inr by (cases r) simp
    have "members (e\<lparr>ch_playersStore := sm_erase v (ch_playersStore e)\<rparr>) = members e - {v}" for e v by simp
    with r show ?thesis
      by (cases rule: KickOrBan_result [OF r refl refl refl])
        (auto simp: tells_list_effects IsOn_members split: if_splits)
  qed simp
qed (rule JoinChannel_members LeaveChannel_members)+

section \<open>The ban list in the database\<close>

declare decimal.simps [simp del] Tokenize.simps [simp del]

lemma decimal_digits:
  "decimal n \<noteq> [] \<and> list_all is_digit (decimal n) \<and> digits_value (decimal n) = n"
proof (induction n rule: decimal.induct)
  case (1 n)
  have d: "is_digit (of_nat (48 + k))" "unat (of_nat (48 + k) :: u8) = 48 + k" if "k < 10" for k
  proof -
    show u: "unat (of_nat (48 + k) :: u8) = 48 + k" using that
      by (simp add: unsigned_of_nat take_bit_eq_mod del: of_nat_add)
    show "is_digit (of_nat (48 + k))"
      unfolding is_digit_def word_le_nat_alt u using that by simp
  qed
  show ?case
  proof (cases "n < 10")
    case True
    then have "decimal n = [of_nat (48 + n)]" by (simp add: decimal.simps)
    then show ?thesis using d [OF True] by (simp add: digits_value_def del: of_nat_add)
  next
    case False
    have m: "n mod 10 < 10" by simp
    have "digits_value (ds @ [c]) = digits_value ds * 10 + (unat c - 48)" for ds c by (simp add: digits_value_def)
    moreover have "decimal n = decimal (n div 10) @ [of_nat (48 + n mod 10)]"
      using False by (subst decimal.simps) simp
    ultimately show ?thesis using 1 [OF False] d [OF m] by (simp del: of_nat_add)
  qed
qed

lemma Tokenize_token:
  assumes "token \<noteq> []" "sep \<notin> set token"
  shows "Tokenize (token @ sep # rest) sep = token # Tokenize rest sep"
proof -
  have "takeWhile (\<lambda>c. c \<noteq> sep) (token @ sep # rest) = token" using assms(2) by (subst takeWhile_append2) auto
  with assms(1) show ?thesis by (subst Tokenize.simps) (simp add: Let_def)
qed

lemma Tokenize_banlist:
  "Tokenize (concat (map (\<lambda>guid. decimal (unat guid) @ [0x20]) gs)) 0x20 = map (\<lambda>guid. decimal (unat guid)) gs"
proof (induction gs)
  case Nil
  then show ?case by (subst Tokenize.simps) simp
next
  case (Cons g gs)
  have "0x20 \<notin> set (decimal (unat g))"
  proof
    assume "0x20 \<in> set (decimal (unat g))"
    then have "is_digit 0x20" using decimal_digits [of "unat g"] by (auto simp: list_all_iff)
    then show False by (simp add: is_digit_def)
  qed
  with Cons Tokenize_token [of "decimal (unat g)" "0x20"] decimal_digits [of "unat g"] show ?case by simp
qed

lemma StringTo_decimal: "StringTo_u64 (decimal (unat g)) = Some g"
  using decimal_digits [of "unat g"] unsigned_less [of g] by (simp add: StringTo_u64_def)

lemma load_bans_set:
  "0 \<notin> set gs \<Longrightarrow> set (load_bans (map (\<lambda>guid. decimal (unat guid)) gs) store) = set gs \<union> set store"
  by (induction gs arbitrary: store) (auto simp: StringTo_decimal)

text \<open>
  C37: bans survive a restart. The ban list \<open>UpdateChannelInDB\<close> writes for a reachable channel
  is read back by the constructor of a custom channel as the same set of guids.
\<close>

theorem bans_survive_restart:
  assumes "channel_reachable ch"
  shows "IsBanned g (new_custom_channel name team (banlist ch)) = IsBanned g ch"
proof -
  have "0 \<notin> set (ch_bannedStore ch)" using channel.reach_inv [OF assms] by (simp add: chan_ok_def)
  then show ?thesis by (simp add: IsBanned_def new_custom_channel_def banlist_def Tokenize_banlist load_bans_set)
qed

definition demo_banned :: channel where
  "demo_banned = fst (case KickOrBan demo_env (demo_client 1) [2] True demo_joined2 of Inr r \<Rightarrow> r | Inl _ \<Rightarrow> (demo_joined2, []))"

lemma demo_banned_reachable: "channel_reachable demo_banned"
proof -
  have "\<not> isl (KickOrBan demo_env (demo_client 1) [2] True demo_joined2)" by code_simp
  then obtain ch' log where k: "KickOrBan demo_env (demo_client 1) [2] True demo_joined2 = Inr (ch', log)"
    by (cases "KickOrBan demo_env (demo_client 1) [2] True demo_joined2") auto
  then have "demo_banned = ch'" by (simp add: demo_banned_def)
  with kick_or_ban [OF k] show ?thesis by (simp add: reach_step [OF demo_reachable(2)])
qed

theorem bans_survive_restart_witness:
  "IsBanned 2 (new_custom_channel [0x61] 67 (banlist demo_banned))"
proof -
  have "IsBanned 2 demo_banned" by code_simp
  then show ?thesis using bans_survive_restart [OF demo_banned_reachable, of 2 "[0x61]" 67] by simp
qed

end
