(* ===== verification/Channel_System.thy ===== *)
theory Channel_System
  imports Channel_Sys_Steps Channel_Theorems
begin

text \<open>
  The handlers as steps of one machine: from a server that has loaded its custom channels, any
  packets, logouts, moves between zones and saves, in any order and with whatever the rest of
  the server answers.
\<close>

section \<open>Safe results\<close>

definition fine :: "channel_store \<Rightarrow> chan_sys sys_result \<Rightarrow> bool" where
  "fine store r \<longleftrightarrow> (case r of Inl _ \<Rightarrow> False | Inr w \<Rightarrow> sys_ok store w)"

text \<open>A kick may end in the error of \<open>KickOrBan\<close>.\<close>

definition safe :: "channel_store \<Rightarrow> chan_sys sys_result \<Rightarrow> bool" where
  "safe store r \<longleftrightarrow> r = Inl FreedPlayerInfo \<or> fine store r"

lemma fine_simps [simp]: "fine store (Inr w) = sys_ok store w" "\<not> fine store (Inl e)"
  by (simp_all add: fine_def)

lemma fineE: "fine store r \<Longrightarrow> (\<And>w. r = Inr w \<Longrightarrow> sys_ok store w \<Longrightarrow> thesis) \<Longrightarrow> thesis"
  by (cases r) auto

lemma fine_safe [intro]: "fine store r \<Longrightarrow> safe store r"
  by (simp add: safe_def)

lemma and_then_simps [simp]: "and_then (Inr x) f = f x" "and_then (Inl e) f = Inl e"
  by (simp_all add: and_then_def)

lemma fine_call:
  assumes "sys_ok store w" "cs_heap w p = Some ch" "\<And>c. chan_ok c \<Longrightarrow> op_ok c (f c)"
  shows "fine store (call p f w)"
  using call_ok [OF assms(1,2), of f, OF assms(3) [OF sys_okD(3) [OF assms(1,2)]]] by simp

lemma fine_commands:
  assumes "sys_ok store w" "cs_heap w p = Some ch"
  shows "fine store (call p (UnBan env player name) w)" "fine store (call p (Password env player pass) w)"
    "fine store (call p (SetMode env player name moderator state) w)"
    "fine store (call p (SetOwner_command env player name) w)" "fine store (call p (Announce env player) w)"
    "fine store (call p (UpdateChannelInDB env) w)" "fine store (call p (List_command env player) w)"
    "fine store (call p (SendWhoOwner env player) w)" "fine store (call p (SendMemberCount env player) w)"
    "fine store (call p (Invite env player name) w)"
  by (rule fine_call [OF assms], erule quiet_commands)+

lemma fine_moves:
  assumes "sys_ok store w" "cs_heap w p = Some ch"
  shows "player_guid (cl_guid player) \<Longrightarrow> fine store (call p (JoinChannel env player pass) w)"
    "fine store (call p (LeaveChannel env player True suspend) w)"
    "fine store (call p (\<lambda>ch. (SetInvisible player b ch, [])) w)"
    "fine store (call p (\<lambda>ch. (ch\<lparr>ch_channelPassword := pass\<rparr>, [])) w)"
  by (rule fine_call [OF assms], simp add: op_ok_JoinChannel)
    (rule fine_call [OF assms], simp add: op_ok_LeaveChannel quiet_flags op_ok_quiet chan_ok_settings)+

lemma safe_kick:
  assumes "sys_ok store w" "cs_heap w p = Some ch"
  shows "safe store (call_kick p (KickOrBan env player name ban) w)"
proof (cases "KickOrBan env player name ban ch")
  case (Inl e)
  with assms show ?thesis by (cases e) (simp add: call_kick_def deref_def safe_def)
next
  case (Inr r)
  with assms put_channel_ok [OF assms op_ok_KickOrBan [OF sys_okD(3) [OF assms] Inr]] show ?thesis
    by (simp add: call_kick_def deref_def fine_safe)
qed

section \<open>Finding a channel\<close>

lemma name_found:
  assumes "has_name store i zone" "store = ChatChannelsStore env"
  shows "GetChannelName env name i locale zone \<noteq> None"
  using assms by (auto simp: GetChannelName_def has_name_def split: if_splits)

lemma GetName_found:
  assumes "heap_chan_ok store ch" "store = ChatChannelsStore env"
  shows "GetName env locale ch \<noteq> None"
  using assms name_found by (cases "ch_channelId ch = 0") (auto simp: GetName_def heap_chan_ok_def GetChannelName_def [of _ _ 0])

lemma find_by_name_part_ok:
  assumes ok: "sys_ok store w" and st: "store = ChatChannelsStore env" and ps: "\<forall>p \<in> set ps. cs_heap w p \<noteq> None"
  shows "\<exists>r. find_by_name_part env player part ps w = Inr r \<and> (\<forall>p. r = Some p \<longrightarrow> p \<in> set ps)"
  using ps
proof (induction ps)
  case (Cons p ps)
  then obtain ch where p: "cs_heap w p = Some ch" by auto
  obtain n where "GetName env (cl_locale player) ch = Some n"
    using GetName_found [OF sys_okD(2) [OF ok p] st] by blast
  with Cons p show ?case by (auto simp: deref_def split: prod.splits bool.splits)
qed simp

lemma by_name_part_ok:
  assumes ok: "sys_ok store w" and st: "store = ChatChannelsStore env"
  obtains "GetChannelForPlayerByNamePart env name player w = Inr None"
  | p ch where "GetChannelForPlayerByNamePart env name player w = Inr (Some p)" "cs_heap w p = Some ch"
proof -
  have "\<forall>p \<in> set (cs_joined w (cl_guid player)). cs_heap w p \<noteq> None" using sys_ok_lists(2) [OF ok] by auto
  then have "\<exists>r. GetChannelForPlayerByNamePart env name player w = Inr r \<and> (\<forall>p. r = Some p \<longrightarrow> cs_heap w p \<noteq> None)"
    using find_by_name_part_ok [OF ok st, of "cs_joined w (cl_guid player)" player]
    by (auto simp: GetChannelForPlayerByNamePart_def split: prod.splits bool.splits) metis
  then show ?thesis using that by fastforce
qed

lemma find_channel_ok:
  assumes "\<forall>p \<in> set ps. cs_heap w p \<noteq> None"
  shows "\<exists>r. find_channel P ps w = Inr r \<and> (\<forall>p. r = Some p \<longrightarrow> p \<in> set ps \<and> (\<exists>ch. cs_heap w p = Some ch \<and> P ch))"
  using assms by (induction ps) (auto simp: deref_def)

section \<open>The handlers\<close>

lemma commands_fine:
  assumes ok: "sys_ok store w" and st: "store = ChatChannelsStore env"
  shows "fine store (HandleChannelCommand env player opcode name w)"
    "fine store (HandleChannelPassword env player packet w)"
    "safe store (HandleChannelPlayerCommand env player opcode' packet w)"
proof -
  show "fine store (HandleChannelCommand env player opcode name w)"
    by (rule by_name_part_ok [OF ok st, of name player]; cases opcode)
      (simp_all add: HandleChannelCommand_def ok fine_commands [OF ok])
  show "fine store (HandleChannelPassword env player packet w)"
    by (rule by_name_part_ok [OF ok st, of "fst packet" player])
      (simp_all add: HandleChannelPassword_def ok fine_commands [OF ok])
  obtain b n where n: "normalizePlayerName (snd packet) = (b, n)" by fastforce
  show "safe store (HandleChannelPlayerCommand env player opcode' packet w)"
    by (rule by_name_part_ok [OF ok st, of "fst packet" player]; cases opcode'; cases b)
      (simp_all add: HandleChannelPlayerCommand_def n ok fine_safe fine_commands [OF ok] safe_kick [OF ok])
qed

lemma in_channel_zone_name:
  assumes "in_channel_zone env player i" "store = ChatChannelsStore env"
  shows "has_name store i (ZoneOf env player)"
  using assms by (auto simp: in_channel_zone_def has_name_def split: option.splits)

lemma HandleJoinChannel_fine:
  assumes ok: "sys_ok store w" and st: "store = ChatChannelsStore env" and g: "player_guid (cl_guid player)"
  shows "fine store (HandleJoinChannel env player packet w)"
proof (cases "ForTeam env (cl_team player)")
  case None
  with ok show ?thesis by (simp add: HandleJoinChannel_def Let_def)
next
  case (Some m)
  let ?i = "jc_ChatChannelId packet" and ?pass = "jc_Password packet"
  show ?thesis
  proof (cases "?i = 0")
    case False
    show ?thesis
    proof (cases "in_channel_zone env player ?i")
      case True
      obtain p w1 ch where "GetSystemChannel env m ?i (ZoneOf env player) w = Inr (p, w1)" "sys_ok store w1" "cs_heap w1 p = Some ch"
        using GetSystemChannel_ok [OF ok st False in_channel_zone_name [OF True st]] by metis
      with False True Some fine_moves(1) g show ?thesis by (simp add: HandleJoinChannel_def)
    qed (use False ok in \<open>simp add: HandleJoinChannel_def\<close>)
  next
    case True
    obtain n name where u: "utf8length (jc_ChannelName packet) = (n, name)" by fastforce
    obtain r w1 where c: "CreateCustomChannel m name w = (r, w1)" by fastforce
    have "fine store (case GetCustomChannel m name w of
         Some p \<Rightarrow> call p (JoinChannel env player ?pass) w
       | None \<Rightarrow> (case CreateCustomChannel m name w of
             (None, w1) \<Rightarrow> Inr w1
           | (Some p, w1) \<Rightarrow> and_then (call p (\<lambda>ch. (ch\<lparr>ch_channelPassword := ?pass\<rparr>, [])) w1)
               (call p (JoinChannel env player ?pass))))"
    proof (cases "GetCustomChannel m name w")
      case (Some p)
      with GetCustomChannel_ok [OF ok Some] fine_moves(1) [OF ok _ g] show ?thesis by auto
    next
      case None
      note cc = CreateCustomChannel_ok [OF ok c]
      show ?thesis
      proof (cases r)
        case (Some p)
        then obtain ch where p: "cs_heap w1 p = Some ch" using cc(2) by blast
        let ?w2 = "put_channel p (ch\<lparr>ch_channelPassword := ?pass\<rparr>, []) w1"
        have "op_ok ch (ch\<lparr>ch_channelPassword := ?pass\<rparr>, [])"
          using sys_okD(3) [OF cc(1) p] by (simp add: op_ok_quiet chan_ok_settings)
        note k = call_ok [OF cc(1) p, of "\<lambda>ch. (ch\<lparr>ch_channelPassword := ?pass\<rparr>, [])", OF this]
        have "cs_heap ?w2 p = Some (ch\<lparr>ch_channelPassword := ?pass\<rparr>)" by (simp add: put_channel_def)
        from fine_moves(1) [OF k(2) this g] k(1) None c Some show ?thesis by simp
      qed (use None c cc in simp)
    qed
    with True Some u ok show ?thesis
      by (simp add: HandleJoinChannel_def Let_def invalid_name_def split del: option.split)
  qed
qed

lemma GetChannel_ok:
  assumes ok: "sys_ok store w" and st: "store = ChatChannelsStore env" and n: "i \<noteq> 0 \<Longrightarrow> has_name store i zone"
  obtains r w1 where "GetChannel env m i name player pkt zone w = Inr (r, w1)" "sys_ok store w1"
    "\<And>p. r = Some p \<Longrightarrow> \<exists>ch. cs_heap w1 p = Some ch"
proof -
  let ?not_on = "if pkt then (case GetChannelName env name i (cl_locale player) zone of
      None \<Rightarrow> Inl FailedAssert | Some n \<Rightarrow> Inr (None :: chan_ptr option, SendNotOnChannelNotify player n w)) else Inr (None, w)"
  have "GetChannelName env name i (cl_locale player) zone \<noteq> None"
    using name_found [OF n st] by (cases "i = 0") (simp_all add: GetChannelName_def)
  then obtain w' where no: "?not_on = Inr (None, w')" "sys_ok store w'"
    using ok by (cases pkt) (auto simp: SendNotOnChannelNotify_def)
  have e: "GetChannel env m i name player pkt zone w =
      (if i \<noteq> 0 then
         (case ChatChannelsStore env i of None \<Rightarrow> Inl FailedAssert
          | Some entry \<Rightarrow> (case map_of (cm_channels (cs_mgr w m)) (i, zone_id entry zone) of
               Some p \<Rightarrow> Inr (Some p, w) | None \<Rightarrow> Inr (None, w')))
       else (case Utf8toWStr name of (False, _) \<Rightarrow> Inr (None, w)
          | (True, wname) \<Rightarrow> (case map_of (cm_customChannels (cs_mgr w m)) (wstrToLower wname) of
               Some p \<Rightarrow> Inr (Some p, w) | None \<Rightarrow> Inr (None, w'))))"
    unfolding GetChannel_def by (subst no(1)) (simp only: Let_def)
  have "\<exists>r w1. GetChannel env m i name player pkt zone w = Inr (r, w1) \<and> sys_ok store w1 \<and>
      (\<forall>p. r = Some p \<longrightarrow> (\<exists>ch. cs_heap w1 p = Some ch))"
  proof (cases "i = 0")
    case True
    have "map_of (cm_customChannels (cs_mgr w m)) key = Some p \<Longrightarrow> \<exists>ch. cs_heap w p = Some ch" for key p
      using ok by (fastforce simp: sys_ok_def mgr_ok_def dest!: map_of_SomeD)
    with True no(2) ok show ?thesis
      unfolding e by (auto split: prod.splits bool.splits option.splits)
  next
    case False
    then obtain entry where "ChatChannelsStore env i = Some entry" using n st by (auto simp: has_name_def)
    moreover have "map_of (cm_channels (cs_mgr w m)) key = Some p \<Longrightarrow> \<exists>ch. cs_heap w p = Some ch" for key p
      using mgr_entry [OF ok] by blast
    ultimately show ?thesis
      using False no(2) ok unfolding e by (auto split: option.splits)
  qed
  then show ?thesis using that by blast
qed

lemma mgr_LeftChannel_fine:
  "sys_ok store w \<Longrightarrow> store = ChatChannelsStore env \<Longrightarrow> store i \<noteq> None \<Longrightarrow> fine store (mgr_LeftChannel env m i zone w)"
  by (erule (2) mgr_LeftChannel_ok [of store w env i m zone]) simp

lemma HandleLeaveChannel_fine:
  assumes ok: "sys_ok store w" and st: "store = ChatChannelsStore env"
  shows "fine store (HandleLeaveChannel env player packet w)"
proof -
  obtain i name where packet: "packet = (i, name)" by fastforce
  show ?thesis
  proof (cases "name = [] \<and> i = 0 \<or> i \<noteq> 0 \<and> \<not> in_channel_zone env player i \<or> ForTeam env (cl_team player) = None")
    case True
    with ok show ?thesis by (auto simp: HandleLeaveChannel_def packet)
  next
    case False
    then obtain m where m: "ForTeam env (cl_team player) = Some m" by auto
    have n: "i \<noteq> 0 \<Longrightarrow> has_name store i (ZoneOf env player)" using False in_channel_zone_name [OF _ st] by auto
    obtain r w1 where g: "GetChannel env m i name player True (ZoneOf env player) w = Inr (r, w1)" "sys_ok store w1"
      "\<And>p. r = Some p \<Longrightarrow> \<exists>ch. cs_heap w1 p = Some ch"
      by (rule GetChannel_ok [OF ok st n, where m = m and name = name and player = player and pkt = True]) auto
    have "fine store (case r of None \<Rightarrow> Inr w1 | Some p \<Rightarrow> call p (LeaveChannel env player True False) w1)"
      using g(2,3) fine_moves(2) [OF g(2)] by (cases r) auto
    then obtain w2 where w2: "(case r of None \<Rightarrow> Inr w1 | Some p \<Rightarrow> call p (LeaveChannel env player True False) w1) = Inr w2"
      "sys_ok store w2" by (rule fineE)
    have "fine store (if i \<noteq> 0 then mgr_LeftChannel env m i (ZoneOf env player) w2 else Inr w2)"
    proof (cases "i = 0")
      case False
      then have "store i \<noteq> None" using n by (auto simp: has_name_def)
      from mgr_LeftChannel_fine [OF w2(2) st this] False show ?thesis by simp
    qed (use w2(2) in simp)
    with False m g(1) w2(1) show ?thesis by (auto simp: HandleLeaveChannel_def packet)
  qed
qed

section \<open>The player's own steps\<close>

lemma cleanup_step_fine:
  assumes ok: "sys_ok store w" and st: "store = ChatChannelsStore env" and ps: "cs_joined w (cl_guid player) = p # ps"
  shows "fine store (cleanup_step env player p (w\<lparr>cs_joined := (cs_joined w)(cl_guid player := ps)\<rparr>))"
proof -
  let ?g = "cl_guid player"
  obtain ch where p: "cs_heap w p = Some ch" using sys_ok_lists(2) [OF ok, of p ?g] ps by auto
  let ?r = "LeaveChannel env player False False ch"
  define w1 where "w1 = put_channel p ?r (w\<lparr>cs_joined := (cs_joined w)(?g := ps)\<rparr>)"
  have l: "to_lists p (snd ?r) js = js" for js
    by (simp add: to_lists_effects [of p "snd ?r"] LeaveChannel_list_effects)
  have "p \<notin> set ps" using sys_ok_lists(1) [OF ok, of ?g] ps by simp
  then have ok1: "sys_ok store w1"
    by (intro leave_ok [OF ok p, of w1 env player False False]) (simp_all add: w1_def put_channel_def l ps)
  have c: "cs_heap w1 p = Some (fst ?r)" by (simp add: w1_def put_channel_def)
  have call: "call p (LeaveChannel env player False False) (w\<lparr>cs_joined := (cs_joined w)(?g := ps)\<rparr>) = Inr w1"
    using p by (simp add: call_def deref_def w1_def)
  show ?thesis
  proof (cases "ForTeam env (cl_team player)")
    case None
    with ok1 call show ?thesis by (simp add: cleanup_step_def)
  next
    case (Some m)
    show ?thesis
    proof (cases "IsConstant (fst ?r)")
      case True
      then have "store (ch_channelId (fst ?r)) \<noteq> None"
        using sys_okD(2) [OF ok1 c] by (auto simp: heap_chan_ok_def has_name_def IsConstant_def)
      then have "fine store (mgr_LeftChannel env m (ch_channelId (fst ?r)) (ch_zoneEntry (fst ?r)) w1)"
        by (rule mgr_LeftChannel_fine [OF ok1 st])
      with Some call c True show ?thesis by (simp add: cleanup_step_def deref_def)
    qed (use Some call c ok1 in \<open>simp add: cleanup_step_def deref_def\<close>)
  qed
qed

declare CleanupChannels.simps [simp del]

lemma CleanupChannels_fine:
  assumes "sys_ok store w" "store = ChatChannelsStore env"
  shows "\<exists>w'. CleanupChannels env player w = Inr w' \<and> sys_ok store w' \<and> cs_joined w' (cl_guid player) = []"
  using assms
proof (induction env player w rule: CleanupChannels.induct)
  case (1 env player w)
  show ?case
  proof (cases "cs_joined w (cl_guid player)")
    case Nil
    with 1 show ?thesis by (simp add: CleanupChannels.simps [of env player w])
  next
    case (Cons p ps)
    obtain w1 where w1: "cleanup_step env player p (w\<lparr>cs_joined := (cs_joined w)(cl_guid player := ps)\<rparr>) = Inr w1" "sys_ok store w1"
      using cleanup_step_fine [OF 1(2,3) Cons] by (rule fineE)
    with 1(1) [OF Cons w1(1) w1(2) 1(3)] Cons show ?thesis by (simp add: CleanupChannels.simps [of env player w])
  qed
qed

lemma invisible_loop_fine:
  assumes "sys_ok store w" "\<forall>p \<in> set ps. cs_heap w p \<noteq> None"
  shows "fine store (invisible_loop player on ps w)"
  using assms
proof (induction ps arbitrary: w)
  case (Cons p ps)
  then obtain ch where p: "cs_heap w p = Some ch" by auto
  note k = call_ok [OF Cons.prems(1) p, of "\<lambda>ch. (SetInvisible player (\<not> on) ch, [])",
      OF quiet_flags(3) [OF sys_okD(3) [OF Cons.prems(1) p]]]
  have "\<forall>q \<in> set ps. cs_heap (put_channel p (SetInvisible player (\<not> on) ch, []) w) q \<noteq> None"
    using Cons.prems(2) by (simp add: put_channel_def)
  from Cons.IH [OF k(2) this] k(1) show ?case by simp
qed simp

lemma save_loop_fine:
  assumes "sys_ok store w" "\<forall>p \<in> set ps. cs_heap w p \<noteq> None"
  shows "fine store (save_loop env ps w)"
  using assms
proof (induction ps arbitrary: w)
  case (Cons p ps)
  then obtain ch where p: "cs_heap w p = Some ch" by auto
  note k = call_ok [OF Cons.prems(1) p, of "UpdateChannelInDB env", OF quiet_commands(6) [OF sys_okD(3) [OF Cons.prems(1) p]]]
  have "\<forall>q \<in> set ps. cs_heap (put_channel p (UpdateChannelInDB env ch) w) q \<noteq> None"
    using Cons.prems(2) by (simp add: put_channel_def)
  from Cons.IH [OF k(2) this] k(1) show ?case by simp
qed simp

lemma player_steps_fine:
  assumes ok: "sys_ok store w"
  shows "fine store (LeaveLFGChannel env player w)" "fine store (SetGMVisible_channels player on w)"
    "fine store (SaveToDB env m w)"
proof -
  have j: "\<forall>p \<in> set (cs_joined w (cl_guid player)). cs_heap w p \<noteq> None" using sys_ok_lists(2) [OF ok] by auto
  obtain r where r: "find_channel IsLFG (cs_joined w (cl_guid player)) w = Inr r"
    "\<And>p. r = Some p \<Longrightarrow> \<exists>ch. cs_heap w p = Some ch"
    using find_channel_ok [OF j, of IsLFG] by blast
  then show "fine store (LeaveLFGChannel env player w)"
    using ok fine_moves(2) [OF ok] by (cases r) (auto simp: LeaveLFGChannel_def)
  show "fine store (SetGMVisible_channels player on w)"
    unfolding SetGMVisible_channels_def by (rule invisible_loop_fine [OF ok j])
  have "mgr_ok store (cs_heap w) m (cs_mgr w m)" using ok by (simp add: sys_ok_def)
  then have "\<forall>p \<in> set (map snd (cm_customChannels (cs_mgr w m))). cs_heap w p \<noteq> None" by (auto simp: mgr_ok_def)
  then show "fine store (SaveToDB env m w)" unfolding SaveToDB_def by (rule save_loop_fine [OF ok])
qed

text \<open>The last part of a round of \<open>UpdateLocalChannels\<close>: leave the old channel and delete it if empty.\<close>

lemma remove_fine:
  assumes ok: "sys_ok store w" and st: "store = ChatChannelsStore env" and p: "cs_heap w p = Some ch" and i: "ch_channelId ch \<noteq> 0"
  shows "fine store (and_then (call p (LeaveChannel env player send True) w) (\<lambda>w3.
      let w4 = w3\<lparr>cs_joined := LeftChannel p (cl_guid player) (cs_joined w3)\<rparr> in
      and_then (deref p w4) (\<lambda>ch. mgr_LeftChannel env m (ch_channelId ch) (ch_zoneEntry ch) w4)))"
proof -
  let ?g = "cl_guid player" and ?r = "LeaveChannel env player send True ch"
  define w3 where "w3 = put_channel p ?r w"
  define w4 where "w4 = w3\<lparr>cs_joined := LeftChannel p ?g (cs_joined w3)\<rparr>"
  have "LeftChannel p ?g (to_lists p (snd ?r) (cs_joined w)) = (cs_joined w)(?g := removeAll p (cs_joined w ?g))"
    by (auto simp: to_lists_effects [of p "snd ?r"] LeaveChannel_list_effects LeftChannel_def)
  then have ok4: "sys_ok store w4"
    by (intro leave_ok [OF ok p, of w4 env player send True]) (simp_all add: w4_def w3_def put_channel_def)
  have c: "cs_heap w4 p = Some (fst ?r)" and c3: "cs_heap w3 p = Some (fst ?r)"
    by (simp_all add: w4_def w3_def put_channel_def)
  have "ch_channelId (fst ?r) = ch_channelId ch"
    using chan_static_moves(2) [of env player send True ch] by (simp add: chan_static_def)
  with i have "store (ch_channelId (fst ?r)) \<noteq> None"
    using sys_okD(2) [OF ok4 c] by (auto simp: heap_chan_ok_def has_name_def)
  from mgr_LeftChannel_fine [OF ok4 st this] show ?thesis
    using p c c3 by (simp add: call_def deref_def w3_def [symmetric] w4_def [symmetric])
qed

lemma local_step_fine:
  assumes ok: "sys_ok store w" and st: "store = ChatChannelsStore env" and g: "player_guid (cl_guid player)" and z: "store 0 = None"
  shows "fine store (local_step env player m zone i w)"
proof (cases "ChatChannelsStore env i")
  case None
  with ok show ?thesis by (simp add: local_step_def)
next
  case (Some entry)
  then have i: "i \<noteq> 0" using z st by auto
  have n: "has_name store i (Some zone)" "cc_Flags entry AND CHANNEL_DBC_FLAG_GLOBAL \<noteq> 0 \<Longrightarrow> has_name store i None"
    using Some st by (auto simp: has_name_def)
  have "\<forall>p \<in> set (cs_joined w (cl_guid player)). cs_heap w p \<noteq> None" using sys_ok_lists(2) [OF ok] by auto
  from find_channel_ok [OF this, of "\<lambda>ch. ch_channelId ch = i"] obtain used where
    used: "find_channel (\<lambda>ch. ch_channelId ch = i) (cs_joined w (cl_guid player)) w = Inr used"
      "\<And>p. used = Some p \<Longrightarrow> \<exists>ch. cs_heap w p = Some ch \<and> ch_channelId ch = i" by blast
  define can where "can = CanJoinConstantChannelInZone player entry zone"
  define plan where "plan =
    (if can then
       if cc_Flags entry AND CHANNEL_DBC_FLAG_GLOBAL = 0 then
         and_then (GetSystemChannel env m i (Some zone) w) (\<lambda>(p, w1).
           if used = None then Inr (Some p, None, True, w1)
           else if used \<noteq> Some p then Inr (Some p, used, False, w1)
           else Inr (None, None, True, w1))
       else and_then (GetSystemChannel env m i None w) (\<lambda>(p, w1). Inr (Some p, None, True, w1))
     else Inr (None, used, True, w))"
  obtain jc rc sr w1 where plan: "plan = Inr (jc, rc, sr, w1)" "sys_ok store w1" "keeps w w1"
    "\<And>p. jc = Some p \<Longrightarrow> \<exists>ch. cs_heap w1 p = Some ch" "rc = None \<or> rc = used"
  proof (cases "can")
    case False
    with ok that show ?thesis by (simp add: plan_def)
  next
    case True
    show ?thesis
    proof (cases "cc_Flags entry AND CHANNEL_DBC_FLAG_GLOBAL = 0")
      case G: True
      obtain p w1 ch where "GetSystemChannel env m i (Some zone) w = Inr (p, w1)" "sys_ok store w1" "cs_heap w1 p = Some ch" "keeps w w1"
        by (rule GetSystemChannel_ok [OF ok st i n(1), of m]) auto
      note this = this True G
      with that [of "Some p" None True w1] that [of None None True w1] that [of "Some p" used False w1] show ?thesis
        by (cases "used = None"; cases "used = Some p") (simp_all add: plan_def)
    next
      case G: False
      obtain p w1 ch where "GetSystemChannel env m i None w = Inr (p, w1)" "sys_ok store w1" "cs_heap w1 p = Some ch" "keeps w w1"
        by (rule GetSystemChannel_ok [OF ok st i n(2) [OF G], of m]) auto
      with True G that show ?thesis by (auto simp: plan_def)
    qed
  qed
  obtain w2 where w2: "(case jc of None \<Rightarrow> Inr w1 | Some p \<Rightarrow> call p (JoinChannel env player []) w1) = Inr w2"
    "sys_ok store w2" "keeps w1 w2"
  proof (cases jc)
    case (Some p)
    then obtain ch where p: "cs_heap w1 p = Some ch" using plan(4) by blast
    note k = call_ok [OF plan(2) p, of "JoinChannel env player []", OF op_ok_JoinChannel [OF sys_okD(3) [OF plan(2) p] g]]
    with Some that show ?thesis by simp
  qed (use plan that in simp)
  let ?remove = "case rc of None \<Rightarrow> Inr w2 | Some p \<Rightarrow>
      and_then (call p (LeaveChannel env player sr True) w2) (\<lambda>w3.
      let w4 = w3\<lparr>cs_joined := LeftChannel p (cl_guid player) (cs_joined w3)\<rparr> in
      and_then (deref p w4) (\<lambda>ch. mgr_LeftChannel env m (ch_channelId ch) (ch_zoneEntry ch) w4))"
  have r: "fine store ?remove"
  proof (cases rc)
    case (Some p)
    then have "used = Some p" using plan(5) by auto
    then obtain ch ch1 ch2 where "cs_heap w p = Some ch" "ch_channelId ch = i" "cs_heap w1 p = Some ch1" "chan_static ch1 = chan_static ch"
      "cs_heap w2 p = Some ch2" "chan_static ch2 = chan_static ch1"
      using used(2) plan(3) w2(3) unfolding keeps_def by metis
    with i have "ch_channelId ch2 \<noteq> 0" by (simp add: chan_static_def)
    from remove_fine [OF w2(2) st \<open>cs_heap w2 p = Some ch2\<close> this] Some show ?thesis by simp
  qed (use w2(2) in simp)
  have "local_step env player m zone i w =
      (if can \<and> cc_Flags entry AND CHANNEL_DBC_FLAG_GLOBAL = 0 \<and> cc_Flags entry AND CHANNEL_DBC_FLAG_CITY_ONLY \<noteq> 0 \<and> used \<noteq> None
       then Inr w else ?remove)"
    unfolding local_step_def Some used(1) option.case and_then_simps can_def [symmetric] plan_def [symmetric] plan(1) prod.case w2(1)
    by (rule refl)
  with r ok show ?thesis by simp
qed

lemma UpdateLocalChannels_fine:
  assumes ok: "sys_ok store w" and st: "store = ChatChannelsStore env" and g: "player_guid (cl_guid player)" and z: "store 0 = None"
  shows "fine store (UpdateLocalChannels env player loading far zone w)"
proof -
  have "fine store (local_loop env player m zone is w)" if "sys_ok store w" for m zone "is" w
    using that
  proof (induction "is" arbitrary: w)
    case (Cons i "is")
    obtain w1 where "local_step env player m zone (of_nat i) w = Inr w1" "sys_ok store w1"
      using local_step_fine [OF Cons.prems st g z, of m zone "of_nat i"] by (rule fineE)
    with Cons.IH show ?case by simp
  qed simp
  with ok show ?thesis by (auto simp: UpdateLocalChannels_def split: option.splits)
qed

section \<open>Loading\<close>

lemma new_row_ok:
  "heap_chan_ok store (new_custom_channel name team bans\<lparr>ch_announceEnabled := a, ch_ownershipEnabled := b, ch_channelPassword := p\<rparr>)"
  "members (new_custom_channel name team bans\<lparr>ch_announceEnabled := a, ch_ownershipEnabled := b, ch_channelPassword := p\<rparr>) = {}"
proof -
  let ?c = "new_custom_channel name team bans" and ?ch = "new_custom_channel name team bans\<lparr>ch_announceEnabled := a, ch_ownershipEnabled := b, ch_channelPassword := p\<rparr>"
  show m: "members ?ch = {}" by (simp add: no_members new_custom_channel_def)
  have "chan_start ?c" unfolding chan_start_def by blast
  then have "chan_ok ?c" by (rule start_chan_ok)
  then have "chan_ok ?ch" by (subst chan_ok_fields [of _ ?c]) simp_all
  moreover have "ch_channelId ?ch = 0" by (simp add: new_custom_channel_def)
  ultimately show "heap_chan_ok store ?ch" unfolding heap_chan_ok_def m by simp
qed

lemma put_custom_ok:
  assumes ok: "sys_ok store w" and p: "cs_heap w p = Some ch" "ch_channelId ch = 0"
  shows "sys_ok store (put_custom m name p w)"
proof -
  have "mgr_ok store (cs_heap w) m' (cs_mgr (put_custom m name p w) m')" for m'
  proof -
    have "mgr_ok store (cs_heap w) m' (cs_mgr w m')" using ok by (simp add: sys_ok_def)
    with p show ?thesis by (auto simp: put_custom_def mgr_ok_def)
  qed
  with ok show ?thesis by (simp add: sys_ok_def put_custom_def)
qed

lemma load_loop_ok: "sys_ok store w \<Longrightarrow> sys_ok store (snd (load_loop env rows toDelete w))"
proof (induction rows arbitrary: toDelete w)
  case (Cons row rows)
  obtain b cname where u: "Utf8toWStr (row_name row) = (b, cname)" by fastforce
  show ?case
  proof (cases "b \<and> ForTeam env (row_team row) \<noteq> None")
    case False
    with Cons u show ?thesis by (cases b) auto
  next
    case True
    then obtain m where m: "ForTeam env (row_team row) = Some m" by auto
    let ?ch = "new_custom_channel (row_name row) (row_team row) (row_bannedList row)\<lparr>ch_announceEnabled := row_announce row,
      ch_ownershipEnabled := row_ownership row, ch_channelPassword := row_password row\<rparr>"
    obtain p w1 where n: "new_channel ?ch w = (p, w1)" by fastforce
    note w1 = new_channel_ok [OF Cons.prems n new_row_ok]
    have "ch_channelId ?ch = 0" by (simp add: new_custom_channel_def)
    note w2 = put_custom_ok [OF w1(1,2) this, of m cname]
    with True u m n Cons show ?thesis by (cases "map_of (cm_customChannels (cs_mgr w m)) cname") simp_all
  qed
qed simp

definition empty_sys :: chan_sys where
  "empty_sys = \<lparr>cs_heap = (\<lambda>_. None), cs_next = 0, cs_mgr = (\<lambda>_. \<lparr>cm_customChannels = [], cm_channels = []\<rparr>),
     cs_joined = (\<lambda>_. []), cs_log = []\<rparr>"

lemma empty_sys_ok: "sys_ok store empty_sys"
  by (simp add: sys_ok_def empty_sys_def mgr_ok_def lists_ok_def)

lemma LoadFromDB_ok:
  assumes "sys_ok store w"
  shows "sys_ok store (LoadFromDB env rows w)"
proof -
  have "sys_ok store w \<Longrightarrow> sys_ok store (foldl (\<lambda>w (dbName, team). send_log (CHAR_DEL_CHANNEL dbName team) w) w del)" for w del
    by (induction del arbitrary: w) auto
  with load_loop_ok [OF assms] load_loop_ok [of store "send_log e w" for e] assms show ?thesis
    by (simp add: LoadFromDB_def Let_def split_def)
qed

section \<open>The machine\<close>

definition sys_start :: "chan_sys \<Rightarrow> bool" where
  "sys_start w \<longleftrightarrow> (\<exists>env rows. w = LoadFromDB env rows empty_sys)"

text \<open>The answers of a server whose store of built-in channels is \<open>store\<close>; their ids start at 1.\<close>

definition env_for :: "channel_store \<Rightarrow> chan_env \<Rightarrow> bool" where
  "env_for store env \<longleftrightarrow> ChatChannelsStore env = store \<and> store 0 = None"

inductive sys_step :: "channel_store \<Rightarrow> chan_sys \<Rightarrow> chan_sys \<Rightarrow> bool" for store where
  sys_join: "env_for store env \<Longrightarrow> player_guid (cl_guid player) \<Longrightarrow> HandleJoinChannel env player join_packet w = Inr w'
    \<Longrightarrow> sys_step store w w'"
| sys_leave: "env_for store env \<Longrightarrow> HandleLeaveChannel env player leave_packet w = Inr w' \<Longrightarrow> sys_step store w w'"
| sys_command: "env_for store env \<Longrightarrow> HandleChannelCommand env player opcode name w = Inr w' \<Longrightarrow> sys_step store w w'"
| sys_player_command: "env_for store env \<Longrightarrow> HandleChannelPlayerCommand env player opcode' packet w = Inr w'
    \<Longrightarrow> sys_step store w w'"
| sys_password: "env_for store env \<Longrightarrow> HandleChannelPassword env player packet w = Inr w' \<Longrightarrow> sys_step store w w'"
| sys_logout: "env_for store env \<Longrightarrow> CleanupChannels env player w = Inr w' \<Longrightarrow> sys_step store w w'"
| sys_zone: "env_for store env \<Longrightarrow> player_guid (cl_guid player) \<Longrightarrow> UpdateLocalChannels env player loading far zone w = Inr w'
    \<Longrightarrow> sys_step store w w'"
| sys_leave_lfg: "env_for store env \<Longrightarrow> LeaveLFGChannel env player w = Inr w' \<Longrightarrow> sys_step store w w'"
| sys_gm_visible: "SetGMVisible_channels player on w = Inr w' \<Longrightarrow> sys_step store w w'"
| sys_save: "SaveToDB env m w = Inr w' \<Longrightarrow> sys_step store w w'"

lemma safeD: "safe store r \<Longrightarrow> r = Inr w \<Longrightarrow> sys_ok store w"
  by (auto simp: safe_def)

interpretation channel_sys: invariant_system sys_start "sys_step store" "sys_ok store" for store
proof unfold_locales
  fix w
  assume "sys_start w"
  then show "sys_ok store w" using LoadFromDB_ok [OF empty_sys_ok] by (auto simp: sys_start_def)
next
  fix w w'
  assume ok: "sys_ok store w" and "sys_step store w w'"
  from this(2) show "sys_ok store w'"
  proof cases
    case (sys_join env player packet)
    with HandleJoinChannel_fine [OF ok _ sys_join(2), of env packet] show ?thesis by (simp add: env_for_def)
  next
    case (sys_leave env player packet)
    with HandleLeaveChannel_fine [OF ok, of env player packet] show ?thesis by (simp add: env_for_def)
  next
    case (sys_command env player opcode name)
    with commands_fine(1) [OF ok, of env player opcode name] show ?thesis by (simp add: env_for_def)
  next
    case (sys_player_command env player opcode packet)
    with commands_fine(3) [OF ok, of env player opcode packet] show ?thesis by (auto simp: env_for_def dest: safeD)
  next
    case (sys_password env player packet)
    with commands_fine(2) [OF ok, of env player packet] show ?thesis by (simp add: env_for_def)
  next
    case (sys_logout env player)
    with CleanupChannels_fine [OF ok, of env player] show ?thesis by (auto simp: env_for_def)
  next
    case (sys_zone env player loading far zone)
    with UpdateLocalChannels_fine [OF ok _ sys_zone(2), of env loading far zone] show ?thesis by (simp add: env_for_def)
  next
    case (sys_leave_lfg env player)
    with player_steps_fine(1) [OF ok, of env player] show ?thesis by simp
  next
    case (sys_gm_visible player on)
    with player_steps_fine(2) [OF ok, of player on] show ?thesis by simp
  next
    case (sys_save env m)
    with player_steps_fine(3) [OF ok, of env m] show ?thesis by simp
  qed
qed

abbreviation channels_reachable :: "channel_store \<Rightarrow> chan_sys \<Rightarrow> bool" where
  "channels_reachable store \<equiv> reach sys_start (sys_step store)"

section \<open>Example\<close>

definition demo_sys :: chan_sys where
  "demo_sys = (case HandleJoinChannel demo_env (demo_client 1)
     \<lparr>jc_ChatChannelId = 0, jc_CreateVoiceSession = False, jc_Internal = False, jc_ChannelName = [0x61], jc_Password = []\<rparr>
     empty_sys of Inr w \<Rightarrow> w | Inl _ \<Rightarrow> empty_sys)"

lemma demo_sys_facts: "cs_joined demo_sys 1 = [0]" "player_guid (cl_guid (demo_client 1))" "env_for (\<lambda>_. None) demo_env"
  by (code_simp, simp add: player_guid_def demo_client_def, simp add: env_for_def demo_env_def)

lemma demo_sys_reachable: "channels_reachable (\<lambda>_. None) demo_sys"
proof -
  let ?packet = "\<lparr>jc_ChatChannelId = 0, jc_CreateVoiceSession = False, jc_Internal = False, jc_ChannelName = [0x61], jc_Password = []\<rparr>"
  have "empty_sys = LoadFromDB (demo_env\<lparr>CONFIG_PRESERVE_CUSTOM_CHANNELS := False\<rparr>) [] empty_sys" by (simp add: LoadFromDB_def)
  then have s: "channels_reachable (\<lambda>_. None) empty_sys" unfolding sys_start_def by (blast intro: reach_start)
  obtain w where w: "HandleJoinChannel demo_env (demo_client 1) ?packet empty_sys = Inr w"
    using HandleJoinChannel_fine [OF empty_sys_ok _ demo_sys_facts(2), of "\<lambda>_. None" demo_env ?packet] demo_sys_facts(3)
    by (auto simp: env_for_def elim: fineE)
  then have "demo_sys = w" by (simp add: demo_sys_def)
  with reach_step [OF s sys_join [OF demo_sys_facts(3,2) w]] show ?thesis by simp
qed

section \<open>Properties\<close>

text \<open>
  C10: no packet, logout, move between zones or save follows a dangling pointer to a channel or
  fails an assertion, in any reachable state of the server's channels; the only error left is
  that of a player command to kick or ban.
\<close>

theorem channels_never_dangle:
  assumes "channels_reachable store w" and "env_for store env" and "player_guid (cl_guid player)"
  shows "list_all (\<lambda>r. \<not> isl r)
     [HandleJoinChannel env player join_packet w, HandleLeaveChannel env player leave_packet w,
      HandleChannelCommand env player opcode name w, HandleChannelPassword env player packet w,
      CleanupChannels env player w, UpdateLocalChannels env player loading far zone w, LeaveLFGChannel env player w,
      SetGMVisible_channels player on w, SaveToDB env m w] \<and>
   HandleChannelPlayerCommand env player opcode' packet w \<noteq> Inl DanglingChannel \<and>
   HandleChannelPlayerCommand env player opcode' packet w \<noteq> Inl FailedAssert"
proof -
  have ok: "sys_ok store w" using channel_sys.reach_inv [OF assms(1)] .
  have st: "store = ChatChannelsStore env" "store 0 = None" using assms(2) by (auto simp: env_for_def)
  have f: "fine store r \<Longrightarrow> \<not> isl r" for r by (auto elim: fineE)
  show ?thesis
    using commands_fine(3) [OF ok st(1), of player opcode' packet] CleanupChannels_fine [OF ok st(1), of player]
    by (auto simp: safe_def HandleJoinChannel_fine [OF ok st(1) assms(3), THEN f] HandleLeaveChannel_fine [OF ok st(1), THEN f]
        commands_fine(1,2) [OF ok st(1), THEN f] UpdateLocalChannels_fine [OF ok st(1) assms(3) st(2), THEN f]
        player_steps_fine [OF ok, THEN f])
qed

theorem channels_never_dangle_witness:
  "channels_reachable (\<lambda>_. None) demo_sys \<and> \<not> isl (CleanupChannels demo_env (demo_client 1) demo_sys)"
  using channels_never_dangle [OF demo_sys_reachable demo_sys_facts(3,2)] demo_sys_reachable by simp

text \<open>
  C15: in every reachable state a player has a channel on the list \<open>m_channels\<close>, once, exactly
  when the pointer leads to a channel that has the player among its members.
\<close>

theorem joined_lists_agree:
  assumes "channels_reachable store w"
  shows "distinct (cs_joined w g) \<and>
    (p \<in> set (cs_joined w g) \<longleftrightarrow> (case cs_heap w p of None \<Rightarrow> False | Some ch \<Rightarrow> IsOn g ch))"
  using sys_ok_lists(1) [OF channel_sys.reach_inv [OF assms], of g] sys_ok_lists(2) [OF channel_sys.reach_inv [OF assms], of p g]
  by (auto simp: IsOn_members split: option.splits)

theorem joined_lists_agree_witness:
  "channels_reachable (\<lambda>_. None) demo_sys \<and> (case cs_heap demo_sys 0 of None \<Rightarrow> False | Some ch \<Rightarrow> IsOn 1 ch)"
  using joined_lists_agree [OF demo_sys_reachable, of 1 0] demo_sys_facts(1) demo_sys_reachable by simp

text \<open>
  C38: a logout ends: \<open>CleanupChannels\<close> returns, and afterwards the player's list is empty and
  no channel has the player among its members.
\<close>

theorem logout_leaves_channels:
  assumes "channels_reachable store w" and "env_for store env"
  shows "case CleanupChannels env player w of Inl _ \<Rightarrow> False
    | Inr w' \<Rightarrow> cs_joined w' (cl_guid player) = [] \<and>
        (case cs_heap w' p of None \<Rightarrow> True | Some ch \<Rightarrow> \<not> IsOn (cl_guid player) ch)"
proof -
  have st: "store = ChatChannelsStore env" using assms(2) by (simp add: env_for_def)
  obtain w' where w': "CleanupChannels env player w = Inr w'" "sys_ok store w'" "cs_joined w' (cl_guid player) = []"
    using CleanupChannels_fine [OF channel_sys.reach_inv [OF assms(1)] st] by blast
  then show ?thesis
    using sys_ok_lists(2) [OF w'(2), of p "cl_guid player"] by (auto simp: IsOn_members split: option.splits)
qed

theorem logout_leaves_channels_witness:
  "case CleanupChannels demo_env (demo_client 1) demo_sys of Inl _ \<Rightarrow> False
    | Inr w' \<Rightarrow> cs_joined w' (cl_guid (demo_client 1)) = [] \<and>
        (case cs_heap w' 0 of None \<Rightarrow> True | Some ch \<Rightarrow> \<not> IsOn (cl_guid (demo_client 1)) ch)"
  by (rule logout_leaves_channels [OF demo_sys_reachable demo_sys_facts(3)])

section \<open>Loading the saved channels\<close>

definition row_channel :: "channel_row \<Rightarrow> channel" where
  "row_channel row =
     (new_custom_channel (row_name row) (row_team row) (row_bannedList row))
       \<lparr>ch_announceEnabled := row_announce row, ch_ownershipEnabled := row_ownership row,
        ch_channelPassword := row_password row\<rparr>"

definition row_for :: "chan_env \<Rightarrow> faction_mgr \<Rightarrow> wstring \<Rightarrow> channel_row \<Rightarrow> bool" where
  "row_for env m k row \<longleftrightarrow> ForTeam env (row_team row) = Some m \<and> Utf8toWStr (row_name row) = (True, k)"

abbreviation custom :: "chan_sys \<Rightarrow> faction_mgr \<Rightarrow> wstring \<Rightarrow> chan_ptr option" where
  "custom w m k \<equiv> map_of (cm_customChannels (cs_mgr w m)) k"

text \<open>The first row with a name makes its channel, later ones are skipped.\<close>

lemma load_loop_lookup:
  assumes "\<forall>m k p. custom w m k = Some p \<longrightarrow> p < cs_next w"
  shows "case custom w m k of
      Some p \<Rightarrow> custom (snd (load_loop env rows del w)) m k = Some p
        \<and> cs_heap (snd (load_loop env rows del w)) p = cs_heap w p
    | None \<Rightarrow> (case find (row_for env m k) rows of
        None \<Rightarrow> custom (snd (load_loop env rows del w)) m k = None
      | Some row \<Rightarrow> \<exists>p. custom (snd (load_loop env rows del w)) m k = Some p
          \<and> cs_heap (snd (load_loop env rows del w)) p = Some (row_channel row))"
  using assms
proof (induction rows arbitrary: del w)
  case Nil
  then show ?case by (simp split: option.split)
next
  case (Cons row rows)
  obtain b c where u: "Utf8toWStr (row_name row) = (b, c)" by fastforce
  consider "\<not> b \<or> ForTeam env (row_team row) = None"
    | m' where "b" "ForTeam env (row_team row) = Some m'" "custom w m' c \<noteq> None"
    | m' where "b" "ForTeam env (row_team row) = Some m'" "custom w m' c = None" by blast
  then show ?case
  proof cases
    case 1
    then have n: "\<not> row_for env m k row" using u by (auto simp: row_for_def)
    have "\<exists>del'. load_loop env (row # rows) del w = load_loop env rows del' w"
      using 1 u by (cases b) auto
    then obtain del' where l: "load_loop env (row # rows) del w = load_loop env rows del' w" ..
    from Cons.IH [where del = del', OF Cons.prems] n show ?thesis
      unfolding l by (cases "custom w m k") simp_all
  next
    case 2
    then have n: "row_for env m k row \<Longrightarrow> custom w m k \<noteq> None" using u by (auto simp: row_for_def)
    have l: "load_loop env (row # rows) del w = load_loop env rows del w"
      using 2 u by auto
    from Cons.IH [where del = del, OF Cons.prems] n show ?thesis unfolding l by (cases "custom w m k") auto
  next
    case 3
    let ?p = "cs_next w"
    define w' where "w' = put_custom m' c ?p (snd (new_channel (row_channel row) w))"
    have l: "load_loop env (row # rows) del w = load_loop env rows del w'"
      using 3 u by (simp add: w'_def row_channel_def new_channel_def)
    have C: "custom w' x y = (if x = m' \<and> y = c then Some ?p else custom w x y)" for x y
      by (simp add: w'_def put_custom_def new_channel_def)
    have H: "cs_heap w' ?p = Some (row_channel row)" "cs_next w' = Suc ?p" "q < ?p \<Longrightarrow> cs_heap w' q = cs_heap w q" for q
      by (simp_all add: w'_def put_custom_def new_channel_def)
    have "\<forall>x y q. custom w' x y = Some q \<longrightarrow> q < cs_next w'"
      using Cons.prems by (auto simp: C H less_Suc_eq)
    note IH = Cons.IH [where w = w' and del = del, OF this]
    have r: "row_for env m k row \<longleftrightarrow> m = m' \<and> k = c" using 3 u by (auto simp: row_for_def)
    show ?thesis
    proof (cases "m = m' \<and> k = c")
      case True
      with IH 3 H r show ?thesis unfolding l by (simp add: C)
    next
      case False
      with IH 3 H r Cons.prems show ?thesis unfolding l by (simp add: C split: option.splits)
    qed
  qed
qed

text \<open>
  C25: after a restart with any table of saved channels \<open>GetCustomChannel\<close> finds a channel
  exactly when some row of its faction is named with the lower-case form of the name asked
  for, and it is the channel of the first such row, with its password, settings and bans.
  So a channel saved under a name with capital letters is not found by that name:
  \<open>LoadFromDB\<close> files it under its name as it is, \<open>GetCustomChannel\<close> looks in lower case.
\<close>

theorem saved_channel_found_iff_lower_case:
  assumes "CONFIG_PRESERVE_CUSTOM_CHANNELS env" and "Utf8toWStr name = (True, wname)"
  shows "case find (row_for env m (wstrToLower wname)) rows of
      None \<Rightarrow> GetCustomChannel m name (LoadFromDB env rows empty_sys) = None
    | Some row \<Rightarrow> \<exists>p. GetCustomChannel m name (LoadFromDB env rows empty_sys) = Some p
        \<and> cs_heap (LoadFromDB env rows empty_sys) p = Some (row_channel row)"
proof -
  define w where "w = (if CONFIG_PRESERVE_CUSTOM_CHANNEL_DURATION env \<noteq> 0
    then send_log (CHAR_DEL_OLD_CHANNELS (CONFIG_PRESERVE_CUSTOM_CHANNEL_DURATION env * DAY)) empty_sys else empty_sys)"
  define w2 where "w2 = snd (load_loop env rows [] w)"
  let ?k = "wstrToLower wname" and ?w' = "LoadFromDB env rows empty_sys"
  have e: "custom w x y = None" for x y by (simp add: w_def empty_sys_def send_log_def)
  have f: "cs_mgr (foldl (\<lambda>w (dbName, team). send_log (CHAR_DEL_CHANNEL dbName team) w) v del) = cs_mgr v \<and>
      cs_heap (foldl (\<lambda>w (dbName, team). send_log (CHAR_DEL_CHANNEL dbName team) w) v del) = cs_heap v" for v del
    by (induction del arbitrary: v) (auto simp: send_log_def)
  have l: "cs_mgr ?w' = cs_mgr w2" "cs_heap ?w' = cs_heap w2"
    unfolding LoadFromDB_def Let_def using assms(1) f by (simp_all add: split_def w_def w2_def)
  have g: "GetCustomChannel m name v = custom v m ?k" for v by (simp add: GetCustomChannel_def assms(2))
  have "case find (row_for env m ?k) rows of
      None \<Rightarrow> custom w2 m ?k = None
    | Some row \<Rightarrow> \<exists>p. custom w2 m ?k = Some p \<and> cs_heap w2 p = Some (row_channel row)"
    using load_loop_lookup [where w = w and m = m and k = ?k and del = "[]" and env = env and rows = rows]
    unfolding w2_def [symmetric] by (simp add: e)
  then show ?thesis unfolding g l .
qed

theorem saved_channel_found_iff_lower_case_witness:
  "GetCustomChannel hordeChannelMgr [0x41] (LoadFromDB demo_env [\<lparr>row_name = [0x41], row_team = 67, row_announce = True,
     row_ownership = True, row_password = [], row_bannedList = []\<rparr>] empty_sys) = None"
proof -
  let ?row = "\<lparr>row_name = [0x41], row_team = 67, row_announce = True, row_ownership = True, row_password = [], row_bannedList = []\<rparr>"
  have "CONFIG_PRESERVE_CUSTOM_CHANNELS demo_env" "Utf8toWStr [0x41] = (True, [0x41])" "wstrToLower [0x41] \<noteq> [0x41]"
    by (code_simp, code_simp, code_simp)
  with saved_channel_found_iff_lower_case [of demo_env "[0x41]" "[0x41]" hordeChannelMgr "[?row]"] show ?thesis
    by (simp add: row_for_def)
qed

end
