(* ===== verification/Calendar_Time.thy ===== *)
theory Calendar_Time
  imports Prelude
begin

text \<open>
  The calendar of the C++ standard library as the event code uses it: dates of
  \<open>std::chrono\<close> (\<open>year_month_day\<close>, \<open>sys_days\<close>, \<open>weekday\<close>), the broken-down time
  \<open>struct tm\<close> with \<open>gmtime\<close> and \<open>timegm\<close>, and local time. Days and seconds are counted
  from 1970-01-01 as unbounded integers. A time zone is data: the offset in force
  at an instant, and the instant \<open>mktime\<close> picks for a wall clock reading.
\<close>

section \<open>Dates\<close>

record ymd =
  y_year :: int
  y_month :: int
  y_day :: int

abbreviation ymd :: "int \<Rightarrow> int \<Rightarrow> int \<Rightarrow> ymd" where
  "ymd y m d \<equiv> \<lparr>y_year = y, y_month = m, y_day = d\<rparr>"

definition is_leap :: "int \<Rightarrow> bool" where
  "is_leap y \<longleftrightarrow> y mod 4 = 0 \<and> (y mod 100 \<noteq> 0 \<or> y mod 400 = 0)"

definition last_day :: "int \<Rightarrow> int \<Rightarrow> int" where
  "last_day y m =
     (if m = 2 then (if is_leap y then 29 else 28)
      else if m = 4 \<or> m = 6 \<or> m = 9 \<or> m = 11 then 30 else 31)"

text \<open>\<open>year_month_day::ok\<close>; the default-constructed date is 0/0/0 and not ok.\<close>

definition ymd_ok :: "ymd \<Rightarrow> bool" where
  "ymd_ok d \<longleftrightarrow> 1 \<le> y_month d \<and> y_month d \<le> 12 \<and> 1 \<le> y_day d \<and> y_day d \<le> last_day (y_year d) (y_month d)"

definition no_ymd :: ymd where
  "no_ymd = ymd 0 0 0"

lemma no_ymd_not_ok [simp]: "\<not> ymd_ok no_ymd"
  by (simp add: no_ymd_def ymd_ok_def)

section \<open>Day numbers\<close>

text \<open>Days from 0001-01-01 to January 1 of the year after \<open>y\<close> full years, and within the year.\<close>

definition days_in_years :: "int \<Rightarrow> int" where
  "days_in_years y = 365 * y + y div 4 - y div 100 + y div 400"

definition days_before_month :: "bool \<Rightarrow> int \<Rightarrow> int" where
  "days_before_month leap m =
     (if m \<le> 1 then 0 else if m = 2 then 31
      else (if leap then 1 else 0) +
        (if m = 3 then 59 else if m = 4 then 90 else if m = 5 then 120 else if m = 6 then 151
         else if m = 7 then 181 else if m = 8 then 212 else if m = 9 then 243 else if m = 10 then 273
         else if m = 11 then 304 else 334))"

text \<open>
  \<open>sys_days{ymd}\<close>. The standard defines it for every day number once year and month are
  ok: it counts on from the first of the month.
\<close>

definition sys_days :: "ymd \<Rightarrow> int" where
  "sys_days d = days_in_years (y_year d - 1) + days_before_month (is_leap (y_year d)) (y_month d) + y_day d - 719163"

text \<open>\<open>weekday{sys_days}\<close>, Sunday being 0; 1970-01-01 was a Thursday.\<close>

definition weekday_of :: "int \<Rightarrow> int" where
  "weekday_of z = (z + 4) mod 7"

text \<open>\<open>year_month_day{sys_days}\<close>.\<close>

definition year_of :: "int \<Rightarrow> int" where
  "year_of n = (let y = 400 * n div 146097 in if n < days_in_years (y + 1) then y + 1 else y + 2)"

fun month_from :: "bool \<Rightarrow> int \<Rightarrow> int list \<Rightarrow> int" where
  "month_from leap n [] = 12"
| "month_from leap n (m # ms) = (if n < days_before_month leap (m + 1) then m else month_from leap n ms)"

definition month_of :: "bool \<Rightarrow> int \<Rightarrow> int" where
  "month_of leap n = month_from leap n [1, 2, 3, 4, 5, 6, 7, 8, 9, 10, 11]"

definition civil :: "int \<Rightarrow> ymd" where
  "civil z =
     (let n = z + 719162;
          y = year_of n;
          k = n - days_in_years (y - 1);
          m = month_of (is_leap y) k
      in ymd y m (k - days_before_month (is_leap y) m + 1))"

section \<open>The day count is a bijection\<close>

lemma div_rest: "0 < k \<Longrightarrow> \<exists>r. y = k * (y div k) + r \<and> 0 \<le> r \<and> r < k" for k y :: int
  by (rule exI [of _ "y mod k"]) simp

lemma days_in_years_bounds:
  "146097 * y - 699 \<le> 400 * days_in_years y" "400 * days_in_years y \<le> 146097 * y + 396"
proof -
  define a b c where e: "a = y div 4" "b = y div 100" "c = y div 400"
  obtain r where "y = 4 * a + r" "0 \<le> r" "r < 4" using div_rest [of 4 y] unfolding e by auto
  moreover obtain s where "y = 100 * b + s" "0 \<le> s" "s < 100" using div_rest [of 100 y] unfolding e by auto
  moreover obtain t where "y = 400 * c + t" "0 \<le> t" "t < 400" using div_rest [of 400 y] unfolding e by auto
  moreover have "days_in_years y = 365 * y + a - b + c" by (simp add: days_in_years_def e)
  ultimately show "146097 * y - 699 \<le> 400 * days_in_years y" "400 * days_in_years y \<le> 146097 * y + 396"
    by linarith+
qed

lemma div_step:
  fixes y k :: int
  assumes k: "0 < k"
  shows "(y + 1) div k = y div k + (if (y + 1) mod k = 0 then 1 else 0)"
proof -
  have y: "y = k * (y div k) + y mod k" and r: "0 \<le> y mod k" "y mod k < k" using k by simp_all
  show ?thesis
  proof (cases "y mod k = k - 1")
    case True
    then have "y + 1 = k * (y div k + 1) + 0" using y by (simp add: distrib_left)
    then have "(y + 1) div k = y div k + 1" "(y + 1) mod k = 0"
      using k int_div_pos_eq [of "y + 1" k "y div k + 1" 0] int_mod_pos_eq [of "y + 1" k "y div k + 1" 0] by auto
    then show ?thesis by simp
  next
    case False
    then have "y + 1 = k * (y div k) + (y mod k + 1)" "0 \<le> y mod k + 1" "y mod k + 1 < k" using y r by linarith+
    then have "(y + 1) div k = y div k" "(y + 1) mod k = y mod k + 1"
      using int_div_pos_eq [of "y + 1" k "y div k" "y mod k + 1"] int_mod_pos_eq [of "y + 1" k "y div k" "y mod k + 1"] by auto
    then show ?thesis using r by simp
  qed
qed

text \<open>A year has 365 days, or 366 when it is a leap year.\<close>

lemma days_in_years_step:
  "days_in_years y = days_in_years (y - 1) + (if is_leap y then 366 else 365)"
proof -
  have "y mod 400 = 0 \<Longrightarrow> y mod 100 = 0"
    unfolding mod_eq_0_iff_dvd by (rule dvd_trans [of 100 400]) auto
  moreover have "y mod 100 = 0 \<Longrightarrow> y mod 4 = 0"
    unfolding mod_eq_0_iff_dvd by (rule dvd_trans [of 4 100]) auto
  moreover have "y div k = (y - 1) div k + (if y mod k = 0 then 1 else 0)" if "0 < k" for k
    using div_step [OF that, of "y - 1"] by simp
  ultimately show ?thesis
    unfolding days_in_years_def is_leap_def
    by (cases "y mod 400 = 0"; cases "y mod 100 = 0"; cases "y mod 4 = 0") (simp_all del: mod_eq_0_iff_dvd)
qed

lemma year_of_bounds:
  assumes "y = year_of n"
  shows "days_in_years (y - 1) \<le> n" "n < days_in_years y"
proof -
  define q where "q = 400 * n div 146097"
  have "146097 * q \<le> 400 * n" "400 * n < 146097 * q + 146097"
    using pos_mod_bound [of 146097 "400 * n"] pos_mod_sign [of 146097 "400 * n"]
      div_mult_mod_eq [of "400 * n" 146097] unfolding q_def by linarith+
  moreover have "days_in_years (q + 2) \<ge> days_in_years (q + 1) + 365"
    using days_in_years_step [of "q + 2"] by (simp add: add.commute split: if_splits)
  ultimately show "days_in_years (y - 1) \<le> n" "n < days_in_years y"
    using assms days_in_years_bounds [of q] days_in_years_bounds [of "q + 1"]
    by (auto simp: year_of_def Let_def q_def [symmetric] add.commute split: if_splits)
qed

lemma month_of_bounds:
  assumes "0 \<le> k" "k < (if leap then 366 else 365)" and m: "m = month_of leap k"
  shows "1 \<le> m" "m \<le> 12" "days_before_month leap m \<le> k"
    "k < days_before_month leap m + (if m = 2 then if leap then 29 else 28
      else if m = 4 \<or> m = 6 \<or> m = 9 \<or> m = 11 then 30 else 31)"
proof -
  have "1 \<le> m \<and> m \<le> 12 \<and> days_before_month leap m \<le> k \<and>
    k < days_before_month leap m + (if m = 2 then if leap then 29 else 28
      else if m = 4 \<or> m = 6 \<or> m = 9 \<or> m = 11 then 30 else 31)"
    using assms(1,2) unfolding m month_of_def
    by (cases leap) (simp_all add: days_before_month_def)
  then show "1 \<le> m" "m \<le> 12" "days_before_month leap m \<le> k"
    "k < days_before_month leap m + (if m = 2 then if leap then 29 else 28
      else if m = 4 \<or> m = 6 \<or> m = 9 \<or> m = 11 then 30 else 31)" by blast+
qed

lemma sys_days_civil [simp]: "sys_days (civil z) = z"
  by (simp add: sys_days_def civil_def Let_def)

lemma civil_ok [simp]: "ymd_ok (civil z)"
proof -
  define n where "n = z + 719162"
  define y where "y = year_of n"
  define k where "k = n - days_in_years (y - 1)"
  have "0 \<le> k" "k < (if is_leap y then 366 else 365)"
    using year_of_bounds [OF y_def] days_in_years_step [of y] by (simp_all add: k_def)
  note m = month_of_bounds [OF this refl]
  have "civil z = ymd y (month_of (is_leap y) k) (k - days_before_month (is_leap y) (month_of (is_leap y) k) + 1)"
    by (simp add: civil_def Let_def n_def [symmetric] y_def [symmetric] k_def [symmetric])
  then show ?thesis using m by (simp add: ymd_ok_def last_day_def split: if_splits)
qed

text \<open>Day numbers grow with dates, so each is the number of one date only.\<close>

lemma days_in_years_mono: "y \<le> y' \<Longrightarrow> days_in_years y \<le> days_in_years y'"
proof (induction y' rule: int_ge_induct)
  case (step i)
  then show ?case using days_in_years_step [of "i + 1"] by (simp split: if_splits)
qed simp

lemma year_of_unique: "days_in_years (y - 1) \<le> n \<Longrightarrow> n < days_in_years y \<Longrightarrow> year_of n = y"
  using year_of_bounds [OF refl, of n] days_in_years_mono [of "year_of n" "y - 1"]
    days_in_years_mono [of y "year_of n - 1"]
  by (cases "year_of n" y rule: linorder_cases) auto

lemma day_of_year_bounds:
  assumes "ymd_ok d"
  defines "k \<equiv> days_before_month (is_leap (y_year d)) (y_month d) + y_day d - 1"
  shows "0 \<le> k" "k < (if is_leap (y_year d) then 366 else 365)" "month_of (is_leap (y_year d)) k = y_month d"
proof -
  have "y_month d \<in> {1, 2, 3, 4, 5, 6, 7, 8, 9, 10, 11, 12}" using assms(1) by (simp add: ymd_ok_def) presburger
  then have "0 \<le> k \<and> k < (if is_leap (y_year d) then 366 else 365) \<and> month_of (is_leap (y_year d)) k = y_month d"
    using assms(1) unfolding k_def ymd_ok_def last_day_def month_of_def
    by (elim insertE emptyE) (simp_all add: days_before_month_def split: if_splits)
  then show "0 \<le> k" "k < (if is_leap (y_year d) then 366 else 365)" "month_of (is_leap (y_year d)) k = y_month d"
    by blast+
qed

lemma civil_sys_days: "ymd_ok d \<Longrightarrow> civil (sys_days d) = d"
proof -
  assume ok: "ymd_ok d"
  note b = day_of_year_bounds [OF ok]
  have "year_of (sys_days d + 719162) = y_year d"
    using b days_in_years_step [of "y_year d"]
    by (intro year_of_unique) (simp_all add: sys_days_def)
  then show ?thesis using b(3) by (simp add: civil_def Let_def sys_days_def add_diff_eq)
qed

lemma sys_days_inject: "ymd_ok d \<Longrightarrow> ymd_ok e \<Longrightarrow> sys_days d = sys_days e \<longleftrightarrow> d = e"
  using civil_sys_days by metis

text \<open>Adding days within a month, and stepping a month on.\<close>

lemma sys_days_day: "sys_days (ymd y m d) = sys_days (ymd y m 1) + d - 1"
  by (simp add: sys_days_def)

lemma sys_days_month_end:
  "1 \<le> m \<Longrightarrow> m < 12 \<Longrightarrow> sys_days (ymd y (m + 1) 1) = sys_days (ymd y m 1) + last_day y m"
proof -
  assume "1 \<le> m" "m < 12"
  then have "m \<in> {1, 2, 3, 4, 5, 6, 7, 8, 9, 10, 11}" by simp presburger
  then show ?thesis
    by (elim insertE emptyE) (simp_all add: sys_days_def days_before_month_def last_day_def)
qed

lemma weekday_of_bounds [simp]: "0 \<le> weekday_of z" "weekday_of z < 7"
  by (simp_all add: weekday_of_def)

section \<open>Broken-down time\<close>

text \<open>
  \<open>struct tm\<close>; \<open>tm_isdst\<close> is -1 wherever the program calls \<open>mktime\<close> and is left out,
  like \<open>tm_yday\<close>, which it does not read.
\<close>

record tm =
  tm_year :: int
  tm_mon :: int
  tm_mday :: int
  tm_hour :: int
  tm_min :: int
  tm_sec :: int
  tm_wday :: int

definition tm_zero :: tm where
  "tm_zero = \<lparr>tm_year = 0, tm_mon = 0, tm_mday = 0, tm_hour = 0, tm_min = 0, tm_sec = 0, tm_wday = 0\<rparr>"

definition gmtime :: "int \<Rightarrow> tm" where
  "gmtime t =
     (let z = t div 86400; d = civil z; r = t mod 86400
      in \<lparr>tm_year = y_year d - 1900, tm_mon = y_month d - 1, tm_mday = y_day d,
          tm_hour = r div 3600, tm_min = r mod 3600 div 60, tm_sec = r mod 60, tm_wday = weekday_of z\<rparr>)"

text \<open>\<open>timegm\<close> takes fields out of range as well; the weekday is not read.\<close>

definition timegm :: "tm \<Rightarrow> int" where
  "timegm t =
     86400 * (sys_days (ymd (tm_year t + 1900 + tm_mon t div 12) (tm_mon t mod 12 + 1) 1) + tm_mday t - 1)
     + 3600 * tm_hour t + 60 * tm_min t + tm_sec t"

definition tm_date :: "tm \<Rightarrow> ymd" where
  "tm_date t = ymd (tm_year t + 1900) (tm_mon t + 1) (tm_mday t)"

definition tm_ok :: "tm \<Rightarrow> bool" where
  "tm_ok t \<longleftrightarrow> ymd_ok (tm_date t) \<and> 0 \<le> tm_hour t \<and> tm_hour t < 24 \<and> 0 \<le> tm_min t \<and> tm_min t < 60 \<and>
     0 \<le> tm_sec t \<and> tm_sec t < 60 \<and> tm_wday t = weekday_of (sys_days (tm_date t))"

lemma timegm_ok:
  assumes "ymd_ok (tm_date t)"
  shows "timegm t = 86400 * sys_days (tm_date t) + 3600 * tm_hour t + 60 * tm_min t + tm_sec t"
proof -
  have "tm_mon t div 12 = 0" "tm_mon t mod 12 = tm_mon t"
    using assms by (simp_all add: tm_date_def ymd_ok_def)
  then show ?thesis
    by (simp add: timegm_def tm_date_def sys_days_day [of _ _ "tm_mday t"])
qed

lemma tm_date_gmtime [simp]: "tm_date (gmtime t) = civil (t div 86400)"
  by (simp add: tm_date_def gmtime_def Let_def)

lemma seconds_split: "3600 * (r div 3600) + 60 * (r mod 3600 div 60) + r mod 60 = r" for r :: int
proof -
  have "r mod 60 = r mod 3600 mod 60" by (simp add: mod_mod_cancel)
  then show ?thesis using div_mult_mod_eq [of r 3600] div_mult_mod_eq [of "r mod 3600" 60] by simp
qed

lemma timegm_gmtime [simp]: "timegm (gmtime t) = t"
proof -
  have "timegm (gmtime t) = 86400 * (t div 86400) +
      (3600 * (t mod 86400 div 3600) + 60 * (t mod 86400 mod 3600 div 60) + t mod 86400 mod 60)"
    by (simp only: timegm_ok civil_ok tm_date_gmtime sys_days_civil) (simp only: gmtime_def Let_def tm.simps add.assoc)
  then show ?thesis unfolding seconds_split by simp
qed

lemma gmtime_fields:
  "tm_hour (gmtime t) = t mod 86400 div 3600" "tm_min (gmtime t) = t mod 86400 mod 3600 div 60"
  "tm_sec (gmtime t) = t mod 86400 mod 60" "tm_wday (gmtime t) = weekday_of (t div 86400)"
  by (simp_all only: gmtime_def Let_def tm.simps)

lemma div_bounds: "0 \<le> r \<Longrightarrow> 0 < k \<Longrightarrow> r < n * k \<Longrightarrow> 0 \<le> r div k \<and> r div k < n" for r k n :: int
proof (rule conjI)
  assume r: "0 \<le> r" "0 < k" "r < n * k"
  then show "0 \<le> r div k" by (simp add: pos_imp_zdiv_nonneg_iff)
  obtain s where "r = k * (r div k) + s" "0 \<le> s" using div_rest [OF r(2)] by blast
  moreover have "n * k = k * n" by (rule mult.commute)
  ultimately have "k * (r div k) < k * n" using r(3) by linarith
  then show "r div k < n" using r(2) by simp
qed

lemma gmtime_ok [simp]: "tm_ok (gmtime t)"
proof -
  have r: "0 \<le> t mod 86400" "t mod 86400 < 24 * 3600"
    "0 \<le> t mod 86400 mod 3600" "t mod 86400 mod 3600 < 60 * 60" "0 \<le> t mod 86400 mod 60" "t mod 86400 mod 60 < 60"
    using pos_mod_bound [of 86400 t] pos_mod_bound [of 3600 "t mod 86400"] pos_mod_bound [of 60 "t mod 86400"]
    by (simp_all add: pos_mod_sign)
  show ?thesis
    unfolding tm_ok_def gmtime_fields tm_date_gmtime sys_days_civil
    using div_bounds [OF r(1) _ r(2)] div_bounds [OF r(3) _ r(4)] r(5,6) by (simp only: civil_ok zero_less_numeral simp_thms)
qed

text \<open>A valid broken-down time is the one of its second.\<close>

lemma gmtime_timegm: "tm_ok t \<Longrightarrow> gmtime (timegm t) = t"
proof -
  assume ok: "tm_ok t"
  define r where "r = 3600 * tm_hour t + 60 * tm_min t + tm_sec t"
  have r: "0 \<le> r" "r < 86400" using ok by (simp_all add: tm_ok_def r_def)
  have t: "timegm t = 86400 * sys_days (tm_date t) + r"
    using ok by (simp add: timegm_ok tm_ok_def r_def)
  have f: "0 \<le> tm_hour t" "0 \<le> tm_min t" "tm_min t < 60" "0 \<le> tm_sec t" "tm_sec t < 60"
    using ok by (simp_all only: tm_ok_def)
  have "r = 3600 * tm_hour t + (60 * tm_min t + tm_sec t)" "0 \<le> 60 * tm_min t + tm_sec t"
    "60 * tm_min t + tm_sec t < 3600"
    using f by (simp_all add: r_def)
  then have h: "r div 3600 = tm_hour t" "r mod 3600 = 60 * tm_min t + tm_sec t"
    by (rule int_div_pos_eq, rule int_mod_pos_eq)
  have m: "r mod 3600 div 60 = tm_min t"
    unfolding h by (rule int_div_pos_eq [of _ _ _ "tm_sec t"]) (use f in simp_all)
  have s: "r mod 60 = tm_sec t"
    by (rule int_mod_pos_eq [of _ _ "60 * tm_hour t + tm_min t"]) (use f in \<open>simp_all add: r_def\<close>)
  have d: "timegm t div 86400 = sys_days (tm_date t)" "timegm t mod 86400 = r"
    using t r by (rule int_div_pos_eq, rule int_mod_pos_eq)
  have "gmtime (timegm t) = \<lparr>tm_year = y_year (tm_date t) - 1900, tm_mon = y_month (tm_date t) - 1,
      tm_mday = y_day (tm_date t), tm_hour = tm_hour t, tm_min = tm_min t, tm_sec = tm_sec t,
      tm_wday = weekday_of (sys_days (tm_date t))\<rparr>"
    using ok unfolding gmtime_def Let_def d m h(1) s tm_ok_def by (simp only: civil_sys_days)
  then show ?thesis using ok by (simp add: tm_ok_def) (simp add: tm_date_def)
qed

section \<open>Time zones\<close>

text \<open>
  A time zone: the offset from UTC in force at an instant, and the instant that \<open>mktime\<close>
  (with \<open>tm_isdst\<close> -1) picks for a wall clock reading, given as seconds since the epoch
  on that clock.
\<close>

record zone =
  utc_offset :: "int \<Rightarrow> int"
  wall_instant :: "int \<Rightarrow> int"

definition wall_clock :: "zone \<Rightarrow> int \<Rightarrow> int" where
  "wall_clock z t = t + utc_offset z t"

definition localtime :: "zone \<Rightarrow> int \<Rightarrow> tm" where
  "localtime z t = gmtime (wall_clock z t)"

definition mktime :: "zone \<Rightarrow> tm \<Rightarrow> int" where
  "mktime z t = wall_instant z (timegm t)"

text \<open>
  A second call on the structure the first one wrote back, with another year: the flag for
  summer time is then set, and the reading is taken with the offset of the first answer.
\<close>

definition mktime_again :: "zone \<Rightarrow> int \<Rightarrow> tm \<Rightarrow> int" where
  "mktime_again z first t = timegm t - utc_offset z first"

text \<open>
  What the program relies on: a reading the clock shows is resolved to an instant when it
  shows it; the local date never goes back; and a reading of an earlier date than the
  current one lies in the past, also one that the clock skipped. This holds for zones that
  do not change their offset around midnight.
\<close>

locale time_zone =
  fixes z :: zone
  assumes wall_right: "wall_clock z t = s \<Longrightarrow> wall_clock z (wall_instant z s) = s"
    and dates_grow: "t \<le> u \<Longrightarrow> wall_clock z t div 86400 \<le> wall_clock z u div 86400"
    and earlier_date: "s div 86400 < wall_clock z t div 86400 \<Longrightarrow> wall_instant z s < t"
begin

lemma mktime_localtime: "localtime z (mktime z (localtime z t)) = localtime z t"
  by (simp add: localtime_def mktime_def wall_right)

end

section \<open>Zones with summer time\<close>

text \<open>
  A zone with a standard time \<open>std\<close> ahead of UTC, and summer time an hour ahead of it
  from day to day: \<open>summer d\<close> holds for the days on which it is in force, and changes take
  effect \<open>change\<close> seconds after midnight UTC. A reading that is shown in standard time is
  taken as standard time (the second pass of a repeated hour), one the clock skips counts
  in standard time, too.
\<close>

definition is_dst :: "int \<Rightarrow> (int \<Rightarrow> bool) \<Rightarrow> int \<Rightarrow> bool" where
  "is_dst change summer t = summer ((t - change) div 86400)"

definition summer_zone :: "int \<Rightarrow> int \<Rightarrow> (int \<Rightarrow> bool) \<Rightarrow> zone" where
  "summer_zone std change summer =
     \<lparr>utc_offset = (\<lambda>t. if is_dst change summer t then std + 3600 else std),
      wall_instant = (\<lambda>s. if is_dst change summer (s - std) \<and> is_dst change summer (s - std - 3600)
        then s - std - 3600 else s - std)\<rparr>"

text \<open>The rule of Central Europe: from the last Sunday of March to that of October, 01:00 UTC.\<close>

definition last_sunday :: "int \<Rightarrow> int \<Rightarrow> int" where
  "last_sunday y m = (let e = sys_days (ymd y m 31) in e - weekday_of e)"

definition eu_summer :: "int \<Rightarrow> bool" where
  "eu_summer d = (let y = y_year (civil d) in last_sunday y 3 \<le> d \<and> d < last_sunday y 10)"

definition central_europe :: zone where
  "central_europe = summer_zone 3600 3600 eu_summer"

lemma change_between:
  assumes "is_dst c S t \<noteq> is_dst c S u" "t < u"
  obtains b where "t < b" "b \<le> u" "(b - c) mod 86400 = 0"
proof -
  define k where "k = (u - c) div 86400"
  obtain r where u: "u - c = 86400 * k + r" "0 \<le> r" "r < 86400" using div_rest [of 86400 "u - c"] by (auto simp: k_def)
  have "t < 86400 * k + c"
  proof (rule ccontr)
    assume "\<not> t < 86400 * k + c"
    then have "(t - c) div 86400 = k"
      using u assms(2) by (intro int_div_pos_eq [of _ _ _ "t - c - 86400 * k"]) simp_all
    then show False using assms(1) by (simp add: is_dst_def k_def)
  qed
  then show ?thesis using u by (intro that [of "86400 * k + c"]) simp_all
qed

lemma same_date:
  fixes b c std x y :: int
  assumes "(b - c) mod 86400 = 0" "(std + c) mod 86400 + 7200 \<le> 86400"
    "b + std \<le> x" "x < b + std + 7200" "b + std \<le> y" "y < b + std + 7200"
  shows "x div 86400 = y div 86400"
proof -
  define k where "k = (std + c) div 86400"
  obtain r where r: "std + c = 86400 * k + r" "0 \<le> r" "r + 7200 \<le> 86400"
    using assms(2) by (intro that [of "(std + c) mod 86400"]) (simp_all add: k_def)
  obtain j where "b - c = 86400 * j" using assms(1) by (auto simp: mod_eq_0_iff_dvd elim: dvdE)
  then have b: "b + std = 86400 * (j + k) + r" using r(1) by simp
  have "w div 86400 = j + k" if "b + std \<le> w" "w < b + std + 7200" for w
    using that b r by (intro int_div_pos_eq [of _ _ _ "w - 86400 * (j + k)"]) simp_all
  then show ?thesis using assms(3-6) by metis
qed

lemma summer_zone_law:
  assumes p: "(std + c) mod 86400 + 7200 \<le> 86400"
  shows "time_zone (summer_zone std c S)"
proof
  fix s t u
  let ?z = "summer_zone std c S"
  have wall: "wall_clock ?z t = t + std + (if is_dst c S t then 3600 else 0)" for t
    by (simp add: summer_zone_def wall_clock_def)
  have instant: "wall_instant ?z s = (if is_dst c S (s - std) \<and> is_dst c S (s - std - 3600) then s - std - 3600 else s - std)"
    by (simp add: summer_zone_def)
  show "wall_clock ?z t = s \<Longrightarrow> wall_clock ?z (wall_instant ?z s) = s"
    by (auto simp: summer_zone_def wall_clock_def split: if_splits)
  show "wall_clock ?z t div 86400 \<le> wall_clock ?z u div 86400" if "t \<le> u"
  proof (cases "wall_clock ?z t \<le> wall_clock ?z u")
    case False
    then have d: "is_dst c S t \<noteq> is_dst c S u" "t < u" "u < t + 3600" "is_dst c S t" "\<not> is_dst c S u"
      using that by (auto simp: wall split: if_splits intro: le_neq_trans)
    obtain b where "t < b" "b \<le> u" "(b - c) mod 86400 = 0" by (rule change_between [OF d(1,2)])
    then show ?thesis using d same_date [of b c std "wall_clock ?z t" "wall_clock ?z u"] p by (simp add: wall)
  qed (rule zdiv_mono1, simp_all)
  show "wall_instant ?z s < t" if "s div 86400 < wall_clock ?z t div 86400"
  proof (rule ccontr)
    assume t: "\<not> wall_instant ?z s < t"
    have "s < wall_clock ?z t" using that zdiv_mono1 [of "wall_clock ?z t" s 86400] by linarith
    then have d: "is_dst c S t" "t \<le> s - std" "s - std < t + 3600" and n: "\<not> is_dst c S (s - std) \<or> \<not> is_dst c S (s - std - 3600)"
      using t unfolding wall instant by (simp_all split: if_splits)
    have "s div 86400 = wall_clock ?z t div 86400"
    proof (cases "is_dst c S (s - std)")
      case False
      then have "is_dst c S t \<noteq> is_dst c S (s - std)" "t < s - std" using d by (auto intro: le_neq_trans)
      from change_between [OF this] obtain b where "t < b" "b \<le> s - std" "(b - c) mod 86400 = 0" .
      then show ?thesis using d same_date [of b c std s "wall_clock ?z t"] p by (simp add: wall)
    next
      case True
      with n d have "is_dst c S (s - std - 3600) \<noteq> is_dst c S t" "s - std - 3600 < t" by simp_all
      from change_between [OF this] obtain b where "s - std - 3600 < b" "b \<le> t" "(b - c) mod 86400 = 0" .
      then show ?thesis using d same_date [of b c std s "wall_clock ?z t"] p by (simp add: wall)
    qed
    then show False using that by simp
  qed
qed

interpretation central_europe: time_zone central_europe
  unfolding central_europe_def by (rule summer_zone_law) simp

end
