(* ===== verification/Wow_Time.thy ===== *)
theory Wow_Time
  imports Calendar_Time Byte_Buffer_Codec "HOL-Library.Signed_Division"
begin

text \<open>
  The packed date of the client protocol (src/server/game/Time/WowTime.h, WowTime.cpp):
  every field but the holiday offset may be unset, which is -1. A failed \<open>ASSERT\<close> of a
  setter is \<open>None\<close>. The fields are \<open>int32\<close> and \<open>int8\<close>, read as integers.
\<close>

section \<open>The fields\<close>

record WowTime =
  wt_year :: int
  wt_month :: int
  wt_monthDay :: int
  wt_weekDay :: int
  wt_hour :: int
  wt_minute :: int
  wt_flags :: int
  wt_holidayOffset :: int

definition new_WowTime :: WowTime where
  "new_WowTime = \<lparr>wt_year = -1, wt_month = -1, wt_monthDay = -1, wt_weekDay = -1, wt_hour = -1,
     wt_minute = -1, wt_flags = -1, wt_holidayOffset = 0\<rparr>"

definition SetYear :: "int \<Rightarrow> WowTime \<Rightarrow> WowTime option" where
  "SetYear year w = (if year = -1 \<or> year \<ge> 0 \<and> year < 32 then Some (w\<lparr>wt_year := year\<rparr>) else None)"

definition SetMonth :: "int \<Rightarrow> WowTime \<Rightarrow> WowTime option" where
  "SetMonth month w = (if month = -1 \<or> month \<ge> 0 \<and> month < 12 then Some (w\<lparr>wt_month := month\<rparr>) else None)"

definition SetMonthDay :: "int \<Rightarrow> WowTime \<Rightarrow> WowTime option" where
  "SetMonthDay monthDay w =
     (if monthDay = -1 \<or> monthDay \<ge> 0 \<and> monthDay < 32 then Some (w\<lparr>wt_monthDay := monthDay\<rparr>) else None)"

definition SetWeekDay :: "int \<Rightarrow> WowTime \<Rightarrow> WowTime option" where
  "SetWeekDay weekDay w =
     (if weekDay = -1 \<or> weekDay \<ge> 0 \<and> weekDay < 7 then Some (w\<lparr>wt_weekDay := weekDay\<rparr>) else None)"

definition SetHour :: "int \<Rightarrow> WowTime \<Rightarrow> WowTime option" where
  "SetHour hour w = (if hour = -1 \<or> hour \<ge> 0 \<and> hour < 24 then Some (w\<lparr>wt_hour := hour\<rparr>) else None)"

definition SetMinute :: "int \<Rightarrow> WowTime \<Rightarrow> WowTime option" where
  "SetMinute minute w =
     (if minute = -1 \<or> minute \<ge> 0 \<and> minute < 60 then Some (w\<lparr>wt_minute := minute\<rparr>) else None)"

definition SetFlags :: "int \<Rightarrow> WowTime \<Rightarrow> WowTime option" where
  "SetFlags flags w = (if flags = -1 \<or> flags \<ge> 0 \<and> flags < 3 then Some (w\<lparr>wt_flags := flags\<rparr>) else None)"

definition SetHolidayOffset :: "int \<Rightarrow> WowTime \<Rightarrow> WowTime" where
  "SetHolidayOffset holidayOffset w = w\<lparr>wt_holidayOffset := holidayOffset\<rparr>"

section \<open>The packed form\<close>

definition GetPackedTime :: "WowTime \<Rightarrow> u32" where
  "GetPackedTime w = word_of_int
     (push_bit 24 ((wt_year w smod 100) AND 0x1F) OR push_bit 20 (wt_month w AND 0xF) OR
      push_bit 14 (wt_monthDay w AND 0x3F) OR push_bit 11 (wt_weekDay w AND 0x7) OR
      push_bit 6 (wt_hour w AND 0x1F) OR (wt_minute w AND 0x3F) OR push_bit 29 (wt_flags w AND 0x3))"

definition unset_at :: "int \<Rightarrow> int \<Rightarrow> int" where
  "unset_at k x = (if x = k then -1 else x)"

definition SetPackedTime :: "u32 \<Rightarrow> WowTime \<Rightarrow> WowTime" where
  "SetPackedTime p w =
     w\<lparr>wt_year := unset_at 31 (uint (drop_bit 24 p AND 0x1F)),
       wt_month := unset_at 15 (uint (drop_bit 20 p AND 0xF)),
       wt_monthDay := unset_at 63 (uint (drop_bit 14 p AND 0x3F)),
       wt_weekDay := unset_at 7 (uint (drop_bit 11 p AND 0x7)),
       wt_hour := unset_at 31 (uint (drop_bit 6 p AND 0x1F)),
       wt_minute := unset_at 63 (uint (p AND 0x3F)),
       wt_flags := unset_at 3 (uint (drop_bit 29 p AND 0x3))\<rparr>"

text \<open>\<open>operator<<\<close> and \<open>operator>>\<close>; the latter writes into a time that is there.\<close>

definition put_WowTime :: "WowTime \<Rightarrow> writer" where
  "put_WowTime w = put_word (GetPackedTime w)"

definition get_WowTime :: "WowTime \<Rightarrow> WowTime reader" where
  "get_WowTime w = read_map (\<lambda>p. SetPackedTime p w) get_word"

section \<open>Unix time\<close>

definition GetUnixTimeFromUtcTime :: "WowTime \<Rightarrow> int" where
  "GetUnixTimeFromUtcTime w =
     (if wt_year w < 0 \<or> wt_month w < 0 \<or> wt_monthDay w < 0 then 0
      else timegm (tm_zero
        \<lparr>tm_year := wt_year w + 100, tm_mon := wt_month w, tm_mday := wt_monthDay w + 1,
         tm_hour := (if wt_hour w \<ge> 0 then wt_hour w else 0),
         tm_min := (if wt_hour w \<ge> 0 \<and> wt_minute w \<ge> 0 then wt_minute w else 0),
         tm_wday := wt_weekDay w\<rparr>))"

definition SetUtcTimeFromUnixTime :: "int \<Rightarrow> WowTime \<Rightarrow> WowTime" where
  "SetUtcTimeFromUnixTime unixTime w =
     (let buf = gmtime unixTime in
      w\<lparr>wt_year := (tm_year buf - 100) smod 100, wt_month := tm_mon buf, wt_monthDay := tm_mday buf - 1,
        wt_weekDay := tm_wday buf, wt_hour := tm_hour buf, wt_minute := tm_min buf\<rparr>)"

definition add_seconds :: "int \<Rightarrow> WowTime \<Rightarrow> WowTime" where
  "add_seconds seconds w = SetUtcTimeFromUnixTime (GetUnixTimeFromUtcTime w + seconds) w"

definition sub_seconds :: "int \<Rightarrow> WowTime \<Rightarrow> WowTime" where
  "sub_seconds seconds w = SetUtcTimeFromUnixTime (GetUnixTimeFromUtcTime w - seconds) w"

section \<open>Comparison\<close>

datatype strong_ordering = Less | Equal | Greater

definition compare :: "int \<Rightarrow> int \<Rightarrow> strong_ordering" where
  "compare a b = (if a < b then Less else if a = b then Equal else Greater)"

definition compareFieldIfSet :: "(WowTime \<Rightarrow> int) \<Rightarrow> WowTime \<Rightarrow> WowTime \<Rightarrow> strong_ordering" where
  "compareFieldIfSet field l r = (if field l < 0 \<or> field r < 0 then Equal else compare (field l) (field r))"

text \<open>\<open>operator<=>\<close>: the first field both times have and differ in decides.\<close>

fun compare_fields :: "(WowTime \<Rightarrow> int) list \<Rightarrow> WowTime \<Rightarrow> WowTime \<Rightarrow> strong_ordering" where
  "compare_fields [] l r = Equal"
| "compare_fields (f # fs) l r =
     (let cmp = compareFieldIfSet f l r in if cmp \<noteq> Equal then cmp else compare_fields fs l r)"

definition compare_times :: "WowTime \<Rightarrow> WowTime \<Rightarrow> strong_ordering" where
  "compare_times = compare_fields [wt_year, wt_month, wt_monthDay, wt_weekDay, wt_hour, wt_minute]"

definition time_less :: "WowTime \<Rightarrow> WowTime \<Rightarrow> bool" where
  "time_less l r \<longleftrightarrow> compare_times l r = Less"

definition time_greater :: "WowTime \<Rightarrow> WowTime \<Rightarrow> bool" where
  "time_greater l r \<longleftrightarrow> compare_times l r = Greater"

definition time_equal :: "WowTime \<Rightarrow> WowTime \<Rightarrow> bool" where
  "time_equal l r \<longleftrightarrow> compare_times l r = Equal"

definition IsInRange :: "WowTime \<Rightarrow> WowTime \<Rightarrow> WowTime \<Rightarrow> bool" where
  "IsInRange w start stop \<longleftrightarrow>
     (if time_greater start stop then \<not> time_less w start \<or> time_less w stop
      else \<not> time_less w start \<and> time_less w stop)"

section \<open>What the packed form keeps\<close>

text \<open>The range of a field: unset, or below a bound. The setters keep every field in its range.\<close>

definition in_range :: "int \<Rightarrow> int \<Rightarrow> bool" where
  "in_range n x \<longleftrightarrow> x = -1 \<or> 0 \<le> x \<and> x < n"

definition wt_ok :: "WowTime \<Rightarrow> bool" where
  "wt_ok w \<longleftrightarrow> in_range 32 (wt_year w) \<and> in_range 12 (wt_month w) \<and> in_range 32 (wt_monthDay w) \<and>
     in_range 7 (wt_weekDay w) \<and> in_range 24 (wt_hour w) \<and> in_range 60 (wt_minute w) \<and> in_range 3 (wt_flags w)"

lemma setters_ok:
  "wt_ok w \<Longrightarrow> SetYear x w = Some w' \<Longrightarrow> wt_ok w'"
  "wt_ok w \<Longrightarrow> SetMonth x w = Some w' \<Longrightarrow> wt_ok w'"
  "wt_ok w \<Longrightarrow> SetMonthDay x w = Some w' \<Longrightarrow> wt_ok w'"
  "wt_ok w \<Longrightarrow> SetWeekDay x w = Some w' \<Longrightarrow> wt_ok w'"
  "wt_ok w \<Longrightarrow> SetHour x w = Some w' \<Longrightarrow> wt_ok w'"
  "wt_ok w \<Longrightarrow> SetMinute x w = Some w' \<Longrightarrow> wt_ok w'"
  "wt_ok w \<Longrightarrow> SetFlags x w = Some w' \<Longrightarrow> wt_ok w'"
  unfolding SetYear_def SetMonth_def SetMonthDay_def SetWeekDay_def SetHour_def SetMinute_def SetFlags_def
  by (clarsimp simp: wt_ok_def in_range_def simp del: disj_not1 split: if_split_asm)+

lemma and_masks:
  "x AND 0x1F = take_bit 5 (x :: int)" "x AND 0xF = take_bit 4 x" "x AND 0x3F = take_bit 6 x"
  "x AND 0x7 = take_bit 3 x" "x AND 0x3 = take_bit 2 x"
proof -
  have "(0x1F :: int) = mask 5" "(0xF :: int) = mask 4" "(0x3F :: int) = mask 6" "(0x7 :: int) = mask 3"
    "(0x3 :: int) = mask 2" by (simp_all add: mask_numeral)
  then show "x AND 0x1F = take_bit 5 x" "x AND 0xF = take_bit 4 x" "x AND 0x3F = take_bit 6 x"
    "x AND 0x7 = take_bit 3 x" "x AND 0x3 = take_bit 2 x"
    by (simp_all only: take_bit_eq_mask)
qed

lemma and_word_masks:
  "uint (p AND 0x1F) = take_bit 5 (uint (p :: u32))" "uint (p AND 0xF) = take_bit 4 (uint p)"
  "uint (p AND 0x3F) = take_bit 6 (uint p)" "uint (p AND 0x7) = take_bit 3 (uint p)"
  "uint (p AND 0x3) = take_bit 2 (uint p)"
  by (simp_all only: uint_and flip: and_masks) simp_all

definition pack :: "int \<Rightarrow> int \<Rightarrow> int \<Rightarrow> int \<Rightarrow> int \<Rightarrow> int \<Rightarrow> int \<Rightarrow> int" where
  "pack y m d k h i f = push_bit 24 (take_bit 5 y) OR push_bit 20 (take_bit 4 m) OR push_bit 14 (take_bit 6 d) OR
     push_bit 11 (take_bit 3 k) OR push_bit 6 (take_bit 5 h) OR take_bit 6 i OR push_bit 29 (take_bit 2 f)"

lemma pack_fields:
  fixes y m d k h i f :: int
  defines "p \<equiv> pack y m d k h i f"
  shows "take_bit 5 (drop_bit 24 (take_bit 32 p)) = take_bit 5 y"
    "take_bit 4 (drop_bit 20 (take_bit 32 p)) = take_bit 4 m"
    "take_bit 6 (drop_bit 14 (take_bit 32 p)) = take_bit 6 d"
    "take_bit 3 (drop_bit 11 (take_bit 32 p)) = take_bit 3 k"
    "take_bit 5 (drop_bit 6 (take_bit 32 p)) = take_bit 5 h"
    "take_bit 6 (take_bit 32 p) = take_bit 6 i"
    "take_bit 2 (drop_bit 29 (take_bit 32 p)) = take_bit 2 f"
  unfolding p_def pack_def
  by (rule bit_eqI;
      simp only: bit_take_bit_iff bit_drop_bit_eq comp_def bit_or_iff bit_push_bit_iff;
      simp cong: conj_cong)+

lemma unset_take_bit:
  assumes "in_range n x" "n \<le> 2 ^ k - 1"
  shows "unset_at (2 ^ k - 1) (take_bit k x) = x"
proof (cases "x = -1")
  case True
  then have "take_bit k x = 2 ^ k - 1" by (simp only: take_bit_minus_one_eq_mask mask_eq_exp_minus_1)
  then show ?thesis using True by (simp only: unset_at_def refl if_True)
next
  case False
  then have "0 \<le> x" "x < 2 ^ k - 1" using assms by (auto simp: in_range_def)
  then have "take_bit k x = x" "x \<noteq> 2 ^ k - 1" by (auto intro: take_bit_int_eq_self)
  then show ?thesis by (simp only: unset_at_def if_False)
qed

lemma GetPackedTime_pack:
  "uint (GetPackedTime w) = take_bit 32 (pack (wt_year w smod 100) (wt_month w) (wt_monthDay w) (wt_weekDay w)
     (wt_hour w) (wt_minute w) (wt_flags w))"
  unfolding GetPackedTime_def pack_def and_masks by (simp add: uint_word_of_int_eq)

text \<open>The year 31 passes the setter and is packed as the mark of an unset year.\<close>

definition packable :: "WowTime \<Rightarrow> bool" where
  "packable w \<longleftrightarrow> wt_ok w \<and> wt_year w \<noteq> 31"

lemma smod_small: "-1 \<le> y \<Longrightarrow> y < 32 \<Longrightarrow> y smod 100 = y" for y :: int
  by (cases "y = -1") (auto simp: signed_modulo_int_def sgn_if)

lemma SetPackedTime_fields:
  "SetPackedTime p w =
     w\<lparr>wt_year := unset_at 31 (take_bit 5 (drop_bit 24 (uint p))),
       wt_month := unset_at 15 (take_bit 4 (drop_bit 20 (uint p))),
       wt_monthDay := unset_at 63 (take_bit 6 (drop_bit 14 (uint p))),
       wt_weekDay := unset_at 7 (take_bit 3 (drop_bit 11 (uint p))),
       wt_hour := unset_at 31 (take_bit 5 (drop_bit 6 (uint p))),
       wt_minute := unset_at 63 (take_bit 6 (uint p)),
       wt_flags := unset_at 3 (take_bit 2 (drop_bit 29 (uint p)))\<rparr>"
proof -
  have "uint (drop_bit n p) = drop_bit n (uint p)" for n
    using take_bit_int_eq_self [of "uint p" 32] uint_lt2p [of p] by (simp add: unsigned_drop_bit_eq)
  then show ?thesis unfolding SetPackedTime_def and_word_masks by (simp only:)
qed

lemma unpack_pack:
  assumes "wt_ok w"
  shows "SetPackedTime (GetPackedTime w) v =
     w\<lparr>wt_year := unset_at 31 (wt_year w), wt_holidayOffset := wt_holidayOffset v\<rparr>"
proof -
  note f = assms [unfolded wt_ok_def]
  have y: "-1 \<le> wt_year w" "wt_year w < 32" using f by (auto simp: in_range_def)
  have "unset_at 31 (take_bit 5 (wt_year w)) = unset_at 31 (wt_year w)"
  proof (cases "wt_year w = -1")
    case False
    then have "take_bit 5 (wt_year w) = wt_year w" using y by (intro take_bit_int_eq_self) auto
    then show ?thesis by simp
  qed (simp add: unset_at_def take_bit_minus_one_eq_mask mask_numeral)
  moreover have "unset_at 15 (take_bit 4 (wt_month w)) = wt_month w"
      "unset_at 63 (take_bit 6 (wt_monthDay w)) = wt_monthDay w" "unset_at 7 (take_bit 3 (wt_weekDay w)) = wt_weekDay w"
      "unset_at 31 (take_bit 5 (wt_hour w)) = wt_hour w" "unset_at 63 (take_bit 6 (wt_minute w)) = wt_minute w"
      "unset_at 3 (take_bit 2 (wt_flags w)) = wt_flags w"
    using f unset_take_bit [of 12 "wt_month w" 4] unset_take_bit [of 32 "wt_monthDay w" 6]
      unset_take_bit [of 7 "wt_weekDay w" 3] unset_take_bit [of 24 "wt_hour w" 5]
      unset_take_bit [of 60 "wt_minute w" 6] unset_take_bit [of 3 "wt_flags w" 2] by simp_all
  ultimately show ?thesis
    unfolding SetPackedTime_fields GetPackedTime_pack pack_fields smod_small [OF y]
    by (simp only:) simp
qed

text \<open>The operators of the buffer are a codec on packable times without a holiday offset.\<close>

interpretation wowc: codec put_WowTime "get_WowTime new_WowTime" "\<lambda>w. to_bytes (GetPackedTime w)"
  "\<lambda>w. packable w \<and> wt_holidayOffset w = 0"
proof
  fix w
  show "writes (put_WowTime w) (to_bytes (GetPackedTime w))"
    unfolding put_WowTime_def by (rule u32c.put_writes)
  assume w: "packable w \<and> wt_holidayOffset w = 0"
  have "SetPackedTime (GetPackedTime w) new_WowTime = w"
    using w by (simp add: packable_def unpack_pack unset_at_def new_WowTime_def)
  then show "reads (get_WowTime new_WowTime) (to_bytes (GetPackedTime w)) w"
    using reads_map [OF u32c.get_reads [OF TrueI], of "\<lambda>p. SetPackedTime p new_WowTime" "GetPackedTime w"]
    unfolding get_WowTime_def by simp
qed

section \<open>Times as instants\<close>

text \<open>A complete time of this century: every field set, the date and its weekday right.\<close>

definition wt_tm :: "WowTime \<Rightarrow> tm" where
  "wt_tm w = \<lparr>tm_year = wt_year w + 100, tm_mon = wt_month w, tm_mday = wt_monthDay w + 1,
     tm_hour = wt_hour w, tm_min = wt_minute w, tm_sec = 0, tm_wday = wt_weekDay w\<rparr>"

definition complete :: "WowTime \<Rightarrow> bool" where
  "complete w \<longleftrightarrow> 0 \<le> wt_year w \<and> wt_year w < 100 \<and> tm_ok (wt_tm w)"

lemma complete_fields:
  "complete w \<Longrightarrow> 0 \<le> wt_year w \<and> 0 \<le> wt_month w \<and> 0 \<le> wt_monthDay w \<and> 0 \<le> wt_weekDay w \<and>
     0 \<le> wt_hour w \<and> wt_hour w < 24 \<and> 0 \<le> wt_minute w \<and> wt_minute w < 60"
  by (auto simp: complete_def tm_ok_def wt_tm_def tm_date_def ymd_ok_def)

lemma unix_complete: "complete w \<Longrightarrow> GetUnixTimeFromUtcTime w = timegm (wt_tm w)"
  using complete_fields [of w] by (simp add: GetUnixTimeFromUtcTime_def wt_tm_def timegm_def tm_zero_def)

lemma smod_century: "0 \<le> y \<Longrightarrow> y < 100 \<Longrightarrow> y smod 100 = y" for y :: int
  by (simp add: signed_modulo_int_def sgn_if)

text \<open>The time of an instant of the century is complete and gives back its minute.\<close>

lemma SetUtc_complete:
  assumes "0 \<le> tm_year (gmtime u) - 100" "tm_year (gmtime u) - 100 < 100"
  shows "complete (SetUtcTimeFromUnixTime u w)"
    "GetUnixTimeFromUtcTime (SetUtcTimeFromUnixTime u w) = u - u mod 60"
proof -
  have t: "wt_tm (SetUtcTimeFromUnixTime u w) = (gmtime u)\<lparr>tm_sec := 0\<rparr>"
    using assms by (simp add: SetUtcTimeFromUnixTime_def wt_tm_def Let_def smod_century)
  have d: "tm_date ((gmtime u)\<lparr>tm_sec := 0\<rparr>) = tm_date (gmtime u)" by (simp add: tm_date_def)
  show c: "complete (SetUtcTimeFromUnixTime u w)"
    unfolding complete_def t using assms gmtime_ok [of u]
    by (simp add: tm_ok_def d SetUtcTimeFromUnixTime_def Let_def smod_century)
  have "u mod 86400 mod 60 = u mod 60" by (simp add: mod_mod_cancel)
  then have "timegm ((gmtime u)\<lparr>tm_sec := 0\<rparr>) = timegm (gmtime u) - u mod 60"
    by (simp add: timegm_def) (simp add: gmtime_def Let_def)
  then show "GetUnixTimeFromUtcTime (SetUtcTimeFromUnixTime u w) = u - u mod 60"
    unfolding unix_complete [OF c] t by simp
qed

lemma SetUtc_unix: "complete w \<Longrightarrow> SetUtcTimeFromUnixTime (GetUnixTimeFromUtcTime w) w = w"
  by (simp add: unix_complete SetUtcTimeFromUnixTime_def complete_def gmtime_timegm)
    (simp add: wt_tm_def smod_century)

section \<open>Comparison is chronological\<close>

lemma compare_lex:
  "0 \<le> b \<Longrightarrow> b < k \<Longrightarrow> 0 \<le> b' \<Longrightarrow> b' < k \<Longrightarrow>
     compare (k * a + b) (k * a' + b') = (if a = a' then compare b b' else compare a a')"
proof -
  assume b: "0 \<le> b" "b < k" "0 \<le> b'" "b' < k"
  have *: "k * x + k \<le> k * y" if "x < y" for x y
    using mult_left_mono [of "x + 1" y k] that b by (simp add: distrib_left)
  show ?thesis using b * [of a a'] * [of a' a]
    by (cases a a' rule: linorder_cases) (auto simp: compare_def)
qed

lemma months_apart:
  assumes "1 \<le> m" "m < m'" "m' \<le> 12"
  shows "days_before_month (is_leap y) m + last_day y m \<le> days_before_month (is_leap y) m'"
proof -
  have step: "days_before_month (is_leap y) (k + 1) = days_before_month (is_leap y) k + last_day y k"
    if "1 \<le> k" "k < 12" for k
    using sys_days_month_end [OF that, of y] by (simp add: sys_days_def)
  have pos: "0 < last_day y k" for k by (simp add: last_day_def)
  have "m' \<le> 12 \<longrightarrow> days_before_month (is_leap y) (m + 1) \<le> days_before_month (is_leap y) m'"
    using assms(2)
  proof (induction rule: int_gr_induct)
    case (step i)
    have "i < 12 \<Longrightarrow> days_before_month (is_leap y) (i + 1) = days_before_month (is_leap y) i + last_day y i"
      using sys_days_month_end [of i y] step(1) assms(1) by (simp add: sys_days_def)
    then show ?case using step(2) pos [of i] by auto
  qed simp
  then show ?thesis using step [of m] assms by simp
qed

lemma sys_days_lex:
  assumes "ymd_ok d" "ymd_ok e"
  shows "compare (sys_days d) (sys_days e) =
    (if y_year d \<noteq> y_year e then compare (y_year d) (y_year e)
     else if y_month d \<noteq> y_month e then compare (y_month d) (y_month e)
     else compare (y_day d) (y_day e))"
proof -
  have y: "sys_days a < sys_days b" if "ymd_ok a" "ymd_ok b" "y_year a < y_year b" for a b
    using day_of_year_bounds [OF that(1)] day_of_year_bounds [OF that(2)] that(3)
      days_in_years_step [of "y_year a"] days_in_years_mono [of "y_year a" "y_year b - 1"]
    by (simp add: sys_days_def)
  have m: "sys_days a < sys_days b" if "ymd_ok a" "ymd_ok b" "y_year a = y_year b" "y_month a < y_month b" for a b
    using months_apart [of "y_month a" "y_month b" "y_year b"] that by (simp add: sys_days_def ymd_ok_def)
  show ?thesis
    using y [OF assms] y [OF assms(2,1)] m [OF assms] m [OF assms(2,1)]
    by (cases "y_year d" "y_year e" rule: linorder_cases; cases "y_month d" "y_month e" rule: linorder_cases)
      (simp_all add: compare_def sys_days_def)
qed

text \<open>
  On complete times \<open>operator<=>\<close> is the order of the instants: the weekday, compared
  before the hour, never decides.
\<close>

lemma compare_complete:
  assumes l: "complete l" and r: "complete r"
  shows "compare_times l r = compare (GetUnixTimeFromUtcTime l) (GetUnixTimeFromUtcTime r)"
proof -
  define d e where "d = tm_date (wt_tm l)" and "e = tm_date (wt_tm r)"
  have ok: "ymd_ok d" "ymd_ok e" using l r by (simp_all add: complete_def tm_ok_def d_def e_def)
  have u: "GetUnixTimeFromUtcTime w = 86400 * sys_days (tm_date (wt_tm w)) + (3600 * wt_hour w + (60 * wt_minute w + 0))"
    if "complete w" for w
    using that by (simp add: unix_complete timegm_ok complete_def tm_ok_def) (simp add: wt_tm_def)
  have k: "wt_weekDay w = weekday_of (sys_days (tm_date (wt_tm w)))" if "complete w" for w
    using that by (simp add: complete_def tm_ok_def wt_tm_def)
  note fl = complete_fields [OF l] and fr = complete_fields [OF r]
  have "compare (GetUnixTimeFromUtcTime l) (GetUnixTimeFromUtcTime r) =
    (if sys_days d = sys_days e then
       if wt_hour l = wt_hour r then compare (wt_minute l) (wt_minute r) else compare (wt_hour l) (wt_hour r)
     else compare (sys_days d) (sys_days e))"
    unfolding u [OF l] u [OF r] d_def e_def using fl fr
    by (subst compare_lex, simp_all, subst compare_lex, simp_all, subst compare_lex, simp_all) (auto simp: compare_def)
  also have "\<dots> = compare_times l r"
  proof (cases "d = e")
    case True
    then have "wt_year l = wt_year r" "wt_month l = wt_month r" "wt_monthDay l = wt_monthDay r"
      unfolding d_def e_def by (simp_all add: tm_date_def wt_tm_def)
    moreover have "wt_weekDay l = wt_weekDay r"
      using True unfolding d_def e_def k [OF l] k [OF r] by (rule arg_cong)
    ultimately show ?thesis using True fl fr
      by (simp add: compare_times_def compareFieldIfSet_def Let_def) (simp add: compare_def)
  next
    case False
    then have "sys_days d \<noteq> sys_days e" "wt_year l \<noteq> wt_year r \<or> wt_month l \<noteq> wt_month r \<or> wt_monthDay l \<noteq> wt_monthDay r"
      using sys_days_inject [OF ok] unfolding d_def e_def by (auto simp: tm_date_def wt_tm_def)
    moreover have "compare (sys_days d) (sys_days e) =
      (if wt_year l \<noteq> wt_year r then compare (wt_year l) (wt_year r)
       else if wt_month l \<noteq> wt_month r then compare (wt_month l) (wt_month r)
       else compare (wt_monthDay l) (wt_monthDay r))"
      using sys_days_lex [OF ok] unfolding d_def e_def by (simp add: tm_date_def wt_tm_def compare_def)
    moreover have "compare a b \<noteq> Equal \<longleftrightarrow> a \<noteq> b" for a b by (simp add: compare_def)
    ultimately show ?thesis using fl fr
      by (simp add: compare_times_def compareFieldIfSet_def Let_def)
  qed
  finally show ?thesis ..
qed

end
