(* ===== verification/Holiday_Calendar.thy ===== *)
theory Holiday_Calendar
  imports Wow_Time Complex_Main
begin

text \<open>
  The dates of holidays (src/server/game/Custom/HolidayCalendar.cpp, CustomFunctions.h): Easter,
  weekday rules, the Chinese new year, the occurrences of a rule in a year, and the anchors
  of weekly and of locally scheduled events. The zone of the server is an argument. The
  astronomical series \<open>CalculateNewMoon\<close> is floating point with the sine of the C library; its
  value, shifted to China's civil time, is the argument \<open>nm\<close> of the functions that use it.
\<close>

section \<open>Rules\<close>

datatype HolidayRuleType =
    FixedDate | NthWeekday | FirstWeekdayOfMonth | WeekdayOnOrAfterRule | EasterOffset
  | LunarNewYear | QuarterMonthFirstWeekday | WeeklyWeekday | RuleTypeMax

text \<open>The cast from \<open>uint8\<close>; the values from \<open>Max\<close> on are all out of range.\<close>

definition rule_type :: "u8 \<Rightarrow> HolidayRuleType" where
  "rule_type n =
     (if n = 0 then FixedDate else if n = 1 then NthWeekday else if n = 2 then FirstWeekdayOfMonth
      else if n = 3 then WeekdayOnOrAfterRule else if n = 4 then EasterOffset else if n = 5 then LunarNewYear
      else if n = 6 then QuarterMonthFirstWeekday else if n = 7 then WeeklyWeekday else RuleTypeMax)"

record HolidayRule =
  hr_HolidayId :: u32
  hr_Type :: HolidayRuleType
  hr_Month :: int
  hr_Day :: int
  hr_Weekday :: int
  hr_DayOffset :: int
  hr_TimeOfDay :: int \<comment> \<open>in minutes\<close>
  hr_Occurrence :: int

definition new_HolidayRule :: HolidayRule where
  "new_HolidayRule = \<lparr>hr_HolidayId = 0, hr_Type = FixedDate, hr_Month = 1, hr_Day = 1, hr_Weekday = 0,
     hr_DayOffset = 0, hr_TimeOfDay = 0, hr_Occurrence = 0\<rparr>"

definition IsWeekly :: "HolidayRule \<Rightarrow> bool" where
  "IsWeekly rule \<longleftrightarrow> hr_Type rule = WeeklyWeekday"

definition HolidayPackedDateMaxYear :: int where
  "HolidayPackedDateMaxYear = 2031"

section \<open>Local time\<close>

text \<open>\<open>timeOfDay\<close> is in seconds and not negative in every call.\<close>

definition ToLocalTimestamp :: "zone \<Rightarrow> ymd \<Rightarrow> int \<Rightarrow> int" where
  "ToLocalTimestamp z date timeOfDay =
     mktime z (tm_zero\<lparr>tm_year := y_year date - 1900, tm_mon := y_month date - 1, tm_mday := y_day date,
       tm_hour := timeOfDay div 3600, tm_min := timeOfDay mod 3600 div 60, tm_sec := timeOfDay mod 60\<rparr>)"

definition LocalDateOf :: "zone \<Rightarrow> int \<Rightarrow> ymd" where
  "LocalDateOf z timestamp = tm_date (localtime z timestamp)"

section \<open>Dates of a year\<close>

text \<open>
  \<open>year / month / weekday[n]\<close>: the day of the month it names, and whether it is ok, that is
  whether the month has an n-th such day.
\<close>

definition nth_day :: "int \<Rightarrow> int \<Rightarrow> int \<Rightarrow> int \<Rightarrow> int" where
  "nth_day y m wd n = 1 + (wd - weekday_of (sys_days (ymd y m 1))) mod 7 + 7 * (n - 1)"

definition nth_ok :: "int \<Rightarrow> int \<Rightarrow> int \<Rightarrow> int \<Rightarrow> bool" where
  "nth_ok y m wd n \<longleftrightarrow> 1 \<le> m \<and> m \<le> 12 \<and> 0 \<le> wd \<and> wd \<le> 6 \<and> 1 \<le> n \<and> n \<le> 5 \<and> nth_day y m wd n \<le> last_day y m"

definition NthWeekdayOfMonth :: "int \<Rightarrow> int \<Rightarrow> int \<Rightarrow> int \<Rightarrow> ymd" where
  "NthWeekdayOfMonth targetYear targetMonth targetWeekday occurrence =
     (if \<not> nth_ok targetYear targetMonth targetWeekday occurrence then no_ymd
      else civil (sys_days (ymd targetYear targetMonth (nth_day targetYear targetMonth targetWeekday occurrence))))"

definition WeekdayOnOrAfter :: "ymd \<Rightarrow> int \<Rightarrow> ymd" where
  "WeekdayOnOrAfter date target =
     (let start = sys_days date in civil (start + (target - weekday_of start) mod 7))"

definition CalculateEasterSunday :: "int \<Rightarrow> ymd" where
  "CalculateEasterSunday yearNumber =
     (let metonicPosition = yearNumber smod 19;
          century = yearNumber sdiv 100;
          yearInCentury = yearNumber smod 100;
          centuryLeapCycles = century sdiv 4;
          centuryLeapRemainder = century smod 4;
          lunarCorrectionTerm = (century + 8) sdiv 25;
          lunarCorrection = (century - lunarCorrectionTerm + 1) sdiv 3;
          paschalFullMoon = (19 * metonicPosition + century - centuryLeapCycles - lunarCorrection + 15) smod 30;
          yearLeapCycles = yearInCentury sdiv 4;
          yearLeapRemainder = yearInCentury smod 4;
          daysToSunday = (32 + 2 * centuryLeapRemainder + 2 * yearLeapCycles - paschalFullMoon - yearLeapRemainder) smod 7;
          lateAprilCorrection = (metonicPosition + 11 * paschalFullMoon + 22 * daysToSunday) sdiv 451;
          encodedDate = paschalFullMoon + daysToSunday - 7 * lateAprilCorrection + 114
      in ymd yearNumber (encodedDate sdiv 31) (encodedDate smod 31 + 1))"

text \<open>
  The Julian days of the code are doubles that are exact here: days plus 2440587.5. The
  product with the lunations per year is never near an integer unless it is exact, so its
  floor is that of the exact product.
\<close>

definition JulianDayAtUnixEpoch :: rat where
  "JulianDayAtUnixEpoch = 4881175 / 2"

definition ToJulianDay :: "int \<Rightarrow> rat" where
  "ToJulianDay day = of_int day + JulianDayAtUnixEpoch"

definition FromJulianDay :: "rat \<Rightarrow> ymd" where
  "FromJulianDay julianDay = civil \<lfloor>julianDay - JulianDayAtUnixEpoch\<rfloor>"

fun probe_new_moon :: "(int \<Rightarrow> rat) \<Rightarrow> rat \<Rightarrow> rat \<Rightarrow> int \<Rightarrow> int list \<Rightarrow> ymd option" where
  "probe_new_moon nm rangeStart rangeEnd baseLunation [] = None"
| "probe_new_moon nm rangeStart rangeEnd baseLunation (lunationOffset # offsets) =
     (let newMoon = nm (baseLunation + lunationOffset)
      in if newMoon \<ge> rangeStart \<and> newMoon < rangeEnd then Some (FromJulianDay newMoon)
         else probe_new_moon nm rangeStart rangeEnd baseLunation offsets)"

definition CalculateLunarNewYear :: "(int \<Rightarrow> rat) \<Rightarrow> int \<Rightarrow> ymd" where
  "CalculateLunarNewYear nm targetYear =
     (let rangeStart = ToJulianDay (sys_days (ymd targetYear 1 21));
          rangeEnd = ToJulianDay (sys_days (ymd targetYear 2 21));
          baseLunation = (targetYear - 2000) * 123685 div 10000
      in case probe_new_moon nm rangeStart rangeEnd baseLunation [-2, -1, 0, 1, 2] of
           Some date \<Rightarrow> date
         | None \<Rightarrow> ymd targetYear 1 25)"

definition BaseDate :: "(int \<Rightarrow> rat) \<Rightarrow> HolidayRule \<Rightarrow> int \<Rightarrow> int \<Rightarrow> ymd" where
  "BaseDate nm rule targetYear targetMonth =
     (case hr_Type rule of
        FixedDate \<Rightarrow> ymd targetYear targetMonth (hr_Day rule)
      | NthWeekday \<Rightarrow> NthWeekdayOfMonth targetYear targetMonth (hr_Weekday rule) (hr_Occurrence rule)
      | FirstWeekdayOfMonth \<Rightarrow> NthWeekdayOfMonth targetYear targetMonth (hr_Weekday rule) 1
      | QuarterMonthFirstWeekday \<Rightarrow> NthWeekdayOfMonth targetYear targetMonth (hr_Weekday rule) 1
      | WeekdayOnOrAfterRule \<Rightarrow> WeekdayOnOrAfter (ymd targetYear targetMonth (hr_Day rule)) (hr_Weekday rule)
      | EasterOffset \<Rightarrow> CalculateEasterSunday targetYear
      | LunarNewYear \<Rightarrow> CalculateLunarNewYear nm targetYear
      | _ \<Rightarrow> no_ymd)"

definition resolve_rule :: "zone \<Rightarrow> HolidayRule \<Rightarrow> ymd \<Rightarrow> int" where
  "resolve_rule z rule base = ToLocalTimestamp z (civil (sys_days base + hr_DayOffset rule)) (60 * hr_TimeOfDay rule)"

definition GetYearOccurrences :: "zone \<Rightarrow> (int \<Rightarrow> rat) \<Rightarrow> HolidayRule \<Rightarrow> int \<Rightarrow> int list" where
  "GetYearOccurrences z nm rule targetYear =
     (if IsWeekly rule \<or> hr_Type rule = RuleTypeMax then []
      else if hr_Type rule = QuarterMonthFirstWeekday then
        concat (map (\<lambda>monthIndex.
          if monthIndex mod 3 \<noteq> hr_Occurrence rule then []
          else let quarterBase = BaseDate nm rule targetYear monthIndex
               in if ymd_ok quarterBase then [resolve_rule z rule quarterBase] else [])
          [1, 2, 3, 4, 5, 6, 7, 8, 9, 10, 11, 12])
      else let base = BaseDate nm rule targetYear (hr_Month rule)
           in if ymd_ok base then [resolve_rule z rule base] else [])"

section \<open>Anchors\<close>

definition GetWeeklyAnchor :: "zone \<Rightarrow> HolidayRule \<Rightarrow> int \<Rightarrow> int option" where
  "GetWeeklyAnchor z rule referenceTime =
     (if \<not> IsWeekly rule then None
      else
        let today = sys_days (LocalDateOf z referenceTime);
            target = today - (weekday_of today - hr_Weekday rule) mod 7;
            anchor = ToLocalTimestamp z (civil target) (60 * hr_TimeOfDay rule)
        in Some (if anchor > referenceTime
                 then ToLocalTimestamp z (civil (target - 7)) (60 * hr_TimeOfDay rule) else anchor))"

text \<open>The loop of the anchor within a day; the caller has checked that the period is positive.\<close>

function retreat :: "int \<Rightarrow> int \<Rightarrow> int \<Rightarrow> int" where
  "retreat step referenceTime anchor =
     (if anchor > referenceTime \<and> step > 0 then retreat step referenceTime (anchor - step) else anchor)"
  by pat_completeness auto

termination retreat
  by (relation "measure (\<lambda>(step, referenceTime, anchor). nat (anchor - referenceTime))") auto

declare retreat.simps [simp del]

definition seconds_of_day :: "tm \<Rightarrow> int" where
  "seconds_of_day t = 3600 * tm_hour t + 60 * tm_min t + tm_sec t"

definition GetLocalWallClockAnchor :: "zone \<Rightarrow> int \<Rightarrow> int \<Rightarrow> int \<Rightarrow> int option" where
  "GetLocalWallClockAnchor z originalStart period referenceTime =
     (if period \<le> 0 then None
      else if referenceTime \<le> originalStart then Some originalStart
      else
        let originalTimeOfDay = seconds_of_day (localtime z originalStart)
        in if period < 1440 \<and> 1440 mod period = 0 then
             Some (retreat (60 * period) referenceTime
               (ToLocalTimestamp z (LocalDateOf z referenceTime) (originalTimeOfDay mod (60 * period))))
           else if period mod 1440 = 0 then
             let periodDays = period div 1440;
                 originalDay = sys_days (LocalDateOf z originalStart);
                 referenceDay = sys_days (LocalDateOf z referenceTime);
                 elapsed = referenceDay - originalDay;
                 anchorDay = originalDay + periodDays * (elapsed sdiv periodDays);
                 anchor = ToLocalTimestamp z (civil anchorDay) originalTimeOfDay
             in Some (if anchor > referenceTime
                      then ToLocalTimestamp z (civil (anchorDay - periodDays)) originalTimeOfDay else anchor)
           else None)"

section \<open>Packed dates\<close>

text \<open>The outer option is \<open>None\<close> when an assertion of a setter fails, the inner one is the code's.\<close>

definition PackDate :: "zone \<Rightarrow> int \<Rightarrow> u32 option option" where
  "PackDate z localTime =
     (let l = localtime z localTime; packedYear = tm_year l + 1900
      in if packedYear < 2000 \<or> packedYear > HolidayPackedDateMaxYear then Some None
         else Option.bind (SetYear (packedYear - 2000) new_WowTime) (\<lambda>w.
              Option.bind (SetMonth (tm_mon l) w) (\<lambda>w.
              Option.bind (SetMonthDay (tm_mday l - 1) w) (\<lambda>w.
              Option.bind (SetWeekDay (tm_wday l) w) (\<lambda>w.
              Option.bind (SetHour (tm_hour l) w) (\<lambda>w.
              Option.bind (SetMinute (tm_min l) w) (\<lambda>w.
              Option.bind (SetFlags 0 w) (\<lambda>w. Some (Some (GetPackedTime w))))))))))"

end
