(* ===== verification/Game_Events.thy ===== *)
theory Game_Events
  imports Holiday_Calendar Float32
begin

text \<open>
  The game event manager (src/server/game/Events/GameEventMgr.h, GameEventMgr.cpp): its
  data, the tests whether an event is on and when to look again, starting, stopping and
  applying events, the update pass and the completion of event quests. Taking a remainder by
  a zero period is \<open>None\<close>. Counts of conditions are floats, with the arithmetic of \<open>Float32\<close>.
\<close>

section \<open>Data\<close>

datatype GameEventState =
    GAMEEVENT_NORMAL | GAMEEVENT_WORLD_INACTIVE | GAMEEVENT_WORLD_CONDITIONS
  | GAMEEVENT_WORLD_NEXTPHASE | GAMEEVENT_WORLD_FINISHED | GAMEEVENT_INTERNAL
  | GAMEEVENT_UNNAMED u8 \<comment> \<open>any other value of the column\<close>

definition event_state :: "u8 \<Rightarrow> GameEventState" where
  "event_state n =
     (if n = 0 then GAMEEVENT_NORMAL else if n = 1 then GAMEEVENT_WORLD_INACTIVE
      else if n = 2 then GAMEEVENT_WORLD_CONDITIONS else if n = 3 then GAMEEVENT_WORLD_NEXTPHASE
      else if n = 4 then GAMEEVENT_WORLD_FINISHED else if n = 5 then GAMEEVENT_INTERNAL else GAMEEVENT_UNNAMED n)"

record GameEventFinishCondition =
  fc_reqNum :: rat
  fc_done :: rat
  fc_max_world_state :: u32
  fc_done_world_state :: u32

record GameEventQuestToEventConditionNum =
  qc_event_id :: nat
  qc_condition :: u32
  qc_num :: rat

record GameEventData =
  ge_start :: int
  ge_end :: int
  ge_nextstart :: int
  ge_occurence :: u32
  ge_length :: u32
  ge_holiday_id :: u32
  ge_holidayStage :: nat
  ge_state :: GameEventState
  ge_conditions :: "(u32 \<times> GameEventFinishCondition) list"
  ge_prerequisite_events :: "nat list"
  ge_description :: "u8 list"
  ge_announce :: u8

definition new_GameEventData :: GameEventData where
  "new_GameEventData = \<lparr>ge_start = 1, ge_end = 0, ge_nextstart = 0, ge_occurence = 0, ge_length = 0,
     ge_holiday_id = 0, ge_holidayStage = 0, ge_state = GAMEEVENT_NORMAL, ge_conditions = [],
     ge_prerequisite_events = [], ge_description = [], ge_announce = 0\<rparr>"

definition isValid :: "GameEventData \<Rightarrow> bool" where
  "isValid e \<longleftrightarrow> ge_length e > 0 \<or> ge_state e \<noteq> GAMEEVENT_NORMAL"

text \<open>What the manager does outside itself, in order.\<close>

datatype ge_effect =
    SendWorldText "u8 list"
  | SpawnCreature u32 | DespawnCreature u32 | SpawnGameObject u32 | DespawnGameObject u32
  | SpawnPool u32 | DespawnPool u32
  | ChangeEquipOrModel nat bool
  | UpdateWorldStates nat bool
  | UpdateEventNPCFlags nat
  | UpdateEventNPCVendor nat bool
  | SetHolidaysActive "nat list"
  | RunSmartAIScripts nat bool
  | ResetEventSeasonalQuests nat int
  | SaveEventState nat GameEventState u32
  | DeleteEventSave nat
  | SaveCondition nat u32 rat
  | SetUpdateTimer u32

text \<open>
  The manager, with the state of the object manager it changes: the quest relations of
  creatures and game objects (multimaps from the giver to the quest) and the spawns on the
  grids.
\<close>

record GameEventMgr =
  gm_event :: "GameEventData list"
  gm_active :: "nat list"
  gm_isSystemInit :: bool
  gm_creatureQuests :: "(u32 \<times> u32) list list"
  gm_gameObjectQuests :: "(u32 \<times> u32) list list"
  gm_creatureGuids :: "u32 list list"
  gm_gameobjectGuids :: "u32 list list"
  gm_poolIds :: "u32 list list"
  gm_npcFlags :: "(u32 \<times> u32) list list"
  gm_questConditions :: "(u32 \<times> GameEventQuestToEventConditionNum) list"
  gm_holidayRules :: "(u32 \<times> HolidayRule) list"
  gm_localSchedule :: "(nat \<times> int) list"
  gm_overridden :: "nat list"
  gm_creatureRelations :: "(u32 \<times> u32) list"
  gm_gameObjectRelations :: "(u32 \<times> u32) list"
  gm_creatureGrid :: "u32 list"
  gm_gameobjectGrid :: "u32 list"
  gm_log :: "ge_effect list"

text \<open>What the manager asks: the time, the zone of the server, settings and spawn data.\<close>

record ge_env =
  en_now :: int
  en_zone :: zone
  en_new_moon :: "int \<Rightarrow> rat"
  en_announce :: bool
  en_creatureData :: "u32 \<Rightarrow> bool"
  en_gameObjectData :: "u32 \<Rightarrow> bool"

definition event :: "GameEventMgr \<Rightarrow> nat \<Rightarrow> GameEventData" where
  "event m i = gm_event m ! i"

definition upd_event :: "nat \<Rightarrow> (GameEventData \<Rightarrow> GameEventData) \<Rightarrow> GameEventMgr \<Rightarrow> GameEventMgr" where
  "upd_event i f m = m\<lparr>gm_event := (gm_event m)[i := f (gm_event m ! i)]\<rparr>"

definition emit :: "ge_effect \<Rightarrow> GameEventMgr \<Rightarrow> GameEventMgr" where
  "emit x m = m\<lparr>gm_log := gm_log m @ [x]\<rparr>"

section \<open>Is an event on, and when to look again\<close>

text \<open>\<open>occurence * MINUTE\<close> and \<open>length * MINUTE\<close> are products of \<open>uint32\<close>.\<close>

definition period_of :: "GameEventData \<Rightarrow> int" where
  "period_of e = uint (ge_occurence e * 60)"

definition duration_of :: "GameEventData \<Rightarrow> int" where
  "duration_of e = uint (ge_length e * 60)"

definition prerequisite_met :: "int \<Rightarrow> GameEventData \<Rightarrow> bool" where
  "prerequisite_met now p \<longleftrightarrow>
     \<not> (ge_state p \<noteq> GAMEEVENT_WORLD_NEXTPHASE \<and> ge_state p \<noteq> GAMEEVENT_WORLD_FINISHED \<or> ge_nextstart p > now)"

definition CheckOneGameEvent :: "int \<Rightarrow> GameEventMgr \<Rightarrow> nat \<Rightarrow> bool option" where
  "CheckOneGameEvent now m entry =
     (let e = event m entry in
      case ge_state e of
        GAMEEVENT_WORLD_CONDITIONS \<Rightarrow> Some True
      | GAMEEVENT_WORLD_NEXTPHASE \<Rightarrow> Some True
      | GAMEEVENT_WORLD_FINISHED \<Rightarrow> Some False
      | GAMEEVENT_INTERNAL \<Rightarrow> Some False
      | GAMEEVENT_WORLD_INACTIVE \<Rightarrow>
          if \<exists>p \<in> set (ge_prerequisite_events e). \<not> prerequisite_met now (event m p) then Some False
          else Some (ge_prerequisite_events e \<noteq> [])
      | _ \<Rightarrow>
          if ge_start e < now \<and> now < ge_end e then
            if period_of e = 0 then None
            else Some ((now - ge_start e) smod period_of e < duration_of e)
          else Some False)"

definition max_ge_check_delay :: u32 where
  "max_ge_check_delay = 86400"

definition NextCheck :: "int \<Rightarrow> GameEventMgr \<Rightarrow> nat \<Rightarrow> u32 option" where
  "NextCheck now m entry =
     (let e = event m entry in
      if (ge_state e = GAMEEVENT_WORLD_NEXTPHASE \<or> ge_state e = GAMEEVENT_WORLD_FINISHED) \<and> ge_nextstart e \<ge> now
      then Some (word_of_int (ge_nextstart e - now))
      else if ge_state e = GAMEEVENT_WORLD_CONDITIONS
      then (if ge_length e \<noteq> 0 then Some (ge_length e * 60) else Some max_ge_check_delay)
      else if now > ge_end e then Some max_ge_check_delay
      else if ge_start e > now then Some (word_of_int (ge_start e - now))
      else if period_of e = 0 then None
      else
        let r = (now - ge_start e) smod period_of e;
            delay = (if r < duration_of e then word_of_int (duration_of e - r)
                     else word_of_int (period_of e - r)) :: u32
        in Some (if ge_end e < now + uint delay then word_of_int (ge_end e - now) else delay))"

text \<open>The start of the current period, for resets of seasonal quests.\<close>

definition GetLastStartTime :: "int \<Rightarrow> GameEventMgr \<Rightarrow> nat \<Rightarrow> int option" where
  "GetLastStartTime now m event_id =
     (if event_id \<ge> length (gm_event m) then Some 0
      else if ge_state (event m event_id) \<noteq> GAMEEVENT_NORMAL then Some 0
      else if ge_occurence (event m event_id) = 0 then None
      else Some (now - (now - ge_start (event m event_id)) smod (60 * uint (ge_occurence (event m event_id)))))"

section \<open>Spawns and quests of an event\<close>

text \<open>
  The lists of spawns hold the events from \<open>-(size - 1)\<close> to \<open>size - 1\<close>; a negative id
  names what is there while the event is off. An index out of range is logged and ends it.
\<close>

definition internal_event_id :: "GameEventMgr \<Rightarrow> int \<Rightarrow> int" where
  "internal_event_id m event_id = int (length (gm_event m)) + event_id - 1"

definition in_list :: "int \<Rightarrow> 'a list \<Rightarrow> bool" where
  "in_list i xs \<longleftrightarrow> 0 \<le> i \<and> i < int (length xs)"

definition hasCreatureQuestActiveEventExcept :: "u32 \<Rightarrow> nat \<Rightarrow> GameEventMgr \<Rightarrow> bool" where
  "hasCreatureQuestActiveEventExcept quest_id event_id m =
     (\<exists>e \<in> set (gm_active m). e \<noteq> event_id \<and> (\<exists>q \<in> set (gm_creatureQuests m ! e). snd q = quest_id))"

definition hasGameObjectQuestActiveEventExcept :: "u32 \<Rightarrow> nat \<Rightarrow> GameEventMgr \<Rightarrow> bool" where
  "hasGameObjectQuestActiveEventExcept quest_id event_id m =
     (\<exists>e \<in> set (gm_active m). e \<noteq> event_id \<and> (\<exists>q \<in> set (gm_gameObjectQuests m ! e). snd q = quest_id))"

definition hasCreatureActiveEventExcept :: "u32 \<Rightarrow> nat \<Rightarrow> GameEventMgr \<Rightarrow> bool" where
  "hasCreatureActiveEventExcept creature_id event_id m =
     (\<exists>e \<in> set (gm_active m). e \<noteq> event_id \<and>
        creature_id \<in> set (gm_creatureGuids m ! nat (internal_event_id m (int e))))"

definition hasGameObjectActiveEventExcept :: "u32 \<Rightarrow> nat \<Rightarrow> GameEventMgr \<Rightarrow> bool" where
  "hasGameObjectActiveEventExcept go_id event_id m =
     (\<exists>e \<in> set (gm_active m). e \<noteq> event_id \<and>
        go_id \<in> set (gm_gameobjectGuids m ! nat (internal_event_id m (int e))))"

definition GetNPCFlag :: "u32 \<Rightarrow> GameEventMgr \<Rightarrow> u32" where
  "GetNPCFlag guid m =
     foldl (\<lambda>mask e. foldl (\<lambda>mask p. if fst p = guid then mask OR snd p else mask) mask (gm_npcFlags m ! e))
       0 (gm_active m)"

text \<open>Creatures and game objects the object manager knows are put on the grid and spawned.\<close>

definition spawn_creature :: "ge_env \<Rightarrow> u32 \<Rightarrow> GameEventMgr \<Rightarrow> GameEventMgr" where
  "spawn_creature env g m =
     (if en_creatureData env g
      then emit (SpawnCreature g) (m\<lparr>gm_creatureGrid := insort_insert g (gm_creatureGrid m)\<rparr>) else m)"

definition spawn_gameobject :: "ge_env \<Rightarrow> u32 \<Rightarrow> GameEventMgr \<Rightarrow> GameEventMgr" where
  "spawn_gameobject env g m =
     (if en_gameObjectData env g
      then emit (SpawnGameObject g) (m\<lparr>gm_gameobjectGrid := insort_insert g (gm_gameobjectGrid m)\<rparr>) else m)"

definition unspawn_creature :: "ge_env \<Rightarrow> int \<Rightarrow> u32 \<Rightarrow> GameEventMgr \<Rightarrow> GameEventMgr" where
  "unspawn_creature env event_id g m =
     (if event_id > 0 \<and> hasCreatureActiveEventExcept g (nat event_id) m then m
      else if en_creatureData env g
      then emit (DespawnCreature g) (m\<lparr>gm_creatureGrid := removeAll g (gm_creatureGrid m)\<rparr>) else m)"

definition unspawn_gameobject :: "ge_env \<Rightarrow> int \<Rightarrow> u32 \<Rightarrow> GameEventMgr \<Rightarrow> GameEventMgr" where
  "unspawn_gameobject env event_id g m =
     (if event_id > 0 \<and> hasGameObjectActiveEventExcept g (nat event_id) m then m
      else if en_gameObjectData env g
      then emit (DespawnGameObject g) (m\<lparr>gm_gameobjectGrid := removeAll g (gm_gameobjectGrid m)\<rparr>) else m)"

definition GameEventSpawn :: "ge_env \<Rightarrow> int \<Rightarrow> GameEventMgr \<Rightarrow> GameEventMgr" where
  "GameEventSpawn env event_id m =
     (let i = internal_event_id m event_id in
      if \<not> in_list i (gm_creatureGuids m) then m
      else
        let m = fold (spawn_creature env) (gm_creatureGuids m ! nat i) m in
        if \<not> in_list i (gm_gameobjectGuids m) then m
        else
          let m = fold (spawn_gameobject env) (gm_gameobjectGuids m ! nat i) m in
          if \<not> in_list i (gm_poolIds m) then m
          else fold (\<lambda>p. emit (SpawnPool p)) (gm_poolIds m ! nat i) m)"

definition GameEventUnspawn :: "ge_env \<Rightarrow> int \<Rightarrow> GameEventMgr \<Rightarrow> GameEventMgr" where
  "GameEventUnspawn env event_id m =
     (let i = internal_event_id m event_id in
      if \<not> in_list i (gm_creatureGuids m) then m
      else
        let m = fold (unspawn_creature env event_id) (gm_creatureGuids m ! nat i) m in
        if \<not> in_list i (gm_gameobjectGuids m) then m
        else
          let m = fold (unspawn_gameobject env event_id) (gm_gameobjectGuids m ! nat i) m in
          if \<not> in_list i (gm_poolIds m) then m
          else fold (\<lambda>p. emit (DespawnPool p)) (gm_poolIds m ! nat i) m)"

text \<open>The first pair of the multimap with this giver and quest, as the loop over its range finds it.\<close>

fun erase_pair :: "u32 \<times> u32 \<Rightarrow> (u32 \<times> u32) list \<Rightarrow> (u32 \<times> u32) list" where
  "erase_pair p [] = []"
| "erase_pair p (q # qs) = (if q = p then qs else q # erase_pair p qs)"

definition creature_quest :: "nat \<Rightarrow> bool \<Rightarrow> u32 \<times> u32 \<Rightarrow> GameEventMgr \<Rightarrow> GameEventMgr" where
  "creature_quest event_id activate p m =
     (if activate then m\<lparr>gm_creatureRelations := mm_insert (fst p) (snd p) (gm_creatureRelations m)\<rparr>
      else if \<not> hasCreatureQuestActiveEventExcept (snd p) event_id m
      then m\<lparr>gm_creatureRelations := erase_pair p (gm_creatureRelations m)\<rparr> else m)"

definition gameobject_quest :: "nat \<Rightarrow> bool \<Rightarrow> u32 \<times> u32 \<Rightarrow> GameEventMgr \<Rightarrow> GameEventMgr" where
  "gameobject_quest event_id activate p m =
     (if activate then m\<lparr>gm_gameObjectRelations := mm_insert (fst p) (snd p) (gm_gameObjectRelations m)\<rparr>
      else if \<not> hasGameObjectQuestActiveEventExcept (snd p) event_id m
      then m\<lparr>gm_gameObjectRelations := erase_pair p (gm_gameObjectRelations m)\<rparr> else m)"

definition UpdateEventQuests :: "nat \<Rightarrow> bool \<Rightarrow> GameEventMgr \<Rightarrow> GameEventMgr" where
  "UpdateEventQuests event_id activate m =
     (let m = fold (creature_quest event_id activate) (gm_creatureQuests m ! event_id) m
      in fold (gameobject_quest event_id activate) (gm_gameObjectQuests m ! event_id) m)"

section \<open>Applying and starting\<close>

definition ApplyNewEvent :: "ge_env \<Rightarrow> nat \<Rightarrow> GameEventMgr \<Rightarrow> GameEventMgr option" where
  "ApplyNewEvent env event_id m =
     (let e = event m event_id;
          m = (if ge_announce e = 1 \<or> ge_announce e = 2 \<and> en_announce env
               then emit (SendWorldText (ge_description e)) m else m);
          m = GameEventSpawn env (int event_id) m;
          m = GameEventUnspawn env (- int event_id) m;
          m = emit (ChangeEquipOrModel event_id True) m;
          m = UpdateEventQuests event_id True m;
          m = emit (UpdateWorldStates event_id True) m;
          m = emit (UpdateEventNPCFlags event_id) m;
          m = emit (UpdateEventNPCVendor event_id True) m;
          m = emit (SetHolidaysActive (gm_active m)) m;
          m = emit (RunSmartAIScripts event_id True) m
      in map_option (\<lambda>t. emit (ResetEventSeasonalQuests event_id t) m) (GetLastStartTime (en_now env) m event_id))"

definition UnApplyEvent :: "ge_env \<Rightarrow> nat \<Rightarrow> GameEventMgr \<Rightarrow> GameEventMgr" where
  "UnApplyEvent env event_id m =
     (let m = emit (RunSmartAIScripts event_id False) m;
          m = GameEventUnspawn env (int event_id) m;
          m = GameEventSpawn env (- int event_id) m;
          m = emit (ChangeEquipOrModel event_id False) m;
          m = UpdateEventQuests event_id False m;
          m = emit (UpdateWorldStates event_id False) m;
          m = emit (UpdateEventNPCFlags event_id) m;
          m = emit (UpdateEventNPCVendor event_id False) m
      in emit (SetHolidaysActive (gm_active m)) m)"

section \<open>Conditions of world events\<close>

definition CheckOneGameEventConditions :: "int \<Rightarrow> nat \<Rightarrow> GameEventMgr \<Rightarrow> bool \<times> GameEventMgr" where
  "CheckOneGameEventConditions now event_id m =
     (if \<exists>c \<in> set (ge_conditions (event m event_id)). fc_done (snd c) < fc_reqNum (snd c) then (False, m)
      else (True, upd_event event_id (\<lambda>e. e\<lparr>ge_state := GAMEEVENT_WORLD_NEXTPHASE,
              ge_nextstart := (if ge_nextstart e = 0 then now + uint (ge_length e * 60) else ge_nextstart e)\<rparr>) m))"

definition SaveWorldEventStateToDB :: "nat \<Rightarrow> GameEventMgr \<Rightarrow> GameEventMgr" where
  "SaveWorldEventStateToDB event_id m =
     (let e = event m event_id
      in emit (SaveEventState event_id (ge_state e) (word_of_int (ge_nextstart e))) (emit (DeleteEventSave event_id) m))"

section \<open>Starting and stopping\<close>

definition AddActiveEvent :: "nat \<Rightarrow> GameEventMgr \<Rightarrow> GameEventMgr" where
  "AddActiveEvent event_id m = m\<lparr>gm_active := insort_insert event_id (gm_active m)\<rparr>"

definition RemoveActiveEvent :: "nat \<Rightarrow> GameEventMgr \<Rightarrow> GameEventMgr" where
  "RemoveActiveEvent event_id m = m\<lparr>gm_active := removeAll event_id (gm_active m)\<rparr>"

definition IsActiveEvent :: "nat \<Rightarrow> GameEventMgr \<Rightarrow> bool" where
  "IsActiveEvent event_id m \<longleftrightarrow> event_id \<in> set (gm_active m)"

definition override :: "nat \<Rightarrow> bool \<Rightarrow> GameEventMgr \<Rightarrow> GameEventMgr" where
  "override event_id overwrite m =
     (if overwrite then m\<lparr>gm_overridden := insort_insert event_id (gm_overridden m)\<rparr> else m)"

text \<open>An end that does not lie behind the start is moved behind it.\<close>

definition set_window :: "int \<Rightarrow> GameEventData \<Rightarrow> GameEventData" where
  "set_window start e =
     e\<lparr>ge_start := start, ge_end := (if ge_end e \<le> start then start + duration_of e else ge_end e)\<rparr>"

text \<open>
  \<open>StartEvent\<close> up to the forced update. The answer is whether the conditions of a world
  event are met, which forces the update when \<open>overwrite\<close> is set.
\<close>

definition start_event :: "ge_env \<Rightarrow> nat \<Rightarrow> bool \<Rightarrow> GameEventMgr \<Rightarrow> (bool \<times> GameEventMgr) option" where
  "start_event env event_id overwrite m =
     (let data = event m event_id;
          m = override event_id overwrite m
      in if ge_state data = GAMEEVENT_NORMAL \<or> ge_state data = GAMEEVENT_INTERNAL then
           map_option (\<lambda>m. (False, if overwrite then upd_event event_id (set_window (en_now env)) m else m))
             (ApplyNewEvent env event_id (AddActiveEvent event_id m))
         else
           let m = (if ge_state data = GAMEEVENT_WORLD_INACTIVE
                    then upd_event event_id (\<lambda>e. e\<lparr>ge_state := GAMEEVENT_WORLD_CONDITIONS\<rparr>) m else m)
           in map_option (\<lambda>m.
                case CheckOneGameEventConditions (en_now env) event_id m of
                  (met, m) \<Rightarrow> (met, SaveWorldEventStateToDB event_id m))
                (ApplyNewEvent env event_id (AddActiveEvent event_id m)))"

definition reset_conditions :: "GameEventData \<Rightarrow> GameEventData" where
  "reset_conditions e =
     e\<lparr>ge_nextstart := 0, ge_state := GAMEEVENT_WORLD_INACTIVE,
       ge_conditions := map (\<lambda>(k, c). (k, c\<lparr>fc_done := 0\<rparr>)) (ge_conditions e)\<rparr>"

definition StopEvent :: "ge_env \<Rightarrow> nat \<Rightarrow> bool \<Rightarrow> GameEventMgr \<Rightarrow> GameEventMgr" where
  "StopEvent env event_id overwrite m =
     (let data = event m event_id;
          serverwide_evt = (ge_state data \<noteq> GAMEEVENT_NORMAL \<and> ge_state data \<noteq> GAMEEVENT_INTERNAL);
          m = override event_id overwrite m;
          m = UnApplyEvent env event_id (RemoveActiveEvent event_id m)
      in if overwrite \<and> \<not> serverwide_evt then
           upd_event event_id (\<lambda>e. set_window (en_now env - duration_of e) e) m
         else if serverwide_evt \<and> (overwrite \<or> ge_state data \<noteq> GAMEEVENT_WORLD_FINISHED) then
           emit (DeleteEventSave event_id) (upd_event event_id reset_conditions m)
         else m)"

section \<open>The update pass\<close>

record pass =
  up_delay :: u32
  up_activate :: "nat list"
  up_deactivate :: "nat list"

text \<open>
  One event of the pass: a world event whose phase has passed is finished and skips the
  timer; the others are queued to start or stop, and the earliest next check is kept.
\<close>

definition finish_event :: "nat \<Rightarrow> GameEventMgr \<Rightarrow> GameEventMgr" where
  "finish_event itr m =
     SaveWorldEventStateToDB itr
       (upd_event itr (\<lambda>e. e\<lparr>ge_state := GAMEEVENT_WORLD_FINISHED, ge_nextstart := 0\<rparr>) m)"

definition take_delay :: "ge_env \<Rightarrow> nat \<Rightarrow> pass \<times> GameEventMgr \<Rightarrow> (pass \<times> GameEventMgr) option" where
  "take_delay env itr pm =
     (case pm of (u, m) \<Rightarrow>
        map_option (\<lambda>calcDelay. (if calcDelay < up_delay u then u\<lparr>up_delay := calcDelay\<rparr> else u, m))
          (NextCheck (en_now env) m itr))"

definition update_event :: "ge_env \<Rightarrow> nat \<Rightarrow> pass \<times> GameEventMgr \<Rightarrow> (pass \<times> GameEventMgr) option" where
  "update_event env itr pm =
     (case pm of (u, m) \<Rightarrow>
        case CheckOneGameEvent (en_now env) m itr of
          None \<Rightarrow> None
        | Some True \<Rightarrow>
            (let e = event m itr in
             if ge_state e = GAMEEVENT_WORLD_NEXTPHASE \<and> ge_nextstart e \<le> en_now env then
               Some (if IsActiveEvent itr m then u\<lparr>up_deactivate := insort_insert itr (up_deactivate u)\<rparr> else u,
                 finish_event itr m)
             else
               let m = (if ge_state e = GAMEEVENT_WORLD_CONDITIONS then
                          case CheckOneGameEventConditions (en_now env) itr m of
                            (met, m) \<Rightarrow> if met then SaveWorldEventStateToDB itr m else m
                        else m)
               in take_delay env itr
                    (if \<not> IsActiveEvent itr m then u\<lparr>up_activate := insort_insert itr (up_activate u)\<rparr> else u, m))
        | Some False \<Rightarrow>
            if IsActiveEvent itr m
            then take_delay env itr (u\<lparr>up_deactivate := insort_insert itr (up_deactivate u)\<rparr>, m)
            else if \<not> gm_isSystemInit m then take_delay env itr (u, GameEventSpawn env (- int itr) m)
            else take_delay env itr (u, m))"

fun update_events :: "ge_env \<Rightarrow> nat list \<Rightarrow> pass \<times> GameEventMgr \<Rightarrow> (pass \<times> GameEventMgr) option" where
  "update_events env [] pm = Some pm"
| "update_events env (i # is) pm = Option.bind (update_event env i pm) (update_events env is)"

fun activate_events :: "ge_env \<Rightarrow> nat list \<Rightarrow> u32 \<times> GameEventMgr \<Rightarrow> (u32 \<times> GameEventMgr) option" where
  "activate_events env [] dm = Some dm"
| "activate_events env (i # is) (delay, m) =
     Option.bind (start_event env i False m)
       (\<lambda>(met, m). activate_events env is (if met then 0 else delay, m))"

definition Update :: "ge_env \<Rightarrow> GameEventMgr \<Rightarrow> (u32 \<times> GameEventMgr) option" where
  "Update env m =
     Option.bind (update_events env [1..<length (gm_event m)]
         (\<lparr>up_delay = max_ge_check_delay, up_activate = [], up_deactivate = []\<rparr>, m))
       (\<lambda>(u, m). Option.bind (activate_events env (up_activate u) (up_delay u, m))
         (\<lambda>(nextEventDelay, m).
            Some ((nextEventDelay + 1) * 1000, fold (\<lambda>i. StopEvent env i False) (up_deactivate u) m)))"

text \<open>\<open>World::ForceGameEventUpdate\<close>: a pass at once, and the timer set to its answer.\<close>

definition ForceGameEventUpdate :: "ge_env \<Rightarrow> GameEventMgr \<Rightarrow> GameEventMgr option" where
  "ForceGameEventUpdate env m = map_option (\<lambda>(t, m). emit (SetUpdateTimer t) m) (Update env m)"

definition StartEvent :: "ge_env \<Rightarrow> nat \<Rightarrow> bool \<Rightarrow> GameEventMgr \<Rightarrow> (bool \<times> GameEventMgr) option" where
  "StartEvent env event_id overwrite m =
     Option.bind (start_event env event_id overwrite m) (\<lambda>(conditions_met, m).
       if overwrite \<and> conditions_met
       then map_option (\<lambda>m. (conditions_met, m)) (ForceGameEventUpdate env m)
       else Some (conditions_met, m))"

definition StartInternalEvent :: "ge_env \<Rightarrow> nat \<Rightarrow> GameEventMgr \<Rightarrow> GameEventMgr option" where
  "StartInternalEvent env event_id m =
     (if event_id < 1 \<or> event_id \<ge> length (gm_event m) then Some m
      else if \<not> isValid (event m event_id) then Some m
      else if IsActiveEvent event_id m then Some m
      else map_option snd (StartEvent env event_id False m))"

definition StartSystem :: "ge_env \<Rightarrow> GameEventMgr \<Rightarrow> (u32 \<times> GameEventMgr) option" where
  "StartSystem env m =
     map_option (\<lambda>(delay, m). (delay, m\<lparr>gm_isSystemInit := True\<rparr>)) (Update env (m\<lparr>gm_active := []\<rparr>))"

text \<open>The row of the current arena season, if the table has one.\<close>

definition StartArenaSeason :: "ge_env \<Rightarrow> nat option \<Rightarrow> GameEventMgr \<Rightarrow> GameEventMgr option" where
  "StartArenaSeason env row m =
     (case row of
        None \<Rightarrow> Some m
      | Some eventId \<Rightarrow>
          if eventId \<ge> length (gm_event m) then Some m
          else map_option snd (StartEvent env eventId True m))"

section \<open>Quests that count for a world event\<close>

definition add_done :: "rat \<Rightarrow> GameEventFinishCondition \<Rightarrow> GameEventFinishCondition" where
  "add_done num c =
     (let done' = f32 (fc_done c + num)
      in c\<lparr>fc_done := (if done' > fc_reqNum c then fc_reqNum c else done')\<rparr>)"

definition HandleQuestComplete :: "ge_env \<Rightarrow> u32 \<Rightarrow> GameEventMgr \<Rightarrow> GameEventMgr option" where
  "HandleQuestComplete env quest_id m =
     (case map_of (gm_questConditions m) quest_id of
        None \<Rightarrow> Some m
      | Some q \<Rightarrow>
          let event_id = qc_event_id q; condition = qc_condition q in
          if \<not> IsActiveEvent event_id m then Some m
          else if ge_state (event m event_id) \<noteq> GAMEEVENT_WORLD_CONDITIONS then Some m
          else case map_of (ge_conditions (event m event_id)) condition of
            None \<Rightarrow> Some m
          | Some c \<Rightarrow>
              if fc_done c < fc_reqNum c then
                let c' = add_done (qc_num q) c;
                    m = upd_event event_id (\<lambda>e. e\<lparr>ge_conditions := sm_put condition c' (ge_conditions e)\<rparr>) m;
                    m = emit (SaveCondition event_id condition (fc_done c')) m
                in case CheckOneGameEventConditions (en_now env) event_id m of
                     (met, m) \<Rightarrow>
                       if met then ForceGameEventUpdate env (SaveWorldEventStateToDB event_id m) else Some m
              else Some m)"

definition IsHolidayActive :: "u32 \<Rightarrow> GameEventMgr \<Rightarrow> bool" where
  "IsHolidayActive holiday m \<longleftrightarrow> holiday \<noteq> 0 \<and> (\<exists>e \<in> set (gm_active m). ge_holiday_id (event m e) = holiday)"

definition IsEventActive :: "nat \<Rightarrow> GameEventMgr \<Rightarrow> bool" where
  "IsEventActive eventId m \<longleftrightarrow> eventId \<in> set (gm_active m)"

text \<open>What a player is told of the conditions of an event: the counts as unsigned integers.\<close>

definition SendWorldStateUpdate :: "nat \<Rightarrow> GameEventMgr \<Rightarrow> (u32 \<times> u32) list" where
  "SendWorldStateUpdate event_id m =
     concat (map (\<lambda>(_, c).
       (if fc_done_world_state c \<noteq> 0 then [(fc_done_world_state c, word_of_int \<lfloor>fc_done c\<rfloor>)] else []) @
       (if fc_max_world_state c \<noteq> 0 then [(fc_max_world_state c, word_of_int \<lfloor>fc_reqNum c\<rfloor>)] else []))
       (ge_conditions (event m event_id)))"

end
