(* ===== verification/Game_Event_Schedule.thy ===== *)
theory Game_Event_Schedule
  imports Game_Events
begin

text \<open>
  When game events start: the holidays of the client data and the rules and local schedules
  of the server (GameEventMgr.cpp, CustomFunctions.cpp of src/server/game), and the tables
  the manager loads.
\<close>

section \<open>Holidays of the client data\<close>

abbreviation MAX_HOLIDAY_DURATIONS :: nat where "MAX_HOLIDAY_DURATIONS \<equiv> 10"
abbreviation MAX_HOLIDAY_DATES :: nat where "MAX_HOLIDAY_DATES \<equiv> 26"

record HolidaysEntry =
  he_ID :: u32
  he_Duration :: "u32 list"
  he_Date :: "u32 list"
  he_Looping :: u32
  he_CalendarFilterType :: int

text \<open>\<open>sHolidaysStore\<close>, with the ids whose dates were changed.\<close>

record holiday_store =
  hs_entries :: "(u32 \<times> HolidaysEntry) list"
  hs_modifiedHolidays :: "u32 list"

definition LookupEntry :: "holiday_store \<Rightarrow> u32 \<Rightarrow> HolidaysEntry option" where
  "LookupEntry hs i = map_of (hs_entries hs) i"

definition put_entry :: "u32 \<Rightarrow> HolidaysEntry \<Rightarrow> holiday_store \<Rightarrow> holiday_store" where
  "put_entry i e hs = hs\<lparr>hs_entries := AList.update i e (hs_entries hs)\<rparr>"

text \<open>\<open>std::lower_bound\<close> and an insertion unless the id is there.\<close>

definition mark_modified :: "u32 \<Rightarrow> holiday_store \<Rightarrow> holiday_store" where
  "mark_modified i hs = hs\<lparr>hs_modifiedHolidays := insort_insert i (hs_modifiedHolidays hs)\<rparr>"

text \<open>The year bits of a packed date; 31 stands for every year.\<close>

definition packed_year :: "u32 \<Rightarrow> u32" where
  "packed_year d = drop_bit 24 d AND 0x1F"

definition single_date :: "u32 \<Rightarrow> bool" where
  "single_date d \<longleftrightarrow> packed_year d = 31"

definition LoadHolidayDates_row :: "u32 \<times> nat \<times> u32 \<times> u32 \<Rightarrow> holiday_store \<Rightarrow> holiday_store" where
  "LoadHolidayDates_row row hs =
     (case row of (holidayId, dateId, date, duration) \<Rightarrow>
        case LookupEntry hs holidayId of
          None \<Rightarrow> hs
        | Some entry \<Rightarrow>
            if dateId \<ge> MAX_HOLIDAY_DATES then hs
            else
              let entry = entry\<lparr>he_Date := (he_Date entry)[dateId := date]\<rparr>;
                  entry = (if duration \<noteq> 0 then entry\<lparr>he_Duration := (he_Duration entry)[0 := duration]\<rparr> else entry)
              in mark_modified (he_ID entry) (put_entry holidayId entry hs))"

definition LoadHolidayDates :: "(u32 \<times> nat \<times> u32 \<times> u32) list \<Rightarrow> holiday_store \<Rightarrow> holiday_store" where
  "LoadHolidayDates rows hs = fold LoadHolidayDates_row rows hs"

section \<open>Rules\<close>

definition GetHolidayRule :: "GameEventMgr \<Rightarrow> u32 \<Rightarrow> HolidayRule option" where
  "GetHolidayRule m holidayId = map_of (gm_holidayRules m) holidayId"

record rule_row =
  rr_holiday :: u32
  rr_ruleType :: u8
  rr_month :: u8
  rr_day :: u8
  rr_weekday :: u8
  rr_dayOffset :: int
  rr_startHour :: u8
  rr_startMinute :: u8
  rr_occurrence :: u8

definition load_rule :: "holiday_store \<Rightarrow> rule_row \<Rightarrow> HolidayRule option" where
  "load_rule hs row =
     (let ty = rule_type (rr_ruleType row);
          usesMonth = (ty = FixedDate \<or> ty = NthWeekday \<or> ty = FirstWeekdayOfMonth \<or> ty = WeekdayOnOrAfterRule);
          usesDay = (ty = FixedDate \<or> ty = WeekdayOnOrAfterRule)
      in if LookupEntry hs (rr_holiday row) = None then None
         else if ty = RuleTypeMax then None
         else if rr_day row > 31 \<or> rr_weekday row > 6 \<or> rr_startHour row > 23 \<or> rr_startMinute row > 59 then None
         else if usesMonth \<and> (rr_month row < 1 \<or> rr_month row > 12) then None
         else if usesDay \<and> rr_day row < 1 then None
         else if ty = NthWeekday \<and> (rr_occurrence row < 1 \<or> rr_occurrence row > 5) then None
         else if ty = QuarterMonthFirstWeekday \<and> rr_occurrence row > 2 then None
         else Some \<lparr>hr_HolidayId = rr_holiday row, hr_Type = ty,
           hr_Month = (if usesMonth then uint (rr_month row) else 1),
           hr_Day = (if usesDay then uint (rr_day row) else 1),
           hr_Weekday = uint (rr_weekday row), hr_DayOffset = rr_dayOffset row,
           hr_TimeOfDay = 60 * uint (rr_startHour row) + uint (rr_startMinute row),
           hr_Occurrence = uint (rr_occurrence row)\<rparr>)"

definition LoadHolidayRules :: "holiday_store \<Rightarrow> rule_row list \<Rightarrow> GameEventMgr \<Rightarrow> GameEventMgr" where
  "LoadHolidayRules hs rows m =
     fold (\<lambda>row m. case load_rule hs row of
         None \<Rightarrow> m
       | Some rule \<Rightarrow> m\<lparr>gm_holidayRules := AList.update (hr_HolidayId rule) rule (gm_holidayRules m)\<rparr>)
       rows (m\<lparr>gm_holidayRules := []\<rparr>)"

text \<open>
  The dates of the years around the current one, until the date slots are full. The years
  run from last year to the last one a packed date can name; a date outside of what can be
  packed is left out, and the rest of the slots is cleared.
\<close>

definition fill_dates :: "ge_env \<Rightarrow> HolidayRule \<Rightarrow> int list \<Rightarrow> u32 list" where
  "fill_dates env rule years =
     concat (map (\<lambda>year. List.map_filter (\<lambda>t. case PackDate (en_zone env) t of Some (Some p) \<Rightarrow> Some p | _ \<Rightarrow> None)
       (GetYearOccurrences (en_zone env) (en_new_moon env) rule year)) years)"

definition current_year :: "ge_env \<Rightarrow> int" where
  "current_year env = tm_year (localtime (en_zone env) (en_now env)) + 1900"

definition rebuild_dates :: "ge_env \<Rightarrow> HolidayRule \<Rightarrow> u32 list" where
  "rebuild_dates env rule =
     (let dates = take MAX_HOLIDAY_DATES (fill_dates env rule [current_year env - 1..HolidayPackedDateMaxYear])
      in dates @ replicate (MAX_HOLIDAY_DATES - length dates) 0)"

definition rebuild_rule :: "ge_env \<Rightarrow> HolidayRule \<Rightarrow> holiday_store \<Rightarrow> holiday_store" where
  "rebuild_rule env rule hs =
     (if IsWeekly rule then hs
      else case LookupEntry hs (hr_HolidayId rule) of
        None \<Rightarrow> hs
      | Some entry \<Rightarrow>
          if single_date (he_Date entry ! 0) then hs
          else mark_modified (he_ID entry) (put_entry (hr_HolidayId rule) (entry\<lparr>he_Date := rebuild_dates env rule\<rparr>) hs))"

definition RebuildHolidayDates :: "ge_env \<Rightarrow> GameEventMgr \<Rightarrow> holiday_store \<Rightarrow> holiday_store" where
  "RebuildHolidayDates env m hs = fold (\<lambda>p. rebuild_rule env (snd p)) (gm_holidayRules m) hs"

definition first_occurrence :: "ge_env \<Rightarrow> HolidayRule \<Rightarrow> int \<Rightarrow> int list \<Rightarrow> int option" where
  "first_occurrence env rule window years =
     find (\<lambda>t. en_now env < t + window)
       (concat (map (GetYearOccurrences (en_zone env) (en_new_moon env) rule) years))"

text \<open>The answer is the event when a start was found.\<close>

definition SetHolidayEventTimeFromRule :: "ge_env \<Rightarrow> HolidayRule \<Rightarrow> int \<Rightarrow> GameEventData \<Rightarrow> GameEventData option" where
  "SetHolidayEventTimeFromRule env rule stageOffset e =
     (if IsWeekly rule then
        map_option (\<lambda>anchor. e\<lparr>ge_start := anchor + stageOffset\<rparr>) (GetWeeklyAnchor (en_zone env) rule (en_now env))
      else
        let window = stageOffset + uint (ge_length e) * 60;
            y = current_year env
        in map_option (\<lambda>t. e\<lparr>ge_start := t + stageOffset\<rparr>)
             (first_occurrence env rule window [y - 1, y, y + 1, y + 2]))"

section \<open>The start of a holiday event\<close>

text \<open>
  The length and period of a stage: the stages before it shift its start, and a looping
  holiday repeats after all of its stages. Products of \<open>uint32\<close> wrap.
\<close>

definition stage_offset :: "HolidaysEntry \<Rightarrow> nat \<Rightarrow> int" where
  "stage_offset h stageIndex = sum_list (map (\<lambda>d. uint (d * 3600)) (take stageIndex (he_Duration h)))"

definition stage_times :: "HolidaysEntry \<Rightarrow> GameEventData \<Rightarrow> GameEventData" where
  "stage_times h e =
     (if ge_holidayStage e = 0 then e
      else
        let e = e\<lparr>ge_length := he_Duration h ! (ge_holidayStage e - 1) * 3600 div 60\<rparr>;
            e = (if he_CalendarFilterType h = -1 then e\<lparr>ge_occurence := 525600\<rparr>
                 else if he_CalendarFilterType h = 0 then e\<lparr>ge_occurence := 10080\<rparr> else e)
        in if he_Looping h \<noteq> 0
           then e\<lparr>ge_occurence := sum_list (map (\<lambda>d. d * 3600 div 60) (takeWhile (\<lambda>d. d \<noteq> 0) (he_Duration h)))\<rparr>
           else e)"

text \<open>The broken-down time of a packed date in a year (counted from 1900).\<close>

definition date_tm :: "u32 \<Rightarrow> int \<Rightarrow> tm" where
  "date_tm date year = tm_zero
     \<lparr>tm_year := year, tm_mon := uint (drop_bit 20 date AND 0xF), tm_mday := uint (drop_bit 14 date AND 0x3F) + 1,
      tm_hour := uint (drop_bit 6 date AND 0x1F), tm_min := uint (date AND 0x3F)\<rparr>"

definition dated :: "u32 \<Rightarrow> int" where
  "dated date = uint (packed_year date) + 100"

fun next_date :: "ge_env \<Rightarrow> bool \<Rightarrow> int \<Rightarrow> u32 list \<Rightarrow> GameEventData \<Rightarrow> GameEventData" where
  "next_date env singleDate stageOffset [] e = e"
| "next_date env singleDate stageOffset (date # dates) e =
     (if date = 0 then e
      else
        let year = tm_year (localtime (en_zone env) (en_now env));
            startTime = mktime (en_zone env) (date_tm date (if singleDate then year - 1 else dated date))
        in if en_now env < startTime + stageOffset + duration_of e then e\<lparr>ge_start := startTime + stageOffset\<rparr>
           else if singleDate
           then e\<lparr>ge_start := mktime_again (en_zone env) startTime
                  ((localtime (en_zone env) startTime)\<lparr>tm_year := year\<rparr>) + stageOffset\<rparr>
           else next_date env singleDate stageOffset dates e)"

text \<open>\<open>None\<close> is the null pointer of a holiday that is not in the client data.\<close>

definition SetHolidayEventTime :: "ge_env \<Rightarrow> holiday_store \<Rightarrow> GameEventMgr \<Rightarrow> GameEventData \<Rightarrow> GameEventData option" where
  "SetHolidayEventTime env hs m e =
     (let rule = GetHolidayRule m (ge_holiday_id e) in
      if ge_holidayStage e = 0 \<and> rule = None then Some e
      else case LookupEntry hs (ge_holiday_id e) of
        None \<Rightarrow> None
      | Some h \<Rightarrow>
          if he_Date h ! 0 = 0 \<and> rule = None \<or> he_Duration h ! 0 = 0 then Some e
          else
            let stageOffset = (if ge_holidayStage e = 0 then 0 else stage_offset h (ge_holidayStage e - 1));
                e = stage_times h e
            in case rule of
                 Some r \<Rightarrow> Some (case SetHolidayEventTimeFromRule env r stageOffset e of Some e' \<Rightarrow> e' | None \<Rightarrow> e)
               | None \<Rightarrow>
                   if he_Looping h \<noteq> 0 \<and> ge_occurence e \<noteq> 0 then
                     let anchor = mktime (en_zone env) (date_tm (he_Date h ! 0) (dated (he_Date h ! 0))) + stageOffset;
                         period = uint (ge_occurence e) * 60
                     in Some (e\<lparr>ge_start :=
                          (if anchor < en_now env then anchor + ((en_now env - anchor) sdiv period) * period else anchor)\<rparr>)
                   else Some (next_date env (single_date (he_Date h ! 0)) stageOffset (he_Date h) e))"

section \<open>Local schedules\<close>

definition LoadLocalScheduleEvents :: "nat list \<Rightarrow> GameEventMgr \<Rightarrow> GameEventMgr" where
  "LoadLocalScheduleEvents rows m =
     fold (\<lambda>i m. m\<lparr>gm_localSchedule := AList.update i 0 (gm_localSchedule m)\<rparr>) rows (m\<lparr>gm_localSchedule := []\<rparr>)"

text \<open>One schedule: whether it can be used, and the manager with its event anchored.\<close>

definition reanchor :: "ge_env \<Rightarrow> nat \<times> int \<Rightarrow> GameEventMgr \<Rightarrow> bool \<times> GameEventMgr" where
  "reanchor env p m =
     (case p of (eventId, originalStart) \<Rightarrow>
        if originalStart = 0 \<or> eventId \<ge> length (gm_event m) then (False, m)
        else if ge_state (event m eventId) \<noteq> GAMEEVENT_NORMAL \<or> ge_occurence (event m eventId) = 0 then (True, m)
        else if IsActiveEvent eventId m \<or> eventId \<in> set (gm_overridden m) then (True, m)
        else case GetLocalWallClockAnchor (en_zone env) originalStart (uint (ge_occurence (event m eventId))) (en_now env) of
          None \<Rightarrow> (False, m)
        | Some anchor \<Rightarrow> (True, upd_event eventId (\<lambda>e. e\<lparr>ge_start := anchor\<rparr>) m))"

fun reanchor_all :: "ge_env \<Rightarrow> (nat \<times> int) list \<Rightarrow> GameEventMgr \<Rightarrow> nat list \<times> GameEventMgr" where
  "reanchor_all env [] m = ([], m)"
| "reanchor_all env (p # ps) m =
     (let (usable, m') = reanchor env p m; (unusable, m'') = reanchor_all env ps m'
      in (if usable then unusable else fst p # unusable, m''))"

definition ReanchorLocalScheduleEvents :: "ge_env \<Rightarrow> GameEventMgr \<Rightarrow> GameEventMgr" where
  "ReanchorLocalScheduleEvents env m =
     (let (unusable, m') = reanchor_all env (gm_localSchedule m) m
      in m'\<lparr>gm_localSchedule := filter (\<lambda>p. fst p \<notin> set unusable) (gm_localSchedule m')\<rparr>)"

definition reschedule_event :: "ge_env \<Rightarrow> holiday_store \<Rightarrow> nat \<Rightarrow> GameEventMgr \<Rightarrow> GameEventMgr option" where
  "reschedule_event env hs eventId m =
     (let e = event m eventId in
      if ge_holiday_id e = 0 \<or> GetHolidayRule m (ge_holiday_id e) = None then Some m
      else if IsActiveEvent eventId m \<or> eventId \<in> set (gm_overridden m) then Some m
      else map_option (\<lambda>e'. upd_event eventId (\<lambda>_. e') m) (SetHolidayEventTime env hs m e))"

fun reschedule_events :: "ge_env \<Rightarrow> holiday_store \<Rightarrow> nat list \<Rightarrow> GameEventMgr \<Rightarrow> GameEventMgr option" where
  "reschedule_events env hs [] m = Some m"
| "reschedule_events env hs (i # is) m = Option.bind (reschedule_event env hs i m) (reschedule_events env hs is)"

definition RecalculateScheduledEventTimes :: "ge_env \<Rightarrow> holiday_store \<times> GameEventMgr \<Rightarrow> (holiday_store \<times> GameEventMgr) option" where
  "RecalculateScheduledEventTimes env s =
     (case s of (hs, m) \<Rightarrow>
        if gm_holidayRules m \<noteq> [] then
          let hs = RebuildHolidayDates env m hs
          in map_option (\<lambda>m. (hs, ReanchorLocalScheduleEvents env m))
               (reschedule_events env hs [1..<length (gm_event m)] m)
        else Some (hs, ReanchorLocalScheduleEvents env m))"

text \<open>\<open>World::RecalculateScheduledEventTimes\<close>: the pass runs at once and sets the timer.\<close>

definition World_RecalculateScheduledEventTimes ::
  "ge_env \<Rightarrow> holiday_store \<times> GameEventMgr \<Rightarrow> (holiday_store \<times> GameEventMgr) option" where
  "World_RecalculateScheduledEventTimes env s =
     Option.bind (RecalculateScheduledEventTimes env s)
       (\<lambda>(hs, m). map_option (\<lambda>m. (hs, m)) (ForceGameEventUpdate env m))"

end
