(* ===== verification/Game_Event_Load.thy ===== *)
theory Game_Event_Load
  imports Game_Event_Schedule
begin

text \<open>
  The tables of the game event manager: \<open>Initialize\<close> and the parts of \<open>LoadFromDB\<close> that fill
  the model's state. Rows are given; a row that fails a check is logged and skipped. The
  equipment, vendor, seasonal quest and battleground tables are left out with the state
  they fill.
\<close>

definition resized_to :: "nat \<Rightarrow> 'a \<Rightarrow> 'a list \<Rightarrow> 'a list" where
  "resized_to n d xs = take n xs @ replicate (n - length xs) d"

text \<open>\<open>SELECT MAX(eventEntry)\<close>; the row is always there and holds null, read as 0, for no events.\<close>

definition Initialize :: "u8 \<Rightarrow> GameEventMgr \<Rightarrow> GameEventMgr" where
  "Initialize maxEntry m =
     (let n = unat maxEntry + 1
      in m\<lparr>gm_event := resized_to n new_GameEventData (gm_event m),
           gm_creatureGuids := resized_to (n * 2 - 1) [] (gm_creatureGuids m),
           gm_gameobjectGuids := resized_to (n * 2 - 1) [] (gm_gameobjectGuids m),
           gm_creatureQuests := resized_to n [] (gm_creatureQuests m),
           gm_gameObjectQuests := resized_to n [] (gm_gameObjectQuests m),
           gm_poolIds := resized_to (n * 2 - 1) [] (gm_poolIds m),
           gm_npcFlags := resized_to n [] (gm_npcFlags m)\<rparr>)"

definition new_GameEventMgr :: GameEventMgr where
  "new_GameEventMgr = \<lparr>gm_event = [], gm_active = [], gm_isSystemInit = False, gm_creatureQuests = [],
     gm_gameObjectQuests = [], gm_creatureGuids = [], gm_gameobjectGuids = [], gm_poolIds = [], gm_npcFlags = [],
     gm_questConditions = [], gm_holidayRules = [], gm_localSchedule = [], gm_overridden = [],
     gm_creatureRelations = [], gm_gameObjectRelations = [], gm_creatureGrid = [], gm_gameobjectGrid = [], gm_log = []\<rparr>"

record event_row =
  er_eventEntry :: u8
  er_start :: u64
  er_end :: u64
  er_occurence :: u64
  er_length :: u64
  er_holiday :: u32
  er_holidayStage :: u8
  er_description :: "u8 list"
  er_world_event :: u8
  er_announce :: u8

definition row_data :: "event_row \<Rightarrow> GameEventData \<Rightarrow> GameEventData" where
  "row_data r e =
     e\<lparr>ge_start := sint (er_start r), ge_end := sint (er_end r), ge_occurence := ucast (er_occurence r),
       ge_length := ucast (er_length r), ge_holiday_id := er_holiday r, ge_holidayStage := unat (er_holidayStage r),
       ge_description := er_description r, ge_state := event_state (er_world_event r),
       ge_announce := er_announce r, ge_nextstart := 0\<rparr>"

definition load_event :: "ge_env \<Rightarrow> holiday_store \<Rightarrow> event_row \<Rightarrow> GameEventMgr \<Rightarrow> GameEventMgr option" where
  "load_event env hs r m =
     (let event_id = unat (er_eventEntry r) in
      if event_id = 0 then Some m
      else
        let m = upd_event event_id (row_data r) m;
            m = (if map_of (gm_localSchedule m) event_id \<noteq> None
                 then m\<lparr>gm_localSchedule := AList.update event_id (sint (er_start r)) (gm_localSchedule m)\<rparr> else m);
            e = event m event_id
        in if ge_length e = 0 \<and> ge_state e = GAMEEVENT_NORMAL then Some m
           else if ge_holiday_id e \<noteq> 0 then
             if LookupEntry hs (ge_holiday_id e) = None
             then Some (upd_event event_id (\<lambda>e. e\<lparr>ge_holiday_id := 0\<rparr>) m)
             else if ge_holidayStage e > MAX_HOLIDAY_DURATIONS
             then Some (upd_event event_id (\<lambda>e. e\<lparr>ge_holidayStage := 0\<rparr>) m)
             else map_option (\<lambda>e'. upd_event event_id (\<lambda>_. e') m) (SetHolidayEventTime env hs m e)
           else Some m)"

fun load_events :: "ge_env \<Rightarrow> holiday_store \<Rightarrow> event_row list \<Rightarrow> GameEventMgr \<Rightarrow> GameEventMgr option" where
  "load_events env hs [] m = Some m"
| "load_events env hs (r # rs) m = Option.bind (load_event env hs r m) (load_events env hs rs)"

definition world_event :: "GameEventData \<Rightarrow> bool" where
  "world_event e \<longleftrightarrow> ge_state e \<noteq> GAMEEVENT_NORMAL \<and> ge_state e \<noteq> GAMEEVENT_INTERNAL"

definition load_save :: "u8 \<times> u8 \<times> u32 \<Rightarrow> GameEventMgr \<Rightarrow> GameEventMgr" where
  "load_save row m =
     (case row of (eid, st, next) \<Rightarrow>
        if unat eid \<ge> length (gm_event m) then m
        else if world_event (event m (unat eid))
        then upd_event (unat eid) (\<lambda>e. e\<lparr>ge_state := event_state st, ge_nextstart := uint next\<rparr>) m
        else m)"

text \<open>The prerequisite is a \<open>uint16\<close> cut from the column.\<close>

definition load_prerequisite :: "u8 \<times> u32 \<Rightarrow> GameEventMgr \<Rightarrow> GameEventMgr" where
  "load_prerequisite row m =
     (case row of (eid, pre) \<Rightarrow>
        let event_id = unat eid; prerequisite_event = unat (ucast pre :: u16) in
        if event_id \<ge> length (gm_event m) then m
        else if world_event (event m event_id) then
          if prerequisite_event \<ge> length (gm_event m) then m
          else upd_event event_id (\<lambda>e. e\<lparr>ge_prerequisite_events :=
                 insort_insert prerequisite_event (ge_prerequisite_events e)\<rparr>) m
        else m)"

definition push_at :: "nat \<Rightarrow> 'a \<Rightarrow> 'a list list \<Rightarrow> 'a list list" where
  "push_at i x xss = xss[i := xss ! i @ [x]]"

text \<open>The spawns; the event id is a signed byte.\<close>

definition load_creature :: "ge_env \<Rightarrow> u32 \<times> u8 \<Rightarrow> GameEventMgr \<Rightarrow> GameEventMgr" where
  "load_creature env row m =
     (case row of (guid, eid) \<Rightarrow>
        let i = internal_event_id m (sint eid) in
        if \<not> en_creatureData env guid then m
        else if \<not> in_list i (gm_creatureGuids m) then m
        else m\<lparr>gm_creatureGuids := push_at (nat i) guid (gm_creatureGuids m)\<rparr>)"

definition load_gameobject :: "ge_env \<Rightarrow> u32 \<times> u8 \<Rightarrow> GameEventMgr \<Rightarrow> GameEventMgr" where
  "load_gameobject env row m =
     (case row of (guid, eid) \<Rightarrow>
        let i = internal_event_id m (sint eid) in
        if \<not> en_gameObjectData env guid then m
        else if \<not> in_list i (gm_gameobjectGuids m) then m
        else m\<lparr>gm_gameobjectGuids := push_at (nat i) guid (gm_gameobjectGuids m)\<rparr>)"

definition load_pool :: "(u32 \<Rightarrow> bool) \<Rightarrow> u32 \<times> u8 \<Rightarrow> GameEventMgr \<Rightarrow> GameEventMgr" where
  "load_pool CheckPool row m =
     (case row of (entry, eid) \<Rightarrow>
        let i = internal_event_id m (sint eid) in
        if \<not> in_list i (gm_poolIds m) then m
        else if \<not> CheckPool entry then m
        else m\<lparr>gm_poolIds := push_at (nat i) entry (gm_poolIds m)\<rparr>)"

definition load_creature_quest :: "u32 \<times> u32 \<times> u8 \<Rightarrow> GameEventMgr \<Rightarrow> GameEventMgr" where
  "load_creature_quest row m =
     (case row of (giver, quest, event_id) \<Rightarrow>
        if unat event_id \<ge> length (gm_creatureQuests m) then m
        else m\<lparr>gm_creatureQuests := push_at (unat event_id) (giver, quest) (gm_creatureQuests m)\<rparr>)"

definition load_gameobject_quest :: "u32 \<times> u32 \<times> u8 \<Rightarrow> GameEventMgr \<Rightarrow> GameEventMgr" where
  "load_gameobject_quest row m =
     (case row of (giver, quest, event_id) \<Rightarrow>
        if unat event_id \<ge> length (gm_gameObjectQuests m) then m
        else m\<lparr>gm_gameObjectQuests := push_at (unat event_id) (giver, quest) (gm_gameObjectQuests m)\<rparr>)"

definition load_quest_condition :: "u32 \<times> u8 \<times> u32 \<times> rat \<Rightarrow> GameEventMgr \<Rightarrow> GameEventMgr" where
  "load_quest_condition row m =
     (case row of (quest, event_id, condition, num) \<Rightarrow>
        if unat event_id \<ge> length (gm_event m) then m
        else m\<lparr>gm_questConditions := sm_put quest
               \<lparr>qc_event_id = unat event_id, qc_condition = condition, qc_num = num\<rparr> (gm_questConditions m)\<rparr>)"

definition load_condition :: "u8 \<times> u32 \<times> rat \<times> u16 \<times> u16 \<Rightarrow> GameEventMgr \<Rightarrow> GameEventMgr" where
  "load_condition row m =
     (case row of (event_id, condition, req, max_ws, done_ws) \<Rightarrow>
        if unat event_id \<ge> length (gm_event m) then m
        else upd_event (unat event_id) (\<lambda>e. e\<lparr>ge_conditions := sm_put condition
               \<lparr>fc_reqNum = req, fc_done = 0, fc_max_world_state = ucast max_ws, fc_done_world_state = ucast done_ws\<rparr>
               (ge_conditions e)\<rparr>) m)"

definition load_condition_save :: "u8 \<times> u32 \<times> rat \<Rightarrow> GameEventMgr \<Rightarrow> GameEventMgr" where
  "load_condition_save row m =
     (case row of (event_id, condition, dn) \<Rightarrow>
        if unat event_id \<ge> length (gm_event m) then m
        else case map_of (ge_conditions (event m (unat event_id))) condition of
          None \<Rightarrow> m
        | Some c \<Rightarrow> upd_event (unat event_id) (\<lambda>e. e\<lparr>ge_conditions :=
            sm_put condition (c\<lparr>fc_done := dn\<rparr>) (ge_conditions e)\<rparr>) m)"

definition load_npcflag :: "u32 \<times> u8 \<times> u32 \<Rightarrow> GameEventMgr \<Rightarrow> GameEventMgr" where
  "load_npcflag row m =
     (case row of (guid, event_id, npcflag) \<Rightarrow>
        if unat event_id \<ge> length (gm_event m) then m
        else m\<lparr>gm_npcFlags := push_at (unat event_id) (guid, npcflag) (gm_npcFlags m)\<rparr>)"

record event_tables =
  et_events :: "event_row list"
  et_saves :: "(u8 \<times> u8 \<times> u32) list"
  et_prerequisites :: "(u8 \<times> u32) list"
  et_creatures :: "(u32 \<times> u8) list"
  et_gameobjects :: "(u32 \<times> u8) list"
  et_creature_quests :: "(u32 \<times> u32 \<times> u8) list"
  et_gameobject_quests :: "(u32 \<times> u32 \<times> u8) list"
  et_quest_conditions :: "(u32 \<times> u8 \<times> u32 \<times> rat) list"
  et_conditions :: "(u8 \<times> u32 \<times> rat \<times> u16 \<times> u16) list"
  et_condition_saves :: "(u8 \<times> u32 \<times> rat) list"
  et_npcflags :: "(u32 \<times> u8 \<times> u32) list"
  et_pools :: "(u32 \<times> u8) list"

text \<open>The other tables, in the order they are read.\<close>

definition load_rest :: "ge_env \<Rightarrow> (u32 \<Rightarrow> bool) \<Rightarrow> event_tables \<Rightarrow> GameEventMgr \<Rightarrow> GameEventMgr" where
  "load_rest env CheckPool t m =
     (let m = fold load_save (et_saves t) m;
          m = fold load_prerequisite (et_prerequisites t) m;
          m = fold (load_creature env) (et_creatures t) m;
          m = fold (load_gameobject env) (et_gameobjects t) m;
          m = fold load_creature_quest (et_creature_quests t) m;
          m = fold load_gameobject_quest (et_gameobject_quests t) m;
          m = fold load_quest_condition (et_quest_conditions t) m;
          m = fold load_condition (et_conditions t) m;
          m = fold load_condition_save (et_condition_saves t) m;
          m = fold load_npcflag (et_npcflags t) m
      in fold (load_pool CheckPool) (et_pools t) m)"

definition LoadFromDB :: "ge_env \<Rightarrow> holiday_store \<Rightarrow> (u32 \<Rightarrow> bool) \<Rightarrow> event_tables \<Rightarrow> GameEventMgr \<Rightarrow> GameEventMgr option" where
  "LoadFromDB env hs CheckPool t m =
     (if et_events t = [] then Some (m\<lparr>gm_event := []\<rparr>)
      else map_option (\<lambda>m. load_rest env CheckPool t (ReanchorLocalScheduleEvents env m))
             (load_events env hs (et_events t) m))"

end
