(* ===== verification/Game_Event_Checks.thy ===== *)
theory Game_Event_Checks
  imports Game_Event_Load
begin

text \<open>
  When an event is on and when the manager looks again: between now and the answer of
  \<open>NextCheck\<close> nothing changes, except for an event looked at in the very second of its start.
\<close>

lemma uint_word_of_int_le: "0 \<le> x \<Longrightarrow> uint (word_of_int x :: u32) \<le> x"
  by (simp add: uint_word_of_int mod_less_eq_dividend zmod_le_nonneg_dividend)

lemma duration_bounds: "0 \<le> duration_of e" "duration_of e < 2 ^ 32" "0 \<le> period_of e" "period_of e < 2 ^ 32"
  unfolding duration_of_def period_of_def
  using uint_lt2p [of "ge_length e * 60"] uint_lt2p [of "ge_occurence e * 60"] by simp_all

lemma smod_nonneg: "0 \<le> a \<Longrightarrow> 0 \<le> p \<Longrightarrow> a smod p = a mod p" for a p :: int
  by (cases "a = 0") (auto simp: signed_modulo_int_def sgn_if)

text \<open>A standard event, also one whose state the code does not name.\<close>

definition standard :: "GameEventData \<Rightarrow> bool" where
  "standard e \<longleftrightarrow> ge_state e = GAMEEVENT_NORMAL \<or> (\<exists>n. ge_state e = GAMEEVENT_UNNAMED n)"

text \<open>The window of such an event: strictly after its start, before its end, at the front of a period.\<close>

definition in_window :: "GameEventData \<Rightarrow> int \<Rightarrow> bool" where
  "in_window e t \<longleftrightarrow> ge_start e < t \<and> t < ge_end e \<and> (t - ge_start e) mod period_of e < duration_of e"

lemma Check_standard:
  assumes "standard (event m i)" "period_of (event m i) \<noteq> 0"
  shows "CheckOneGameEvent t m i = Some (in_window (event m i) t)"
  using assms duration_bounds(3) [of "event m i"]
  by (auto simp: CheckOneGameEvent_def standard_def in_window_def Let_def smod_nonneg)

text \<open>Remainders run on by one until the period is full.\<close>

lemma mod_run:
  fixes a p k :: int
  assumes "0 < p" "0 \<le> k" "a mod p + k < p"
  shows "(a + k) mod p = a mod p + k"
  by (rule int_mod_pos_eq [of _ _ "a div p"]) (use assms in simp_all)

lemma next_check_stable:
  assumes std: "standard (event m i)" and p: "period_of (event m i) \<noteq> 0"
    and d: "NextCheck now m i = Some d" and now: "now \<noteq> ge_start (event m i)"
    and t: "now \<le> t" "t < now + uint d"
  shows "in_window (event m i) t = in_window (event m i) now"
proof -
  define e where "e = event m i"
  define r where "r = (now - ge_start e) mod period_of e"
  have p: "0 < period_of e" using p duration_bounds(3) [of e] by (simp add: e_def)
  have d: "(if now > ge_end e then Some max_ge_check_delay
      else if ge_start e > now then Some (word_of_int (ge_start e - now))
      else let delay = (if r < duration_of e then word_of_int (duration_of e - r) else word_of_int (period_of e - r)) :: u32
        in Some (if ge_end e < now + uint delay then word_of_int (ge_end e - now) else delay)) = Some d"
  proof -
    have "\<not> ge_start e > now \<Longrightarrow> (now - ge_start e) smod period_of e = r"
      using p by (simp add: r_def smod_nonneg)
    then show ?thesis
      using d p std unfolding NextCheck_def e_def [symmetric] Let_def standard_def
      by (auto split: if_splits)
  qed
  consider "now > ge_end e" | "now \<le> ge_end e" "ge_start e > now" | "now \<le> ge_end e" "ge_start e < now"
    using now unfolding e_def by linarith
  then have "in_window e t = in_window e now"
  proof cases
    case 1
    then show ?thesis using t by (simp add: in_window_def)
  next
    case 2
    then have "t < ge_start e" using d t uint_word_of_int_le [of "ge_start e - now"] by auto
    then show ?thesis using 2 by (simp add: in_window_def)
  next
    case 3
    define D where "D = (if r < duration_of e then duration_of e - r else period_of e - r)"
    have r: "0 \<le> r" "r < period_of e" using p by (simp_all add: r_def)
    have D: "0 \<le> D" using r by (simp add: D_def)
    have dD: "Some d = Some (if ge_end e < now + uint (word_of_int D :: u32) then word_of_int (ge_end e - now) else word_of_int D)"
      using d 3 by (simp add: Let_def D_def split: if_splits)
    have "t < now + D \<and> t < ge_end e"
    proof (cases "ge_end e < now + uint (word_of_int D :: u32)")
      case True
      then have "t < ge_end e" using dD t(2) uint_word_of_int_le [of "ge_end e - now"] 3(1) by simp
      then show ?thesis using True uint_word_of_int_le [OF D] by linarith
    next
      case False
      then show ?thesis using dD t(2) uint_word_of_int_le [OF D] by simp
    qed
    then have tD: "t < now + D" "t < ge_end e" by blast+
    define k where "k = t - now"
    have k: "0 \<le> k" "k < D" "t - ge_start e = now - ge_start e + k" using t(1) tD by (simp_all add: k_def)
    have "(t - ge_start e) mod period_of e < duration_of e \<longleftrightarrow> r < duration_of e"
    proof (cases "r + k < period_of e")
      case True
      then have "(t - ge_start e) mod period_of e = r + k" unfolding k(3) r_def using p k(1) by (intro mod_run)
      then show ?thesis using k(1,2) unfolding D_def by (simp only: split: if_splits) auto
    next
      case False
      then have "r < duration_of e" "period_of e < duration_of e" using k(2) by (auto simp: D_def split: if_splits)
      then show ?thesis using pos_mod_bound [OF p, of "t - ge_start e"] by linarith
    qed
    then show ?thesis using 3 t(1) tD(2) by (simp add: in_window_def r_def)
  qed
  then show ?thesis by (simp add: e_def)
qed

text \<open>Looked at in the second of its start, an event counts as off until its first window is over.\<close>

lemma start_second:
  assumes std: "standard (event m i)" and p: "duration_of (event m i) \<le> period_of (event m i)" "0 < duration_of (event m i)"
    and now: "now = ge_start (event m i)" "now + duration_of (event m i) \<le> ge_end (event m i)"
  shows "\<not> in_window (event m i) now" "NextCheck now m i = Some (word_of_int (duration_of (event m i)))"
    "now < t \<Longrightarrow> t < now + duration_of (event m i) \<Longrightarrow> in_window (event m i) t"
proof -
  define e where "e = event m i"
  show "\<not> in_window (event m i) now" by (simp add: in_window_def now(1))
  have "uint (word_of_int (duration_of e) :: u32) = duration_of e"
    using duration_bounds(1,2) [of e] by (simp add: uint_word_of_int)
  then show "NextCheck now m i = Some (word_of_int (duration_of (event m i)))"
    using std p now unfolding NextCheck_def e_def [symmetric] standard_def by (auto simp: Let_def)
  show "now < t \<Longrightarrow> t < now + duration_of (event m i) \<Longrightarrow> in_window (event m i) t"
    using p now by (simp add: in_window_def)
qed

end
