(* ===== verification/Game_Event_Core.thy ===== *)
theory Game_Event_Core
  imports Game_Event_Checks
begin

text \<open>
  What the operations do to the events and to the set of active ones, apart from spawns,
  quest relations and messages: applying an event leaves all of this alone, starting and
  stopping change one event, and a pass of the update works event by event.
\<close>

section \<open>The core of the manager\<close>

definition core :: "GameEventMgr \<Rightarrow> GameEventMgr" where
  "core m = m\<lparr>gm_log := [], gm_creatureGrid := [], gm_gameobjectGrid := [],
     gm_creatureRelations := [], gm_gameObjectRelations := []\<rparr>"

named_theorems core_simps \<open>operations that leave the core alone\<close>

lemma coreD:
  assumes "core m' = core m"
  shows "gm_event m' = gm_event m" "gm_active m' = gm_active m" "gm_isSystemInit m' = gm_isSystemInit m"
    "gm_overridden m' = gm_overridden m" "gm_creatureQuests m' = gm_creatureQuests m"
    "gm_gameObjectQuests m' = gm_gameObjectQuests m" "gm_holidayRules m' = gm_holidayRules m"
    "gm_localSchedule m' = gm_localSchedule m" "gm_questConditions m' = gm_questConditions m"
    "gm_creatureGuids m' = gm_creatureGuids m" "gm_gameobjectGuids m' = gm_gameobjectGuids m"
    "gm_poolIds m' = gm_poolIds m" "gm_npcFlags m' = gm_npcFlags m"
  using assms by (cases m, cases m', simp add: core_def)+

lemma core_fields:
  "gm_event (core m) = gm_event m" "gm_active (core m) = gm_active m"
  by (simp_all add: core_def)

lemma core_emit [core_simps]: "core (emit x m) = core m"
  by (simp add: core_def emit_def)

lemma core_fold: "(\<And>x m. core (f x m) = core m) \<Longrightarrow> core (fold f xs m) = core m"
  by (induction xs arbitrary: m) simp_all

lemma core_spawn [core_simps]:
  "core (spawn_creature env g m) = core m" "core (spawn_gameobject env g m) = core m"
  "core (unspawn_creature env i g m) = core m" "core (unspawn_gameobject env i g m) = core m"
  "core (creature_quest k a p m) = core m" "core (gameobject_quest k a p m) = core m"
  by (simp_all add: core_def emit_def spawn_creature_def spawn_gameobject_def unspawn_creature_def
      unspawn_gameobject_def creature_quest_def gameobject_quest_def)

lemma core_folds [core_simps]:
  "core (fold (spawn_creature env) xs m) = core m" "core (fold (spawn_gameobject env) xs m) = core m"
  "core (fold (unspawn_creature env i) xs m) = core m" "core (fold (unspawn_gameobject env i) xs m) = core m"
  "core (fold (creature_quest k a) ps m) = core m" "core (fold (gameobject_quest k a) ps m) = core m"
  "core (fold (\<lambda>p. emit (X p)) xs m) = core m"
  by (rule core_fold, rule core_simps)+

lemma core_event_spawns [core_simps]:
  "core (GameEventSpawn env i m) = core m" "core (GameEventUnspawn env i m) = core m"
  "core (UpdateEventQuests k a m) = core m"
  by (simp_all add: GameEventSpawn_def GameEventUnspawn_def UpdateEventQuests_def Let_def core_simps)

lemma core_UnApply [core_simps]: "core (UnApplyEvent env k m) = core m"
  by (simp add: UnApplyEvent_def Let_def core_simps)

lemma core_Save [core_simps]: "core (SaveWorldEventStateToDB k m) = core m"
  by (simp add: SaveWorldEventStateToDB_def Let_def core_simps)

lemma GetLastStartTime_core: "core m' = core m \<Longrightarrow> GetLastStartTime t m' k = GetLastStartTime t m k"
  using coreD(1) [of m' m] by (simp add: GetLastStartTime_def event_def)

lemma ApplyNewEvent_core:
  "ApplyNewEvent env k m = Some m' \<Longrightarrow> core m' = core m"
  by (auto simp: ApplyNewEvent_def Let_def core_simps)

lemma ApplyNewEvent_total:
  "ApplyNewEvent env k m = None \<longleftrightarrow> GetLastStartTime (en_now env) m k = None"
  unfolding ApplyNewEvent_def Let_def option.map_disc_iff
  by (rule arg_cong [of _ _ "\<lambda>x. x = None"], rule GetLastStartTime_core) (simp add: core_simps)

section \<open>Starting and stopping change one event\<close>

text \<open>Whether the conditions are met, and the event after the test of \<open>CheckOneGameEventConditions\<close>.\<close>

definition all_done :: "GameEventData \<Rightarrow> bool" where
  "all_done e \<longleftrightarrow> (\<forall>c \<in> set (ge_conditions e). \<not> fc_done (snd c) < fc_reqNum (snd c))"

definition next_phase :: "int \<Rightarrow> GameEventData \<Rightarrow> GameEventData" where
  "next_phase now e = e\<lparr>ge_state := GAMEEVENT_WORLD_NEXTPHASE,
     ge_nextstart := (if ge_nextstart e = 0 then now + duration_of e else ge_nextstart e)\<rparr>"

definition tested :: "int \<Rightarrow> GameEventData \<Rightarrow> GameEventData" where
  "tested now e = (if all_done e then next_phase now e else e)"

definition begun :: "GameEventData \<Rightarrow> GameEventData" where
  "begun e = (if ge_state e = GAMEEVENT_WORLD_INACTIVE then e\<lparr>ge_state := GAMEEVENT_WORLD_CONDITIONS\<rparr> else e)"

definition started :: "int \<Rightarrow> bool \<Rightarrow> GameEventData \<Rightarrow> GameEventData" where
  "started now overwrite e =
     (if world_event e then tested now (begun e) else if overwrite then set_window now e else e)"

definition stopped :: "int \<Rightarrow> bool \<Rightarrow> GameEventData \<Rightarrow> GameEventData" where
  "stopped now overwrite e =
     (if overwrite \<and> \<not> world_event e then set_window (now - duration_of e) e
      else if world_event e \<and> (overwrite \<or> ge_state e \<noteq> GAMEEVENT_WORLD_FINISHED) then reset_conditions e
      else e)"

definition set_event :: "nat \<Rightarrow> GameEventData \<Rightarrow> GameEventMgr \<Rightarrow> GameEventMgr" where
  "set_event k e m = m\<lparr>gm_event := (gm_event m)[k := e]\<rparr>"

lemma upd_event_set: "upd_event k f m = set_event k (f (event m k)) m"
  by (simp add: upd_event_def set_event_def event_def)

lemma set_event_simps [simp]:
  "set_event k (event m k) m = m"
  "set_event k e (set_event k e' m) = set_event k e m"
  "k < length (gm_event m) \<Longrightarrow> event (set_event k e m) k = e"
  "j \<noteq> k \<Longrightarrow> event (set_event k e m) j = event m j"
  "length (gm_event (set_event k e m)) = length (gm_event m)"
  "gm_active (set_event k e m) = gm_active m"
  "gm_isSystemInit (set_event k e m) = gm_isSystemInit m"
  "gm_overridden (set_event k e m) = gm_overridden m"
  by (simp_all add: set_event_def event_def)

lemma core_set_event: "core m' = core m \<Longrightarrow> core (set_event k e m') = core (set_event k e m)"
  by (cases m, cases m') (simp add: core_def set_event_def)

lemma core_event: "core m' = core m \<Longrightarrow> event m' k = event m k"
  using coreD(1) [of m' m] by (simp add: event_def)

lemma conditions_eq:
  "CheckOneGameEventConditions now k m = (all_done (event m k), set_event k (tested now (event m k)) m)"
proof (cases "all_done (event m k)")
  case True
  then have "\<not> (\<exists>c \<in> set (ge_conditions (event m k)). fc_done (snd c) < fc_reqNum (snd c))" by (simp add: all_done_def)
  then show ?thesis using True unfolding CheckOneGameEventConditions_def upd_event_set
    by (simp add: tested_def next_phase_def duration_of_def)
next
  case False
  then have "\<exists>c \<in> set (ge_conditions (event m k)). fc_done (snd c) < fc_reqNum (snd c)" by (simp add: all_done_def)
  then show ?thesis using False unfolding CheckOneGameEventConditions_def upd_event_set
    by (simp add: tested_def)
qed

definition activated :: "nat \<Rightarrow> bool \<Rightarrow> GameEventMgr \<Rightarrow> GameEventMgr" where
  "activated k overwrite m = AddActiveEvent k (override k overwrite m)"

lemma activated_simps [simp]:
  "gm_event (activated k ov m) = gm_event m" "event (activated k ov m) j = event m j"
  "gm_active (activated k ov m) = insort_insert k (gm_active m)"
  by (simp_all add: activated_def AddActiveEvent_def override_def event_def)

lemma start_event_core:
  assumes k: "k < length (gm_event m)" and s: "start_event env k ov m = Some (met, m')"
  shows "core m' = core (set_event k (started (en_now env) ov (event m k)) (activated k ov m))"
    and "met \<longleftrightarrow> world_event (event m k) \<and> all_done (event m k)"
proof -
  let ?e = "event m k"
  have "core m' = core (set_event k (started (en_now env) ov ?e) (activated k ov m)) \<and>
    (met \<longleftrightarrow> world_event ?e \<and> all_done ?e)"
  proof (cases "world_event ?e")
    case False
    then have n: "ge_state ?e = GAMEEVENT_NORMAL \<or> ge_state ?e = GAMEEVENT_INTERNAL" by (auto simp: world_event_def)
    with s obtain m1 where a: "ApplyNewEvent env k (activated k ov m) = Some m1"
      and m': "\<not> met" "m' = (if ov then upd_event k (set_window (en_now env)) m1 else m1)"
      by (auto simp: start_event_def Let_def activated_def AddActiveEvent_def override_def split: if_splits)
    note c = ApplyNewEvent_core [OF a]
    have "core (if ov then set_event k (set_window (en_now env) ?e) m1 else m1) =
        core (set_event k (if ov then set_window (en_now env) ?e else ?e) (activated k ov m))"
      using core_set_event [OF c, of k "set_window (en_now env) ?e"] c
        set_event_simps(1) [of k "activated k ov m"] by (cases ov) (simp_all only: activated_simps if_True if_False)
    then show ?thesis
      using False m' core_event [OF c, of k]
      by (cases ov) (simp_all only: started_def upd_event_set activated_simps if_True if_False simp_thms)
  next
    case True
    then have n: "\<not> (ge_state ?e = GAMEEVENT_NORMAL \<or> ge_state ?e = GAMEEVENT_INTERNAL)" by (auto simp: world_event_def)
    let ?m = "set_event k (begun ?e) (override k ov m)"
    have o: "event (override k ov m) k = ?e" "length (gm_event (override k ov m)) = length (gm_event m)"
      by (simp_all add: override_def event_def)
    have b: "(if ge_state ?e = GAMEEVENT_WORLD_INACTIVE
        then upd_event k (\<lambda>e. e\<lparr>ge_state := GAMEEVENT_WORLD_CONDITIONS\<rparr>) (override k ov m) else override k ov m) = ?m"
      using o(1) set_event_simps(1) [of k "override k ov m"] by (simp add: begun_def upd_event_set)
    from s n obtain m1 where a: "ApplyNewEvent env k (AddActiveEvent k ?m) = Some m1"
      and r: "(met, m') = (case CheckOneGameEventConditions (en_now env) k m1 of (q, m2) \<Rightarrow> (q, SaveWorldEventStateToDB k m2))"
      unfolding start_event_def Let_def b by auto
    note c = ApplyNewEvent_core [OF a]
    have e1: "event m1 k = begun ?e"
      using core_event [OF c, of k] k o by (simp add: AddActiveEvent_def event_def set_event_def)
    have c1: "core m1 = core (set_event k (begun ?e) (activated k ov m))"
      unfolding c by (cases m) (simp add: activated_def AddActiveEvent_def set_event_def override_def)
    have m': "m' = SaveWorldEventStateToDB k (set_event k (tested (en_now env) (begun ?e)) m1)" "met = all_done (begun ?e)"
      using r unfolding conditions_eq e1 by simp_all
    have "core m' = core (set_event k (tested (en_now env) (begun ?e)) (activated k ov m))"
      unfolding m'(1) core_Save core_set_event [OF c1] set_event_simps(2) ..
    then show ?thesis using True m'(2) by (simp add: started_def begun_def all_done_def)
  qed
  then show "core m' = core (set_event k (started (en_now env) ov ?e) (activated k ov m))"
    and "met \<longleftrightarrow> world_event ?e \<and> all_done ?e" by blast+
qed

lemma start_event_total:
  assumes k: "k < length (gm_event m)"
  shows "start_event env k ov m = None \<longleftrightarrow> ge_state (event m k) = GAMEEVENT_NORMAL \<and> ge_occurence (event m k) = 0"
proof -
  have g: "GetLastStartTime t (AddActiveEvent k (override k ov m)) k = None \<longleftrightarrow>
      ge_state (event m k) = GAMEEVENT_NORMAL \<and> ge_occurence (event m k) = 0" for t
    using k by (simp add: GetLastStartTime_def AddActiveEvent_def override_def event_def)
  have w: "GetLastStartTime t (AddActiveEvent k (upd_event k f (override k ov m))) k \<noteq> None"
    if "ge_state (f (event m k)) \<noteq> GAMEEVENT_NORMAL" for t f
    using k that by (simp add: GetLastStartTime_def AddActiveEvent_def override_def event_def upd_event_def)
  show ?thesis
    using g w unfolding start_event_def Let_def
    by (auto simp: ApplyNewEvent_total simp del: not_None_eq split: prod.splits if_splits)
qed

lemma StopEvent_core:
  assumes k: "k < length (gm_event m)"
  shows "core (StopEvent env k ov m) =
    core (set_event k (stopped (en_now env) ov (event m k)) (RemoveActiveEvent k (override k ov m)))"
proof -
  let ?e = "event m k"
  define m1 where "m1 = RemoveActiveEvent k (override k ov m)"
  define m2 where "m2 = UnApplyEvent env k m1"
  have c: "core m2 = core m1" by (simp add: m2_def core_simps)
  have e: "event m2 k = ?e" "event m1 k = ?e"
    using core_event [OF c, of k] by (simp_all add: m1_def RemoveActiveEvent_def override_def event_def)
  have "StopEvent env k ov m =
    (if ov \<and> \<not> world_event ?e then set_event k (set_window (en_now env - duration_of ?e) ?e) m2
     else if world_event ?e \<and> (ov \<or> ge_state ?e \<noteq> GAMEEVENT_WORLD_FINISHED)
       then emit (DeleteEventSave k) (set_event k (reset_conditions ?e) m2) else m2)"
    unfolding StopEvent_def Let_def m1_def [symmetric] m2_def [symmetric] upd_event_set e world_event_def ..
  then show ?thesis
    using core_set_event [OF c] c set_event_simps(1) [of k m1] e(2)
    unfolding m1_def [symmetric] stopped_def by (auto simp: core_simps)
qed

section \<open>A pass event by event\<close>

definition finishing :: "int \<Rightarrow> GameEventData \<Rightarrow> bool" where
  "finishing now e \<longleftrightarrow> ge_state e = GAMEEVENT_WORLD_NEXTPHASE \<and> ge_nextstart e \<le> now"

definition passed :: "int \<Rightarrow> GameEventData \<Rightarrow> GameEventData" where
  "passed now e =
     (if finishing now e then e\<lparr>ge_state := GAMEEVENT_WORLD_FINISHED, ge_nextstart := 0\<rparr>
      else if ge_state e = GAMEEVENT_WORLD_CONDITIONS then tested now e else e)"

lemma take_delayD:
  "take_delay env k (u, m) = Some (u', m') \<Longrightarrow>
     m' = m \<and> up_activate u' = up_activate u \<and> up_deactivate u' = up_deactivate u"
  by (auto simp: take_delay_def split: if_splits)

lemma Check_state:
  "CheckOneGameEvent now m k = Some b \<Longrightarrow>
     (ge_state (event m k) = GAMEEVENT_WORLD_CONDITIONS \<or> ge_state (event m k) = GAMEEVENT_WORLD_NEXTPHASE \<longrightarrow> b) \<and>
     (ge_state (event m k) = GAMEEVENT_WORLD_FINISHED \<or> ge_state (event m k) = GAMEEVENT_INTERNAL \<longrightarrow> \<not> b)"
  by (auto simp: CheckOneGameEvent_def Let_def)

lemma update_event_core:
  assumes k: "k < length (gm_event m)" and s: "update_event env k (u, m) = Some (u', m')"
  obtains b where "CheckOneGameEvent (en_now env) m k = Some b"
    "core m' = core (set_event k (passed (en_now env) (event m k)) m)"
    "up_activate u' = (if b \<and> \<not> finishing (en_now env) (event m k) \<and> \<not> IsActiveEvent k m
       then insort_insert k (up_activate u) else up_activate u)"
    "up_deactivate u' = (if (b \<longrightarrow> finishing (en_now env) (event m k)) \<and> IsActiveEvent k m
       then insort_insert k (up_deactivate u) else up_deactivate u)"
proof -
  let ?e = "event m k" and ?now = "en_now env"
  obtain b where b: "CheckOneGameEvent ?now m k = Some b" using s by (auto simp: update_event_def split: option.splits)
  note st = Check_state [OF b]
  have "core m' = core (set_event k (passed ?now ?e) m) \<and>
    up_activate u' = (if b \<and> \<not> finishing ?now ?e \<and> \<not> IsActiveEvent k m then insort_insert k (up_activate u) else up_activate u) \<and>
    up_deactivate u' = (if (b \<longrightarrow> finishing ?now ?e) \<and> IsActiveEvent k m then insort_insert k (up_deactivate u) else up_deactivate u)"
  proof (cases b)
    case False
    then have p: "passed ?now ?e = ?e" "\<not> finishing ?now ?e" using st by (auto simp: passed_def finishing_def)
    show ?thesis
      using s b False p by (auto simp: update_event_def core_simps split: if_splits dest!: take_delayD)
  next
    case True
    show ?thesis
    proof (cases "finishing ?now ?e")
      case fin: True
      then show ?thesis
        using s b True by (auto simp: update_event_def finishing_def finish_event_def upd_event_set passed_def core_simps)
    next
      case fin: False
      let ?m = "if ge_state ?e = GAMEEVENT_WORLD_CONDITIONS
        then case CheckOneGameEventConditions ?now k m of (met, m) \<Rightarrow> if met then SaveWorldEventStateToDB k m else m
        else m"
      have m: "core ?m = core (set_event k (passed ?now ?e) m)"
        using fin by (auto simp: conditions_eq passed_def core_simps tested_def)
      have "take_delay env k (if \<not> IsActiveEvent k ?m then u\<lparr>up_activate := insort_insert k (up_activate u)\<rparr> else u, ?m) = Some (u', m')"
        using s b True fin unfolding update_event_def finishing_def by (simp add: Let_def)
      from take_delayD [OF this] have t: "m' = ?m" "up_deactivate u' = up_deactivate u"
        "up_activate u' = (if \<not> IsActiveEvent k ?m then insort_insert k (up_activate u) else up_activate u)"
        by (auto split: if_splits)
      have "IsActiveEvent k ?m = IsActiveEvent k m" using coreD(2) [OF m] by (simp add: IsActiveEvent_def)
      then show ?thesis using t m True fin by simp
    qed
  qed
  then show ?thesis using b that by blast
qed

text \<open>The test of an event that is not a world event waiting for others.\<close>

definition own_check :: "int \<Rightarrow> GameEventData \<Rightarrow> bool \<Rightarrow> bool" where
  "own_check now e b \<longleftrightarrow>
     (case ge_state e of
        GAMEEVENT_WORLD_INACTIVE \<Rightarrow> True
      | GAMEEVENT_WORLD_CONDITIONS \<Rightarrow> b
      | GAMEEVENT_WORLD_NEXTPHASE \<Rightarrow> b
      | GAMEEVENT_WORLD_FINISHED \<Rightarrow> \<not> b
      | GAMEEVENT_INTERNAL \<Rightarrow> \<not> b
      | _ \<Rightarrow> b = in_window e now)"

lemma Check_own: "CheckOneGameEvent now m k = Some b \<Longrightarrow> own_check now (event m k) b"
  using duration_bounds(3) [of "event m k"]
  by (auto simp: CheckOneGameEvent_def own_check_def in_window_def Let_def smod_nonneg
      split: GameEventState.splits if_splits)

lemma update_events_core:
  assumes "distinct is" "\<forall>k \<in> set is. k < length (gm_event m)"
    and "update_events env is (u, m) = Some (u', m')"
  shows "length (gm_event m') = length (gm_event m) \<and> gm_active m' = gm_active m \<and> gm_overridden m' = gm_overridden m \<and>
    (\<forall>k. event m' k = (if k \<in> set is then passed (en_now env) (event m k) else event m k)) \<and>
    (\<exists>B \<subseteq> set is. (\<forall>k \<in> set is. own_check (en_now env) (event m k) (k \<in> B)) \<and>
       set (up_activate u') = set (up_activate u) \<union>
         {k \<in> B. \<not> finishing (en_now env) (event m k) \<and> k \<notin> set (gm_active m)} \<and>
       set (up_deactivate u') = set (up_deactivate u) \<union>
         {k \<in> set is. (k \<in> B \<longrightarrow> finishing (en_now env) (event m k)) \<and> k \<in> set (gm_active m)})"
  using assms
proof (induction "is" arbitrary: u m)
  case Nil
  then show ?case by simp
next
  case (Cons i "is")
  let ?now = "en_now env"
  from Cons.prems(3) obtain u1 m1 where s: "update_event env i (u, m) = Some (u1, m1)"
    and r: "update_events env is (u1, m1) = Some (u', m')" by (auto simp: bind_eq_Some_conv)
  have i: "i < length (gm_event m)" "i \<notin> set is" "distinct is" using Cons.prems by auto
  obtain b where b: "CheckOneGameEvent ?now m i = Some b"
    and c: "core m1 = core (set_event i (passed ?now (event m i)) m)"
    and ua: "up_activate u1 = (if b \<and> \<not> finishing ?now (event m i) \<and> \<not> IsActiveEvent i m
       then insort_insert i (up_activate u) else up_activate u)"
    and ud: "up_deactivate u1 = (if (b \<longrightarrow> finishing ?now (event m i)) \<and> IsActiveEvent i m
       then insort_insert i (up_deactivate u) else up_deactivate u)"
    by (rule update_event_core [OF i(1) s])
  have m1: "length (gm_event m1) = length (gm_event m)" "gm_active m1 = gm_active m" "gm_overridden m1 = gm_overridden m"
    using coreD(1,2,4) [OF c] by simp_all
  have e1: "event m1 k = (if k = i then passed ?now (event m i) else event m k)" for k
    using core_event [OF c, of k] i(1) by simp
  have "\<forall>k \<in> set is. k < length (gm_event m1)" using Cons.prems(2) m1 by simp
  from Cons.IH [OF i(3) this r] obtain B where B: "B \<subseteq> set is"
    "length (gm_event m') = length (gm_event m1)" "gm_active m' = gm_active m1" "gm_overridden m' = gm_overridden m1"
    "\<And>k. event m' k = (if k \<in> set is then passed ?now (event m1 k) else event m1 k)"
    "\<forall>k \<in> set is. own_check ?now (event m1 k) (k \<in> B)"
    "set (up_activate u') = set (up_activate u1) \<union> {k \<in> B. \<not> finishing ?now (event m1 k) \<and> k \<notin> set (gm_active m1)}"
    "set (up_deactivate u') = set (up_deactivate u1) \<union>
         {k \<in> set is. (k \<in> B \<longrightarrow> finishing ?now (event m1 k)) \<and> k \<in> set (gm_active m1)}"
    by blast
  define B' where "B' = (if b then insert i B else B)"
  have B'i: "i \<in> B' \<longleftrightarrow> b" and B'k: "k \<noteq> i \<Longrightarrow> k \<in> B' \<longleftrightarrow> k \<in> B" for k
    using B(1) i(2) by (auto simp: B'_def)
  have other: "event m1 k = event m k" if "k \<in> set is" for k using that i(2) e1 by auto
  have "own_check ?now (event m k) (k \<in> B')" if "k = i \<or> k \<in> set is" for k
    by (cases "k = i") (use Check_own [OF b] bspec [OF B(6), of k] B'i B'k [of k] other [of k] that in simp_all)
  then have 1: "\<forall>k \<in> set (i # is). own_check ?now (event m k) (k \<in> B')" by simp
  have act: "set (up_activate u1) = set (up_activate u) \<union> {k \<in> {i}. b \<and> \<not> finishing ?now (event m i) \<and> i \<notin> set (gm_active m)}"
    unfolding ua IsActiveEvent_def by (auto simp: set_insort_insert)
  have deact: "set (up_deactivate u1) = set (up_deactivate u) \<union>
      {k \<in> {i}. (b \<longrightarrow> finishing ?now (event m i)) \<and> i \<in> set (gm_active m)}"
    unfolding ud IsActiveEvent_def by (auto simp: set_insort_insert)
  have 2: "set (up_activate u') = set (up_activate u) \<union>
      {k \<in> B'. \<not> finishing ?now (event m k) \<and> k \<notin> set (gm_active m)}"
    unfolding B(7) act m1(2) using B(1) i(2) other by (auto simp: B'_def)
  have 3: "set (up_deactivate u') = set (up_deactivate u) \<union>
      {k \<in> set (i # is). (k \<in> B' \<longrightarrow> finishing ?now (event m k)) \<and> k \<in> set (gm_active m)}"
  proof -
    have "{k \<in> set is. (k \<in> B' \<longrightarrow> finishing ?now (event m k)) \<and> k \<in> set (gm_active m)} =
        {k \<in> set is. (k \<in> B \<longrightarrow> finishing ?now (event m1 k)) \<and> k \<in> set (gm_active m)}"
      using i(2) other B'k by (intro Collect_cong) metis
    then show ?thesis unfolding B(8) deact m1(2) using i(2) B'i by auto
  qed
  have 4: "event m' k = (if k \<in> set (i # is) then passed ?now (event m k) else event m k)" for k
    using B(5) [of k] e1 [of k] i(2) by auto
  have "B' \<subseteq> set (i # is)" using B(1) by (auto simp: B'_def)
  then show ?case using 1 2 3 4 B(2-4) m1 by (intro conjI exI [of _ B']) simp_all
qed

lemma activate_events_core:
  assumes "distinct is" "\<forall>k \<in> set is. k < length (gm_event m)"
    and "activate_events env is (d, m) = Some (d', m')"
  shows "length (gm_event m') = length (gm_event m) \<and> set (gm_active m') = set (gm_active m) \<union> set is \<and>
    gm_overridden m' = gm_overridden m \<and>
    (\<forall>k. event m' k = (if k \<in> set is then started (en_now env) False (event m k) else event m k))"
  using assms
proof (induction "is" arbitrary: d m)
  case (Cons i "is")
  from Cons.prems(3) obtain met m1 where s: "start_event env i False m = Some (met, m1)"
    and r: "activate_events env is (if met then 0 else d, m1) = Some (d', m')" by (auto simp: bind_eq_Some_conv)
  have i: "i < length (gm_event m)" "i \<notin> set is" "distinct is" using Cons.prems by auto
  note c = start_event_core(1) [OF i(1) s]
  have m1: "length (gm_event m1) = length (gm_event m)" "gm_active m1 = insort_insert i (gm_active m)"
      "gm_overridden m1 = gm_overridden m"
    using coreD(1,2,4) [OF c] by (simp_all add: activated_def AddActiveEvent_def override_def)
  have e1: "event m1 k = (if k = i then started (en_now env) False (event m i) else event m k)" for k
    using core_event [OF c, of k] i(1) by simp
  have "\<forall>k \<in> set is. k < length (gm_event m1)" using Cons.prems(2) m1 by simp
  from Cons.IH [OF i(3) this r] show ?case using m1 e1 i(2) by (auto simp: set_insort_insert)
qed simp

lemma stop_events_core:
  assumes "distinct is" "\<forall>k \<in> set is. k < length (gm_event m)"
    and "m' = fold (\<lambda>i. StopEvent env i False) is m"
  shows "length (gm_event m') = length (gm_event m) \<and> set (gm_active m') = set (gm_active m) - set is \<and>
    gm_overridden m' = gm_overridden m \<and>
    (\<forall>k. event m' k = (if k \<in> set is then stopped (en_now env) False (event m k) else event m k))"
  using assms
proof (induction "is" arbitrary: m)
  case (Cons i "is")
  have i: "i < length (gm_event m)" "i \<notin> set is" "distinct is" using Cons.prems by auto
  let ?m1 = "StopEvent env i False m"
  note c = StopEvent_core [OF i(1), of env False]
  have m1: "length (gm_event ?m1) = length (gm_event m)" "gm_active ?m1 = removeAll i (gm_active m)"
      "gm_overridden ?m1 = gm_overridden m"
    using coreD(1,2,4) [OF c] by (simp_all add: RemoveActiveEvent_def override_def)
  have e1: "event ?m1 k = (if k = i then stopped (en_now env) False (event m i) else event m k)" for k
    using core_event [OF c, of k] i(1) by (simp add: RemoveActiveEvent_def override_def event_def set_event_def)
  have "\<forall>k \<in> set is. k < length (gm_event ?m1)" using Cons.prems(2) m1 by simp
  moreover have "m' = fold (\<lambda>i. StopEvent env i False) is ?m1" using Cons.prems(3) by simp
  ultimately show ?case using Cons.IH [OF i(3)] m1 e1 i(2) by auto
qed simp

end
