(* ===== verification/Game_Event_Invariant.thy ===== *)
theory Game_Event_Invariant
  imports Game_Event_Core
begin

text \<open>
  What every operation of the manager keeps: the tables have one entry per event, active
  events exist, the quests of active events are offered, and a world event is past its
  condition phase only when its conditions are met. The operations are the steps of a
  machine, for which the invariant is an interpretation of the locale \<open>invariant_system\<close>.
\<close>

section \<open>The invariant\<close>

definition past_conditions :: "GameEventData \<Rightarrow> bool" where
  "past_conditions e \<longleftrightarrow> ge_state e = GAMEEVENT_WORLD_NEXTPHASE \<or> ge_state e = GAMEEVENT_WORLD_FINISHED"

definition phase_ok :: "GameEventData \<Rightarrow> bool" where
  "phase_ok e \<longleftrightarrow> (past_conditions e \<longrightarrow> all_done e)"

definition events_ok :: "GameEventMgr \<Rightarrow> bool" where
  "events_ok m \<longleftrightarrow> (\<forall>e \<in> set (gm_event m). phase_ok e) \<and> set (gm_active m) \<subseteq> {..<length (gm_event m)}"

definition tables_ok :: "GameEventMgr \<Rightarrow> bool" where
  "tables_ok m \<longleftrightarrow> (gm_event m \<noteq> [] \<longrightarrow> length (gm_creatureQuests m) = length (gm_event m) \<and>
     length (gm_gameObjectQuests m) = length (gm_event m) \<and> length (gm_npcFlags m) = length (gm_event m) \<and>
     length (gm_creatureGuids m) = length (gm_event m) * 2 - 1 \<and>
     length (gm_gameobjectGuids m) = length (gm_event m) * 2 - 1 \<and>
     length (gm_poolIds m) = length (gm_event m) * 2 - 1)"

definition quests_offered :: "GameEventMgr \<Rightarrow> bool" where
  "quests_offered m \<longleftrightarrow>
     (\<forall>k \<in> set (gm_active m). set (gm_creatureQuests m ! k) \<subseteq> set (gm_creatureRelations m) \<and>
        set (gm_gameObjectQuests m ! k) \<subseteq> set (gm_gameObjectRelations m))"

definition manager_ok :: "GameEventMgr \<Rightarrow> bool" where
  "manager_ok m \<longleftrightarrow> tables_ok m \<and> events_ok m \<and> quests_offered m"

section \<open>Quest relations\<close>

text \<open>What does not touch the relations.\<close>

definition rels :: "GameEventMgr \<Rightarrow> (u32 \<times> u32) list \<times> (u32 \<times> u32) list" where
  "rels m = (gm_creatureRelations m, gm_gameObjectRelations m)"

named_theorems rels_simps \<open>operations that leave the quest relations alone\<close>

lemma rels_fold: "(\<And>x m. rels (f x m) = rels m) \<Longrightarrow> rels (fold f xs m) = rels m"
  by (induction xs arbitrary: m) simp_all

lemma rels_emit [rels_simps]: "rels (emit x m) = rels m"
  by (simp add: rels_def emit_def)

lemma rels_spawn [rels_simps]:
  "rels (spawn_creature env g m) = rels m" "rels (spawn_gameobject env g m) = rels m"
  "rels (unspawn_creature env i g m) = rels m" "rels (unspawn_gameobject env i g m) = rels m"
  by (simp_all add: rels_def emit_def spawn_creature_def spawn_gameobject_def unspawn_creature_def unspawn_gameobject_def)

lemma rels_folds [rels_simps]:
  "rels (fold (spawn_creature env) xs m) = rels m" "rels (fold (spawn_gameobject env) xs m) = rels m"
  "rels (fold (unspawn_creature env i) xs m) = rels m" "rels (fold (unspawn_gameobject env i) xs m) = rels m"
  "rels (fold (\<lambda>p. emit (X p)) xs m) = rels m"
  by (rule rels_fold, rule rels_simps)+

lemma rels_event_spawns [rels_simps]:
  "rels (GameEventSpawn env i m) = rels m" "rels (GameEventUnspawn env i m) = rels m"
  by (simp_all add: GameEventSpawn_def GameEventUnspawn_def Let_def rels_simps)

lemma rels_upd [rels_simps]:
  "rels (upd_event k f m) = rels m" "rels (set_event k e m) = rels m" "rels (SaveWorldEventStateToDB k m) = rels m"
  by (simp_all add: rels_def upd_event_def set_event_def SaveWorldEventStateToDB_def Let_def emit_def)

lemma rels_active [rels_simps]:
  "rels (AddActiveEvent k m) = rels m" "rels (RemoveActiveEvent k m) = rels m" "rels (override k ov m) = rels m"
  by (simp_all add: rels_def AddActiveEvent_def RemoveActiveEvent_def override_def)

text \<open>Relations after the quests of an event are added.\<close>

lemma add_creature_quests:
  "fold (creature_quest k True) ps m = m\<lparr>gm_creatureRelations := mm_insert_all ps (gm_creatureRelations m)\<rparr>"
  by (induction ps arbitrary: m) (auto simp: creature_quest_def)

lemma add_gameobject_quests:
  "fold (gameobject_quest k True) ps m = m\<lparr>gm_gameObjectRelations := mm_insert_all ps (gm_gameObjectRelations m)\<rparr>"
  by (induction ps arbitrary: m) (auto simp: gameobject_quest_def)

lemma rels_add:
  "rels (UpdateEventQuests k True m) =
     (mm_insert_all (gm_creatureQuests m ! k) (gm_creatureRelations m),
      mm_insert_all (gm_gameObjectQuests m ! k) (gm_gameObjectRelations m))"
  by (simp add: UpdateEventQuests_def Let_def add_creature_quests add_gameobject_quests rels_def)

lemma erase_pair_keeps: "q \<in> set qs \<Longrightarrow> q \<noteq> p \<Longrightarrow> q \<in> set (erase_pair p qs)"
  by (induction p qs rule: erase_pair.induct) auto

text \<open>Removing the quests of an event keeps those an active event still has.\<close>

lemma remove_creature_quests:
  assumes "j \<in> set (gm_active m)" "j \<noteq> k" "q \<in> set (gm_creatureQuests m ! j)" "q \<in> set (gm_creatureRelations m)"
  shows "q \<in> set (gm_creatureRelations (fold (creature_quest k False) ps m))"
  using assms
proof (induction ps arbitrary: m)
  case (Cons p ps)
  have "q \<in> set (gm_creatureRelations (creature_quest k False p m))"
  proof (cases "q = p")
    case True
    then have "hasCreatureQuestActiveEventExcept (snd p) k m"
      using Cons.prems by (auto simp: hasCreatureQuestActiveEventExcept_def)
    then show ?thesis using Cons.prems by (simp add: creature_quest_def)
  next
    case False
    then show ?thesis using Cons.prems erase_pair_keeps by (simp add: creature_quest_def)
  qed
  moreover have "gm_active (creature_quest k False p m) = gm_active m" "gm_creatureQuests (creature_quest k False p m) = gm_creatureQuests m"
    by (simp_all add: creature_quest_def)
  ultimately show ?case using Cons.IH [of "creature_quest k False p m"] Cons.prems(1-3) by simp
qed simp

lemma remove_gameobject_quests:
  assumes "j \<in> set (gm_active m)" "j \<noteq> k" "q \<in> set (gm_gameObjectQuests m ! j)" "q \<in> set (gm_gameObjectRelations m)"
  shows "q \<in> set (gm_gameObjectRelations (fold (gameobject_quest k False) ps m))"
  using assms
proof (induction ps arbitrary: m)
  case (Cons p ps)
  have "q \<in> set (gm_gameObjectRelations (gameobject_quest k False p m))"
  proof (cases "q = p")
    case True
    then have "hasGameObjectQuestActiveEventExcept (snd p) k m"
      using Cons.prems by (auto simp: hasGameObjectQuestActiveEventExcept_def)
    then show ?thesis using Cons.prems by (simp add: gameobject_quest_def)
  next
    case False
    then show ?thesis using Cons.prems erase_pair_keeps by (simp add: gameobject_quest_def)
  qed
  moreover have "gm_active (gameobject_quest k False p m) = gm_active m" "gm_gameObjectQuests (gameobject_quest k False p m) = gm_gameObjectQuests m"
    by (simp_all add: gameobject_quest_def)
  ultimately show ?case using Cons.IH [of "gameobject_quest k False p m"] Cons.prems(1-3) by simp
qed simp

lemma creature_quests_frame:
  "gm_gameObjectRelations (fold (creature_quest k a) ps m) = gm_gameObjectRelations m"
  "gm_creatureRelations (fold (gameobject_quest k a) ps m) = gm_creatureRelations m"
  by (induction ps arbitrary: m) (simp_all add: creature_quest_def gameobject_quest_def)

lemma offered_UpdateEventQuests:
  assumes "quests_offered m" "k \<notin> set (gm_active m)"
  shows "quests_offered (UpdateEventQuests k False m)"
proof -
  let ?m1 = "fold (creature_quest k False) (gm_creatureQuests m ! k) m"
  have c1: "core ?m1 = core m" by (rule core_simps)
  have c2: "core (UpdateEventQuests k False m) = core m" by (rule core_simps)
  note f1 = coreD(2,5,6) [OF c1] and f2 = coreD(2,5,6) [OF c2]
  show ?thesis unfolding quests_offered_def f2
  proof (intro ballI conjI subsetI)
    fix j q assume j: "j \<in> set (gm_active m)"
    then have jk: "j \<noteq> k" using assms(2) by blast
    show "q \<in> set (gm_creatureRelations (UpdateEventQuests k False m))" if "q \<in> set (gm_creatureQuests m ! j)"
      using assms(1) j jk that remove_creature_quests [of j m k q]
      unfolding UpdateEventQuests_def Let_def creature_quests_frame quests_offered_def by blast
    show "q \<in> set (gm_gameObjectRelations (UpdateEventQuests k False m))" if "q \<in> set (gm_gameObjectQuests m ! j)"
      using assms(1) j jk that unfolding UpdateEventQuests_def Let_def quests_offered_def
      by (intro remove_gameobject_quests) (auto simp: f1 creature_quests_frame)
  qed
qed

section \<open>The parts of the invariant under one step\<close>

lemma manager_ok_cong:
  assumes "core m' = core m" "rels m' = rels m"
  shows "manager_ok m' = manager_ok m"
  using coreD [OF assms(1)] assms(2)
  by (simp add: manager_ok_def tables_ok_def events_ok_def quests_offered_def rels_def)

lemma events_tables_cong:
  assumes "core m' = core m"
  shows "events_ok m' = events_ok m" "tables_ok m' = tables_ok m"
  using coreD [OF assms] by (simp_all add: events_ok_def tables_ok_def)

lemma phase_ok_event: "events_ok m \<Longrightarrow> k < length (gm_event m) \<Longrightarrow> phase_ok (event m k)"
  by (simp add: events_ok_def event_def)

lemma events_ok_set: "events_ok m \<Longrightarrow> phase_ok e \<Longrightarrow> events_ok (set_event k e m)"
  using set_update_subset_insert [of "gm_event m" k e]
  by (fastforce simp: events_ok_def set_event_def)

lemma tables_ok_set [simp]: "tables_ok (set_event k e m) = tables_ok m"
  by (cases "gm_event m = []") (simp_all add: tables_ok_def set_event_def)

lemma quests_offered_set [simp]: "quests_offered (set_event k e m) = quests_offered m"
  by (simp add: quests_offered_def set_event_def)

lemma manager_ok_set: "manager_ok m \<Longrightarrow> phase_ok e \<Longrightarrow> manager_ok (set_event k e m)"
  by (simp add: manager_ok_def events_ok_set)

lemma all_done_simps [simp]:
  "all_done (next_phase now e) = all_done e" "all_done (begun e) = all_done e" "all_done (tested now e) = all_done e"
  "all_done (set_window t e) = all_done e" "all_done (e\<lparr>ge_state := s\<rparr>) = all_done e"
  "all_done (e\<lparr>ge_nextstart := t\<rparr>) = all_done e" "all_done (e\<lparr>ge_start := t\<rparr>) = all_done e"
  by (simp_all add: all_done_def next_phase_def begun_def tested_def set_window_def)

lemma phase_ok_steps:
  "phase_ok e \<Longrightarrow> phase_ok (tested now e)" "phase_ok e \<Longrightarrow> phase_ok (begun e)"
  "phase_ok e \<Longrightarrow> phase_ok (set_window t e)" "phase_ok (reset_conditions e)"
  "phase_ok e \<Longrightarrow> phase_ok (started now ov e)" "phase_ok e \<Longrightarrow> phase_ok (stopped now ov e)"
  "phase_ok e \<Longrightarrow> phase_ok (passed now e)"
proof -
  show t: "phase_ok e \<Longrightarrow> phase_ok (tested now e)" for e
    by (auto simp: phase_ok_def tested_def)
  show b: "phase_ok e \<Longrightarrow> phase_ok (begun e)" for e
    by (simp add: phase_ok_def) (simp add: begun_def past_conditions_def split: if_splits)
  show w: "phase_ok e \<Longrightarrow> phase_ok (set_window t e)" for e t
    by (simp add: phase_ok_def) (simp add: past_conditions_def set_window_def)
  show r: "phase_ok (reset_conditions e)" for e
    by (simp add: phase_ok_def past_conditions_def reset_conditions_def)
  show "phase_ok e \<Longrightarrow> phase_ok (started now ov e)" using t b w by (simp add: started_def)
  show "phase_ok e \<Longrightarrow> phase_ok (stopped now ov e)" using w r by (simp add: stopped_def)
  show "phase_ok e \<Longrightarrow> phase_ok (passed now e)"
    using t by (auto simp: passed_def finishing_def phase_ok_def past_conditions_def)
qed

section \<open>Starting and stopping keep the invariant\<close>

definition with_quests :: "nat \<Rightarrow> GameEventMgr \<Rightarrow> (u32 \<times> u32) list \<times> (u32 \<times> u32) list" where
  "with_quests k m =
     (mm_insert_all (gm_creatureQuests m ! k) (gm_creatureRelations m),
      mm_insert_all (gm_gameObjectQuests m ! k) (gm_gameObjectRelations m))"

lemma with_quests_cong: "core m' = core m \<Longrightarrow> rels m' = rels m \<Longrightarrow> with_quests k m' = with_quests k m"
  using coreD(5,6) [of m' m] by (simp add: with_quests_def rels_def)

lemma with_quests_upd [simp]:
  "with_quests k (upd_event j f m) = with_quests k m" "with_quests k (AddActiveEvent j m) = with_quests k m"
  "with_quests k (override j ov m) = with_quests k m"
  by (simp_all add: with_quests_def upd_event_def AddActiveEvent_def override_def)

lemma ApplyNewEvent_rels: "ApplyNewEvent env k m = Some m' \<Longrightarrow> rels m' = with_quests k m"
  unfolding ApplyNewEvent_def Let_def
  by (auto simp: rels_simps rels_add with_quests_def [symmetric] intro!: with_quests_cong)
    (simp_all add: core_simps rels_simps)

lemma start_event_rels:
  assumes "start_event env k ov m = Some (met, m')"
  shows "rels m' = with_quests k m"
  using assms unfolding start_event_def Let_def conditions_eq
  by (auto simp: rels_simps dest!: ApplyNewEvent_rels split: if_splits)

lemma start_event_ok:
  assumes ok: "manager_ok m" and k: "k < length (gm_event m)" and s: "start_event env k ov m = Some (met, m')"
  shows "manager_ok m'" "length (gm_event m') = length (gm_event m)"
proof -
  let ?m = "set_event k (started (en_now env) ov (event m k)) (activated k ov m)"
  note c = start_event_core(1) [OF k s] and r = start_event_rels [OF s]
  have e: "events_ok (activated k ov m)" "tables_ok (activated k ov m)"
    using ok k by (auto simp: manager_ok_def events_ok_def tables_ok_def activated_def AddActiveEvent_def override_def
      set_insort_insert)
  have 1: "events_ok m'" "tables_ok m'"
    unfolding events_tables_cong [OF c]
    using e phase_ok_steps(5) [OF phase_ok_event [OF _ k]] ok by (simp_all add: events_ok_set manager_ok_def)
  have "gm_active m' = insort_insert k (gm_active m)" "gm_creatureQuests m' = gm_creatureQuests m"
    "gm_gameObjectQuests m' = gm_gameObjectQuests m"
    using coreD(2,5,6) [OF c] by (simp_all add: set_event_def activated_def AddActiveEvent_def override_def)
  then have "quests_offered m'"
    using ok r by (auto simp: quests_offered_def manager_ok_def rels_def with_quests_def set_insort_insert)
  then show "manager_ok m'" using 1 by (simp add: manager_ok_def)
  show "length (gm_event m') = length (gm_event m)" using coreD(1) [OF c] by simp
qed

lemma UnApply_offered:
  assumes "quests_offered m" "k \<notin> set (gm_active m)"
  shows "quests_offered (UnApplyEvent env k m)"
proof -
  have cong: "quests_offered m2 = quests_offered m1" if "core m2 = core m1" "rels m2 = rels m1" for m1 m2
    using coreD(2,5,6) [OF that(1)] that(2) by (simp add: quests_offered_def rels_def)
  let ?m1 = "emit (ChangeEquipOrModel k False) (GameEventSpawn env (- int k)
      (GameEventUnspawn env (int k) (emit (RunSmartAIScripts k False) m)))"
  have c: "core ?m1 = core m" by (simp add: core_simps)
  have "quests_offered ?m1" "k \<notin> set (gm_active ?m1)"
    using cong [OF c] coreD(2) [OF c] assms by (simp_all add: rels_simps)
  note q = offered_UpdateEventQuests [OF this]
  have "quests_offered (UnApplyEvent env k m) = quests_offered (UpdateEventQuests k False ?m1)"
    by (rule cong) (simp_all only: UnApplyEvent_def Let_def core_simps rels_simps)
  then show ?thesis using q by blast
qed

lemma StopEvent_ok:
  assumes ok: "manager_ok m" and k: "k < length (gm_event m)"
  shows "manager_ok (StopEvent env k ov m)" "length (gm_event (StopEvent env k ov m)) = length (gm_event m)"
proof -
  let ?m1 = "RemoveActiveEvent k (override k ov m)"
  note c = StopEvent_core [OF k, of env ov]
  have e: "events_ok ?m1" "tables_ok ?m1" "quests_offered ?m1" "k \<notin> set (gm_active ?m1)"
    using ok by (auto simp: manager_ok_def events_ok_def tables_ok_def quests_offered_def RemoveActiveEvent_def override_def)
  have 1: "events_ok (StopEvent env k ov m)" "tables_ok (StopEvent env k ov m)"
    unfolding events_tables_cong [OF c]
    using e phase_ok_steps(6) [OF phase_ok_event [OF _ k]] ok by (simp_all add: events_ok_set manager_ok_def)
  have emit: "quests_offered (emit x n) = quests_offered n" for x n by (simp add: quests_offered_def emit_def)
  have "quests_offered (StopEvent env k ov m)"
    unfolding StopEvent_def Let_def upd_event_set using UnApply_offered [OF e(3,4), of env]
    by (cases ov) (simp_all add: emit)
  then show "manager_ok (StopEvent env k ov m)" using 1 by (simp add: manager_ok_def)
  show "length (gm_event (StopEvent env k ov m)) = length (gm_event m)"
    using coreD(1) [OF c] by (simp add: RemoveActiveEvent_def override_def)
qed

section \<open>The pass and the completion of quests keep the invariant\<close>

lemma rels_finish [rels_simps]: "rels (finish_event k m) = rels m"
  by (simp add: finish_event_def rels_simps)

lemma update_event_rels:
  assumes "update_event env k (u, m) = Some (u', m')"
  shows "rels m' = rels m"
  using assms unfolding update_event_def
  by (auto simp: conditions_eq rels_simps Let_def split: option.splits bool.splits if_splits dest!: take_delayD)

lemma update_event_ok:
  assumes ok: "manager_ok m" and k: "k < length (gm_event m)" and s: "update_event env k (u, m) = Some (u', m')"
  shows "manager_ok m'" "length (gm_event m') = length (gm_event m)"
proof -
  let ?m = "set_event k (passed (en_now env) (event m k)) m"
  have c: "core m' = core ?m" using update_event_core [OF k s] by metis
  have "manager_ok ?m"
    using ok phase_ok_steps(7) [OF phase_ok_event [OF _ k]] by (intro manager_ok_set) (simp_all add: manager_ok_def)
  then show "manager_ok m'"
    using manager_ok_cong [OF c] update_event_rels [OF s] by (simp add: rels_simps)
  show "length (gm_event m') = length (gm_event m)" using coreD(1) [OF c] by simp
qed

lemma update_events_ok:
  assumes "manager_ok m" "\<forall>k \<in> set is. k < length (gm_event m)" "update_events env is (u, m) = Some (u', m')"
  shows "manager_ok m' \<and> length (gm_event m') = length (gm_event m)"
  using assms
proof (induction "is" arbitrary: u m)
  case (Cons i "is")
  then obtain u1 m1 where s: "update_event env i (u, m) = Some (u1, m1)"
    and r: "update_events env is (u1, m1) = Some (u', m')" by (auto simp: bind_eq_Some_conv)
  have i: "i < length (gm_event m)" using Cons.prems by simp
  show ?case
    using Cons.IH [OF update_event_ok(1) [OF Cons.prems(1) i s] _ r] update_event_ok(2) [OF Cons.prems(1) i s] Cons.prems(2)
    by simp
qed simp

lemma activate_events_ok:
  assumes "manager_ok m" "\<forall>k \<in> set is. k < length (gm_event m)" "activate_events env is (d, m) = Some (d', m')"
  shows "manager_ok m' \<and> length (gm_event m') = length (gm_event m)"
  using assms
proof (induction "is" arbitrary: d m)
  case (Cons i "is")
  then obtain met m1 where s: "start_event env i False m = Some (met, m1)"
    and r: "activate_events env is (if met then 0 else d, m1) = Some (d', m')" by (auto simp: bind_eq_Some_conv)
  have i: "i < length (gm_event m)" using Cons.prems by simp
  show ?case
    using Cons.IH [OF start_event_ok(1) [OF Cons.prems(1) i s] _ r] start_event_ok(2) [OF Cons.prems(1) i s] Cons.prems(2)
    by simp
qed simp

lemma stop_events_ok:
  assumes "manager_ok m" "\<forall>k \<in> set is. k < length (gm_event m)"
  shows "manager_ok (fold (\<lambda>i. StopEvent env i False) is m)"
  using assms
proof (induction "is" arbitrary: m)
  case (Cons i "is")
  have i: "i < length (gm_event m)" using Cons.prems by simp
  show ?case using Cons.IH [of "StopEvent env i False m"] StopEvent_ok [OF Cons.prems(1) i, of env False] Cons.prems(2) by simp
qed simp

text \<open>What a pass queues are events of the table.\<close>

lemma update_events_queued:
  assumes "update_events env is (u, m) = Some (u', m')"
  shows "set (up_activate u') \<subseteq> set (up_activate u) \<union> set is \<and> set (up_deactivate u') \<subseteq> set (up_deactivate u) \<union> set is \<and>
    (distinct (up_activate u) \<and> sorted (up_activate u) \<longrightarrow> distinct (up_activate u') \<and> sorted (up_activate u')) \<and>
    (distinct (up_deactivate u) \<and> sorted (up_deactivate u) \<longrightarrow> distinct (up_deactivate u') \<and> sorted (up_deactivate u'))"
  using assms
proof (induction "is" arbitrary: u m)
  case (Cons i "is")
  then obtain u1 m1 where s: "update_event env i (u, m) = Some (u1, m1)"
    and r: "update_events env is (u1, m1) = Some (u', m')" by (auto simp: bind_eq_Some_conv)
  have "up_activate u1 \<in> {up_activate u, insort_insert i (up_activate u)} \<and>
      up_deactivate u1 \<in> {up_deactivate u, insort_insert i (up_deactivate u)}"
    using s unfolding update_event_def
    by (auto simp: Let_def split: option.splits bool.splits if_splits prod.splits dest!: take_delayD)
  then show ?case
    using Cons.IH [OF r] by (auto simp: set_insort_insert distinct_insort_insert sorted_insort_insert)
qed simp

abbreviation pass_start :: pass where
  "pass_start \<equiv> \<lparr>up_delay = max_ge_check_delay, up_activate = [], up_deactivate = []\<rparr>"

lemma Update_steps:
  assumes "Update env m = Some (d, m')"
  obtains u m1 d1 m2 where
    "update_events env [1..<length (gm_event m)] (pass_start, m) = Some (u, m1)"
    "activate_events env (up_activate u) (up_delay u, m1) = Some (d1, m2)"
    "m' = fold (\<lambda>i. StopEvent env i False) (up_deactivate u) m2" "d = (d1 + 1) * 1000"
    "set (up_activate u) \<subseteq> {1..<length (gm_event m)}" "set (up_deactivate u) \<subseteq> {1..<length (gm_event m)}"
    "distinct (up_activate u)" "distinct (up_deactivate u)"
proof -
  from assms obtain u m1 d1 m2 where a: "update_events env [1..<length (gm_event m)] (pass_start, m) = Some (u, m1)"
    "activate_events env (up_activate u) (up_delay u, m1) = Some (d1, m2)"
    "m' = fold (\<lambda>i. StopEvent env i False) (up_deactivate u) m2" "d = (d1 + 1) * 1000"
    unfolding Update_def by (auto simp: bind_eq_Some_conv)
  show thesis using update_events_queued [OF a(1)] by (intro that [OF a]) simp_all
qed

lemma Update_ok:
  assumes ok: "manager_ok m" and u: "Update env m = Some (d, m')"
  shows "manager_ok m'" "length (gm_event m') = length (gm_event m)"
proof -
  obtain u m1 d1 m2 where a: "update_events env [1..<length (gm_event m)] (pass_start, m) = Some (u, m1)"
    "activate_events env (up_activate u) (up_delay u, m1) = Some (d1, m2)"
    "m' = fold (\<lambda>i. StopEvent env i False) (up_deactivate u) m2" "set (up_activate u) \<subseteq> {1..<length (gm_event m)}"
    "set (up_deactivate u) \<subseteq> {1..<length (gm_event m)}" "distinct (up_deactivate u)"
    by (rule Update_steps [OF u])
  have 1: "manager_ok m1" "length (gm_event m1) = length (gm_event m)" using update_events_ok [OF ok _ a(1)] by auto
  have 2: "manager_ok m2" "length (gm_event m2) = length (gm_event m)" 
    using activate_events_ok [OF 1(1) _ a(2)] subsetD [OF a(4)] 1(2) by auto
  have d: "\<forall>k \<in> set (up_deactivate u). k < length (gm_event m2)" using a(5) 2(2) by auto
  show "manager_ok m'" using stop_events_ok [OF 2(1) d, of env] a(3) by simp
  show "length (gm_event m') = length (gm_event m)" using stop_events_core [OF a(6) d a(3)] 2(2) by simp
qed

lemma manager_ok_emit [simp]: "manager_ok (emit x m) = manager_ok m"
  by (rule manager_ok_cong) (simp_all add: core_simps rels_simps)

lemma ForceGameEventUpdate_ok:
  assumes "manager_ok m" "ForceGameEventUpdate env m = Some m'"
  shows "manager_ok m'" "length (gm_event m') = length (gm_event m)"
  using assms Update_ok [OF assms(1)] unfolding ForceGameEventUpdate_def by (auto, simp add: emit_def)

lemma StartEvent_ok:
  assumes ok: "manager_ok m" and k: "k < length (gm_event m)" and s: "StartEvent env k ov m = Some (met, m')"
  shows "manager_ok m'"
  using s start_event_ok [OF ok k] ForceGameEventUpdate_ok(1) unfolding StartEvent_def
  by (fastforce simp: bind_eq_Some_conv split: if_splits)

lemma sm_put_conditions:
  "c \<in> set (sm_put k v cs) \<Longrightarrow> c = (k, v) \<or> c \<in> set cs"
  by (induction k v cs rule: sm_put.induct) (auto split: if_splits)

text \<open>What the completion of a quest does when it counts.\<close>

lemma HandleQuestComplete_cases:
  assumes s: "HandleQuestComplete env q m = Some m'" and changed: "m' \<noteq> m"
  obtains qd c m1 where "map_of (gm_questConditions m) q = Some qd" "qc_event_id qd \<in> set (gm_active m)"
    "ge_state (event m (qc_event_id qd)) = GAMEEVENT_WORLD_CONDITIONS"
    "map_of (ge_conditions (event m (qc_event_id qd))) (qc_condition qd) = Some c" "fc_done c < fc_reqNum c"
    "m1 = emit (SaveCondition (qc_event_id qd) (qc_condition qd) (fc_done (add_done (qc_num qd) c)))
      (set_event (qc_event_id qd) ((event m (qc_event_id qd))\<lparr>ge_conditions :=
         sm_put (qc_condition qd) (add_done (qc_num qd) c) (ge_conditions (event m (qc_event_id qd)))\<rparr>) m)"
    "if all_done (event m1 (qc_event_id qd))
     then ForceGameEventUpdate env (SaveWorldEventStateToDB (qc_event_id qd)
       (set_event (qc_event_id qd) (tested (en_now env) (event m1 (qc_event_id qd))) m1)) = Some m'
     else m' = m1"
proof -
  obtain qd where qd: "map_of (gm_questConditions m) q = Some qd"
    using s changed by (cases "map_of (gm_questConditions m) q") (simp_all add: HandleQuestComplete_def)
  let ?k = "qc_event_id qd"
  have act: "?k \<in> set (gm_active m)"
    using s changed qd by (cases "?k \<in> set (gm_active m)") (simp_all add: HandleQuestComplete_def IsActiveEvent_def Let_def)
  have st: "ge_state (event m ?k) = GAMEEVENT_WORLD_CONDITIONS"
    using s changed qd act
    by (cases "ge_state (event m ?k) = GAMEEVENT_WORLD_CONDITIONS") (simp_all add: HandleQuestComplete_def IsActiveEvent_def Let_def)
  obtain c where c: "map_of (ge_conditions (event m ?k)) (qc_condition qd) = Some c"
    using s changed qd act st
    by (cases "map_of (ge_conditions (event m ?k)) (qc_condition qd)") (simp_all add: HandleQuestComplete_def IsActiveEvent_def Let_def)
  have less: "fc_done c < fc_reqNum c"
    using s changed qd act st c
    by (cases "fc_done c < fc_reqNum c") (simp_all add: HandleQuestComplete_def IsActiveEvent_def Let_def)
  define m1 where "m1 = emit (SaveCondition ?k (qc_condition qd) (fc_done (add_done (qc_num qd) c)))
      (set_event ?k ((event m ?k)\<lparr>ge_conditions :=
         sm_put (qc_condition qd) (add_done (qc_num qd) c) (ge_conditions (event m ?k))\<rparr>) m)"
  have "(case CheckOneGameEventConditions (en_now env) ?k m1 of
      (met, m) \<Rightarrow> if met then ForceGameEventUpdate env (SaveWorldEventStateToDB ?k m) else Some m) = Some m'"
    using s qd act st c less unfolding m1_def by (simp add: HandleQuestComplete_def IsActiveEvent_def Let_def upd_event_set)
  then have "if all_done (event m1 ?k)
     then ForceGameEventUpdate env (SaveWorldEventStateToDB ?k (set_event ?k (tested (en_now env) (event m1 ?k)) m1)) = Some m'
     else m' = m1"
    unfolding conditions_eq by (auto simp: tested_def split: if_splits)
  with that qd act st c less m1_def show thesis by blast
qed

lemma HandleQuestComplete_ok:
  assumes ok: "manager_ok m" and s: "HandleQuestComplete env q m = Some m'"
  shows "manager_ok m'"
proof (cases "m' = m")
  case False
  from HandleQuestComplete_cases [OF s False] obtain k cs x m1 where act: "k \<in> set (gm_active m)"
    and st: "ge_state (event m k) = GAMEEVENT_WORLD_CONDITIONS"
    and m1: "m1 = emit x (set_event k ((event m k)\<lparr>ge_conditions := cs\<rparr>) m)"
    and r: "if all_done (event m1 k)
      then ForceGameEventUpdate env (SaveWorldEventStateToDB k (set_event k (tested (en_now env) (event m1 k)) m1)) = Some m'
      else m' = m1" by metis
  have k: "k < length (gm_event m)" using ok act by (auto simp: manager_ok_def events_ok_def)
  have e: "phase_ok ((event m k)\<lparr>ge_conditions := cs\<rparr>)" using st by (simp add: phase_ok_def past_conditions_def)
  have e1: "event m1 k = (event m k)\<lparr>ge_conditions := cs\<rparr>" using k by (simp add: m1 emit_def event_def set_event_def)
  have ok1: "manager_ok m1" using manager_ok_set [OF ok e] by (simp add: m1)
  let ?m2 = "SaveWorldEventStateToDB k (set_event k (tested (en_now env) (event m1 k)) m1)"
  have "manager_ok ?m2 = manager_ok (set_event k (tested (en_now env) (event m1 k)) m1)"
    by (rule manager_ok_cong) (simp_all add: core_simps rels_simps)
  then have ok2: "manager_ok ?m2" using manager_ok_set [OF ok1 phase_ok_steps(1) [OF e]] by (simp add: e1)
  show ?thesis
    using r ok1 ForceGameEventUpdate_ok(1) [OF ok2] by (cases "all_done (event m1 k)") simp_all
qed (use ok in simp)

end
