(* ===== verification/Game_Event_Machine.thy ===== *)
theory Game_Event_Machine
  imports Game_Event_Invariant
begin

text \<open>
  The manager as a machine: loading at start-up, then passes, commands, scripts, completed
  quests and the rescheduling at local midnight. Rescheduling moves only the start of events
  that are neither active nor started or stopped by hand.
\<close>

section \<open>Commands and scripts\<close>

datatype event_reply =
    LANG_EVENT_NOT_EXIST | LANG_EVENT_ALREADY_ACTIVE nat | LANG_EVENT_NOT_ACTIVE nat

definition HandleEventStartCommand :: "ge_env \<Rightarrow> nat \<Rightarrow> GameEventMgr \<Rightarrow> (event_reply option \<times> GameEventMgr) option" where
  "HandleEventStartCommand env eventId m =
     (if eventId < 1 \<or> eventId \<ge> length (gm_event m) then Some (Some LANG_EVENT_NOT_EXIST, m)
      else if \<not> isValid (event m eventId) then Some (Some LANG_EVENT_NOT_EXIST, m)
      else if IsActiveEvent eventId m then Some (Some (LANG_EVENT_ALREADY_ACTIVE eventId), m)
      else map_option (\<lambda>(_, m). (None, m)) (StartEvent env eventId True m))"

definition HandleEventStopCommand :: "ge_env \<Rightarrow> nat \<Rightarrow> GameEventMgr \<Rightarrow> event_reply option \<times> GameEventMgr" where
  "HandleEventStopCommand env eventId m =
     (if eventId < 1 \<or> eventId \<ge> length (gm_event m) then (Some LANG_EVENT_NOT_EXIST, m)
      else if \<not> isValid (event m eventId) then (Some LANG_EVENT_NOT_EXIST, m)
      else if \<not> IsActiveEvent eventId m then (Some (LANG_EVENT_NOT_ACTIVE eventId), m)
      else (None, StopEvent env eventId True m))"

text \<open>The actions of creature scripts, for an event the script store has found to exist.\<close>

definition SmartGameEventStop :: "ge_env \<Rightarrow> nat \<Rightarrow> GameEventMgr \<Rightarrow> GameEventMgr" where
  "SmartGameEventStop env eventId m =
     (if \<not> IsActiveEvent eventId m then m else StopEvent env eventId True m)"

definition SmartGameEventStart :: "ge_env \<Rightarrow> nat \<Rightarrow> GameEventMgr \<Rightarrow> GameEventMgr option" where
  "SmartGameEventStart env eventId m =
     (if IsActiveEvent eventId m then Some m else map_option snd (StartEvent env eventId True m))"

section \<open>Rescheduling\<close>

lemma stage_times_keeps:
  "ge_state (stage_times h e) = ge_state e" "ge_conditions (stage_times h e) = ge_conditions e"
  by (simp_all add: stage_times_def Let_def)

lemma next_date_keeps:
  "ge_state (next_date env sd so ds e) = ge_state e" "ge_conditions (next_date env sd so ds e) = ge_conditions e"
  by (induction env sd so ds e rule: next_date.induct) (simp_all add: Let_def)

lemma FromRule_keeps:
  "SetHolidayEventTimeFromRule env r so e = Some e' \<Longrightarrow> ge_state e' = ge_state e \<and> ge_conditions e' = ge_conditions e"
  by (auto simp: SetHolidayEventTimeFromRule_def Let_def split: if_splits)

lemma SetHolidayEventTime_keeps:
  assumes "SetHolidayEventTime env hs m e = Some e'"
  shows "ge_state e' = ge_state e \<and> ge_conditions e' = ge_conditions e"
  using assms unfolding SetHolidayEventTime_def Let_def
  by (auto simp: stage_times_keeps next_date_keeps split: option.splits if_splits dest!: FromRule_keeps)

lemma phase_ok_keeps: "ge_state e' = ge_state e \<Longrightarrow> ge_conditions e' = ge_conditions e \<Longrightarrow> phase_ok e' = phase_ok e"
  by (simp add: phase_ok_def past_conditions_def all_done_def)

text \<open>What a rescheduling leaves: one step moves one event that may be moved.\<close>

definition movable :: "GameEventMgr \<Rightarrow> nat \<Rightarrow> bool" where
  "movable m k \<longleftrightarrow> k < length (gm_event m) \<and> k \<notin> set (gm_active m) \<and> k \<notin> set (gm_overridden m)"

definition moved :: "GameEventMgr \<Rightarrow> GameEventMgr \<Rightarrow> bool" where
  "moved m m' \<longleftrightarrow> (\<exists>evs. m' = m\<lparr>gm_event := evs\<rparr> \<and> length evs = length (gm_event m) \<and>
     (\<forall>k < length evs. ge_state (evs ! k) = ge_state (event m k) \<and> ge_conditions (evs ! k) = ge_conditions (event m k) \<and>
        (\<not> movable m k \<longrightarrow> evs ! k = event m k)))"

lemma moved_refl: "moved m m"
  by (auto simp: moved_def event_def intro!: exI [of _ "gm_event m"])

lemma moved_trans:
  assumes "moved m m'" "moved m' m''"
  shows "moved m m''"
  using assms by (auto simp: moved_def event_def movable_def)

lemma moved_set:
  assumes "movable m k" "ge_state e = ge_state (event m k)" "ge_conditions e = ge_conditions (event m k)"
  shows "moved m (set_event k e m)"
  using assms unfolding moved_def
  by (intro exI [of _ "(gm_event m)[k := e]"]) (auto simp: set_event_def event_def movable_def nth_list_update)

lemma reanchor_moved: "moved m (snd (reanchor env p m))"
  by (auto simp: reanchor_def upd_event_set IsActiveEvent_def movable_def moved_refl
      split: prod.splits option.splits intro!: moved_set)

lemma reanchor_all_moved: "moved m (snd (reanchor_all env ps m))"
proof (induction ps arbitrary: m)
  case (Cons p ps)
  show ?case
    using moved_trans [OF reanchor_moved [of m env p] Cons.IH [of "snd (reanchor env p m)"]]
    by (simp add: Let_def split_beta)
qed (simp add: moved_refl)

lemma reschedule_event_moved:
  assumes "k < length (gm_event m)" "reschedule_event env hs k m = Some m'"
  shows "moved m m'"
  using assms SetHolidayEventTime_keeps
  by (auto simp: reschedule_event_def Let_def upd_event_set moved_refl IsActiveEvent_def movable_def
      intro!: moved_set split: if_splits)

lemma moved_length: "moved m m' \<Longrightarrow> length (gm_event m') = length (gm_event m)"
  by (auto simp: moved_def)

lemma reschedule_events_moved:
  assumes "\<forall>k \<in> set is. k < length (gm_event m)" "reschedule_events env hs is m = Some m'"
  shows "moved m m'"
  using assms
proof (induction "is" arbitrary: m)
  case (Cons i "is")
  then obtain m1 where s: "reschedule_event env hs i m = Some m1" "reschedule_events env hs is m1 = Some m'"
    by (auto simp: bind_eq_Some_conv)
  have 1: "moved m m1" by (rule reschedule_event_moved [OF _ s(1)]) (use Cons.prems in simp)
  then have "\<forall>k \<in> set is. k < length (gm_event m1)" using Cons.prems moved_length by simp
  then show ?case using moved_trans [OF 1] Cons.IH s(2) by blast
qed (simp add: moved_refl)

lemma Reanchor_moved:
  obtains m1 where "moved m m1" "ReanchorLocalScheduleEvents env m = m1\<lparr>gm_localSchedule := gm_localSchedule (ReanchorLocalScheduleEvents env m)\<rparr>"
  using that [OF reanchor_all_moved [of m env "gm_localSchedule m"]]
  by (simp add: ReanchorLocalScheduleEvents_def split_beta)

lemma Recalculate_moved:
  assumes "RecalculateScheduledEventTimes env (hs, m) = Some (hs', m')"
  obtains m1 where "moved m m1" "m' = m1\<lparr>gm_localSchedule := gm_localSchedule m'\<rparr>"
proof (cases "gm_holidayRules m = []")
  case True
  obtain m1 where "moved m m1" "ReanchorLocalScheduleEvents env m = m1\<lparr>gm_localSchedule := gm_localSchedule (ReanchorLocalScheduleEvents env m)\<rparr>"
    by (rule Reanchor_moved)
  moreover have "m' = ReanchorLocalScheduleEvents env m" using assms True by (simp add: RecalculateScheduledEventTimes_def)
  ultimately show thesis using that by simp
next
  case False
  then obtain m0 where s: "reschedule_events env (RebuildHolidayDates env m hs) [1..<length (gm_event m)] m = Some m0"
    and m': "m' = ReanchorLocalScheduleEvents env m0"
    using assms by (auto simp: RecalculateScheduledEventTimes_def Let_def)
  have "moved m m0" by (rule reschedule_events_moved [OF _ s]) simp
  moreover obtain m1 where "moved m0 m1" "ReanchorLocalScheduleEvents env m0 = m1\<lparr>gm_localSchedule := gm_localSchedule (ReanchorLocalScheduleEvents env m0)\<rparr>"
    by (rule Reanchor_moved)
  ultimately show thesis using that moved_trans m' by blast
qed

lemma moved_ok:
  assumes ok: "manager_ok m" and mv: "moved m m1" and m': "m' = m1\<lparr>gm_localSchedule := ls\<rparr>"
  shows "manager_ok m'"
proof -
  obtain evs where evs: "m1 = m\<lparr>gm_event := evs\<rparr>" "length evs = length (gm_event m)"
    "\<forall>k < length evs. ge_state (evs ! k) = ge_state (event m k) \<and> ge_conditions (evs ! k) = ge_conditions (event m k)"
    using mv by (auto simp: moved_def)
  have "phase_ok (evs ! k)" if "k < length evs" for k
    using phase_ok_event [of m k] ok evs(2) evs(3) [rule_format, OF that] that
      phase_ok_keeps [of "evs ! k" "event m k"] by (simp add: manager_ok_def)
  then have "\<forall>e \<in> set evs. phase_ok e" by (auto simp: in_set_conv_nth)
  then have "events_ok m'" using ok evs(1,2) m' by (simp add: manager_ok_def events_ok_def)
  moreover have "evs = [] \<longleftrightarrow> gm_event m = []" using evs(2) by (metis length_0_conv)
  ultimately show ?thesis using ok evs(1,2) m' by (simp add: manager_ok_def tables_ok_def quests_offered_def)
qed

section \<open>Loading\<close>

definition blank :: "GameEventMgr \<Rightarrow> bool" where
  "blank m \<longleftrightarrow> tables_ok m \<and> gm_active m = []"

lemma blank_upd [simp]: "blank (upd_event k f m) = blank m"
  by (cases "gm_event m = []") (simp_all add: blank_def upd_event_def tables_ok_def)

lemma blank_tables: "tables_ok (m\<lparr>gm_holidayRules := x\<rparr>) = tables_ok m" "tables_ok (m\<lparr>gm_localSchedule := y\<rparr>) = tables_ok m"
  by (simp_all add: tables_ok_def)

lemma blank_schedules: "blank (m\<lparr>gm_holidayRules := x\<rparr>) = blank m" "blank (m\<lparr>gm_localSchedule := y\<rparr>) = blank m"
  by (simp_all add: blank_def blank_tables)

lemma push_at_length [simp]: "length (push_at i x xss) = length xss"
  by (simp add: push_at_def)

lemma blank_loads:
  "blank m \<Longrightarrow> blank (load_save r1 m)" "blank m \<Longrightarrow> blank (load_prerequisite r2 m)"
  "blank m \<Longrightarrow> blank (load_creature env r3 m)" "blank m \<Longrightarrow> blank (load_gameobject env r3 m)"
  "blank m \<Longrightarrow> blank (load_creature_quest r4 m)" "blank m \<Longrightarrow> blank (load_gameobject_quest r4 m)"
  "blank m \<Longrightarrow> blank (load_quest_condition r5 m)" "blank m \<Longrightarrow> blank (load_condition r6 m)"
  "blank m \<Longrightarrow> blank (load_condition_save r7 m)" "blank m \<Longrightarrow> blank (load_npcflag r8 m)"
  "blank m \<Longrightarrow> blank (load_pool cp r3 m)"
  by (auto simp: load_save_def load_prerequisite_def load_creature_def load_gameobject_def load_creature_quest_def
      load_gameobject_quest_def load_quest_condition_def load_condition_def load_condition_save_def load_npcflag_def
      load_pool_def Let_def blank_def tables_ok_def upd_event_def split: prod.splits option.splits)

lemma blank_fold: "(\<And>x m. blank m \<Longrightarrow> blank (f x m)) \<Longrightarrow> blank m \<Longrightarrow> blank (fold f xs m)"
  by (induction xs arbitrary: m) simp_all

lemma blank_load_rest: "blank m \<Longrightarrow> blank (load_rest env cp t m)"
  unfolding load_rest_def Let_def by (intro blank_fold blank_loads; assumption)

lemma blank_load_event: "load_event env hs r m = Some m' \<Longrightarrow> blank m \<Longrightarrow> blank m'"
  by (auto simp: load_event_def Let_def blank_schedules split: if_splits)

lemma blank_load_events: "load_events env hs rs m = Some m' \<Longrightarrow> blank m \<Longrightarrow> blank m'"
  by (induction rs arbitrary: m) (auto simp: bind_eq_Some_conv dest: blank_load_event)

lemma blank_moved: "moved m m1 \<Longrightarrow> blank m \<Longrightarrow> blank (m1\<lparr>gm_localSchedule := ls\<rparr>)"
  by (auto simp: moved_def blank_def tables_ok_def)

lemma blank_Reanchor: "blank m \<Longrightarrow> blank (ReanchorLocalScheduleEvents env m)"
  by (rule Reanchor_moved [of m env]) (metis blank_moved)

lemma blank_LoadFromDB: "LoadFromDB env hs cp t m = Some m' \<Longrightarrow> blank m \<Longrightarrow> blank m'"
  by (auto simp: LoadFromDB_def split: if_splits dest!: blank_load_events intro!: blank_load_rest blank_Reanchor)
    (simp add: blank_def tables_ok_def)

text \<open>The calls of \<open>World::SetInitialWorldSettings\<close>, in order.\<close>

record event_start =
  es_max :: u8
  es_rules :: "rule_row list"
  es_local :: "nat list"
  es_dates :: "(u32 \<times> nat \<times> u32 \<times> u32) list"
  es_tables :: event_tables
  es_pools :: "u32 \<Rightarrow> bool"

definition load_manager :: "ge_env \<Rightarrow> event_start \<Rightarrow> holiday_store \<Rightarrow> (holiday_store \<times> GameEventMgr) option" where
  "load_manager env s hs =
     (let m = Initialize (es_max s) new_GameEventMgr;
          m = LoadHolidayRules hs (es_rules s) m;
          m = LoadLocalScheduleEvents (es_local s) m;
          hs = RebuildHolidayDates env m hs;
          hs = LoadHolidayDates (es_dates s) hs
      in map_option (\<lambda>m. (hs, m)) (LoadFromDB env hs (es_pools s) (es_tables s) m))"

lemma blank_Initialize: "blank (Initialize n new_GameEventMgr)"
  by (simp add: blank_def tables_ok_def Initialize_def new_GameEventMgr_def resized_to_def Let_def)

lemma blank_load_manager: "load_manager env s hs = Some (hs', m) \<Longrightarrow> blank m"
  unfolding load_manager_def Let_def LoadHolidayRules_def LoadLocalScheduleEvents_def
  by (clarsimp, erule blank_LoadFromDB)
    (simp add: blank_schedules blank_fold blank_Initialize split: option.splits)

section \<open>The machine\<close>

text \<open>
  It starts with what is loaded, for saved states that fit the conditions: a world event
  saved in a later phase has its conditions met.
\<close>

definition ge_start_state :: "holiday_store \<times> GameEventMgr \<Rightarrow> bool" where
  "ge_start_state s \<longleftrightarrow> (\<exists>env es hs. load_manager env es hs = Some s \<and> (\<forall>e \<in> set (gm_event (snd s)). phase_ok e))"

inductive ge_step :: "holiday_store \<times> GameEventMgr \<Rightarrow> holiday_store \<times> GameEventMgr \<Rightarrow> bool" where
  ge_system: "StartSystem env m = Some (d, m') \<Longrightarrow> ge_step (hs, m) (hs, m')"
| ge_season: "StartArenaSeason env row m = Some m' \<Longrightarrow> ge_step (hs, m) (hs, m')"
| ge_update: "Update env m = Some (d, m') \<Longrightarrow> ge_step (hs, m) (hs, m')"
| ge_internal: "StartInternalEvent env k m = Some m' \<Longrightarrow> ge_step (hs, m) (hs, m')"
| ge_start_command: "HandleEventStartCommand env k m = Some (r, m') \<Longrightarrow> ge_step (hs, m) (hs, m')"
| ge_stop_command: "HandleEventStopCommand env k m = (r, m') \<Longrightarrow> ge_step (hs, m) (hs, m')"
| ge_script_start: "k < length (gm_event m) \<Longrightarrow> SmartGameEventStart env k m = Some m' \<Longrightarrow> ge_step (hs, m) (hs, m')"
| ge_script_stop: "ge_step (hs, m) (hs, SmartGameEventStop env k m)"
| ge_quest: "HandleQuestComplete env q m = Some m' \<Longrightarrow> ge_step (hs, m) (hs, m')"
| ge_midnight: "World_RecalculateScheduledEventTimes env (hs, m) = Some (hs', m') \<Longrightarrow> ge_step (hs, m) (hs', m')"

lemma StartSystem_ok: "manager_ok m \<Longrightarrow> StartSystem env m = Some (d, m') \<Longrightarrow> manager_ok m'"
proof -
  assume ok: "manager_ok m" and s: "StartSystem env m = Some (d, m')"
  have "manager_ok (m\<lparr>gm_active := []\<rparr>)"
    using ok by (simp add: manager_ok_def events_ok_def tables_ok_def quests_offered_def)
  from Update_ok(1) [OF this] s obtain m1 where m1: "manager_ok m1" "m' = m1\<lparr>gm_isSystemInit := True\<rparr>"
    by (auto simp: StartSystem_def)
  then show "manager_ok m'" by (simp add: manager_ok_def events_ok_def tables_ok_def quests_offered_def)
qed

lemma Recalculate_ok:
  assumes "manager_ok m" "World_RecalculateScheduledEventTimes env (hs, m) = Some (hs', m')"
  shows "manager_ok m'"
proof -
  from assms(2) obtain h1 m1 where r: "RecalculateScheduledEventTimes env (hs, m) = Some (h1, m1)"
    and f: "ForceGameEventUpdate env m1 = Some m'" by (auto simp: World_RecalculateScheduledEventTimes_def bind_eq_Some_conv)
  obtain m0 where m0: "moved m m0" "m1 = m0\<lparr>gm_localSchedule := gm_localSchedule m1\<rparr>" by (rule Recalculate_moved [OF r])
  show ?thesis by (rule ForceGameEventUpdate_ok(1) [OF moved_ok [OF assms(1) m0] f])
qed

lemma active_bound: "manager_ok m \<Longrightarrow> IsActiveEvent k m \<Longrightarrow> k < length (gm_event m)"
  by (auto simp: manager_ok_def events_ok_def IsActiveEvent_def)

lemma ge_step_ok:
  assumes "ge_step s t" "manager_ok (snd s)"
  shows "manager_ok (snd t)"
  using assms
proof (induction rule: ge_step.induct)
  case (ge_season env row m m' hs)
  then show ?case by (auto simp: StartArenaSeason_def split: option.splits if_splits dest!: StartEvent_ok [rotated 2])
next
  case (ge_internal env k m m' hs)
  then show ?case by (auto simp: StartInternalEvent_def split: if_splits dest!: StartEvent_ok [rotated 2])
next
  case (ge_start_command env k m r m' hs)
  then show ?case by (auto simp: HandleEventStartCommand_def split: if_splits dest!: StartEvent_ok [rotated 2])
next
  case (ge_stop_command env k m r m' hs)
  then show ?case by (auto simp: HandleEventStopCommand_def StopEvent_ok(1) split: if_splits)
next
  case (ge_script_start k m env m' hs)
  then show ?case by (auto simp: SmartGameEventStart_def split: if_splits dest!: StartEvent_ok [rotated 2])
next
  case (ge_script_stop hs m env k)
  then show ?case by (simp add: SmartGameEventStop_def StopEvent_ok(1) active_bound)
qed (auto intro: StartSystem_ok Update_ok(1) HandleQuestComplete_ok Recalculate_ok)

interpretation game_events: invariant_system ge_start_state ge_step "\<lambda>s. manager_ok (snd s)"
proof unfold_locales
  fix s assume "ge_start_state s"
  then show "manager_ok (snd s)"
    using blank_load_manager [of _ _ _ "fst s" "snd s"]
    by (auto simp: ge_start_state_def manager_ok_def events_ok_def blank_def quests_offered_def)
qed (auto dest: ge_step_ok)

end
