(* ===== verification/Game_Event_Theorems.thy ===== *)
theory Game_Event_Theorems
  imports Game_Event_Machine
begin

text \<open>The properties of the game event manager.\<close>

section \<open>A whole pass\<close>

definition final :: "int \<Rightarrow> bool \<Rightarrow> bool \<Rightarrow> GameEventData \<Rightarrow> GameEventData" where
  "final now on active e =
     (let e1 = passed now e; starts = (on \<and> \<not> finishing now e \<and> \<not> active); stops = ((on \<longrightarrow> finishing now e) \<and> active)
      in if starts then started now False e1 else if stops then stopped now False e1 else e1)"

lemma Update_core:
  assumes u: "Update env m = Some (d, m')"
  obtains B where "\<And>k. 1 \<le> k \<Longrightarrow> k < length (gm_event m) \<Longrightarrow> own_check (en_now env) (event m k) (k \<in> B)"
    "\<And>k. 1 \<le> k \<Longrightarrow> k < length (gm_event m) \<Longrightarrow>
       (k \<in> set (gm_active m') \<longleftrightarrow> k \<in> B \<and> \<not> finishing (en_now env) (event m k))"
    "\<And>k. 1 \<le> k \<Longrightarrow> k < length (gm_event m) \<Longrightarrow>
       event m' k = final (en_now env) (k \<in> B) (k \<in> set (gm_active m)) (event m k)"
    "length (gm_event m') = length (gm_event m)" "gm_overridden m' = gm_overridden m"
    "\<And>k. k = 0 \<or> length (gm_event m) \<le> k \<Longrightarrow> event m' k = event m k \<and> (k \<in> set (gm_active m') \<longleftrightarrow> k \<in> set (gm_active m))"
proof -
  let ?now = "en_now env" and ?I = "[1..<length (gm_event m)]"
  obtain u m1 d1 m2 where a: "update_events env ?I (pass_start, m) = Some (u, m1)"
    "activate_events env (up_activate u) (up_delay u, m1) = Some (d1, m2)"
    "m' = fold (\<lambda>i. StopEvent env i False) (up_deactivate u) m2" "d = (d1 + 1) * 1000"
    "set (up_activate u) \<subseteq> {1..<length (gm_event m)}" "set (up_deactivate u) \<subseteq> {1..<length (gm_event m)}"
    "distinct (up_activate u)" "distinct (up_deactivate u)"
    by (rule Update_steps [OF u])
  have "distinct ?I" "\<forall>k \<in> set ?I. k < length (gm_event m)" by auto
  note s = update_events_core [OF this a(1)]
  obtain B where B: "B \<subseteq> {1..<length (gm_event m)}"
    "\<forall>k \<in> {1..<length (gm_event m)}. own_check ?now (event m k) (k \<in> B)"
    "set (up_activate u) = {k \<in> B. \<not> finishing ?now (event m k) \<and> k \<notin> set (gm_active m)}"
    "set (up_deactivate u) = {k \<in> {1..<length (gm_event m)}. (k \<in> B \<longrightarrow> finishing ?now (event m k)) \<and> k \<in> set (gm_active m)}"
    using s by auto
  have 1: "length (gm_event m1) = length (gm_event m)" "gm_active m1 = gm_active m" "gm_overridden m1 = gm_overridden m"
    "\<And>k. event m1 k = (if k \<in> {1..<length (gm_event m)} then passed ?now (event m k) else event m k)"
    using s by auto
  have "\<forall>k \<in> set (up_activate u). k < length (gm_event m1)" using subsetD [OF a(5)] 1(1) by auto
  note 2 = activate_events_core [OF a(7) this a(2)]
  have "\<forall>k \<in> set (up_deactivate u). k < length (gm_event m2)" using subsetD [OF a(6)] 1(1) 2 by auto
  note 3 = stop_events_core [OF a(8) this a(3)]
  have apart: "k \<notin> set (up_deactivate u)" if "k \<in> set (up_activate u)" for k using that unfolding B(3,4) by blast
  have active: "set (gm_active m') = (set (gm_active m) \<union> set (up_activate u)) - set (up_deactivate u)"
    using 2 3 1(2) by simp
  show thesis
  proof (rule that [of B])
    fix k assume k: "1 \<le> k" "k < length (gm_event m)"
    then have k1: "k \<in> {1..<length (gm_event m)}" by simp
    show "own_check ?now (event m k) (k \<in> B)" using B(2) k1 by blast
    show "k \<in> set (gm_active m') \<longleftrightarrow> k \<in> B \<and> \<not> finishing ?now (event m k)"
      unfolding active B(3,4) using k1 by auto
    have "event m' k = (if k \<in> set (up_activate u) then started ?now False (passed ?now (event m k))
        else if k \<in> set (up_deactivate u) then stopped ?now False (passed ?now (event m k)) else passed ?now (event m k))"
      using 2 3 1(4) [of k] k1 apart [of k] by simp
    then show "event m' k = final ?now (k \<in> B) (k \<in> set (gm_active m)) (event m k)"
      using k1 unfolding B(3,4) final_def Let_def by auto
  next
    show "length (gm_event m') = length (gm_event m)" "gm_overridden m' = gm_overridden m" using 1 2 3 by simp_all
    fix k assume "k = 0 \<or> length (gm_event m) \<le> k"
    then have "k \<notin> {1..<length (gm_event m)}" by auto
    moreover from this have "k \<notin> set (up_activate u)" "k \<notin> set (up_deactivate u)" using a(5,6) by blast+
    ultimately show "event m' k = event m k \<and> (k \<in> set (gm_active m') \<longleftrightarrow> k \<in> set (gm_active m))"
      using 2 3 1(2,4) by auto
  qed
qed

text \<open>The phases of world events.\<close>

fun phase :: "GameEventState \<Rightarrow> nat option" where
  "phase GAMEEVENT_WORLD_INACTIVE = Some 0"
| "phase GAMEEVENT_WORLD_CONDITIONS = Some 1"
| "phase GAMEEVENT_WORLD_NEXTPHASE = Some 2"
| "phase GAMEEVENT_WORLD_FINISHED = Some 3"
| "phase _ = None"

lemma final_phase:
  fixes active :: bool
  assumes c: "own_check now e on" and p: "phase (ge_state e) = Some i"
  defines "e' \<equiv> final now on active e"
  shows "\<exists>j. phase (ge_state e') = Some j \<and> i \<le> j \<and>
    (i < 2 \<and> 2 \<le> j \<longrightarrow> j = 2 \<and> all_done e) \<and> (i = 2 \<and> j = 3 \<longleftrightarrow> finishing now e)"
  using c p unfolding e'_def
  by (cases "ge_state e")
    (auto simp: own_check_def final_def Let_def passed_def finishing_def started_def stopped_def world_event_def
      begun_def tested_def next_phase_def reset_conditions_def all_done_def)

section \<open>A pass returns\<close>

lemma Check_total: "period_of (event m k) \<noteq> 0 \<Longrightarrow> CheckOneGameEvent now m k \<noteq> None"
  by (auto simp: CheckOneGameEvent_def Let_def split: GameEventState.splits if_splits)

lemma NextCheck_total: "period_of (event m k) \<noteq> 0 \<Longrightarrow> NextCheck now m k \<noteq> None"
  by (auto simp: NextCheck_def Let_def split: if_splits)

lemma take_delay_total: "period_of (event m k) \<noteq> 0 \<Longrightarrow> take_delay env k (u, m) \<noteq> None"
  using NextCheck_total [of m k "en_now env"] by (auto simp: take_delay_def)

lemma occurence_steps [simp]:
  "ge_occurence (passed now e) = ge_occurence e" "ge_occurence (started now False e) = ge_occurence e"
  "ge_occurence (tested now e) = ge_occurence e"
  by (simp_all add: passed_def started_def begun_def tested_def next_phase_def)

lemma GameEventSpawn_event: "event (GameEventSpawn env i m) k = event m k"
  by (rule core_event) (simp add: core_simps)

lemma update_event_total:
  assumes k: "k < length (gm_event m)" and p: "period_of (event m k) \<noteq> 0"
  shows "update_event env k (u, m) \<noteq> None"
proof -
  obtain b where b: "CheckOneGameEvent (en_now env) m k = Some b" using Check_total [OF p] by blast
  have t: "take_delay env k (u', m) \<noteq> None" for u' by (rule take_delay_total [OF p])
  have s: "take_delay env k (u', GameEventSpawn env i m) \<noteq> None" for u' i
    using take_delay_total p by (simp add: GameEventSpawn_event)
  have "period_of (event (snd (CheckOneGameEventConditions (en_now env) k m)) k) \<noteq> 0"
    using k p by (simp add: conditions_eq period_of_def)
  then have c: "take_delay env k (u', if all_done (event m k) then SaveWorldEventStateToDB k (set_event k (tested (en_now env) (event m k)) m)
      else set_event k (tested (en_now env) (event m k)) m) \<noteq> None" for u'
    using core_event [OF core_Save] by (intro take_delay_total) (simp add: conditions_eq)
  show ?thesis
  proof (cases b)
    case False
    then show ?thesis using b t s by (simp add: update_event_def del: not_None_eq)
  next
    case True
    then show ?thesis using b t c by (simp add: update_event_def conditions_eq Let_def del: not_None_eq)
  qed
qed

lemma update_events_total:
  assumes "\<forall>k \<in> set is. k < length (gm_event m) \<and> period_of (event m k) \<noteq> 0"
  shows "update_events env is (u, m) \<noteq> None"
  using assms
proof (induction "is" arbitrary: u m)
  case (Cons i "is")
  then have i: "i < length (gm_event m)" "period_of (event m i) \<noteq> 0" by simp_all
  obtain u1 m1 where s: "update_event env i (u, m) = Some (u1, m1)" using update_event_total [OF i, of env u] by auto
  have c: "core m1 = core (set_event i (passed (en_now env) (event m i)) m)" by (rule update_event_core [OF i(1) s])
  have "event m1 k = (if k = i then passed (en_now env) (event m i) else event m k)" for k
    using core_event [OF c, of k] i(1) by simp
  then have "\<forall>k \<in> set is. k < length (gm_event m1) \<and> period_of (event m1 k) \<noteq> 0"
    using Cons.prems coreD(1) [OF c] by (auto simp: period_of_def)
  from Cons.IH [OF this, of u1] s show ?case by (simp del: not_None_eq)
qed simp

lemma activate_events_total:
  assumes "\<forall>k \<in> set is. k < length (gm_event m) \<and> ge_occurence (event m k) \<noteq> 0"
  shows "activate_events env is (d, m) \<noteq> None"
  using assms
proof (induction "is" arbitrary: d m)
  case (Cons i "is")
  then have i: "i < length (gm_event m)" "ge_occurence (event m i) \<noteq> 0" by simp_all
  have "start_event env i False m \<noteq> None" using start_event_total [OF i(1), of env False] i(2) by blast
  then obtain met m1 where s: "start_event env i False m = Some (met, m1)" by auto
  note c = start_event_core(1) [OF i(1) s]
  have "event m1 k = (if k = i then started (en_now env) False (event m i) else event m k)" for k
    using core_event [OF c, of k] i(1) by simp
  then have "\<forall>k \<in> set is. k < length (gm_event m1) \<and> ge_occurence (event m1 k) \<noteq> 0"
    using Cons.prems coreD(1) [OF c] by simp
  from Cons.IH [OF this] s show ?case by (simp del: not_None_eq)
qed simp

lemma Update_total:
  assumes p: "\<forall>k \<in> {1..<length (gm_event m)}. period_of (event m k) \<noteq> 0"
  shows "Update env m \<noteq> None"
proof -
  let ?I = "[1..<length (gm_event m)]"
  have "\<forall>k \<in> set ?I. k < length (gm_event m) \<and> period_of (event m k) \<noteq> 0" using p by simp
  from update_events_total [OF this, of env pass_start] obtain u m1 where s: "update_events env ?I (pass_start, m) = Some (u, m1)" by auto
  have "distinct ?I" "\<forall>k \<in> set ?I. k < length (gm_event m)" by auto
  note c = update_events_core [OF this s]
  have o: "ge_occurence (event m1 k) = ge_occurence (event m k)" for k using c by (auto simp: period_of_def)
  have "set (up_activate u) \<subseteq> {1..<length (gm_event m)}" using update_events_queued [OF s] by simp
  then have "\<forall>k \<in> set (up_activate u). k < length (gm_event m1) \<and> ge_occurence (event m1 k) \<noteq> 0"
    using p c o by (force simp: period_of_def)
  from activate_events_total [OF this, of env "up_delay u"]
  obtain d m2 where "activate_events env (up_activate u) (up_delay u, m1) = Some (d, m2)" by auto
  then show ?thesis using s by (simp add: Update_def)
qed

text \<open>An event whose period is zero stops the pass when its window holds the present.\<close>

lemma update_events_trap:
  assumes "k \<in> set is" "distinct is" "\<forall>i \<in> set is. i < length (gm_event m)"
    and "\<And>m'. event m' k = event m k \<Longrightarrow> CheckOneGameEvent (en_now env) m' k = None"
  shows "update_events env is (u, m) = None"
  using assms
proof (induction "is" arbitrary: u m)
  case (Cons i "is")
  show ?case
  proof (cases "i = k")
    case True
    then show ?thesis using Cons.prems(4) by (simp add: update_event_def)
  next
    case False
    show ?thesis
    proof (cases "update_event env i (u, m)")
      case (Some um)
      obtain u1 m1 where um: "um = (u1, m1)" by (cases um)
      have i: "i < length (gm_event m)" using Cons.prems by simp
      have c: "core m1 = core (set_event i (passed (en_now env) (event m i)) m)"
        by (rule update_event_core [OF i Some [unfolded um]])
      have e: "event m1 k = event m k" using core_event [OF c, of k] False by simp
      have l: "length (gm_event m1) = length (gm_event m)" using coreD(1) [OF c] by simp
      have "update_events env is (u1, m1) = None"
        using Cons.prems False e l by (intro Cons.IH) auto
      then show ?thesis by (simp add: Some um)
    qed simp
  qed
qed simp

lemma Update_trap:
  assumes k: "1 \<le> k" "k < length (gm_event m)" and e: "standard (event m k)" "period_of (event m k) = 0"
    and w: "ge_start (event m k) < en_now env" "en_now env < ge_end (event m k)"
  shows "Update env m = None"
proof -
  have "update_events env [1..<length (gm_event m)] (pass_start, m) = None"
  proof (rule update_events_trap)
    show "CheckOneGameEvent (en_now env) m' k = None" if "event m' k = event m k" for m'
      using e w that by (auto simp: CheckOneGameEvent_def standard_def Let_def)
  qed (use k in auto)
  then show ?thesis by (simp add: Update_def)
qed

section \<open>Quests of two events\<close>

lemma StopEvent_rels:
  obtains m1 where "core m1 = core (RemoveActiveEvent k (override k ov m))" "rels m1 = rels m"
    "rels (StopEvent env k ov m) = rels (UpdateEventQuests k False m1)"
proof (rule that)
  let ?m0 = "RemoveActiveEvent k (override k ov m)"
  let ?m1 = "emit (ChangeEquipOrModel k False) (GameEventSpawn env (- int k)
      (GameEventUnspawn env (int k) (emit (RunSmartAIScripts k False) ?m0)))"
  show "core ?m1 = core ?m0" by (simp add: core_simps)
  show "rels ?m1 = rels m" by (simp add: rels_simps)
  have "rels (UnApplyEvent env k ?m0) = rels (UpdateEventQuests k False ?m1)"
    by (simp add: UnApplyEvent_def Let_def rels_simps)
  moreover have "rels (StopEvent env k ov m) = rels (UnApplyEvent env k ?m0)"
    unfolding StopEvent_def Let_def by (cases ov) (simp_all add: rels_simps)
  ultimately show "rels (StopEvent env k ov m) = rels (UpdateEventQuests k False ?m1)" by simp
qed

lemma creature_relations_removed:
  "gm_creatureRelations (UpdateEventQuests k False m) =
     gm_creatureRelations (fold (creature_quest k False) (gm_creatureQuests m ! k) m)"
  by (simp add: UpdateEventQuests_def Let_def creature_quests_frame)

lemma mset_erase_pair: "mset (erase_pair p qs) = mset qs - {#p#}"
  by (induction p qs rule: erase_pair.induct) auto

lemma creature_quest_frame:
  "gm_active (creature_quest k a p m) = gm_active m" "gm_creatureQuests (creature_quest k a p m) = gm_creatureQuests m"
  by (simp_all add: creature_quest_def)

lemma removed_count:
  "count (mset (gm_creatureRelations m)) p \<le>
     count (mset (gm_creatureRelations (fold (creature_quest k False) ps m))) p + count (mset ps) p"
proof (induction ps arbitrary: m)
  case (Cons x ps)
  have "count (mset (gm_creatureRelations m)) p \<le>
      count (mset (gm_creatureRelations (creature_quest k False x m))) p + (if x = p then 1 else 0)"
    by (auto simp: creature_quest_def mset_erase_pair)
  then show ?case using Cons.IH [of "creature_quest k False x m"] by (cases "x = p") simp_all
qed simp

lemma kept_count:
  assumes "hasCreatureQuestActiveEventExcept (snd p) k m"
  shows "count (mset (gm_creatureRelations (fold (creature_quest k False) ps m))) p = count (mset (gm_creatureRelations m)) p"
  using assms
proof (induction ps arbitrary: m)
  case (Cons x ps)
  have "hasCreatureQuestActiveEventExcept (snd p) k (creature_quest k False x m)"
    using Cons.prems by (simp add: hasCreatureQuestActiveEventExcept_def creature_quest_frame)
  moreover have "count (mset (gm_creatureRelations (creature_quest k False x m))) p = count (mset (gm_creatureRelations m)) p"
    using Cons.prems by (auto simp: creature_quest_def mset_erase_pair)
  ultimately show ?case using Cons.IH by simp
qed simp

section \<open>Managers of the witnesses\<close>

text \<open>A standard event of one hour a day, and a manager of given events.\<close>

definition daily :: GameEventData where
  "daily = new_GameEventData\<lparr>ge_start := 0, ge_end := 10000000, ge_occurence := 1440, ge_length := 60\<rparr>"

definition manager_of :: "GameEventData list \<Rightarrow> GameEventMgr" where
  "manager_of es = new_GameEventMgr\<lparr>gm_event := new_GameEventData # es,
     gm_creatureQuests := replicate (length es + 1) [], gm_gameObjectQuests := replicate (length es + 1) []\<rparr>"

definition sample_env :: "int \<Rightarrow> ge_env" where
  "sample_env now = \<lparr>en_now = now, en_zone = central_europe, en_new_moon = (\<lambda>_. 0), en_announce = False,
     en_creatureData = (\<lambda>_. False), en_gameObjectData = (\<lambda>_. False)\<rparr>"

lemma daily_fields [simp]:
  "ge_start daily = 0" "ge_end daily = 10000000" "standard daily" "period_of daily = 86400" "duration_of daily = 3600"
  "ge_state daily = GAMEEVENT_NORMAL" "ge_occurence daily = 1440" "ge_length daily = 60"
  by (simp_all add: daily_def standard_def period_of_def duration_of_def new_GameEventData_def)

lemma manager_of_fields [simp]:
  "event (manager_of (e # es)) (Suc 0) = e" "length (gm_event (manager_of es)) = Suc (length es)"
  "gm_active (manager_of es) = []"
  by (simp_all add: manager_of_def event_def new_GameEventMgr_def)

lemma sample_now [simp]: "en_now (sample_env t) = t"
  by (simp add: sample_env_def)

lemma one_event_pass:
  assumes "period_of e \<noteq> 0"
  obtains d m' where "Update env (manager_of [e]) = Some (d, m')"
  using Update_total [of "manager_of [e]" env] assms by auto

section \<open>Checks\<close>

text \<open>
  C11: Until the time \<open>NextCheck\<close> gives, the answer of \<open>CheckOneGameEvent\<close> for a standard event
  whose period is not zero does not change, provided the event was not looked at in the very
  second of its start.
\<close>

theorem next_check_sound:
  assumes "standard (event m i)" "period_of (event m i) \<noteq> 0"
    and "NextCheck now m i = Some d" "now \<noteq> ge_start (event m i)"
    and "now \<le> t" "t < now + uint d"
  shows "CheckOneGameEvent t m i = CheckOneGameEvent now m i"
  using next_check_stable [OF assms] assms(1,2) by (simp add: Check_standard)

theorem next_check_sound_witness:
  "NextCheck 1000 (manager_of [daily]) 1 = Some 2600 \<and>
   CheckOneGameEvent 3599 (manager_of [daily]) 1 = CheckOneGameEvent 1000 (manager_of [daily]) 1"
proof -
  have d: "NextCheck 1000 (manager_of [daily]) 1 = Some 2600"
    by (simp add: NextCheck_def smod_nonneg)
  then show ?thesis using next_check_sound [OF _ _ d, of 3599] by simp
qed

text \<open>
  C18: A standard event, not longer than its period and not cut off by its end, that is looked
  at in the second of its start counts as off, and \<open>NextCheck\<close> answers its whole length: then
  the first window, in every later second of which the event is on, is over.
  \<open>CheckOneGameEvent\<close> compares with the start strictly, \<open>NextCheck\<close> does not.
\<close>

theorem event_missed_at_its_start:
  assumes "standard (event m i)" "0 < duration_of (event m i)" "duration_of (event m i) \<le> period_of (event m i)"
    and "ge_start (event m i) + duration_of (event m i) \<le> ge_end (event m i)"
  shows "CheckOneGameEvent (ge_start (event m i)) m i = Some False \<and>
    NextCheck (ge_start (event m i)) m i = Some (word_of_int (duration_of (event m i))) \<and>
    (\<forall>t. ge_start (event m i) < t \<and> t < ge_start (event m i) + duration_of (event m i) \<longrightarrow>
       CheckOneGameEvent t m i = Some True)"
  using start_second [OF assms(1,3,2) refl assms(4)] assms by (simp add: Check_standard)

theorem event_missed_at_its_start_witness:
  "CheckOneGameEvent 0 (manager_of [daily]) 1 = Some False \<and> NextCheck 0 (manager_of [daily]) 1 = Some 3600 \<and>
   CheckOneGameEvent 1 (manager_of [daily]) 1 = Some True"
  using event_missed_at_its_start [of "manager_of [daily]" 1] by simp

section \<open>The pass\<close>

text \<open>
  C4: After a pass of \<open>Update\<close> that ends, an event that was a standard one before it is active
  exactly when the present lies in its window; a world event that was waiting for its
  conditions is active; one in its next phase is active until that phase is over; finished
  and internal events are not. Of a world event that was inactive nothing is said.
\<close>

theorem update_starts_and_stops:
  assumes "Update env m = Some (d, m')" and "1 \<le> k" "k < length (gm_event m)"
  shows "case ge_state (event m k) of
      GAMEEVENT_WORLD_INACTIVE \<Rightarrow> True
    | GAMEEVENT_WORLD_CONDITIONS \<Rightarrow> IsActiveEvent k m'
    | GAMEEVENT_WORLD_NEXTPHASE \<Rightarrow> IsActiveEvent k m' \<longleftrightarrow> en_now env < ge_nextstart (event m k)
    | GAMEEVENT_WORLD_FINISHED \<Rightarrow> \<not> IsActiveEvent k m'
    | GAMEEVENT_INTERNAL \<Rightarrow> \<not> IsActiveEvent k m'
    | _ \<Rightarrow> IsActiveEvent k m' \<longleftrightarrow> in_window (event m k) (en_now env)"
proof -
  obtain B where "own_check (en_now env) (event m k) (k \<in> B)"
    "k \<in> set (gm_active m') \<longleftrightarrow> k \<in> B \<and> \<not> finishing (en_now env) (event m k)"
    by (rule Update_core [OF assms(1)]) (use assms(2,3) in blast)
  then show ?thesis
    by (cases "ge_state (event m k)") (auto simp: own_check_def finishing_def IsActiveEvent_def)
qed

theorem update_starts_and_stops_witness:
  "\<exists>d m'. Update (sample_env 1000) (manager_of [daily]) = Some (d, m') \<and> IsActiveEvent 1 m'"
proof -
  obtain d m' where u: "Update (sample_env 1000) (manager_of [daily]) = Some (d, m')"
    by (rule one_event_pass [of daily]) simp_all
  then show ?thesis using update_starts_and_stops [OF u, of 1] by (auto simp: in_window_def)
qed

text \<open>
  C6: World events go through their phases in order. In a pass of \<open>Update\<close> a world event never
  falls back; it leaves the condition phase only when all its conditions are met, and is
  finished exactly when its next phase is over.
\<close>

theorem world_event_phases:
  assumes "Update env m = Some (d, m')" and "1 \<le> k" "k < length (gm_event m)"
    and "phase (ge_state (event m k)) = Some i"
  shows "\<exists>j. phase (ge_state (event m' k)) = Some j \<and> i \<le> j \<and>
    (i < 2 \<and> 2 \<le> j \<longrightarrow> j = 2 \<and> all_done (event m k)) \<and>
    (i = 2 \<and> j = 3 \<longleftrightarrow> finishing (en_now env) (event m k))"
proof -
  obtain B where B: "own_check (en_now env) (event m k) (k \<in> B)"
    "event m' k = final (en_now env) (k \<in> B) (k \<in> set (gm_active m)) (event m k)"
    by (rule Update_core [OF assms(1)]) (use assms(2,3) in blast)
  show ?thesis using final_phase [OF B(1) assms(4), of "k \<in> set (gm_active m)"] unfolding B(2) by auto
qed

theorem world_event_phases_witness:
  "\<exists>d m' e. ge_state e = GAMEEVENT_WORLD_NEXTPHASE \<and>
     Update (sample_env 1000) (manager_of [e]) = Some (d, m') \<and> phase (ge_state (event m' 1)) = Some 3"
proof -
  define e where "e = daily\<lparr>ge_state := GAMEEVENT_WORLD_NEXTPHASE, ge_nextstart := 900\<rparr>"
  have e: "ge_state e = GAMEEVENT_WORLD_NEXTPHASE" "period_of e \<noteq> 0" "finishing 1000 e"
    by (simp_all add: e_def finishing_def period_of_def)
  obtain d m' where u: "Update (sample_env 1000) (manager_of [e]) = Some (d, m')"
    by (rule one_event_pass [OF e(2)])
  then show ?thesis using world_event_phases [OF u, of 1 2] e by auto
qed

text \<open>
  A pass of \<open>Update\<close> ends with an answer when no event of the table has the period zero.
\<close>

theorem update_returns:
  assumes "\<forall>k \<in> {1..<length (gm_event m)}. period_of (event m k) \<noteq> 0"
  shows "\<exists>d m'. Update env m = Some (d, m')"
  using Update_total [OF assms, of env] by auto

theorem update_returns_witness: "\<exists>d m'. Update (sample_env 5) (manager_of [daily]) = Some (d, m')"
  by (rule update_returns) simp

text \<open>
  \<open>LoadFromDB\<close> takes a row whose \<open>occurence\<close> is zero when its length is not; once the
  present lies between the start and the end of that event, every pass divides by zero.
\<close>

theorem zero_period_traps:
  assumes "unat (er_eventEntry r) = k" "1 \<le> k" "k < length (gm_event m)"
    and "er_occurence r = 0" "er_length r = 60" "er_holiday r = 0" "er_world_event r = 0"
    and "sint (er_start r) < en_now env" "en_now env < sint (er_end r)"
  shows "\<exists>m'. load_event env hs r m = Some m' \<and> isValid (event m' k) \<and> Update env m' = None"
proof -
  define m1 where "m1 = upd_event k (row_data r) m"
  define m2 where "m2 = (if map_of (gm_localSchedule m1) k \<noteq> None
    then m1\<lparr>gm_localSchedule := AList.update k (sint (er_start r)) (gm_localSchedule m1)\<rparr> else m1)"
  have e: "event m2 k = row_data r (event m k)" "length (gm_event m2) = length (gm_event m)"
    using assms(3) by (simp_all add: m2_def m1_def upd_event_def event_def)
  have f: "ge_holiday_id (event m2 k) = 0" "ge_length (event m2 k) = 60" "ge_occurence (event m2 k) = 0"
    "ge_state (event m2 k) = GAMEEVENT_NORMAL" "ge_start (event m2 k) < en_now env" "en_now env < ge_end (event m2 k)"
    using assms(4-9) by (simp_all add: e row_data_def event_state_def)
  have "load_event env hs r m = Some m2"
    unfolding load_event_def Let_def assms(1) m1_def [symmetric] unfolding m2_def [symmetric]
    using f(1,2) assms(2) by simp
  moreover have "isValid (event m2 k)" using f(2) by (simp add: isValid_def)
  moreover have "Update env m2 = None"
    using assms(2,3) f by (intro Update_trap [of k]) (simp_all add: e(2) standard_def period_of_def)
  ultimately show ?thesis by blast
qed

theorem zero_period_traps_witness:
  "\<exists>r m'. er_occurence r = 0 \<and> load_event (sample_env 1000) \<lparr>hs_entries = [], hs_modifiedHolidays = []\<rparr> r (manager_of [daily]) = Some m' \<and>
     Update (sample_env 1000) m' = None"
proof -
  define r where "r = \<lparr>er_eventEntry = 1, er_start = 0, er_end = 5000, er_occurence = 0, er_length = 60, er_holiday = 0,
    er_holidayStage = 0, er_description = [], er_world_event = 0, er_announce = 0\<rparr>"
  show ?thesis
    using zero_period_traps [of r 1 "manager_of [daily]" "sample_env 1000" "\<lparr>hs_entries = [], hs_modifiedHolidays = []\<rparr>"]
    by (intro exI [of _ r]) (auto simp: r_def)
qed

section \<open>Invariants and quests\<close>

text \<open>
  C5: In every state the manager reaches, from what it loads, by start-up, passes, the event
  commands, scripts, completed quests and rescheduling, every active event is an event of the
  table whose quests its creatures and game objects offer, and a world event that is past its
  condition phase has all its conditions met. The last part supposes it of the saved state: what
  is loaded has it for the events that were saved in such a phase (the loader does not check this;
  it is the second conjunct of \<open>ge_start_state\<close>). Not among these steps are the commands
  \<open>.reload creature_queststarter\<close> and \<open>.reload gameobject_queststarter\<close>: they clear the
  relations (\<open>ObjectMgr.cpp:8473\<close>) and with them the quests of the active events.
\<close>

theorem active_events_are_in_force:
  assumes "reach ge_start_state ge_step (hs, m)"
  shows "(\<forall>k \<in> set (gm_active m). k < length (gm_event m) \<and>
      set (gm_creatureQuests m ! k) \<subseteq> set (gm_creatureRelations m) \<and>
      set (gm_gameObjectQuests m ! k) \<subseteq> set (gm_gameObjectRelations m)) \<and>
    (\<forall>e \<in> set (gm_event m). ge_state e = GAMEEVENT_WORLD_NEXTPHASE \<or> ge_state e = GAMEEVENT_WORLD_FINISHED \<longrightarrow>
      (\<forall>c \<in> set (ge_conditions e). \<not> fc_done (snd c) < fc_reqNum (snd c)))"
proof -
  have "manager_ok m" using game_events.reach_inv [OF assms] by simp
  then show ?thesis
    by (auto simp: manager_ok_def events_ok_def quests_offered_def phase_ok_def past_conditions_def all_done_def)
qed

text \<open>A database with one event that is on in the second 1000.\<close>

definition one_row :: event_tables where
  "one_row = \<lparr>et_events = [\<lparr>er_eventEntry = 1, er_start = 0, er_end = 10000000, er_occurence = 1440, er_length = 60,
       er_holiday = 0, er_holidayStage = 0, er_description = [], er_world_event = 0, er_announce = 0\<rparr>],
     et_saves = [], et_prerequisites = [], et_creatures = [], et_gameobjects = [], et_creature_quests = [(7, 70, 1)],
     et_gameobject_quests = [], et_quest_conditions = [], et_conditions = [], et_condition_saves = [],
     et_npcflags = [], et_pools = []\<rparr>"

definition one_event_loaded :: GameEventMgr where
  "one_event_loaded = (Initialize 1 new_GameEventMgr)\<lparr>gm_event := [new_GameEventData, daily],
     gm_creatureQuests := [[], [(7, 70)]]\<rparr>"

lemma one_event_load:
  "load_manager (sample_env 1000) \<lparr>es_max = 1, es_rules = [], es_local = [], es_dates = [], es_tables = one_row, es_pools = (\<lambda>_. False)\<rparr>
     \<lparr>hs_entries = [], hs_modifiedHolidays = []\<rparr> = Some (\<lparr>hs_entries = [], hs_modifiedHolidays = []\<rparr>, one_event_loaded)"
  by code_simp

lemma one_event_start: "ge_start_state (\<lparr>hs_entries = [], hs_modifiedHolidays = []\<rparr>, one_event_loaded)"
proof -
  have "\<forall>e \<in> set (gm_event one_event_loaded). phase_ok e"
    by (simp add: one_event_loaded_def phase_ok_def past_conditions_def new_GameEventData_def)
  then show ?thesis unfolding ge_start_state_def using one_event_load by (intro exI conjI) simp_all
qed

theorem active_events_are_in_force_witness:
  "\<exists>hs m. reach ge_start_state ge_step (hs, m) \<and> 1 \<in> set (gm_active m) \<and>
     set (gm_creatureQuests m ! 1) \<subseteq> set (gm_creatureRelations m)"
proof -
  let ?hs = "\<lparr>hs_entries = [], hs_modifiedHolidays = []\<rparr>"
  have e: "event one_event_loaded 1 = daily" "length (gm_event one_event_loaded) = 2" "gm_active one_event_loaded = []"
    by (simp_all add: one_event_loaded_def event_def Initialize_def new_GameEventMgr_def)
  obtain d m where u: "Update (sample_env 1000) one_event_loaded = Some (d, m)"
    using Update_total [of one_event_loaded "sample_env 1000"] e by (force simp: less_Suc_eq numeral_2_eq_2)
  obtain B :: "nat set" where "own_check 1000 daily (1 \<in> B)" "1 \<in> set (gm_active m) \<longleftrightarrow> 1 \<in> B \<and> \<not> finishing 1000 daily"
  proof (rule Update_core [OF u])
    fix B assume "\<And>k. 1 \<le> k \<Longrightarrow> k < length (gm_event one_event_loaded) \<Longrightarrow>
        own_check (en_now (sample_env 1000)) (event one_event_loaded k) (k \<in> B)"
      "\<And>k. 1 \<le> k \<Longrightarrow> k < length (gm_event one_event_loaded) \<Longrightarrow>
        (k \<in> set (gm_active m) \<longleftrightarrow> k \<in> B \<and> \<not> finishing (en_now (sample_env 1000)) (event one_event_loaded k))"
    from this(1) [of 1] this(2) [of 1] show thesis using e by (intro that [of B]) simp_all
  qed
  then have a: "1 \<in> set (gm_active m)" by (simp add: own_check_def in_window_def finishing_def)
  have "reach ge_start_state ge_step (?hs, one_event_loaded)" by (rule reach_start) (rule one_event_start)
  then have r: "reach ge_start_state ge_step (?hs, m)" by (rule reach_step) (rule ge_update [OF u])
  show ?thesis
    using active_events_are_in_force [OF r] a r by (intro exI [of _ ?hs] exI [of _ m]) auto
qed

text \<open>
  C19: When two events that offer the same quest are started and then stopped in the same
  order, both are off, but the creature that offers the quest for the one that stopped first
  still offers it: that stop leaves the pair because the other event has the quest, be it at
  another creature, and the other stop removes no more than what its own start has added.
\<close>

theorem shared_event_quest_leaks:
  assumes "a \<noteq> b" "a < length (gm_event m)" "b < length (gm_event m)"
    and "p \<in> set (gm_creatureQuests m ! a)" "(g, snd p) \<in> set (gm_creatureQuests m ! b)"
    and "start_event env a False m = Some (r1, m1)" "start_event env b False m1 = Some (r2, m2)"
  shows "gm_active (StopEvent env b False (StopEvent env a False m2)) = removeAll b (removeAll a (gm_active m2)) \<and>
    p \<in> set (gm_creatureRelations (StopEvent env b False (StopEvent env a False m2)))"
proof -
  let ?n = "\<lambda>m. count (mset (gm_creatureRelations m)) p"
  let ?m3 = "StopEvent env a False m2"
  note c1 = start_event_core(1) [OF assms(2,6)]
  have l1: "length (gm_event m1) = length (gm_event m)" "gm_creatureQuests m1 = gm_creatureQuests m"
    using coreD(1,5) [OF c1] by (simp_all add: set_event_def activated_def AddActiveEvent_def override_def)
  have b1: "b < length (gm_event m1)" using assms(3) l1 by simp
  note c2 = start_event_core(1) [OF b1 assms(7)]
  have l2: "length (gm_event m2) = length (gm_event m)" "gm_creatureQuests m2 = gm_creatureQuests m" "b \<in> set (gm_active m2)"
    using coreD(1,2,5) [OF c2] l1 by (simp_all add: set_event_def activated_def AddActiveEvent_def override_def set_insort_insert)
  have "0 < count (mset (gm_creatureQuests m ! a)) p" using assms(4) by simp
  then obtain c where ca: "count (mset (gm_creatureQuests m ! a)) p = Suc c" using gr0_implies_Suc by blast
  let ?b = "count (mset (gm_creatureQuests m ! b)) p"
  have n: "?b < ?n m2"
    using start_event_rels [OF assms(6)] start_event_rels [OF assms(7)] l1(2) ca
    by (simp add: rels_def with_quests_def)
  have a2: "a < length (gm_event m2)" using assms(2) l2 by simp
  note c3 = StopEvent_core [OF a2, of env False]
  have l3: "length (gm_event ?m3) = length (gm_event m)" "gm_creatureQuests ?m3 = gm_creatureQuests m"
    "gm_active ?m3 = removeAll a (gm_active m2)"
    using coreD(1,2,5) [OF c3] l2 by (simp_all add: set_event_def RemoveActiveEvent_def override_def)
  have n3: "?b < ?n ?m3"
  proof -
    obtain x where x: "core x = core (RemoveActiveEvent a (override a False m2))" "rels x = rels m2"
      "rels ?m3 = rels (UpdateEventQuests a False x)" by (rule StopEvent_rels)
    have q: "gm_creatureQuests x = gm_creatureQuests m" "gm_active x = removeAll a (gm_active m2)"
      using coreD(2,5) [OF x(1)] l2(2) by (simp_all add: RemoveActiveEvent_def override_def)
    have "b \<in> set (gm_active x)" using l2(3) assms(1) unfolding q by simp
    moreover have "\<exists>q \<in> set (gm_creatureQuests x ! b). snd q = snd p"
      unfolding q by (rule bexI [OF _ assms(5)]) simp
    ultimately have "hasCreatureQuestActiveEventExcept (snd p) a x"
      unfolding hasCreatureQuestActiveEventExcept_def using assms(1)
      by (intro bexI [of _ b] conjI) simp_all
    from kept_count [OF this] show ?thesis
      using x(2,3) n by (simp add: rels_def creature_relations_removed)
  qed
  have b3: "b < length (gm_event ?m3)" using assms(3) l3 by simp
  note c4 = StopEvent_core [OF b3, of env False]
  have act: "gm_active (StopEvent env b False ?m3) = removeAll b (removeAll a (gm_active m2))"
    using coreD(2) [OF c4] l3(3) by (simp add: set_event_def RemoveActiveEvent_def override_def)
  obtain x where x: "core x = core (RemoveActiveEvent b (override b False ?m3))" "rels x = rels ?m3"
    "rels (StopEvent env b False ?m3) = rels (UpdateEventQuests b False x)" by (rule StopEvent_rels)
  have "gm_creatureQuests x = gm_creatureQuests m"
    using coreD(5) [OF x(1)] l3(2) by (simp add: RemoveActiveEvent_def override_def)
  then have "?n x \<le> ?n (StopEvent env b False ?m3) + ?b"
    using removed_count [of x p b "gm_creatureQuests x ! b"] x(3) by (simp add: rels_def creature_relations_removed)
  moreover have "?n x = ?n ?m3" using x(2) by (simp add: rels_def)
  ultimately have "?n (StopEvent env b False ?m3) \<noteq> 0" using n3 by linarith
  then show ?thesis using act by (metis count_eq_zero_iff set_mset_mset)
qed

definition two_events :: GameEventMgr where
  "two_events = (manager_of [daily, daily])\<lparr>gm_creatureQuests := [[], [(7, 70)], [(8, 70)]]\<rparr>"

theorem shared_event_quest_leaks_witness:
  "\<exists>r1 m1 r2 m2. start_event (sample_env 1000) 1 False two_events = Some (r1, m1) \<and>
     start_event (sample_env 1000) 2 False m1 = Some (r2, m2) \<and>
     (7, 70) \<in> set (gm_creatureRelations (StopEvent (sample_env 1000) 2 False (StopEvent (sample_env 1000) 1 False m2)))"
proof -
  have e: "length (gm_event two_events) = 3" "event two_events 1 = daily" "event two_events 2 = daily"
    "gm_creatureQuests two_events ! 1 = [(7, 70)]" "gm_creatureQuests two_events ! 2 = [(8, 70)]"
    by (simp_all add: two_events_def manager_of_def event_def new_GameEventMgr_def)
  have "start_event (sample_env 1000) 1 False two_events \<noteq> None"
    using start_event_total [of 1 two_events "sample_env 1000" False] e by simp
  then obtain r1 m1 where s1: "start_event (sample_env 1000) 1 False two_events = Some (r1, m1)" by auto
  have "core m1 = core (set_event 1 (started 1000 False daily) (activated 1 False two_events))"
    using start_event_core(1) [OF _ s1] e by simp
  from coreD(1) [OF this] core_event [OF this, of 2] have m1: "length (gm_event m1) = 3" "event m1 2 = daily"
    using e by simp_all
  have "start_event (sample_env 1000) 2 False m1 \<noteq> None"
    using start_event_total [of 2 m1 "sample_env 1000" False] m1 by simp
  then obtain r2 m2 where s2: "start_event (sample_env 1000) 2 False m1 = Some (r2, m2)" by auto
  show ?thesis
    using shared_event_quest_leaks [OF _ _ _ _ _ s1 s2, of "(7, 70)" 8] e s1 s2 by (intro exI conjI) auto
qed

section \<open>Rescheduling\<close>

text \<open>
  Recomputing the schedules changes nothing but the start, length and period of events
  that are neither active nor started or stopped by hand; their phase and conditions stay,
  and so do the set of active events, the spawns and the quests.
\<close>

theorem rescheduling_spares_active_events:
  assumes "RecalculateScheduledEventTimes env (hs, m) = Some (hs', m')" and "k < length (gm_event m)"
  shows "gm_active m' = gm_active m \<and> gm_creatureRelations m' = gm_creatureRelations m \<and> gm_log m' = gm_log m \<and>
    ge_state (event m' k) = ge_state (event m k) \<and> ge_conditions (event m' k) = ge_conditions (event m k) \<and>
    (IsActiveEvent k m \<or> k \<in> set (gm_overridden m) \<longrightarrow> event m' k = event m k)"
proof -
  obtain m1 where m1: "moved m m1" "m' = m1\<lparr>gm_localSchedule := gm_localSchedule m'\<rparr>"
    by (rule Recalculate_moved [OF assms(1)])
  then obtain evs where evs: "m' = m\<lparr>gm_event := evs, gm_localSchedule := gm_localSchedule m'\<rparr>" "length evs = length (gm_event m)"
    "\<forall>k < length evs. ge_state (evs ! k) = ge_state (event m k) \<and> ge_conditions (evs ! k) = ge_conditions (event m k) \<and>
        (\<not> movable m k \<longrightarrow> evs ! k = event m k)" by (auto simp: moved_def)
  have "gm_active m' = gm_active m" "gm_creatureRelations m' = gm_creatureRelations m" "gm_log m' = gm_log m" "gm_event m' = evs"
    by (subst evs(1), simp)+
  then show ?thesis using evs(2,3) assms(2) by (auto simp: movable_def IsActiveEvent_def event_def)
qed

theorem rescheduling_spares_active_events_witness:
  "\<exists>hs' m'. RecalculateScheduledEventTimes (sample_env 1000) (\<lparr>hs_entries = [], hs_modifiedHolidays = []\<rparr>, manager_of [daily]) = Some (hs', m') \<and>
     ge_state (event m' 1) = GAMEEVENT_NORMAL"
proof -
  obtain hs' m' where r: "RecalculateScheduledEventTimes (sample_env 1000) (\<lparr>hs_entries = [], hs_modifiedHolidays = []\<rparr>, manager_of [daily]) = Some (hs', m')"
    by (simp add: RecalculateScheduledEventTimes_def manager_of_def new_GameEventMgr_def)
  show ?thesis using rescheduling_spares_active_events [OF r, of 1] r by (intro exI conjI) auto
qed

end
