(* ===== verification/Holiday_Theorems.thy ===== *)
theory Holiday_Theorems
  imports Holiday_Calendar
begin

text \<open>
  The dates of Holiday_Calendar are the right ones: Easter against the ecclesiastical
  computus, weekday rules against the calendar, anchors against the local clock, packed
  dates against the client's encoding.
\<close>

section \<open>Easter\<close>

text \<open>
  The Gregorian computus after Clavius: golden number, century, solar and lunar correction,
  epact; the paschal full moon is a day number of March, Easter the Sunday after it.
\<close>

definition paschal_full_moon :: "int \<Rightarrow> int" where
  "paschal_full_moon Y =
     (let golden = Y mod 19 + 1;
          century = Y div 100 + 1;
          solar = 3 * century div 4 - 12;
          lunar = (8 * century + 5) div 25 - 5;
          epact = (11 * golden + 20 + lunar - solar) mod 30;
          epact' = (if epact = 25 \<and> golden > 11 \<or> epact = 24 then epact + 1 else epact);
          moon = 44 - epact'
      in sys_days (ymd Y 3 1) + (if moon < 21 then moon + 30 else moon) - 1)"

definition computus :: "int \<Rightarrow> ymd" where
  "computus Y = (let p = paschal_full_moon Y in civil (p + 7 - weekday_of p))"

lemma sdiv_pos: "0 \<le> a \<Longrightarrow> a sdiv numeral n = a div numeral n" for a :: int
  by (cases "a = 0") (auto simp: signed_divide_int_def sgn_if)

lemma smod_pos: "0 \<le> a \<Longrightarrow> a smod numeral n = a mod numeral n" for a :: int
  by (cases "a = 0") (auto simp: signed_modulo_int_def sgn_if)

lemma lunar_correction: "0 \<le> b \<Longrightarrow> (b - (b + 8) div 25 + 1) div 3 = (8 * b + 13) div 25" for b :: int
proof -
  define q r where "q = b div 25" and "r = b mod 25"
  have b: "b = 25 * q + r" "0 \<le> r" "r < 25" by (simp_all add: q_def r_def)
  then have "r \<in> {0, 1, 2, 3, 4, 5, 6, 7, 8, 9, 10, 11, 12, 13, 14, 15, 16, 17, 18, 19, 20, 21, 22, 23, 24}"
    by simp presburger
  then show ?thesis unfolding b(1) by (elim insertE emptyE) simp_all
qed

lemma solar_correction: "3 * (b + 1) div 4 = b - b div 4" for b :: int
proof -
  obtain d e where b: "b = 4 * d + e" "0 \<le> e" "e < 4" "b div 4 = d" using div_rest [of 4 b] by auto
  then have "3 * (b + 1) = 4 * (3 * d + e) + (3 - e)" "0 \<le> 3 - e" "3 - e < 4" by simp_all
  then have "3 * (b + 1) div 4 = 3 * d + e" by (rule int_div_pos_eq)
  then show ?thesis unfolding b(4) using b(1) by simp
qed

lemma mod_7_complement: "(6 - x) mod 7 = 6 - x mod 7" for x :: int
proof -
  obtain q r where x: "x = 7 * q + r" "0 \<le> r" "r < 7" "x mod 7 = r" using div_rest [of 7 x] by auto
  then have "6 - x = 7 * (- q) + (6 - r)" "0 \<le> 6 - r" "6 - r < 7" by simp_all
  then show ?thesis unfolding x(4) by (rule int_mod_pos_eq)
qed

lemma weekday_pred: "weekday_of (z - 1) = (if weekday_of z = 0 then 6 else weekday_of z - 1)"
proof -
  obtain q r where x: "z + 4 = 7 * q + r" "0 \<le> r" "r < 7" "(z + 4) mod 7 = r" using div_rest [of 7 "z + 4"] by auto
  show ?thesis
  proof (cases "r = 0")
    case True
    then have "(z - 1 + 4) mod 7 = 6" using x(1) by (intro int_mod_pos_eq [of _ _ "q - 1"]) simp_all
    then show ?thesis unfolding weekday_of_def x(4) using True by simp
  next
    case False
    then have "(z - 1 + 4) mod 7 = r - 1" using x(1-3) by (intro int_mod_pos_eq [of _ _ q]) simp_all
    then show ?thesis unfolding weekday_of_def x(4) using False by simp
  qed
qed

lemma march_first: "sys_days (ymd Y 3 1) = days_in_years Y - 719468"
  using days_in_years_step [of Y] by (simp add: sys_days_def days_before_month_def)

text \<open>The Sunday the code adds to the paschal full moon, against the weekday of that day.\<close>

lemma days_to_sunday:
  assumes Y: "0 \<le> Y" and h: "0 \<le> h" "h \<le> 29"
  shows "(32 + 2 * (Y div 100 mod 4) + 2 * (Y mod 100 div 4) - h - Y mod 100 mod 4) mod 7 =
    6 - weekday_of (sys_days (ymd Y 3 1) + h + 20)"
proof -
  define b c where "b = Y div 100" and "c = Y mod 100"
  define d e i k where "d = b div 4" and "e = b mod 4" and "i = c div 4" and "k = c mod 4"
  have b: "b = 4 * d + e" and c: "c = 4 * i + k" by (simp_all add: d_def e_def i_def k_def)
  have "Y = 100 * b + c" by (simp add: b_def c_def)
  then have y: "Y = 4 * (25 * b + i) + k" using c by simp
  have "0 \<le> k" "k < 4" by (simp_all add: k_def)
  then have "Y div 4 = 25 * b + i" by (intro int_div_pos_eq [OF y])
  moreover have "Y div 400 = d" unfolding d_def b_def by (simp add: zdiv_zmult2_eq [symmetric])
  moreover have "Y = 100 * b + c" by (simp add: b_def c_def)
  ultimately have "days_in_years Y = 365 * (400 * d + 100 * e + 4 * i + k) + 25 * (4 * d + e) + i - (4 * d + e) + d"
    unfolding days_in_years_def b_def [symmetric] using b c by simp
  then have w: "weekday_of (sys_days (ymd Y 3 1) + h + 20) = (5 * e + 5 * i + k + h + 2) mod 7"
  proof -
    assume "days_in_years Y = 365 * (400 * d + 100 * e + 4 * i + k) + 25 * (4 * d + e) + i - (4 * d + e) + d"
    then have "days_in_years Y - 719468 + h + 20 + 4 =
        (5 * e + 5 * i + k + h + 2) + (20871 * d + 5217 * e + 208 * i + 52 * k - 102778) * 7" by simp
    then show ?thesis unfolding weekday_of_def march_first by (simp only: mod_mult_self1)
  qed
  show ?thesis unfolding w b_def [symmetric] c_def [symmetric] e_def [symmetric] i_def [symmetric] k_def [symmetric]
  proof -
    have "32 + 2 * e + 2 * i - h - k = (6 - (5 * e + 5 * i + k + h + 2)) + (e + i + 4) * 7" by simp
    then show "(32 + 2 * e + 2 * i - h - k) mod 7 = 6 - (5 * e + 5 * i + k + h + 2) mod 7"
      by (simp only: mod_mult_self1 mod_7_complement)
  qed
qed

text \<open>The paschal full moon is March 21 plus the code's offset, except for the two late cases.\<close>

lemma paschal_offset:
  assumes Y: "0 \<le> Y"
  defines "a \<equiv> Y mod 19" and "b \<equiv> Y div 100"
  defines "h \<equiv> (19 * a + b - b div 4 - (b - (b + 8) div 25 + 1) div 3 + 15) mod 30"
  shows "paschal_full_moon Y = sys_days (ymd Y 3 1) + 20 + (if h = 29 \<or> h = 28 \<and> a > 10 then h - 1 else h)"
proof -
  define x where "x = 11 * a + (8 * b + 13) div 25 - b + b div 4"
  have b: "0 \<le> b" using Y by (simp add: b_def pos_imp_zdiv_nonneg_iff)
  have h: "h = (15 - x) mod 30"
  proof -
    have "19 * a + b - b div 4 - (8 * b + 13) div 25 + 15 = (15 - x) + a * 30" by (simp add: x_def)
    then show ?thesis unfolding h_def lunar_correction [OF b] by (simp only: mod_mult_self1)
  qed
  have e: "(11 * (a + 1) + 20 + ((8 * (b + 1) + 5) div 25 - 5) - (3 * (b + 1) div 4 - 12)) mod 30 = (x + 8) mod 30"
  proof -
    have "11 * (a + 1) + 20 + ((8 * (b + 1) + 5) div 25 - 5) - (3 * (b + 1) div 4 - 12) = (x + 8) + 1 * 30"
      unfolding solar_correction by (simp add: x_def distrib_left)
    then show ?thesis by (simp only: mod_mult_self1)
  qed
  define E where "E = (x + 8) mod 30"
  have E: "0 \<le> E" "E < 30" by (simp_all add: E_def)
  have "h = (23 - E) mod 30" unfolding h E_def by (simp add: mod_diff_right_eq)
  then have hE: "h = (if E \<le> 23 then 23 - E else 53 - E)"
    using E int_mod_pos_eq [of "23 - E" 30 0 "23 - E"] int_mod_pos_eq [of "23 - E" 30 "-1" "53 - E"] by auto
  show ?thesis
    unfolding paschal_full_moon_def Let_def a_def [symmetric] b_def [symmetric] e E_def [symmetric]
    using E hE by auto
qed

lemma easter_eq_computus:
  assumes Y: "0 \<le> Y"
  shows "CalculateEasterSunday Y = computus Y"
proof -
  define a b c where "a = Y mod 19" and "b = Y div 100" and "c = Y mod 100"
  define h where "h = (19 * a + b - b div 4 - (b - (b + 8) div 25 + 1) div 3 + 15) mod 30"
  define l where "l = (32 + 2 * (b mod 4) + 2 * (c div 4) - h - c mod 4) mod 7"
  define m where "m = (a + 11 * h + 22 * l) div 451"
  have n: "0 \<le> b" "0 \<le> c" "0 \<le> a" "a < 19" "0 \<le> h" "h < 30" "0 \<le> l" "l < 7"
    unfolding a_def b_def c_def h_def l_def pos_imp_zdiv_nonneg_iff [OF zero_less_numeral]
    by (rule pos_mod_sign pos_mod_bound zero_less_numeral Y)+
  have m: "m = (if l = 6 \<and> (h = 29 \<or> h = 28 \<and> a > 10) then 1 else 0)"
  proof (cases "l = 6 \<and> (h = 29 \<or> h = 28 \<and> a > 10)")
    case True
    then have "451 \<le> a + 11 * h + 22 * l" "a + 11 * h + 22 * l < 902" using n by auto
    then show ?thesis using True int_div_pos_eq [of "a + 11 * h + 22 * l" 451 1 "a + 11 * h + 22 * l - 451"] by (simp add: m_def)
  next
    case False
    then have "a + 11 * h + 22 * l < 451" using n by auto
    then show ?thesis using False n by (simp only: m_def if_False div_pos_pos_trivial add_nonneg_nonneg mult_nonneg_nonneg zero_le_numeral)
  qed
  define z where "z = h + l - 7 * m"
  have z: "0 \<le> z" "z \<le> 34" using n m by (auto simp: z_def)
  have code: "CalculateEasterSunday Y = ymd Y ((z + 114) div 31) ((z + 114) mod 31 + 1)"
  proof -
    have q: "Y smod 19 = a" "Y sdiv 100 = b" "Y smod 100 = c"
      unfolding a_def b_def c_def by (rule sdiv_pos smod_pos Y)+
    have b8: "0 \<le> b + 8" using n(1) by simp
    have r: "b sdiv 4 = b div 4" "b smod 4 = b mod 4" "(b + 8) sdiv 25 = (b + 8) div 25"
      "c sdiv 4 = c div 4" "c smod 4 = c mod 4"
      by (rule sdiv_pos smod_pos n(1) n(2) b8)+
    have "0 \<le> b - (b + 8) div 25 + 1" "0 \<le> 19 * a + b - b div 4 - (b - (b + 8) div 25 + 1) div 3 + 15"
    proof -
      define q r f where "q = (b + 8) div 25" and "r = (b - q + 1) div 3" and "f = b div 4"
      have "25 * q \<le> b + 8" "3 * r \<le> b - q + 1" "4 * f \<le> b"
        using div_rest [of 25 "b + 8"] div_rest [of 3 "b - q + 1"] div_rest [of 4 b]
        unfolding q_def [symmetric] r_def [symmetric] f_def [symmetric] by auto
      moreover have "0 \<le> q" using n(1) by (simp add: q_def pos_imp_zdiv_nonneg_iff)
      ultimately show "0 \<le> b - (b + 8) div 25 + 1" "0 \<le> 19 * a + b - b div 4 - (b - (b + 8) div 25 + 1) div 3 + 15"
        unfolding q_def [symmetric] r_def [symmetric] f_def [symmetric] using n(1,3) by linarith+
    qed
    then have t: "(b - (b + 8) div 25 + 1) sdiv 3 = (b - (b + 8) div 25 + 1) div 3"
      "(19 * a + b - b div 4 - (b - (b + 8) div 25 + 1) div 3 + 15) smod 30 = h"
      unfolding h_def by (simp_all only: sdiv_pos smod_pos)
    have pos: "0 \<le> 32 + 2 * e + 2 * i - h - k" if "0 \<le> e" "0 \<le> i" "k < 4" for e i k using n(6) that by linarith
    have "0 \<le> 32 + 2 * (b mod 4) + 2 * (c div 4) - h - c mod 4"
      by (rule pos) (simp_all add: n pos_imp_zdiv_nonneg_iff)
    then have u: "(32 + 2 * (b mod 4) + 2 * (c div 4) - h - c mod 4) smod 7 = l"
      unfolding l_def by (rule smod_pos)
    have "0 \<le> a + 11 * h + 22 * l" "0 \<le> z + 114" using n z by simp_all
    then have "(a + 11 * h + 22 * l) sdiv 451 = (a + 11 * h + 22 * l) div 451"
      "(z + 114) sdiv 31 = (z + 114) div 31" "(z + 114) smod 31 = (z + 114) mod 31"
      by (simp_all only: sdiv_pos smod_pos)
    then show ?thesis unfolding CalculateEasterSunday_def Let_def q r t u by (simp only: m_def [symmetric] z_def)
  qed
  have "ymd_ok (ymd Y ((z + 114) div 31) ((z + 114) mod 31 + 1)) \<and>
    sys_days (ymd Y ((z + 114) div 31) ((z + 114) mod 31 + 1)) = sys_days (ymd Y 3 1) + 21 + z"
  proof (cases "z < 10")
    case True
    then have "(z + 114) div 31 = 3" "(z + 114) mod 31 = z + 21"
      using z int_div_pos_eq [of "z + 114" 31 3 "z + 21"] int_mod_pos_eq [of "z + 114" 31 3 "z + 21"] by auto
    then show ?thesis using z True by (simp add: ymd_ok_def last_day_def sys_days_def)
  next
    case False
    then have "(z + 114) div 31 = 4" "(z + 114) mod 31 = z - 10"
      using z int_div_pos_eq [of "z + 114" 31 4 "z - 10"] int_mod_pos_eq [of "z + 114" 31 4 "z - 10"] by auto
    then show ?thesis using z False by (simp add: ymd_ok_def last_day_def sys_days_def days_before_month_def)
  qed
  then have easter: "CalculateEasterSunday Y = civil (sys_days (ymd Y 3 1) + 21 + z)"
    unfolding code using civil_sys_days by metis
  have l: "l = 6 - weekday_of (sys_days (ymd Y 3 1) + h + 20)"
    unfolding l_def b_def c_def using days_to_sunday [OF Y n(5)] n(6) by simp
  have moon: "paschal_full_moon Y = sys_days (ymd Y 3 1) + 20 + (if h = 29 \<or> h = 28 \<and> a > 10 then h - 1 else h)"
    unfolding h_def a_def b_def by (rule paschal_offset [OF Y])
  define M where "M = sys_days (ymd Y 3 1) + 20"
  have w: "weekday_of (M + h) = 6 - l" using l by (simp add: M_def add.commute add.left_commute)
  have w': "weekday_of (M + (h - 1)) = (if l = 6 then 6 else 5 - l)"
    using weekday_pred [of "M + h"] w by (simp add: algebra_simps)
  have "M + 1 + z = paschal_full_moon Y + 7 - weekday_of (paschal_full_moon Y)"
    unfolding moon M_def [symmetric] z_def m using w w' by simp
  then have "sys_days (ymd Y 3 1) + 21 + z = paschal_full_moon Y + 7 - weekday_of (paschal_full_moon Y)"
    by (simp add: M_def)
  then show ?thesis unfolding computus_def Let_def easter by (rule arg_cong)
qed

section \<open>Weekday rules\<close>

text \<open>The days of a month that fall on a weekday, in order.\<close>

definition month_weekdays :: "int \<Rightarrow> int \<Rightarrow> int \<Rightarrow> int list" where
  "month_weekdays y m wd = filter (\<lambda>d. weekday_of (sys_days (ymd y m d)) = wd) [1..last_day y m]"

lemma weekday_in_month:
  assumes "0 \<le> wd" "wd \<le> 6" "1 \<le> d"
  shows "weekday_of (sys_days (ymd y m d)) = wd \<longleftrightarrow> d mod 7 = nth_day y m wd 1 mod 7"
proof -
  define f where "f = sys_days (ymd y m 1) + 4"
  have "weekday_of (sys_days (ymd y m d)) = (f + d - 1) mod 7"
    unfolding weekday_of_def f_def sys_days_day [of y m d] by (simp add: algebra_simps)
  moreover have "nth_day y m wd 1 = 1 + (wd - f mod 7) mod 7" by (simp add: nth_day_def weekday_of_def f_def)
  moreover have "(f + d - 1) mod 7 = wd \<longleftrightarrow> d mod 7 = (1 + (wd - f mod 7) mod 7) mod 7"
  proof -
    have "wd = wd mod 7" using assms by simp
    then have "(f + d - 1) mod 7 = wd \<longleftrightarrow> (f + d - 1) mod 7 = wd mod 7" by simp
    also have "\<dots> \<longleftrightarrow> 7 dvd (f + d - 1) - wd" by (simp add: mod_eq_dvd_iff)
    also have "(f + d - 1) - wd = d - (1 + (wd - f))" by simp
    also have "7 dvd \<dots> \<longleftrightarrow> d mod 7 = (1 + (wd - f)) mod 7" by (simp add: mod_eq_dvd_iff)
    also have "(1 + (wd - f)) mod 7 = (1 + (wd - f mod 7) mod 7) mod 7" by (simp add: mod_simps)
    finally show ?thesis .
  qed
  ultimately show ?thesis by simp
qed

lemma last_day_cases: "last_day y m \<in> {28, 29, 30, 31}"
  by (simp add: last_day_def)

lemma nth_day_first: "nth_day y m wd 1 \<in> {1, 2, 3, 4, 5, 6, 7}"
proof -
  define r where "r = (wd - weekday_of (sys_days (ymd y m 1))) mod 7"
  have "0 \<le> r" "r < 7" by (simp_all add: r_def)
  then have "r = 0 \<or> r = 1 \<or> r = 2 \<or> r = 3 \<or> r = 4 \<or> r = 5 \<or> r = 6" by linarith
  then show ?thesis unfolding nth_day_def r_def [symmetric] by auto
qed

lemma upto_31:
  "[1..28] = map int [1..<29]" "[1..29] = map int [1..<30]" "[1..30] = map int [1..<31]" "[1..31] = map int [1..<32]"
  by code_simp+

lemma month_weekdays_eq:
  fixes y m wd :: int
  defines "d \<equiv> nth_day y m wd 1"
  assumes "0 \<le> wd" "wd \<le> 6"
  shows "month_weekdays y m wd = [d, d + 7, d + 14, d + 21] @ (if d + 28 \<le> last_day y m then [d + 28] else [])"
proof -
  have "month_weekdays y m wd = filter (\<lambda>k. k mod 7 = d mod 7) [1..last_day y m]"
    unfolding month_weekdays_def d_def using weekday_in_month [OF assms(2,3)] by (intro filter_cong) auto
  also have "\<dots> = [d, d + 7, d + 14, d + 21] @ (if d + 28 \<le> last_day y m then [d + 28] else [])"
    using last_day_cases [of y m] nth_day_first [of y m wd] unfolding d_def [symmetric]
    by (elim insertE emptyE) (simp_all add: upto_31 upt_rec)
  finally show ?thesis .
qed

lemma NthWeekdayOfMonth_spec:
  assumes "1 \<le> m" "m \<le> 12" "0 \<le> wd" "wd \<le> 6" "1 \<le> n"
  shows "NthWeekdayOfMonth y m wd n =
    (if n \<le> int (length (month_weekdays y m wd)) then ymd y m (month_weekdays y m wd ! nat (n - 1)) else no_ymd)"
proof -
  define d where "d = nth_day y m wd 1"
  have n: "nth_day y m wd n = d + 7 * (n - 1)" by (simp add: nth_day_def d_def)
  note L = month_weekdays_eq [OF assms(3,4), of y m, folded d_def]
  have d: "1 \<le> d" "d \<le> 7" using nth_day_first [of y m wd] by (auto simp: d_def)
  have last: "28 \<le> last_day y m" "last_day y m \<le> 31" using last_day_cases [of y m] by auto
  show ?thesis
  proof (cases "n \<le> 5")
    case True
    then have "n = 1 \<or> n = 2 \<or> n = 3 \<or> n = 4 \<or> n = 5" using assms(5) by linarith
    moreover have "civil (sys_days (ymd y m k)) = ymd y m k" if "1 \<le> k" "k \<le> last_day y m" for k
      using that assms by (intro civil_sys_days) (simp add: ymd_ok_def)
    ultimately show ?thesis
      using d last assms unfolding NthWeekdayOfMonth_def nth_ok_def n L by (elim disjE) (simp_all add: nth_Cons')
  next
    case False
    then show ?thesis unfolding NthWeekdayOfMonth_def nth_ok_def L by simp
  qed
qed

text \<open>The first day on or after a date that falls on a weekday.\<close>

definition weekday_from :: "int \<Rightarrow> int \<Rightarrow> int" where
  "weekday_from wd s = hd (filter (\<lambda>z. weekday_of z = wd) [s..s + 6])"

lemma weekday_add: "weekday_of (s + j) = (weekday_of s + j) mod 7"
  by (simp add: weekday_of_def mod_simps algebra_simps)

lemma weekday_from_eq:
  assumes "0 \<le> wd" "wd \<le> 6"
  shows "weekday_from wd s = s + (wd - weekday_of s) mod 7"
    and "weekday_of (weekday_from wd s) = wd"
proof -
  define w k where "w = weekday_of s" and "k = (wd - w) mod 7"
  have k: "0 \<le> k" "k < 7" by (simp_all add: k_def)
  have "(w + j) mod 7 = wd \<longleftrightarrow> j = k" if "0 \<le> j" "j < 7" for j
  proof -
    have "(w + j) mod 7 = wd \<longleftrightarrow> (w + j) mod 7 = wd mod 7" using assms by simp
    also have "\<dots> \<longleftrightarrow> 7 dvd j - (wd - w)" by (simp add: mod_eq_dvd_iff algebra_simps)
    also have "\<dots> \<longleftrightarrow> j mod 7 = k" by (simp add: k_def mod_eq_dvd_iff)
    finally show ?thesis using that by simp
  qed
  then have P: "weekday_of (s + j) = wd \<longleftrightarrow> j = k" if "0 \<le> j" "j < 7" for j
    using that by (simp add: weekday_add w_def)
  have "weekday_of z = wd \<longleftrightarrow> z = s + k" if "z \<in> set [s..s + 6]" for z
    using P [of "z - s"] that by auto
  then have "filter (\<lambda>z. weekday_of z = wd) [s..s + 6] = filter (\<lambda>z. z = s + k) [s..s + 6]" by (rule filter_cong [OF refl])
  also have "\<dots> = [s + k]"
    using k upto_split3 [of s "s + k" "s + 6"] by (auto simp: filter_empty_conv)
  finally show "weekday_from wd s = s + (wd - weekday_of s) mod 7" "weekday_of (weekday_from wd s) = wd"
    using P [of k] k by (simp_all add: weekday_from_def k_def w_def)
qed

section \<open>Occurrences of a rule\<close>

text \<open>What \<open>LoadHolidayRules\<close> lets through.\<close>

definition rule_ok :: "HolidayRule \<Rightarrow> bool" where
  "rule_ok r \<longleftrightarrow> hr_Type r \<noteq> RuleTypeMax \<and> 1 \<le> hr_Month r \<and> hr_Month r \<le> 12 \<and> 1 \<le> hr_Day r \<and> hr_Day r \<le> 31 \<and>
     0 \<le> hr_Weekday r \<and> hr_Weekday r \<le> 6 \<and> 0 \<le> hr_TimeOfDay r \<and> hr_TimeOfDay r < 1440 \<and>
     (hr_Type r = NthWeekday \<longrightarrow> 1 \<le> hr_Occurrence r \<and> hr_Occurrence r \<le> 5) \<and>
     (hr_Type r = QuarterMonthFirstWeekday \<longrightarrow> 0 \<le> hr_Occurrence r \<and> hr_Occurrence r \<le> 2)"

text \<open>The days a rule names in a year, said with the calendar alone.\<close>

definition rule_days :: "(int \<Rightarrow> rat) \<Rightarrow> HolidayRule \<Rightarrow> int \<Rightarrow> int list" where
  "rule_days nm r Y =
     (let first = (\<lambda>m. hd (month_weekdays Y m (hr_Weekday r)));
          w = month_weekdays Y (hr_Month r) (hr_Weekday r)
      in case hr_Type r of
        FixedDate \<Rightarrow> if hr_Day r \<le> last_day Y (hr_Month r) then [sys_days (ymd Y (hr_Month r) (hr_Day r))] else []
      | NthWeekday \<Rightarrow> if hr_Occurrence r \<le> int (length w)
          then [sys_days (ymd Y (hr_Month r) (w ! nat (hr_Occurrence r - 1)))] else []
      | FirstWeekdayOfMonth \<Rightarrow> [sys_days (ymd Y (hr_Month r) (first (hr_Month r)))]
      | WeekdayOnOrAfterRule \<Rightarrow> [weekday_from (hr_Weekday r) (sys_days (ymd Y (hr_Month r) (hr_Day r)))]
      | EasterOffset \<Rightarrow> [sys_days (computus Y)]
      | LunarNewYear \<Rightarrow> [sys_days (CalculateLunarNewYear nm Y)]
      | QuarterMonthFirstWeekday \<Rightarrow>
          map (\<lambda>m. sys_days (ymd Y m (first m))) (filter (\<lambda>m. m mod 3 = hr_Occurrence r) [1..12])
      | _ \<Rightarrow> [])"

lemma ToLocalTimestamp_eq:
  assumes "ymd_ok d"
  shows "ToLocalTimestamp z d s = wall_instant z (86400 * sys_days d + s)"
proof -
  define t where "t = tm_zero\<lparr>tm_year := y_year d - 1900, tm_mon := y_month d - 1, tm_mday := y_day d,
       tm_hour := s div 3600, tm_min := s mod 3600 div 60, tm_sec := s mod 60\<rparr>"
  have d: "tm_date t = d" by (simp add: t_def tm_date_def)
  have "timegm t = 86400 * sys_days d + (3600 * (s div 3600) + 60 * (s mod 3600 div 60) + s mod 60)"
    using timegm_ok [of t] assms unfolding d by (simp only: simp_thms) (simp only: t_def tm_zero_def tm.simps add.assoc)
  then show ?thesis unfolding ToLocalTimestamp_def mktime_def t_def [symmetric] seconds_split by simp
qed

lemma ToLocalTimestamp_civil [simp]: "ToLocalTimestamp z (civil k) s = wall_instant z (86400 * k + s)"
  by (simp add: ToLocalTimestamp_eq)

lemma easter_ok: "0 \<le> Y \<Longrightarrow> ymd_ok (CalculateEasterSunday Y)"
  by (simp add: easter_eq_computus computus_def Let_def)

lemma probe_range:
  "probe_new_moon nm a b l os = Some d \<Longrightarrow> \<exists>x. a \<le> x \<and> x < b \<and> d = FromJulianDay x"
  by (induction os) (auto simp: Let_def split: if_splits)

text \<open>The Chinese new year lies in its window, whatever the series answers.\<close>

lemma lunar_window:
  "ymd_ok (CalculateLunarNewYear nm Y)"
  "sys_days (ymd Y 1 21) \<le> sys_days (CalculateLunarNewYear nm Y)"
  "sys_days (CalculateLunarNewYear nm Y) \<le> sys_days (ymd Y 2 20)"
proof -
  define d where "d = CalculateLunarNewYear nm Y"
  have feb: "sys_days (ymd Y 2 20) = sys_days (ymd Y 1 1) + 50" "sys_days (ymd Y 2 21) = sys_days (ymd Y 1 1) + 51"
    "sys_days (ymd Y 1 25) = sys_days (ymd Y 1 1) + 24" "sys_days (ymd Y 1 21) = sys_days (ymd Y 1 1) + 20"
    by (simp_all add: sys_days_def days_before_month_def)
  have "ymd_ok d \<and> sys_days (ymd Y 1 21) \<le> sys_days d \<and> sys_days d \<le> sys_days (ymd Y 2 20)"
  proof (cases "probe_new_moon nm (ToJulianDay (sys_days (ymd Y 1 21))) (ToJulianDay (sys_days (ymd Y 2 21)))
      ((Y - 2000) * 123685 div 10000) [-2, -1, 0, 1, 2]")
    case None
    then have "d = ymd Y 1 25" by (simp add: d_def CalculateLunarNewYear_def Let_def)
    then show ?thesis using feb by (simp add: ymd_ok_def last_day_def)
  next
    case (Some e)
    then obtain x where x: "ToJulianDay (sys_days (ymd Y 1 21)) \<le> x" "x < ToJulianDay (sys_days (ymd Y 2 21))"
      "e = FromJulianDay x" using probe_range by blast
    have "d = e" using Some by (simp add: d_def CalculateLunarNewYear_def Let_def)
    then show ?thesis using x feb
      by (simp add: FromJulianDay_def ToJulianDay_def le_floor_iff floor_le_iff le_diff_eq diff_less_eq)
  qed
  then show "ymd_ok (CalculateLunarNewYear nm Y)"
    "sys_days (ymd Y 1 21) \<le> sys_days (CalculateLunarNewYear nm Y)"
    "sys_days (CalculateLunarNewYear nm Y) \<le> sys_days (ymd Y 2 20)"
    by (simp_all add: d_def)
qed

lemma month_weekdays_first:
  assumes "1 \<le> m" "m \<le> 12" "0 \<le> wd" "wd \<le> 6"
  shows "NthWeekdayOfMonth y m wd 1 = ymd y m (hd (month_weekdays y m wd))" "ymd_ok (NthWeekdayOfMonth y m wd 1)"
proof -
  show "NthWeekdayOfMonth y m wd 1 = ymd y m (hd (month_weekdays y m wd))"
    using NthWeekdayOfMonth_spec [OF assms, of 1 y] month_weekdays_eq [OF assms(3,4), of y m] by simp
  show "ymd_ok (NthWeekdayOfMonth y m wd 1)"
    using nth_day_first [of y m wd] last_day_cases [of y m] assms
    unfolding NthWeekdayOfMonth_def nth_ok_def by auto
qed

lemma resolve_rule_eq:
  "resolve_rule z r d = wall_instant z (86400 * (sys_days d + hr_DayOffset r) + 60 * hr_TimeOfDay r)"
  by (simp add: resolve_rule_def)

lemma quarter_months:
  "concat (map (\<lambda>m. if m mod 3 \<noteq> k then [] else [f m]) ms) = map f (filter (\<lambda>m. m mod 3 = k) ms)" for k :: int
  by (induction ms) auto

lemma upto_12: "[1..12] = [1, 2, 3, 4, 5, 6, 7, 8, 9, 10, 11, 12 :: int]"
  by code_simp

lemma GetYearOccurrences_eq:
  assumes r: "rule_ok r" and Y: "0 \<le> Y"
  shows "GetYearOccurrences z nm r Y =
    map (\<lambda>d. wall_instant z (86400 * (d + hr_DayOffset r) + 60 * hr_TimeOfDay r)) (rule_days nm r Y)"
proof -
  have m: "1 \<le> hr_Month r" "hr_Month r \<le> 12" and wd: "0 \<le> hr_Weekday r" "hr_Weekday r \<le> 6"
    using r by (simp_all add: rule_ok_def)
  note F = month_weekdays_first [OF m wd, of Y] and Q = month_weekdays_first [OF _ _ wd, of _ Y]
  show ?thesis
  proof (cases "hr_Type r")
    case FixedDate
    then show ?thesis using r
      by (simp add: GetYearOccurrences_def IsWeekly_def BaseDate_def rule_days_def resolve_rule_eq ymd_ok_def rule_ok_def)
  next
    case NthWeekday
    let ?w = "month_weekdays Y (hr_Month r) (hr_Weekday r)" and ?n = "hr_Occurrence r"
    have n: "1 \<le> ?n" using r NthWeekday by (simp add: rule_ok_def)
    have "ymd_ok (ymd Y (hr_Month r) (?w ! nat (?n - 1)))" if "?n \<le> int (length ?w)"
    proof -
      have "?w ! nat (?n - 1) \<in> set ?w" using n that by (intro nth_mem) linarith
      then show ?thesis using m by (simp add: month_weekdays_def ymd_ok_def)
    qed
    then show ?thesis using NthWeekday NthWeekdayOfMonth_spec [OF m wd n, of Y]
      by (simp add: GetYearOccurrences_def IsWeekly_def BaseDate_def rule_days_def resolve_rule_eq)
  next
    case FirstWeekdayOfMonth
    then show ?thesis using F
      by (simp add: GetYearOccurrences_def IsWeekly_def BaseDate_def rule_days_def resolve_rule_eq)
  next
    case WeekdayOnOrAfterRule
    then show ?thesis using weekday_from_eq(1) [OF wd]
      by (simp add: GetYearOccurrences_def IsWeekly_def BaseDate_def rule_days_def resolve_rule_eq WeekdayOnOrAfter_def Let_def)
  next
    case EasterOffset
    then show ?thesis using easter_ok [OF Y] easter_eq_computus [OF Y]
      by (simp add: GetYearOccurrences_def IsWeekly_def BaseDate_def rule_days_def resolve_rule_eq)
  next
    case LunarNewYear
    then show ?thesis using lunar_window(1) [of nm Y]
      by (simp add: GetYearOccurrences_def IsWeekly_def BaseDate_def rule_days_def resolve_rule_eq)
  next
    case QuarterMonthFirstWeekday
    define f where "f m = resolve_rule z r (ymd Y m (hd (month_weekdays Y m (hr_Weekday r))))" for m
    have "(if m mod 3 \<noteq> hr_Occurrence r then []
        else let b = BaseDate nm r Y m in if ymd_ok b then [resolve_rule z r b] else []) =
      (if m mod 3 \<noteq> hr_Occurrence r then [] else [f m])" if "1 \<le> m" "m \<le> 12" for m
      using Q [OF that] QuarterMonthFirstWeekday by (simp add: BaseDate_def f_def Let_def)
    then have "GetYearOccurrences z nm r Y =
      concat (map (\<lambda>m. if m mod 3 \<noteq> hr_Occurrence r then [] else [f m]) [1..12])"
      using QuarterMonthFirstWeekday unfolding GetYearOccurrences_def upto_12 [symmetric]
      by (auto simp: IsWeekly_def intro!: arg_cong [of _ _ concat] map_cong)
    also have "\<dots> = map f (filter (\<lambda>m. m mod 3 = hr_Occurrence r) [1..12])" by (rule quarter_months)
    also have "\<dots> = map (\<lambda>d. wall_instant z (86400 * (d + hr_DayOffset r) + 60 * hr_TimeOfDay r)) (rule_days nm r Y)"
      using QuarterMonthFirstWeekday by (simp add: rule_days_def f_def resolve_rule_eq)
    finally show ?thesis .
  qed (use r in \<open>simp_all add: GetYearOccurrences_def IsWeekly_def rule_days_def rule_ok_def\<close>)
qed

section \<open>Anchors\<close>

lemma weekday_eq: "weekday_of a = weekday_of b \<longleftrightarrow> 7 dvd a - b"
  by (simp add: weekday_of_def mod_eq_dvd_iff)

lemma weekday_back:
  assumes "0 \<le> wd" "wd \<le> 6"
  shows "weekday_of (s - (weekday_of s - wd) mod 7) = wd"
proof -
  have "weekday_of (s - (weekday_of s - wd) mod 7) = (weekday_of s - (weekday_of s - wd) mod 7) mod 7"
    using weekday_add [of s "- ((weekday_of s - wd) mod 7)"] by simp
  then show ?thesis using assms by (simp add: mod_simps)
qed

lemma LocalDateOf_days: "sys_days (LocalDateOf z t) = wall_clock z t div 86400"
  by (simp add: LocalDateOf_def localtime_def)

lemma day_seconds: "0 \<le> x \<Longrightarrow> x < 86400 \<Longrightarrow> (86400 * d + x) div 86400 = d" for d x :: int
  by (rule int_div_pos_eq) simp_all

lemma seconds_of_day_local: "seconds_of_day (localtime z t) = wall_clock z t mod 86400"
  unfolding seconds_of_day_def localtime_def gmtime_fields by (rule seconds_split)

context time_zone
begin

text \<open>The latest weekly start that has come, among the days up to the current one.\<close>

lemma weekly_anchor:
  fixes t :: int
  assumes w: "0 \<le> hr_Weekday r" "hr_Weekday r \<le> 6" and tod: "0 \<le> hr_TimeOfDay r" "hr_TimeOfDay r < 1440"
    and weekly: "IsWeekly r"
  defines "today \<equiv> wall_clock z t div 86400"
  defines "start \<equiv> \<lambda>d. wall_instant z (86400 * d + 60 * hr_TimeOfDay r)"
  shows "\<exists>d. GetWeeklyAnchor z r t = Some (start d) \<and> weekday_of d = hr_Weekday r \<and> d \<le> today \<and> start d \<le> t \<and>
    (\<forall>e. weekday_of e = hr_Weekday r \<and> d < e \<and> e \<le> today \<longrightarrow> t < start e)"
proof -
  define k where "k = (weekday_of today - hr_Weekday r) mod 7"
  define target where "target = today - k"
  have k: "0 \<le> k" "k < 7" by (simp_all add: k_def)
  have wt: "weekday_of target = hr_Weekday r" unfolding target_def k_def by (rule weekday_back [OF w])
  have wt': "weekday_of (target - 7) = hr_Weekday r" using weekday_eq [of target "target - 7"] wt by simp
  have anchor: "GetWeeklyAnchor z r t = Some (if start target > t then start (target - 7) else start target)"
    using weekly by (simp add: GetWeeklyAnchor_def Let_def LocalDateOf_days start_def target_def k_def today_def)
  have only: "e = target" if "weekday_of e = hr_Weekday r" "target - 7 < e" "e \<le> today" for e
  proof -
    have "7 dvd e - target" using that(1) wt weekday_eq [of e target] by simp
    then obtain j where "e - target = 7 * j" by (rule dvdE)
    moreover have "- 7 < e - target" "e - target < 7" using that(2,3) k by (simp_all add: target_def)
    moreover have "j = 0" if "- 7 < 7 * j" "7 * j < 7" using that by arith
    ultimately show ?thesis by simp
  qed
  have past: "start (target - 7) < t"
    unfolding start_def using k tod
    by (intro earlier_date) (simp add: day_seconds target_def today_def)
  show ?thesis
  proof (cases "start target > t")
    case True
    then show ?thesis using anchor wt' past k only
      by (intro exI [of _ "target - 7"]) (auto simp: target_def)
  next
    case False
    have "e \<noteq> target" if "target < e" for e using that by simp
    then show ?thesis using anchor wt False k only
      by (intro exI [of _ target]) (fastforce simp: target_def)
  qed
qed

lemma retreat_le: "0 < p \<Longrightarrow> retreat p u a \<le> u"
  by (induction p u a rule: retreat.induct) (subst retreat.simps, auto)

text \<open>
  A local schedule keeps its wall clock: an anchor within a day has the phase of the original
  start, as a number of steps back from the reading of the current day; one of whole days
  keeps the time of day and the place in the cycle of days.
\<close>

lemma wall_clock_anchor_days:
  assumes t: "s < t" and n: "0 < n"
  defines "day0 \<equiv> wall_clock z s div 86400" and "today \<equiv> wall_clock z t div 86400"
  defines "start \<equiv> \<lambda>d. wall_instant z (86400 * d + wall_clock z s mod 86400)"
  shows "\<exists>d. GetLocalWallClockAnchor z s (1440 * n) t = Some (start d) \<and> n dvd d - day0 \<and> d \<le> today \<and> start d \<le> t \<and>
    (\<forall>e. n dvd e - day0 \<and> d < e \<and> e \<le> today \<longrightarrow> t < start e)"
proof -
  have "day0 \<le> today" unfolding day0_def today_def using t by (intro dates_grow) simp
  then have el: "(today - day0) sdiv n = (today - day0) div n"
    using n by (cases "today - day0 = 0") (auto simp: signed_divide_int_def sgn_if)
  define a where "a = day0 + n * ((today - day0) div n)"
  obtain r where r: "today - day0 = n * ((today - day0) div n) + r" "0 \<le> r" "r < n" using div_rest [OF n] by blast
  have a: "a \<le> today" "today < a + n" using r by (simp_all add: a_def)
  have anchor: "GetLocalWallClockAnchor z s (1440 * n) t = Some (if start a > t then start (a - n) else start a)"
  proof -
    have q: "(1440 * n div 1440 = n) = True" "(1440 * n mod 1440 = 0) = True" "(1440 * n < 1440) = False"
      "(1440 * n \<le> 0) = False" "(t \<le> s) = False" and n': "1440 * n div 1440 = n" using n t by simp_all
    show ?thesis
      unfolding GetLocalWallClockAnchor_def Let_def LocalDateOf_days ToLocalTimestamp_civil seconds_of_day_local
        day0_def [symmetric] today_def [symmetric] q n' if_False simp_thms if_True el a_def [symmetric] start_def ..
  qed
  have past: "start (a - n) < t"
    unfolding start_def using a n by (intro earlier_date) (simp add: day_seconds today_def)
  have only: "e = a" if "n dvd e - day0" "a - n < e" "e \<le> today" for e
  proof -
    have "n dvd e - a" using that(1) unfolding a_def by (metis diff_diff_add dvd_diff dvd_triv_left)
    then obtain j where "e - a = n * j" by (rule dvdE)
    then have "n * j < n * 1" "n * (-1) < n * j" using that(2,3) a by linarith+
    then have "j < 1" "-1 < j" unfolding mult_less_cancel_left_pos [OF n] .
    then have "j = 0" by linarith
    then show ?thesis using \<open>e - a = n * j\<close> by simp
  qed
  have mult: "n dvd a - day0" "n dvd a - n - day0" by (simp_all add: a_def)
  show ?thesis
  proof (cases "start a > t")
    case True
    then show ?thesis using anchor mult past only a n by (intro exI [of _ "a - n"]) auto
  next
    case False
    then show ?thesis using anchor mult only a n by (intro exI [of _ a]) (auto dest: only)
  qed
qed

text \<open>
  A schedule shorter than a day keeps the phase of the original start within the local
  day: the anchor is a number of steps before a reading of the current day with that phase.
\<close>

lemma retreat_steps: "0 < p \<Longrightarrow> \<exists>j. 0 \<le> j \<and> retreat p u a = a - j * p"
proof (induction p u a rule: retreat.induct)
  case (1 p u a)
  show ?case
  proof (cases "a > u")
    case True
    with 1 obtain j where "0 \<le> j" "retreat p u (a - p) = a - p - j * p" by auto
    then show ?thesis using True 1(2) by (intro exI [of _ "j + 1"]) (simp add: retreat.simps [of p u a] algebra_simps)
  next
    case False
    then show ?thesis by (intro exI [of _ 0]) (simp add: retreat.simps)
  qed
qed

lemma wall_clock_anchor_within:
  assumes t: "s < t" and p: "0 < p" "p < 1440" "1440 mod p = 0"
  defines "today \<equiv> wall_clock z t div 86400"
  shows "\<exists>j \<ge> 0. GetLocalWallClockAnchor z s p t =
      Some (wall_instant z (86400 * today + wall_clock z s mod (60 * p)) - j * (60 * p)) \<and>
    wall_instant z (86400 * today + wall_clock z s mod (60 * p)) - j * (60 * p) \<le> t"
proof -
  have d: "60 * p dvd 86400" using p(3) mult_dvd_mono [of 60 60 p 1440] by (simp add: mod_eq_0_iff_dvd)
  then have "wall_clock z s mod 86400 mod (60 * p) = wall_clock z s mod (60 * p)" by (simp add: mod_mod_cancel)
  then have "GetLocalWallClockAnchor z s p t =
    Some (retreat (60 * p) t (wall_instant z (86400 * today + wall_clock z s mod (60 * p))))"
    using t p unfolding GetLocalWallClockAnchor_def Let_def seconds_of_day_local
    by (simp add: ToLocalTimestamp_eq LocalDateOf_days today_def LocalDateOf_def localtime_def)
  then show ?thesis
    using retreat_steps [of "60 * p" t] retreat_le [of "60 * p" t] p(1) by (metis mult_pos_pos zero_less_numeral)
qed

end

section \<open>Packed dates\<close>

lemma localtime_ok: "tm_ok (localtime z t)"
  by (simp add: localtime_def)

lemma PackDate_eq:
  assumes l: "l = localtime z t" and y: "2000 \<le> tm_year l + 1900" "tm_year l + 1900 \<le> 2031"
  shows "\<exists>w. PackDate z t = Some (Some (GetPackedTime w)) \<and> wt_ok w \<and>
    w = new_WowTime\<lparr>wt_year := tm_year l - 100, wt_month := tm_mon l, wt_monthDay := tm_mday l - 1,
      wt_weekDay := tm_wday l, wt_hour := tm_hour l, wt_minute := tm_min l, wt_flags := 0\<rparr>"
proof -
  have f: "0 \<le> tm_mon l" "tm_mon l < 12" "1 \<le> tm_mday l" "tm_mday l \<le> last_day (tm_year l + 1900) (tm_mon l + 1)"
    "0 \<le> tm_hour l" "tm_hour l < 24" "0 \<le> tm_min l" "tm_min l < 60" "0 \<le> tm_wday l" "tm_wday l < 7"
    using localtime_ok [of z t] unfolding l [symmetric] by (auto simp: tm_ok_def tm_date_def ymd_ok_def)
  moreover have "tm_mday l \<le> 31" using f(4) last_day_cases [of "tm_year l + 1900" "tm_mon l + 1"] by auto
  ultimately show ?thesis using y
    by (simp add: PackDate_def l [symmetric] Let_def HolidayPackedDateMaxYear_def SetYear_def SetMonth_def SetMonthDay_def
        SetWeekDay_def SetHour_def SetMinute_def SetFlags_def wt_ok_def in_range_def new_WowTime_def)
qed

lemma packed_decode:
  assumes l: "l = localtime z t"
  shows "if tm_year l + 1900 < 2000 \<or> tm_year l + 1900 > 2031 then PackDate z t = Some None
    else \<exists>p. PackDate z t = Some (Some p) \<and>
      SetPackedTime p w = w\<lparr>wt_year := (if tm_year l + 1900 = 2031 then -1 else tm_year l - 100), wt_month := tm_mon l,
        wt_monthDay := tm_mday l - 1, wt_weekDay := tm_wday l, wt_hour := tm_hour l, wt_minute := tm_min l, wt_flags := 0\<rparr>"
proof (cases "tm_year l + 1900 < 2000 \<or> tm_year l + 1900 > 2031")
  case True
  then show ?thesis by (simp add: PackDate_def l [symmetric] Let_def HolidayPackedDateMaxYear_def)
next
  case False
  then have y: "2000 \<le> tm_year l + 1900" "tm_year l + 1900 \<le> 2031" by simp_all
  obtain v where v: "PackDate z t = Some (Some (GetPackedTime v))" "wt_ok v"
    "v = new_WowTime\<lparr>wt_year := tm_year l - 100, wt_month := tm_mon l, wt_monthDay := tm_mday l - 1,
      wt_weekDay := tm_wday l, wt_hour := tm_hour l, wt_minute := tm_min l, wt_flags := 0\<rparr>"
    using PackDate_eq [OF l y] by blast
  have "SetPackedTime (GetPackedTime v) w = w\<lparr>wt_year := (if tm_year l + 1900 = 2031 then -1 else tm_year l - 100),
      wt_month := tm_mon l, wt_monthDay := tm_mday l - 1, wt_weekDay := tm_wday l, wt_hour := tm_hour l,
      wt_minute := tm_min l, wt_flags := 0\<rparr>"
    unfolding unpack_pack [OF v(2)] unfolding v(3) by (simp add: unset_at_def new_WowTime_def)
  with v(1) False show ?thesis by simp
qed

end
