(* ===== verification/Schedule_Theorems.thy ===== *)
theory Schedule_Theorems
  imports Holiday_Theorems Game_Event_Schedule
begin

text \<open>
  The properties of holiday dates, of the anchors of scheduled events and of the packed times
  of the client. Those on anchors hold in every zone with the laws of the locale
  \<open>time_zone\<close>; their witnesses are in central Europe.
\<close>

section \<open>Dates\<close>

text \<open>
  C7: \<open>CalculateEasterSunday\<close> gives, for every year from 0 on, the Sunday after the paschal
  full moon of the Gregorian tables, computed from the golden number and the epact.
\<close>

theorem easter_is_computus:
  assumes "0 \<le> Y"
  shows "CalculateEasterSunday Y = computus Y"
  using assms by (rule easter_eq_computus)

theorem easter_is_computus_witness:
  "CalculateEasterSunday 2038 = computus 2038 \<and> CalculateEasterSunday 2038 = ymd 2038 4 25"
  using easter_is_computus [of 2038] by (simp add: CalculateEasterSunday_def sdiv_pos smod_pos)

text \<open>
  The Chinese new year lies between January 21 and February 20 whatever the astronomical
  series answers: the search has a fallback.
\<close>

theorem lunar_new_year_window:
  "ymd_ok (CalculateLunarNewYear nm Y) \<and>
   sys_days (ymd Y 1 21) \<le> sys_days (CalculateLunarNewYear nm Y) \<and>
   sys_days (CalculateLunarNewYear nm Y) \<le> sys_days (ymd Y 2 20)"
  using lunar_window by blast

lemma guard_Some: "((if c then None else x) = Some r) = (\<not> c \<and> x = Some r)"
  by simp

lemma byte_bounds: "\<not> x > n \<Longrightarrow> uint x \<le> uint n" "\<not> x < n \<Longrightarrow> uint n \<le> uint x" for x n :: u8
  by (simp_all add: word_le_def word_less_def)

lemma load_rule_ok:
  assumes "load_rule hs row = Some r"
  shows "rule_ok r"
proof -
  note g = assms [unfolded load_rule_def Let_def guard_Some de_Morgan_disj option.inject]
  let ?ty = "rule_type (rr_ruleType row)"
  have b: "uint (rr_day row) \<le> 31" "uint (rr_weekday row) \<le> 6" "uint (rr_startHour row) \<le> 23" "uint (rr_startMinute row) \<le> 59"
    using g byte_bounds(1) [of 31 "rr_day row"] byte_bounds(1) [of 6 "rr_weekday row"]
      byte_bounds(1) [of 23 "rr_startHour row"] byte_bounds(1) [of 59 "rr_startMinute row"] by simp_all
  have u: "0 \<le> uint x" for x :: u8 by simp
  show ?thesis
  proof (cases ?ty)
    case NthWeekday
    then have "1 \<le> uint (rr_month row)" "uint (rr_month row) \<le> 12" "1 \<le> uint (rr_occurrence row)" "uint (rr_occurrence row) \<le> 5"
      using g byte_bounds(2) [of "rr_month row" 1] byte_bounds(1) [of 12 "rr_month row"]
        byte_bounds(2) [of "rr_occurrence row" 1] byte_bounds(1) [of 5 "rr_occurrence row"] by simp_all
    then show ?thesis using g b u NthWeekday unfolding rule_ok_def by force
  next
    case QuarterMonthFirstWeekday
    then have "uint (rr_occurrence row) \<le> 2" using g byte_bounds(1) [of 2 "rr_occurrence row"] by simp
    then show ?thesis using g b u QuarterMonthFirstWeekday unfolding rule_ok_def by force
  next
    case FixedDate
    then have "1 \<le> uint (rr_month row)" "uint (rr_month row) \<le> 12" "1 \<le> uint (rr_day row)"
      using g byte_bounds(2) [of "rr_month row" 1] byte_bounds(1) [of 12 "rr_month row"] byte_bounds(2) [of "rr_day row" 1] by simp_all
    then show ?thesis using g b u FixedDate unfolding rule_ok_def by force
  next
    case WeekdayOnOrAfterRule
    then have "1 \<le> uint (rr_month row)" "uint (rr_month row) \<le> 12" "1 \<le> uint (rr_day row)"
      using g byte_bounds(2) [of "rr_month row" 1] byte_bounds(1) [of 12 "rr_month row"] byte_bounds(2) [of "rr_day row" 1] by simp_all
    then show ?thesis using g b u WeekdayOnOrAfterRule unfolding rule_ok_def by force
  next
    case FirstWeekdayOfMonth
    then have "1 \<le> uint (rr_month row)" "uint (rr_month row) \<le> 12"
      using g byte_bounds(2) [of "rr_month row" 1] byte_bounds(1) [of 12 "rr_month row"] by simp_all
    then show ?thesis using g b u FirstWeekdayOfMonth unfolding rule_ok_def by force
  qed (use g b u in \<open>force simp: rule_ok_def\<close>)+
qed

text \<open>
  C8: For a rule the loader accepts and the years from 0 on, \<open>GetYearOccurrences\<close> gives the
  local times of the days the rule means: the day of the month, the n-th weekday counted through the whole month, the
  first such weekday from a date on, Easter, the Chinese new year, or the first weekday of
  four months a year, each shifted by the offset of the rule.
\<close>

theorem holiday_occurrences:
  assumes "load_rule hs row = Some r" and "0 \<le> Y"
  shows "GetYearOccurrences z nm r Y =
    map (\<lambda>d. wall_instant z (86400 * (d + hr_DayOffset r) + 60 * hr_TimeOfDay r)) (rule_days nm r Y)"
  using GetYearOccurrences_eq [OF load_rule_ok [OF assms(1)] assms(2)] .

definition thanksgiving :: rule_row where
  "thanksgiving = \<lparr>rr_holiday = 404, rr_ruleType = 1, rr_month = 11, rr_day = 0, rr_weekday = 4, rr_dayOffset = 0,
     rr_startHour = 1, rr_startMinute = 0, rr_occurrence = 4\<rparr>"

definition one_holiday :: holiday_store where
  "one_holiday = \<lparr>hs_entries = [(404, \<lparr>he_ID = 404, he_Duration = [168], he_Date = [0], he_Looping = 0, he_CalendarFilterType = 0\<rparr>)],
     hs_modifiedHolidays = []\<rparr>"

lemma thanksgiving_loads:
  "load_rule one_holiday thanksgiving = Some \<lparr>hr_HolidayId = 404, hr_Type = NthWeekday, hr_Month = 11, hr_Day = 1,
     hr_Weekday = 4, hr_DayOffset = 0, hr_TimeOfDay = 60, hr_Occurrence = 4\<rparr>"
  by code_simp

theorem holiday_occurrences_witness:
  "\<exists>r. load_rule one_holiday thanksgiving = Some r \<and>
     GetYearOccurrences central_europe (\<lambda>_. 0) r 2024 = [wall_instant central_europe (86400 * sys_days (ymd 2024 11 28) + 3600)]"
proof -
  have w: "month_weekdays 2024 11 4 = [7, 14, 21, 28]" by code_simp
  show ?thesis
    using holiday_occurrences [OF thanksgiving_loads, of 2024 central_europe "\<lambda>_. 0"] thanksgiving_loads
    by (simp add: rule_days_def w)
qed

section \<open>Starts of events\<close>

lemma find_append: "find P (xs @ ys) = (case find P xs of None \<Rightarrow> find P ys | Some x \<Rightarrow> Some x)"
  by (induction xs) simp_all

lemma find_concat:
  assumes "find P (concat (map f ys)) = Some t" "sorted ys"
  shows "\<exists>y \<in> set ys. t \<in> set (f y) \<and> P t \<and> (\<forall>y' \<in> set ys. y' < y \<longrightarrow> (\<forall>t' \<in> set (f y'). \<not> P t'))"
  using assms
proof (induction ys)
  case (Cons y ys)
  show ?case
  proof (cases "find P (f y)")
    case None
    then have "find P (concat (map f ys)) = Some t" using Cons.prems(1) by (simp add: find_append)
    with Cons have "\<exists>z \<in> set ys. t \<in> set (f z) \<and> P t \<and> (\<forall>y' \<in> set ys. y' < z \<longrightarrow> (\<forall>t' \<in> set (f y'). \<not> P t'))" by simp
    moreover have "\<forall>t' \<in> set (f y). \<not> P t'" using None by (auto simp: find_None_iff)
    ultimately show ?thesis by auto
  next
    case (Some t')
    then have "t' = t" using Cons.prems(1) by (simp add: find_append)
    then have "t \<in> set (f y) \<and> P t" using Some by (auto simp: find_Some_iff)
    moreover have "\<forall>y' \<in> set (y # ys). \<not> y' < y" using Cons.prems(2) by auto
    ultimately show ?thesis by (intro bexI [of _ y]) auto
  qed
qed simp

lemma find_split:
  "find P (map f xs) = Some t \<Longrightarrow>
     \<exists>pre x post. xs = pre @ x # post \<and> t = f x \<and> P (f x) \<and> (\<forall>y \<in> set pre. \<not> P (f y))"
proof (induction xs)
  case (Cons x xs)
  show ?case
  proof (cases "P (f x)")
    case True
    with Cons.prems show ?thesis by (intro exI [of _ "[]"] exI [of _ x] exI [of _ xs]) simp
  next
    case False
    with Cons obtain pre y post where "xs = pre @ y # post" "t = f y" "P (f y)" "\<forall>y \<in> set pre. \<not> P (f y)"
      by auto
    with False show ?thesis by (intro exI [of _ "x # pre"] exI [of _ y] exI [of _ post]) simp
  qed
qed simp

text \<open>
  C12: The start a rule that is not weekly gives to a holiday event is that of the first
  occurrence, from last year to the year after next, that is not over yet at its length; all
  occurrences before that one are over, and nothing but the start of the event changes. No
  start is given exactly when all occurrences of these years are over. (The present year is
  positive.)
\<close>

theorem holiday_event_start:
  fixes env r so
  defines "start \<equiv> \<lambda>d. wall_instant (en_zone env) (86400 * (d + hr_DayOffset r) + 60 * hr_TimeOfDay r) + so"
    and "days \<equiv> concat (map (rule_days (en_new_moon env) r)
      [current_year env - 1, current_year env, current_year env + 1, current_year env + 2])"
  assumes "load_rule hs row = Some r" and "\<not> IsWeekly r" and "1 \<le> current_year env"
  shows "case SetHolidayEventTimeFromRule env r so e of
      None \<Rightarrow> \<forall>d \<in> set days. start d + 60 * uint (ge_length e) \<le> en_now env
    | Some e' \<Rightarrow> \<exists>before d after. days = before @ d # after \<and> e' = e\<lparr>ge_start := start d\<rparr> \<and>
        en_now env < start d + 60 * uint (ge_length e) \<and>
        (\<forall>c \<in> set before. start c + 60 * uint (ge_length e) \<le> en_now env)"
proof -
  let ?y = "current_year env" and ?w = "so + uint (ge_length e) * 60"
  let ?ys = "[?y - 1, ?y, ?y + 1, ?y + 2]" and ?occ = "GetYearOccurrences (en_zone env) (en_new_moon env) r"
  have occ: "?occ X = map (\<lambda>d. start d - so) (rule_days (en_new_moon env) r X)" if "X \<in> set ?ys" for X
    using GetYearOccurrences_eq [OF load_rule_ok [OF assms(3)], of X] that assms(5) by (auto simp: start_def)
  have "concat (map ?occ ?ys) = map (\<lambda>d. start d - so) days"
    using occ by (simp add: days_def)
  then have f: "first_occurrence env r ?w ?ys = find (\<lambda>t. en_now env < t + ?w) (map (\<lambda>d. start d - so) days)"
    by (simp only: first_occurrence_def)
  have s: "SetHolidayEventTimeFromRule env r so e = map_option (\<lambda>t. e\<lparr>ge_start := t + so\<rparr>) (first_occurrence env r ?w ?ys)"
    unfolding SetHolidayEventTimeFromRule_def Let_def by (simp only: assms(4) if_False)
  show ?thesis
  proof (cases "first_occurrence env r ?w ?ys")
    case None
    then have "\<forall>d \<in> set days. \<not> en_now env < start d - so + ?w" by (simp add: f find_None_iff)
    then show ?thesis unfolding s None by (simp add: algebra_simps not_less)
  next
    case (Some t)
    then obtain before d after where "days = before @ d # after" "t = start d - so"
      "en_now env < start d - so + ?w" "\<forall>c \<in> set before. \<not> en_now env < start c - so + ?w"
      unfolding f by (blast dest: find_split)
    then show ?thesis unfolding s Some option.simps
      by (intro exI [of _ before] exI [of _ d] exI [of _ after]) (simp add: algebra_simps not_less)
  qed
qed

definition november_2023 :: ge_env where
  "november_2023 = \<lparr>en_now = 1700000000, en_zone = central_europe, en_new_moon = (\<lambda>_. 0), en_announce = False,
     en_creatureData = (\<lambda>_. False), en_gameObjectData = (\<lambda>_. False)\<rparr>"

theorem holiday_event_start_witness:
  "\<exists>r e'. load_rule one_holiday thanksgiving = Some r \<and>
     SetHolidayEventTimeFromRule november_2023 r 0 new_GameEventData = Some e' \<and>
     en_now november_2023 < ge_start e'"
proof -
  let ?r = "\<lparr>hr_HolidayId = 404, hr_Type = NthWeekday, hr_Month = 11, hr_Day = 1,
     hr_Weekday = 4, hr_DayOffset = 0, hr_TimeOfDay = 60, hr_Occurrence = 4\<rparr>"
  have s: "SetHolidayEventTimeFromRule november_2023 ?r 0 new_GameEventData = Some (new_GameEventData\<lparr>ge_start := 1700697600\<rparr>)"
    by code_simp
  have y: "1 \<le> current_year november_2023" by code_simp
  have w: "\<not> IsWeekly ?r" by (simp add: IsWeekly_def)
  have "\<exists>x. new_GameEventData\<lparr>ge_start := 1700697600\<rparr> = new_GameEventData\<lparr>ge_start := x\<rparr> \<and>
      en_now november_2023 < x + 60 * uint (ge_length new_GameEventData)"
    using holiday_event_start [OF thanksgiving_loads w y, of 0 new_GameEventData]
    unfolding s option.case by blast
  then have "en_now november_2023 < 1700697600" by (auto simp: new_GameEventData_def)
  then show ?thesis using thanksgiving_loads s by (intro exI [of _ ?r] exI conjI) auto
qed

text \<open>
  For a weekly rule the anchor is the start of the current week: it lies on the weekday
  and time of day of the rule, not after the present, and no later such day up to today has
  its start in the past.
\<close>

theorem weekly_event_anchor:
  assumes "time_zone z" and "load_rule hs row = Some r" "IsWeekly r"
  shows "\<exists>d. GetWeeklyAnchor z r t = Some (wall_instant z (86400 * d + 60 * hr_TimeOfDay r)) \<and>
    weekday_of d = hr_Weekday r \<and> d \<le> wall_clock z t div 86400 \<and>
    wall_instant z (86400 * d + 60 * hr_TimeOfDay r) \<le> t \<and>
    (\<forall>e. weekday_of e = hr_Weekday r \<and> d < e \<and> e \<le> wall_clock z t div 86400 \<longrightarrow>
       t < wall_instant z (86400 * e + 60 * hr_TimeOfDay r))"
  using time_zone.weekly_anchor [OF assms(1) _ _ _ _ assms(3)] load_rule_ok [OF assms(2)]
  by (simp add: rule_ok_def)

definition call_to_arms :: rule_row where
  "call_to_arms = \<lparr>rr_holiday = 404, rr_ruleType = 7, rr_month = 0, rr_day = 0, rr_weekday = 5, rr_dayOffset = 0,
     rr_startHour = 0, rr_startMinute = 1, rr_occurrence = 0\<rparr>"

theorem weekly_event_anchor_witness:
  "\<exists>r d. load_rule one_holiday call_to_arms = Some r \<and> weekday_of d = 5 \<and>
     GetWeeklyAnchor central_europe r 1700000000 = Some (wall_instant central_europe (86400 * d + 60))"
proof -
  have l: "load_rule one_holiday call_to_arms = Some \<lparr>hr_HolidayId = 404, hr_Type = WeeklyWeekday, hr_Month = 1, hr_Day = 1,
     hr_Weekday = 5, hr_DayOffset = 0, hr_TimeOfDay = 1, hr_Occurrence = 0\<rparr>" by code_simp
  then show ?thesis
    using weekly_event_anchor [OF central_europe.time_zone_axioms l, of 1700000000] by (auto simp: IsWeekly_def)
qed

text \<open>
  C13: A local schedule with a period of whole days that has started is anchored at the time of
  day of its first start, on a day a whole number of periods away from it: the last such day
  up to today whose start is not in the future. So changes of summer time do not move it, in
  every zone with the laws of the locale \<open>time_zone\<close>.
\<close>

theorem local_schedule_anchor:
  assumes "time_zone z" and "s < t" "0 < n"
  shows "\<exists>d. GetLocalWallClockAnchor z s (1440 * n) t = Some (wall_instant z (86400 * d + wall_clock z s mod 86400)) \<and>
    n dvd d - wall_clock z s div 86400 \<and> d \<le> wall_clock z t div 86400 \<and>
    wall_instant z (86400 * d + wall_clock z s mod 86400) \<le> t \<and>
    (\<forall>e. n dvd e - wall_clock z s div 86400 \<and> d < e \<and> e \<le> wall_clock z t div 86400 \<longrightarrow>
       t < wall_instant z (86400 * e + wall_clock z s mod 86400))"
  using time_zone.wall_clock_anchor_days [OF assms] by simp

theorem local_schedule_anchor_witness:
  "\<exists>d. GetLocalWallClockAnchor central_europe 1700000000 10080 1720000000 =
      Some (wall_instant central_europe (86400 * d + wall_clock central_europe 1700000000 mod 86400)) \<and>
    7 dvd d - wall_clock central_europe 1700000000 div 86400"
  using local_schedule_anchor [OF central_europe.time_zone_axioms, of 1700000000 1720000000 7] by auto

section \<open>Packed times\<close>

text \<open>
  The date \<open>PackDate\<close> writes into a slot of the client data is read back field by field,
  for the years it accepts, except in the last of them: the year 2031 has the bits of the
  marker for every year and reads back as unset.
\<close>

theorem packed_date_decodes:
  "let l = localtime z t; Y = tm_year l + 1900 in
   if Y < 2000 \<or> HolidayPackedDateMaxYear < Y then PackDate z t = Some None
   else \<exists>p. PackDate z t = Some (Some p) \<and> single_date p = (Y = 2031) \<and>
      SetPackedTime p w = w\<lparr>wt_year := (if Y = 2031 then -1 else Y - 2000), wt_month := tm_mon l,
        wt_monthDay := tm_mday l - 1, wt_weekDay := tm_wday l, wt_hour := tm_hour l, wt_minute := tm_min l, wt_flags := 0\<rparr>"
proof -
  define l where "l = localtime z t"
  have single: "single_date p \<longleftrightarrow> wt_year (SetPackedTime p w) = -1" for p
  proof -
    have "single_date p \<longleftrightarrow> uint (packed_year p) = 31" by (simp add: single_date_def word_uint_eq_iff)
    moreover have "uint (packed_year p) \<noteq> -1" using uint_ge_0 [of "packed_year p"] by linarith
    ultimately show ?thesis by (simp add: SetPackedTime_def unset_at_def packed_year_def)
  qed
  show ?thesis
    using packed_decode [OF l_def, of w] unfolding l_def [symmetric] Let_def HolidayPackedDateMaxYear_def
    by (auto simp: single)
qed

text \<open>
  C21: For times with all their fields set to a date that exists, its weekday included, the
  comparison of \<open>WowTime\<close>, field by field with the weekday among them, is the comparison of
  the moments they stand for.
\<close>

theorem wow_times_chronological:
  assumes "Wow_Time.complete l" "Wow_Time.complete r"
  shows "compare_times l r = compare (GetUnixTimeFromUtcTime l) (GetUnixTimeFromUtcTime r)"
  using assms by (rule compare_complete)

theorem wow_times_chronological_witness:
  "time_less (SetUtcTimeFromUnixTime 1700000000 new_WowTime) (SetUtcTimeFromUnixTime 1700000060 new_WowTime)"
proof -
  have c: "Wow_Time.complete (SetUtcTimeFromUnixTime 1700000000 new_WowTime)" "Wow_Time.complete (SetUtcTimeFromUnixTime 1700000060 new_WowTime)"
    by code_simp+
  have "GetUnixTimeFromUtcTime (SetUtcTimeFromUnixTime 1700000000 new_WowTime) = 1699999980"
    "GetUnixTimeFromUtcTime (SetUtcTimeFromUnixTime 1700000060 new_WowTime) = 1700000040" by code_simp+
  then show ?thesis
    using wow_times_chronological [OF c] by (simp add: time_less_def compare_def)
qed

text \<open>
  A \<open>WowTime\<close> whose setters kept its fields in range survives being packed, except that
  the year 31 comes back as unset, and a complete one survives the way over Unix time.
\<close>

theorem wow_time_roundtrip:
  assumes "wt_ok w"
  shows "SetPackedTime (GetPackedTime w) v = w\<lparr>wt_year := (if wt_year w = 31 then -1 else wt_year w),
      wt_holidayOffset := wt_holidayOffset v\<rparr> \<and>
    (Wow_Time.complete w \<longrightarrow> SetUtcTimeFromUnixTime (GetUnixTimeFromUtcTime w) w = w)"
  using unpack_pack [OF assms, of v] SetUtc_unix by (simp add: unset_at_def)

theorem wow_time_roundtrip_witness:
  "\<exists>w. Wow_Time.complete w \<and> SetPackedTime (GetPackedTime w) new_WowTime = w"
proof -
  let ?w = "new_WowTime\<lparr>wt_year := 24, wt_month := 1, wt_monthDay := 28, wt_weekDay := 4, wt_hour := 12, wt_minute := 30, wt_flags := 0\<rparr>"
  have "wt_ok ?w" "Wow_Time.complete ?w" by code_simp+
  then show ?thesis
    using wow_time_roundtrip [of ?w new_WowTime] by (intro exI [of _ ?w]) (simp add: new_WowTime_def)
qed

end
