(* ===== verification/Spec2Isabelle.thy ===== *)
theory Spec2Isabelle
  imports Base_Encoding Event_Map RBAC Combat_Theorems Byte_Buffer_Codec Object_Guid Unicode_Theorems Channel_System
    Game_Event_Theorems Schedule_Theorems
begin

text \<open>
  A verification of core parts of the EG-Source game server (a fork of TrinityCore, C++): the
  root theory, which only joins the others. Each theory opens with what it holds.

  The program. A world server (\<open>src/server/worldserver\<close>) runs sessions of players, who send
  packets (\<open>src/server/game/Handlers\<close>) that act on players, creatures and shared objects such as
  chat channels (\<open>src/server/game\<close>), on top of databases (\<open>src/server/database\<close>), packet buffers
  and client data (\<open>src/server/shared\<close>) and common utilities (\<open>src/common\<close>). Seven groups of theories
  model the parts that keep state of their own or that the others rest on.

  Text and binary foundations (\<open>src/common\<close>, \<open>src/server/shared\<close>, \<open>src/dep/utf8cpp\<close>).
  \<open>Base_Encoding\<close> is the base-2^n coder of Encoding/BaseEncoding.h with the alphabets of Base32
  and Base64 (locale \<open>base_alphabet\<close>): round trips, and that no assertion fails. \<open>Utf8_Codec\<close>,
  \<open>Unicode_Text\<close> and \<open>Unicode_Theorems\<close> are the UTF-8 library, the conversions of Util.cpp and the
  checks of player names in ObjectMgr.cpp: exactly the well-formed texts are accepted,
  conversions are inverse, a normalised name is canonical. \<open>Byte_Buffer\<close> is ByteBuffer with its
  exceptions as values, and \<open>Byte_Buffer_Codec\<close> shows it is a queue whose operators are codecs
  (locale \<open>codec\<close>, interpreted for every type a packet holds), so any packet reads back as
  written. \<open>Object_Guid\<close> is ObjectGuid and its generators.

  Scripted events. \<open>Event_Map\<close> is EventMap of src/common/Utilities: a time-sorted multimap with
  phases and groups, its invariant, and what each operation does to the events and times.

  Accounts. \<open>RBAC\<close> is the permission table of AccountMgr and RBACData: the expansion of linked
  permissions computes reachability, also over cycles, and an account holds exactly the
  permissions granted and not denied.

  Combat (\<open>src/server/game/Combat\<close>). \<open>World_State\<close> holds the units, the references and the pending
  decisions; \<open>Float32\<close> the arithmetic of threat values; \<open>Combat_Manager\<close>, \<open>Threat_List\<close> and
  \<open>Threat_Manager\<close> the operations. \<open>Combat_Links\<close> and \<open>Threat_Links\<close> state the invariants of the
  shared references, \<open>Combat_Ops\<close> and \<open>Combat_System\<close> prove them for every operation, and
  \<open>Combat_Theorems\<close> draws the conclusions for all reachable states: threat implies combat, a
  reference lies with exactly its two units, no assertion fails, the victim is chosen by the
  110 and 130 percent rule. Two assumptions are drawn where the code ends. The \<open>IN_COMBAT\<close>
  flag of a unit is also written by scripts, commands and \<open>ReplaceAllUnitFlags\<close> (World_State
  names the places), which the field \<open>u_flagWritten\<close> records: the statements on the flag are for
  units where this has not happened, all others for every unit. Of the Fibonacci heap of
  boost is only assumed that its ordered iteration yields every element once; that it is in
  the order of the keys, which boost promises if all notifications were right, is a
  hypothesis (\<open>heap_in_order\<close>) of the one statement that needs it, because
  \<open>UpdateMyTempModifiers\<close> can notify wrongly.

  Chat channels (\<open>src/server/game/Chat/Channels\<close>, ChannelHandler.cpp, ChannelPackets.cpp,
  Player.cpp). \<open>Channel_Packets\<close> holds the notices and packets over the buffer model, \<open>Channel\<close> and
  \<open>Channel_Ops\<close> one channel with every operation, \<open>Channel_Invariant\<close> and \<open>Channel_Membership\<close> what
  the operations keep, \<open>Channel_Theorems\<close> the properties of a channel. \<open>Channel_Mgr\<close> and
  \<open>Channel_Handlers\<close> put channels on a heap, to which the maps of the two managers and the lists
  of the players point; \<open>Channel_Sys_Invariant\<close>, \<open>Channel_Sys_Steps\<close> and \<open>Channel_System\<close> show
  that no handler follows a dangling pointer and that the lists agree with the channels.

  Game events and holidays (\<open>src/server/game/Events\<close>, Custom/HolidayCalendar.cpp and
  CustomFunctions.cpp, Time/WowTime.cpp). \<open>Calendar_Time\<close> is the calendar and the time zone
  (locale \<open>time_zone\<close>, interpreted for central Europe), \<open>Wow_Time\<close> the packed times of the
  client, \<open>Holiday_Calendar\<close> the rules of holidays with Easter, weekly and local anchors;
  \<open>Holiday_Theorems\<close> and \<open>Schedule_Theorems\<close> show what days and starts they give.
  \<open>Game_Events\<close> is GameEventMgr with its passes, phases, spawns and quests,
  \<open>Game_Event_Schedule\<close> the recomputing of starts, \<open>Game_Event_Load\<close> the loading;
  \<open>Game_Event_Checks\<close>, \<open>Game_Event_Core\<close> and \<open>Game_Event_Invariant\<close> prove what a pass does to the
  active events and what every operation keeps, \<open>Game_Event_Machine\<close> is the machine of all of
  them with the event commands and scripts, \<open>Game_Event_Theorems\<close> states the properties.

  How the code is translated. Structures are records and enumerations datatypes or named
  constants; integers that may wrap are words of their width; strings are lists of bytes. A
  method that changes its object is a function to the new state, with what it sends, logs or
  writes to the database as a list of effects; an exception, a failed assertion, a use of
  freed memory or an early return is a value. What other parts answer (who is connected, the
  configuration, the time, rows of tables) is a record or an argument. \<open>std::map\<close> and
  \<open>std::multimap\<close> are sorted lists, hash maps association lists in their iteration order
  (theory \<open>Prelude\<close>). Components with a state are machines whose steps are their operations, and
  their invariants are interpretations of the locale \<open>invariant_system\<close>.

  Loops and bounds. Loops over a container are structural. The loops of the base coder are
  \<open>partial_function\<close> and those of EndAllCombat and of clearing threat lists \<open>while_option\<close>, each
  shown to end; a pass over the game events and the search for an anchor are \<open>None\<close> where the
  code would divide by zero or not end, and \<open>update_returns\<close> and the statements on anchors say
  when they are not; the recursion of AddThreat over vehicles and owners has a depth as argument,
  and \<open>add_threat_terminates\<close> states which depth is enough; ReadCString has the unread bytes as
  fuel and stops at the end of the buffer at the latest; CleanupChannels ends because leaving
  a channel puts nothing on the list. Times of EventMap are unbounded integers, so overflow
  of the 64-bit clock is not considered. Floating point threat is exact arithmetic followed by
  the rounding of \<open>Float32\<close>.

  Not modelled. Spells, auras, movement, maps, artificial intelligence and the content scripts,
  the database and network layers, the login server, and the vendored libraries other than
  the UTF-8 one; the parts of the modelled files that only log; iterators and destructors
  that only assert. Of game events: the tables of models, equipment, vendors, seasonal quests
  and battlegrounds, whose changes are entries of a log, pools, the commands that reload the
  quest starters, and the astronomical series behind the new moons, which is a parameter. Threads are not modelled: the operations above run under the locks or on
  the thread of the map they belong to.
\<close>

end
